(* ===== verification/Base.thy ===== *)
theory Base
  imports Main "HOL-Library.Word"
begin

text \<open>
  The prelude: the machine types the firmware uses, the array scans that its C loops perform
  (first slot that satisfies a test, first slot of greatest age), the unsigned 32-bit arithmetic
  of its offsets and clocks, and the lemmas on them that the components share.

  A C array is a list; the bound of a loop over it is the length of the list, which the
  well-formedness predicate of each component fixes to the size the source declares.
\<close>

type_synonym u8 = "8 word"
type_synonym u16 = "16 word"
type_synonym u32 = "32 word"

subsection \<open>Scanning an array\<close>

text \<open>The loop \<open>for (i = 0; i < N; ++i) if (P(a[i])) return i; return -1;\<close>.\<close>

fun find_index :: "('a \<Rightarrow> bool) \<Rightarrow> 'a list \<Rightarrow> nat option" where
  "find_index P [] = None"
| "find_index P (x # xs) = (if P x then Some 0 else map_option Suc (find_index P xs))"

lemma find_index_SomeD:
  "find_index P xs = Some i \<Longrightarrow> i < length xs \<and> P (xs ! i) \<and> (\<forall>j<i. \<not> P (xs ! j))"
proof (induction xs arbitrary: i)
  case Nil
  then show ?case by simp
next
  case (Cons x xs)
  show ?case
  proof (cases "P x")
    case True
    with Cons.prems show ?thesis by simp
  next
    case False
    with Cons.prems obtain j where j: "find_index P xs = Some j" "i = Suc j" by auto
    with Cons.IH[OF j(1)] False show ?thesis by (auto simp: less_Suc_eq_0_disj)
  qed
qed

lemma find_index_less [dest]: "find_index P xs = Some i \<Longrightarrow> i < length xs"
  by (simp add: find_index_SomeD)

lemma find_index_sat [dest]: "find_index P xs = Some i \<Longrightarrow> P (xs ! i)"
  by (simp add: find_index_SomeD)

lemma find_index_None_iff: "find_index P xs = None \<longleftrightarrow> (\<forall>x\<in>set xs. \<not> P x)"
  by (induction xs) auto

lemma find_index_eqI:
  "i < length xs \<Longrightarrow> P (xs ! i) \<Longrightarrow> (\<And>j. j < i \<Longrightarrow> \<not> P (xs ! j)) \<Longrightarrow> find_index P xs = Some i"
proof (induction xs arbitrary: i)
  case Nil
  then show ?case by simp
next
  case (Cons x xs)
  show ?case
  proof (cases i)
    case 0
    with Cons.prems show ?thesis by simp
  next
    case (Suc k)
    with Cons.prems have "\<not> P x" by force
    moreover have "find_index P xs = Some k"
      using Cons.prems Suc by (intro Cons.IH) force+
    ultimately show ?thesis using Suc by simp
  qed
qed

lemma find_index_cong:
  "(\<And>x. x \<in> set xs \<Longrightarrow> P x = Q x) \<Longrightarrow> find_index P xs = find_index Q xs"
  by (induction xs) auto

subsection \<open>Counting the slots that satisfy a test\<close>

definition count_if :: "('a \<Rightarrow> bool) \<Rightarrow> 'a list \<Rightarrow> nat" where
  "count_if P xs = length (filter P xs)"

lemma count_if_simps [simp]:
  "count_if P [] = 0"
  "count_if P (x # xs) = (if P x then Suc (count_if P xs) else count_if P xs)"
  "count_if P (xs @ ys) = count_if P xs + count_if P ys"
  by (simp_all add: count_if_def)

lemma count_if_le_length: "count_if P xs \<le> length xs"
  by (simp add: count_if_def)

lemma count_if_update:
  "i < length xs \<Longrightarrow>
   count_if P (xs[i := y]) + (if P (xs ! i) then 1 else 0) = count_if P xs + (if P y then 1 else 0)"
proof (induction xs arbitrary: i)
  case Nil
  then show ?case by simp
next
  case (Cons x xs)
  then show ?case by (cases i) (auto split: if_splits)
qed

lemma count_if_eq_0_iff: "count_if P xs = 0 \<longleftrightarrow> (\<forall>x\<in>set xs. \<not> P x)"
  by (simp add: count_if_def filter_empty_conv)

lemma count_if_map: "count_if P (map f xs) = count_if (P \<circ> f) xs"
  by (simp add: count_if_def filter_map)

lemma count_if_mono: "(\<And>x. x \<in> set xs \<Longrightarrow> P x \<Longrightarrow> Q x) \<Longrightarrow> count_if P xs \<le> count_if Q xs"
  by (induction xs) (auto intro: le_SucI)

lemma count_if_cong: "(\<And>x. x \<in> set xs \<Longrightarrow> P x = Q x) \<Longrightarrow> count_if P xs = count_if Q xs"
  by (induction xs) auto

subsection \<open>Unsigned 32-bit arithmetic on offsets and sizes\<close>

text \<open>
  Offsets, sizes and counters of type \<open>uint32_t\<close> are natural numbers, and every addition and
  subtraction of the source is written with its wrap-around.
\<close>

definition add32 :: "nat \<Rightarrow> nat \<Rightarrow> nat" where
  "add32 a b = (a + b) mod 2 ^ 32"

definition sub32 :: "nat \<Rightarrow> nat \<Rightarrow> nat" where
  "sub32 a b = (a + (2 ^ 32 - b mod 2 ^ 32)) mod 2 ^ 32"

definition mul32 :: "nat \<Rightarrow> nat \<Rightarrow> nat" where
  "mul32 a b = (a * b) mod 2 ^ 32"

lemma add32_id: "a + b < 2 ^ 32 \<Longrightarrow> add32 a b = a + b"
  by (simp add: add32_def)

lemma sub32_id: "b \<le> a \<Longrightarrow> a < 2 ^ 32 \<Longrightarrow> sub32 a b = a - b"
proof -
  assume ba: "b \<le> a" "a < 2 ^ 32"
  then have "a + (2 ^ 32 - b mod 2 ^ 32) = (a - b) + 2 ^ 32" by simp
  then have "sub32 a b = (a - b) mod 2 ^ 32" unfolding sub32_def by (simp only: mod_add_self2)
  with ba show ?thesis by simp
qed

lemma mul32_id: "a * b < 2 ^ 32 \<Longrightarrow> mul32 a b = a * b"
  by (simp add: mul32_def)

lemma add32_less: "add32 a b < 2 ^ 32" and sub32_less: "sub32 a b < 2 ^ 32"
  and mul32_less: "mul32 a b < 2 ^ 32"
  by (simp_all add: add32_def sub32_def mul32_def)

lemmas arith32 = add32_id sub32_id mul32_id

subsection \<open>The age of a time stamp\<close>

text \<open>
  The expression \<open>(now_ms >= ts) ? (now_ms - ts) : 0\<close> of the measurement store, the BLE scanner
  and the 1-Wire source.
\<close>

definition age_ms :: "u32 \<Rightarrow> u32 \<Rightarrow> u32" where
  "age_ms now ts = (if ts \<le> now then now - ts else 0)"

lemma age_ms_self [simp]: "age_ms t t = 0"
  by (simp add: age_ms_def)

lemma unat_age_ms: "unat (age_ms now ts) = unat now - unat ts"
  by (simp add: age_ms_def unat_sub word_le_nat_alt)

text \<open>The wrap-safe test \<open>(int32_t)(now_ms - target_ms) >= 0\<close> of the pollers.\<close>

definition time_due :: "u32 \<Rightarrow> u32 \<Rightarrow> bool" where
  "time_due now target = (0 \<le> sint (now - target))"

lemma time_due_self [simp]: "time_due t t"
  by (simp add: time_due_def)

lemma due_soon: "0 < uint i \<Longrightarrow> uint i < 2 ^ 31 \<Longrightarrow> \<not> time_due now (now + i)"
proof -
  assume n: "0 < uint i" "uint i < 2 ^ 31"
  have "now - (now + i) = word_of_int (- uint i)" by simp
  then have "sint (now - (now + i)) = (- uint i + 2 ^ 31) mod 2 ^ 32 - 2 ^ 31" by (simp only: int_word_sint) simp
  also have "\<dots> = - uint i" using n by simp
  finally show ?thesis using n by (simp add: time_due_def)
qed

text \<open>
  The scan for the greatest age among the slots that satisfy a test: the first of them wins a tie.
  \<open>best\<close> is the slot found so far with its age, \<open>i\<close> the position of the head of the list.
\<close>

fun scan_oldest :: "('a \<Rightarrow> bool) \<Rightarrow> ('a \<Rightarrow> u32) \<Rightarrow> nat \<Rightarrow> (nat \<times> u32) option \<Rightarrow> 'a list \<Rightarrow> nat option" where
  "scan_oldest P age i best [] = map_option fst best"
| "scan_oldest P age i best (x # xs) =
     scan_oldest P age (Suc i)
       (if P x \<and> (case best of None \<Rightarrow> True | Some (_, a) \<Rightarrow> a < age x) then Some (i, age x) else best) xs"

lemma scan_oldest_spec:
  assumes "case best of None \<Rightarrow> \<forall>x\<in>set done_part. \<not> P x
    | Some (j, a) \<Rightarrow> j < length done_part \<and> P (done_part ! j) \<and> a = age (done_part ! j) \<and>
        (\<forall>x\<in>set done_part. P x \<longrightarrow> age x \<le> a)"
  shows "case scan_oldest P age (length done_part) best xs of
      None \<Rightarrow> \<forall>x\<in>set (done_part @ xs). \<not> P x
    | Some j \<Rightarrow> j < length (done_part @ xs) \<and> P ((done_part @ xs) ! j) \<and>
        (\<forall>x\<in>set (done_part @ xs). P x \<longrightarrow> age x \<le> age ((done_part @ xs) ! j))"
  using assms
proof (induction xs arbitrary: done_part best)
  case Nil
  then show ?case by (auto split: option.splits)
next
  case (Cons x xs)
  let ?best = "if P x \<and> (case best of None \<Rightarrow> True | Some (_, a) \<Rightarrow> a < age x) then Some (length done_part, age x) else best"
  have "case ?best of None \<Rightarrow> \<forall>y\<in>set (done_part @ [x]). \<not> P y
    | Some (j, a) \<Rightarrow> j < length (done_part @ [x]) \<and> P ((done_part @ [x]) ! j) \<and> a = age ((done_part @ [x]) ! j) \<and>
        (\<forall>y\<in>set (done_part @ [x]). P y \<longrightarrow> age y \<le> a)"
    using Cons.prems by (auto simp: nth_append split: option.splits)
  from Cons.IH [OF this] show ?case
    by (simp only: scan_oldest.simps append_assoc append.simps length_append_singleton)
qed

lemma scan_oldest_None: "scan_oldest P age 0 None xs = None \<longleftrightarrow> (\<forall>x\<in>set xs. \<not> P x)"
  and scan_oldest_Some: "scan_oldest P age 0 None xs = Some i \<Longrightarrow>
    i < length xs \<and> P (xs ! i) \<and> (\<forall>x\<in>set xs. P x \<longrightarrow> age x \<le> age (xs ! i))"
  using scan_oldest_spec [where best = None and done_part = "[]" and P = P and age = age and xs = xs] by (auto split: option.splits)

subsection \<open>Bytes and little-endian words\<close>

definition le16 :: "u8 \<Rightarrow> u8 \<Rightarrow> u16" where
  "le16 b0 b1 = ucast b0 + 256 * ucast b1"

definition le32 :: "u8 \<Rightarrow> u8 \<Rightarrow> u8 \<Rightarrow> u8 \<Rightarrow> u32" where
  "le32 b0 b1 b2 b3 = ucast b0 + 256 * (ucast b1 + 256 * (ucast b2 + 256 * ucast b3))"

definition read_le32 :: "u8 list \<Rightarrow> nat \<Rightarrow> u32" where
  "read_le32 bs i = le32 (bs ! i) (bs ! (i + 1)) (bs ! (i + 2)) (bs ! (i + 3))"

text \<open>The four bytes of a word in memory order.\<close>

definition le_bytes :: "u32 \<Rightarrow> u8 list" where
  "le_bytes w = [ucast w, ucast (drop_bit 8 w), ucast (drop_bit 16 w), ucast (drop_bit 24 w)]"

lemma length_le_bytes [simp]: "length (le_bytes w) = 4"
  by (simp add: le_bytes_def)

lemma unat_le32:
  "unat (le32 b0 b1 b2 b3) = unat b0 + 256 * (unat b1 + 256 * (unat b2 + 256 * unat b3))"
proof -
  have b: "unat b < 256" for b :: u8 using unsigned_less [of b] by simp
  have u: "unat (ucast b :: u32) = unat b" for b :: u8
    using b [of b] by (simp add: unsigned_ucast_eq take_bit_nat_eq_self)
  define x where "x = unat b0 + 256 * (unat b1 + 256 * (unat b2 + 256 * unat b3))"
  have "le32 b0 b1 b2 b3 = word_of_nat x" by (simp add: le32_def u x_def)
  moreover have "x < 2 ^ LENGTH(32)"
    using b [of b0] b [of b1] b [of b2] b [of b3] by (simp add: x_def)
  ultimately show ?thesis by (simp only: unsigned_of_nat take_bit_nat_eq_self of_nat_id x_def)
qed

lemma le32_le_bytes:
  "le32 (ucast w) (ucast (drop_bit 8 w)) (ucast (drop_bit 16 w)) (ucast (drop_bit 24 w)) = w"
proof -
  define n where "n = unat w"
  have n: "n < 2 ^ 32" using unsigned_less [of w] by (simp add: n_def)
  have u: "unat (ucast (drop_bit k w) :: u8) = n div 2 ^ k mod 256" for k
  proof -
    have "unat (ucast (drop_bit k w) :: u8) = take_bit 8 (unat (drop_bit k w))"
      by (simp add: unsigned_ucast_eq)
    also have "unat (drop_bit k w) = drop_bit k n" by (simp add: n_def unat_drop_bit_eq)
    finally show ?thesis by (simp add: take_bit_eq_mod drop_bit_eq_div)
  qed
  have u0: "unat (ucast w :: u8) = n mod 256" using u [of 0] by simp
  define q1 where "q1 = n div 256"
  define q2 where "q2 = q1 div 256"
  define q3 where "q3 = q2 div 256"
  have d: "n div 2 ^ 8 = q1" "n div 2 ^ 16 = q2" "n div 2 ^ 24 = q3"
    by (simp_all add: q1_def q2_def q3_def div_mult2_eq [symmetric])
  have "q3 = n div 2 ^ 24" by (rule d(3) [symmetric])
  then have "q3 < 256" using n by (simp add: less_mult_imp_div_less)
  then have "q3 mod 256 = q3" by simp
  moreover have "n mod 256 + 256 * q1 = n" "q1 mod 256 + 256 * q2 = q1" "q2 mod 256 + 256 * q3 = q2"
    unfolding q1_def q2_def q3_def by (rule mod_mult_div_eq)+
  ultimately have "unat (le32 (ucast w) (ucast (drop_bit 8 w)) (ucast (drop_bit 16 w)) (ucast (drop_bit 24 w))) = n"
    by (simp only: unat_le32 u u0 d)
  then show ?thesis by (simp add: n_def word_unat_eq_iff)
qed

lemma read_le32_append: "i + 4 \<le> length xs \<Longrightarrow> read_le32 (xs @ ys) i = read_le32 xs i"
  by (simp add: read_le32_def nth_append)

lemma read_le32_shift: "length xs \<le> i \<Longrightarrow> read_le32 (xs @ ys) i = read_le32 ys (i - length xs)"
  by (simp add: read_le32_def nth_append Suc_diff_le)

lemma read_le32_le_bytes [simp]: "read_le32 (le_bytes w @ ys) 0 = w" "read_le32 (le_bytes w) 0 = w"
  by (simp_all add: read_le32_def le_bytes_def le32_le_bytes)

text \<open>A range of an array overwritten with a list (\<open>memcpy(a + i, ys, n)\<close> inside the array).\<close>

definition splice :: "'a list \<Rightarrow> nat \<Rightarrow> 'a list \<Rightarrow> 'a list" where
  "splice xs i ys = take i xs @ ys @ drop (i + length ys) xs"

lemma length_splice [simp]: "i + length ys \<le> length xs \<Longrightarrow> length (splice xs i ys) = length xs"
  by (simp add: splice_def)

lemma nth_splice:
  "i + length ys \<le> length xs \<Longrightarrow> k < length xs \<Longrightarrow>
   splice xs i ys ! k = (if i \<le> k \<and> k < i + length ys then ys ! (k - i) else xs ! k)"
  by (auto simp: splice_def nth_append not_less)

lemma take_splice:
  "i + length ys \<le> length xs \<Longrightarrow> take (i + length ys) (splice xs i ys) = take i xs @ ys"
  by (simp add: splice_def)

lemma take_splice_eq:
  "i + length ys \<le> length xs \<Longrightarrow> n = i + length ys \<Longrightarrow> take n (splice xs i ys) = take i xs @ ys"
  by (simp add: take_splice)

subsection \<open>Tables addressed by a key\<close>

text \<open>
  What the users of a table rely on when they edit it (the web handler and the loader for the names of the
  sensors, BTstack for its keys): an update that is not refused changes one key, one that is refused changes
  nothing.
\<close>

locale keyed_store =
  fixes put :: "'s \<Rightarrow> 'k \<Rightarrow> 'v \<Rightarrow> 's \<times> bool"
    and look :: "'s \<Rightarrow> 'k \<Rightarrow> 'w option"
    and norm :: "'v \<Rightarrow> 'w option"
    and inv :: "'s \<Rightarrow> bool"
  assumes put_inv: "inv s \<Longrightarrow> inv (fst (put s k v))"
    and put_look: "inv s \<Longrightarrow> look (fst (put s k v)) = (if snd (put s k v) then (look s)(k := norm v) else look s)"
begin

lemma puts_inv: "inv s \<Longrightarrow> inv (foldl (\<lambda>s (k, v). fst (put s k v)) s kvs)"
  by (induction kvs arbitrary: s) (auto simp: put_inv)

text \<open>Whatever is read after a sequence of updates was there before or was written by one of them.\<close>

lemma puts_look:
  "inv s \<Longrightarrow> look (foldl (\<lambda>s (k, v). fst (put s k v)) s kvs) k = look s k \<or>
     (\<exists>v. (k, v) \<in> set kvs \<and> look (foldl (\<lambda>s (k, v). fst (put s k v)) s kvs) k = norm v)"
proof (induction kvs arbitrary: s)
  case Nil
  then show ?case by simp
next
  case (Cons kv kvs)
  obtain j v where kv: "kv = (j, v)" by (cases kv)
  let ?s = "fst (put s j v)"
  have "look ?s k = look s k \<or> k = j \<and> look ?s k = norm v"
    using put_look [OF Cons.prems, of j v] by (auto split: if_splits)
  then show ?case using Cons.IH [OF put_inv [OF Cons.prems], of j v] kv by auto
qed

text \<open>Updates of other keys do not matter.\<close>

lemma puts_other:
  "inv s \<Longrightarrow> k \<notin> fst ` set kvs \<Longrightarrow> look (foldl (\<lambda>s (k, v). fst (put s k v)) s kvs) k = look s k"
  using puts_look [of s kvs k] by force

end

end
