(* ===== verification/App_Config.thy ===== *)
theory App_Config
  imports C_Text
begin

text \<open>
  \<^verbatim>\<open>app_config.h\<close>, the editing part of \<^verbatim>\<open>app_config.c\<close> and \<^verbatim>\<open>app_runtime_config.c\<close>: the
  configuration record, its normalisation, the list of accepted MAC addresses and the table of sensor
  names.  A \<^verbatim>\<open>char\<close> array is the string before its NUL; the arrays of MAC addresses and names are the
  lists of their first \<^verbatim>\<open>count\<close> entries.
\<close>

subsection \<open>Data\<close>

definition APP_CONFIG_SSID_MAX_LEN :: nat where "APP_CONFIG_SSID_MAX_LEN = 33"
definition APP_CONFIG_PASSWORD_MAX_LEN :: nat where "APP_CONFIG_PASSWORD_MAX_LEN = 65"
definition APP_CONFIG_HOSTNAME_MAX_LEN :: nat where "APP_CONFIG_HOSTNAME_MAX_LEN = 64"
definition APP_CONFIG_ALLOWED_MAC_MAX_COUNT :: nat where "APP_CONFIG_ALLOWED_MAC_MAX_COUNT = 128"
definition APP_CONFIG_ALLOWED_MAC_LEN :: nat where "APP_CONFIG_ALLOWED_MAC_LEN = 13"
definition APP_CONFIG_DEVICE_NAME_MAX_COUNT :: nat where "APP_CONFIG_DEVICE_NAME_MAX_COUNT = 128"
definition APP_CONFIG_DEVICE_NAME_MAX_BYTES :: nat where "APP_CONFIG_DEVICE_NAME_MAX_BYTES = 64"
definition APP_CONFIG_DEVICE_NAME_LEN :: nat where "APP_CONFIG_DEVICE_NAME_LEN = 65"
definition APP_CONFIG_MEASUREMENT_RETENTION_MIN_SECONDS :: nat where "APP_CONFIG_MEASUREMENT_RETENTION_MIN_SECONDS = 5"
definition APP_CONFIG_MEASUREMENT_RETENTION_MAX_SECONDS :: nat where "APP_CONFIG_MEASUREMENT_RETENTION_MAX_SECONDS = 600"
definition APP_CONFIG_MEASUREMENT_RETENTION_DEFAULT_SECONDS :: nat where "APP_CONFIG_MEASUREMENT_RETENTION_DEFAULT_SECONDS = 300"
definition APP_CONFIG_MEASUREMENT_MAX_COUNT_MAX :: nat where "APP_CONFIG_MEASUREMENT_MAX_COUNT_MAX = 1000"
definition APP_CONFIG_MEASUREMENT_MAX_COUNT_DEFAULT :: nat where "APP_CONFIG_MEASUREMENT_MAX_COUNT_DEFAULT = 0"
definition APP_CONFIG_ONEWIRE_POLL_INTERVAL_MIN_SECONDS :: nat where "APP_CONFIG_ONEWIRE_POLL_INTERVAL_MIN_SECONDS = 5"
definition APP_CONFIG_ONEWIRE_POLL_INTERVAL_MAX_SECONDS :: nat where "APP_CONFIG_ONEWIRE_POLL_INTERVAL_MAX_SECONDS = 300"
definition APP_CONFIG_ONEWIRE_POLL_INTERVAL_DEFAULT_SECONDS :: nat where "APP_CONFIG_ONEWIRE_POLL_INTERVAL_DEFAULT_SECONDS = 30"
definition APP_CONFIG_MQTT_HOST_MAX_LEN :: nat where "APP_CONFIG_MQTT_HOST_MAX_LEN = 254"
definition APP_CONFIG_MQTT_CREDENTIAL_MAX_LEN :: nat where "APP_CONFIG_MQTT_CREDENTIAL_MAX_LEN = 65"
definition APP_CONFIG_MQTT_INTERVAL_MIN_SECONDS :: nat where "APP_CONFIG_MQTT_INTERVAL_MIN_SECONDS = 5"
definition APP_CONFIG_MQTT_INTERVAL_MAX_SECONDS :: nat where "APP_CONFIG_MQTT_INTERVAL_MAX_SECONDS = 86400"
definition APP_CONFIG_MQTT_INTERVAL_DEFAULT_SECONDS :: nat where "APP_CONFIG_MQTT_INTERVAL_DEFAULT_SECONDS = 60"

lemmas config_sizes = APP_CONFIG_SSID_MAX_LEN_def APP_CONFIG_PASSWORD_MAX_LEN_def APP_CONFIG_HOSTNAME_MAX_LEN_def
  APP_CONFIG_ALLOWED_MAC_MAX_COUNT_def APP_CONFIG_ALLOWED_MAC_LEN_def APP_CONFIG_DEVICE_NAME_MAX_COUNT_def
  APP_CONFIG_DEVICE_NAME_MAX_BYTES_def APP_CONFIG_DEVICE_NAME_LEN_def APP_CONFIG_MQTT_HOST_MAX_LEN_def
  APP_CONFIG_MQTT_CREDENTIAL_MAX_LEN_def

lemmas config_limits = APP_CONFIG_MEASUREMENT_RETENTION_MIN_SECONDS_def APP_CONFIG_MEASUREMENT_RETENTION_MAX_SECONDS_def
  APP_CONFIG_MEASUREMENT_RETENTION_DEFAULT_SECONDS_def APP_CONFIG_MEASUREMENT_MAX_COUNT_MAX_def
  APP_CONFIG_MEASUREMENT_MAX_COUNT_DEFAULT_def APP_CONFIG_ONEWIRE_POLL_INTERVAL_MIN_SECONDS_def
  APP_CONFIG_ONEWIRE_POLL_INTERVAL_MAX_SECONDS_def APP_CONFIG_ONEWIRE_POLL_INTERVAL_DEFAULT_SECONDS_def
  APP_CONFIG_MQTT_INTERVAL_MIN_SECONDS_def APP_CONFIG_MQTT_INTERVAL_MAX_SECONDS_def
  APP_CONFIG_MQTT_INTERVAL_DEFAULT_SECONDS_def

datatype app_wifi_mode = APP_WIFI_MODE_AP | APP_WIFI_MODE_CLIENT
datatype app_wifi_security = APP_WIFI_SECURITY_OPEN | APP_WIFI_SECURITY_WPA2

record app_mqtt_config =
  mq_enabled :: bool
  mq_host :: string
  mq_port :: nat
  mq_interval_seconds :: nat
  mq_username :: string
  mq_password :: string

record app_config =
  cf_mode :: app_wifi_mode
  cf_ssid :: string
  cf_hostname :: string
  cf_channel :: nat
  cf_security :: app_wifi_security
  cf_password :: string
  cf_send_narodmon :: bool
  cf_mqtt :: app_mqtt_config
  cf_measurement_retention_seconds :: nat
  cf_measurement_max_count :: nat
  cf_onewire_poll_interval_seconds :: nat
  cf_onewire_gpio2_enabled :: bool
  cf_onewire_gpio3_enabled :: bool
  cf_allowed_macs :: "string list"
  cf_device_names :: "(u32 \<times> string) list"

definition app_config_defaults :: app_config where
  "app_config_defaults =
     \<lparr>cf_mode = APP_WIFI_MODE_AP, cf_ssid = ''BLEBridge'', cf_hostname = ''blebridge'', cf_channel = 3,
      cf_security = APP_WIFI_SECURITY_OPEN, cf_password = '''', cf_send_narodmon = False,
      cf_mqtt = \<lparr>mq_enabled = False, mq_host = '''', mq_port = 1883,
                 mq_interval_seconds = APP_CONFIG_MQTT_INTERVAL_DEFAULT_SECONDS, mq_username = '''', mq_password = ''''\<rparr>,
      cf_measurement_retention_seconds = APP_CONFIG_MEASUREMENT_RETENTION_DEFAULT_SECONDS,
      cf_measurement_max_count = APP_CONFIG_MEASUREMENT_MAX_COUNT_DEFAULT,
      cf_onewire_poll_interval_seconds = APP_CONFIG_ONEWIRE_POLL_INTERVAL_DEFAULT_SECONDS,
      cf_onewire_gpio2_enabled = True, cf_onewire_gpio3_enabled = True,
      cf_allowed_macs = [], cf_device_names = []\<rparr>"

subsection \<open>MAC addresses\<close>

text \<open>The loop over the input; \<open>written\<close> is what was stored so far.\<close>

fun normalize_mac_loop :: "string \<Rightarrow> string \<Rightarrow> string option" where
  "normalize_mac_loop written [] = (if length written \<noteq> APP_CONFIG_ALLOWED_MAC_LEN - 1 then None else Some written)"
| "normalize_mac_loop written (ch # input) =
     (if ch = CHR '':'' \<or> ch = CHR ''-'' \<or> ch = CHR '' '' then normalize_mac_loop written input
      else if \<not> isxdigit ch \<or> length written \<ge> APP_CONFIG_ALLOWED_MAC_LEN - 1 then None
      else normalize_mac_loop (written @ [toupper ch]) input)"

definition app_config_normalize_mac :: "nat \<Rightarrow> string \<Rightarrow> string option" where
  "app_config_normalize_mac normalized_mac_size input =
     (if normalized_mac_size < APP_CONFIG_ALLOWED_MAC_LEN then None else normalize_mac_loop [] input)"

definition app_config_set_allowed_mac :: "app_config \<Rightarrow> string \<Rightarrow> bool \<Rightarrow> app_config \<times> bool" where
  "app_config_set_allowed_mac config normalized_mac enabled =
     (case app_config_normalize_mac APP_CONFIG_ALLOWED_MAC_LEN normalized_mac of
        None \<Rightarrow> (config, False)
      | Some canonical \<Rightarrow>
          (case find_index (\<lambda>mac. mac = canonical) (cf_allowed_macs config) of
             Some index \<Rightarrow>
               if enabled then (config, True)
               else (config\<lparr>cf_allowed_macs := take index (cf_allowed_macs config) @ drop (Suc index) (cf_allowed_macs config)\<rparr>, True)
           | None \<Rightarrow>
               if enabled then
                 (if length (cf_allowed_macs config) \<ge> APP_CONFIG_ALLOWED_MAC_MAX_COUNT then (config, False)
                  else (config\<lparr>cf_allowed_macs := cf_allowed_macs config @ [canonical]\<rparr>, True))
               else (config, True)))"

subsection \<open>Text fields\<close>

definition app_config_trim :: "string \<Rightarrow> string" where
  "app_config_trim text = rev (dropWhile isspace (rev (dropWhile isspace text)))"

text \<open>\<open>cursor[i]\<close>, which is the terminating NUL at the end of the string.\<close>

definition byte_at :: "string \<Rightarrow> nat \<Rightarrow> nat" where
  "byte_at s i = (if i < length s then code (s ! i) else 0)"

definition utf8_char_len :: "nat \<Rightarrow> nat" where
  "utf8_char_len ch =
     (if ch < 0x80 then 1
      else if 0xC2 \<le> ch \<and> ch \<le> 0xDF then 2
      else if 0xE0 \<le> ch \<and> ch \<le> 0xEF then 3
      else if 0xF0 \<le> ch \<and> ch \<le> 0xF4 then 4
      else 0)"

text \<open>The test \<^verbatim>\<open>(cursor[i] & 0xC0u) == 0x80u\<close> on the bytes after the first.\<close>

definition continuation :: "nat \<Rightarrow> bool" where
  "continuation b = (0x80 \<le> b \<and> b \<le> 0xBF)"

function copy_name_loop :: "nat \<Rightarrow> string \<Rightarrow> string \<Rightarrow> string" where
  "copy_name_loop max_bytes written cursor =
     (if cursor = [] \<or> length written \<ge> max_bytes then written else
      let ch = byte_at cursor 0; char_len = utf8_char_len ch in
      if ch < 0x20 \<or> ch = 0x7F then copy_name_loop max_bytes written (drop 1 cursor)
      else if char_len = 0 then copy_name_loop max_bytes written (drop 1 cursor)
      else if length written + char_len > max_bytes then written
      else if \<not> (\<forall>i\<in>{1..<char_len}. continuation (byte_at cursor i))
      then copy_name_loop max_bytes written (drop 1 cursor)
      else copy_name_loop max_bytes (written @ take char_len cursor) (drop char_len cursor))"
  by pat_completeness auto
termination
  by (relation "measure (\<lambda>(m, w, c). length c)") auto

declare copy_name_loop.simps [simp del]

definition app_config_copy_device_name :: "nat \<Rightarrow> string \<Rightarrow> string" where
  "app_config_copy_device_name dst_size src =
     copy_name_loop (if dst_size - 1 > APP_CONFIG_DEVICE_NAME_MAX_BYTES then APP_CONFIG_DEVICE_NAME_MAX_BYTES
                     else dst_size - 1) [] src"

definition app_config_parse_mode :: "string \<Rightarrow> app_wifi_mode" where
  "app_config_parse_mode value = (if value = ''client'' then APP_WIFI_MODE_CLIENT else APP_WIFI_MODE_AP)"

definition app_config_parse_security :: "string \<Rightarrow> app_wifi_security" where
  "app_config_parse_security value = (if value = ''wpa2'' then APP_WIFI_SECURITY_WPA2 else APP_WIFI_SECURITY_OPEN)"

definition app_config_mode_name :: "app_wifi_mode \<Rightarrow> string" where
  "app_config_mode_name mode = (if mode = APP_WIFI_MODE_CLIENT then ''client'' else ''ap'')"

definition app_config_security_name :: "app_wifi_security \<Rightarrow> string" where
  "app_config_security_name security = (if security = APP_WIFI_SECURITY_WPA2 then ''wpa2'' else ''open'')"

subsection \<open>Sensor names\<close>

definition app_config_get_device_name :: "app_config \<Rightarrow> string" where
  "app_config_get_device_name config = (if cf_hostname config = '''' then ''blebridge'' else cf_hostname config)"

definition app_config_get_sensor_name :: "app_config \<Rightarrow> u32 \<Rightarrow> string" where
  "app_config_get_sensor_name config device_id =
     (case find_index (\<lambda>d. fst d = device_id) (cf_device_names config) of
        Some i \<Rightarrow> snd (cf_device_names config ! i)
      | None \<Rightarrow> '''')"

definition app_config_set_device_name :: "app_config \<Rightarrow> u32 \<Rightarrow> string \<Rightarrow> app_config \<times> bool" where
  "app_config_set_device_name config device_id name =
     (let normalized_name = app_config_trim (app_config_copy_device_name APP_CONFIG_DEVICE_NAME_LEN name);
          stored = app_config_copy_device_name APP_CONFIG_DEVICE_NAME_LEN normalized_name;
          names = cf_device_names config
      in case find_index (\<lambda>d. fst d = device_id) names of
           Some index \<Rightarrow>
             if normalized_name = ''''
             then (config\<lparr>cf_device_names := take index names @ drop (Suc index) names\<rparr>, True)
             else (config\<lparr>cf_device_names := names[index := (device_id, stored)]\<rparr>, True)
         | None \<Rightarrow>
             if normalized_name = '''' then (config, True)
             else if length names \<ge> APP_CONFIG_DEVICE_NAME_MAX_COUNT then (config, False)
             else (config\<lparr>cf_device_names := names @ [(device_id, stored)]\<rparr>, True))"

subsection \<open>Normalisation\<close>

definition clamp :: "nat \<Rightarrow> nat \<Rightarrow> nat \<Rightarrow> nat" where
  "clamp lo hi n = (let n1 = (if n < lo then lo else n) in if n1 > hi then hi else n1)"

definition app_config_normalize :: "app_config \<Rightarrow> app_config" where
  "app_config_normalize config =
     (let mqtt = cf_mqtt config;
          mqtt' = mqtt\<lparr>mq_host := app_config_trim (mq_host mqtt),
                       mq_port := (if mq_port mqtt = 0 then 1883 else mq_port mqtt),
                       mq_interval_seconds := clamp APP_CONFIG_MQTT_INTERVAL_MIN_SECONDS
                         APP_CONFIG_MQTT_INTERVAL_MAX_SECONDS (mq_interval_seconds mqtt)\<rparr>;
          ssid = app_config_trim (cf_ssid config);
          hostname = app_config_trim (cf_hostname config)
      in config\<lparr>cf_mqtt := mqtt',
                cf_ssid := (if ssid = '''' then ''BLEBridge'' else ssid),
                cf_hostname := (if hostname = '''' then ''blebridge'' else hostname),
                cf_channel := (if cf_channel config < 1 \<or> cf_channel config > 13 then 3 else cf_channel config),
                cf_password := (if cf_security config = APP_WIFI_SECURITY_OPEN then ''''
                                else app_config_trim (cf_password config)),
                cf_measurement_retention_seconds := clamp APP_CONFIG_MEASUREMENT_RETENTION_MIN_SECONDS
                  APP_CONFIG_MEASUREMENT_RETENTION_MAX_SECONDS (cf_measurement_retention_seconds config),
                cf_measurement_max_count :=
                  (if cf_measurement_max_count config > APP_CONFIG_MEASUREMENT_MAX_COUNT_MAX
                   then APP_CONFIG_MEASUREMENT_MAX_COUNT_MAX else cf_measurement_max_count config),
                cf_onewire_poll_interval_seconds := clamp APP_CONFIG_ONEWIRE_POLL_INTERVAL_MIN_SECONDS
                  APP_CONFIG_ONEWIRE_POLL_INTERVAL_MAX_SECONDS (cf_onewire_poll_interval_seconds config),
                cf_allowed_macs := take APP_CONFIG_ALLOWED_MAC_MAX_COUNT (cf_allowed_macs config),
                cf_device_names := List.map
                  (\<lambda>(device_id, name). (device_id, app_config_trim (app_config_copy_device_name APP_CONFIG_DEVICE_NAME_LEN name)))
                  (take APP_CONFIG_DEVICE_NAME_MAX_COUNT (cf_device_names config))\<rparr>)"

subsection \<open>The configuration in use (\<^verbatim>\<open>app_runtime_config.c\<close>)\<close>

record runtime_config =
  rc_config :: app_config

definition app_runtime_config_get :: "runtime_config \<Rightarrow> app_config" where
  "app_runtime_config_get rc = rc_config rc"

definition app_runtime_config_set :: "app_config \<Rightarrow> runtime_config \<Rightarrow> runtime_config" where
  "app_runtime_config_set config rc = rc\<lparr>rc_config := config\<rparr>"

definition app_runtime_config_get_device_name :: "runtime_config \<Rightarrow> string" where
  "app_runtime_config_get_device_name rc = app_config_get_device_name (rc_config rc)"

definition app_runtime_config_get_sensor_name :: "runtime_config \<Rightarrow> u32 \<Rightarrow> string" where
  "app_runtime_config_get_sensor_name rc device_id = app_config_get_sensor_name (rc_config rc) device_id"

subsection \<open>Trimmed and clean texts\<close>

definition trimmed :: "string \<Rightarrow> bool" where
  "trimmed s = (s = '''' \<or> \<not> isspace (hd s) \<and> \<not> isspace (last s))"

lemma dropWhile_hd: "dropWhile P xs = [] \<or> \<not> P (hd (dropWhile P xs))"
  by (induction xs) auto

lemma last_dropWhile: "dropWhile P xs \<noteq> [] \<Longrightarrow> last (dropWhile P xs) = last xs"
  by (induction xs) auto

lemma trimmed_trim [simp]: "trimmed (app_config_trim s)"
proof -
  let ?l = "dropWhile isspace s"
  let ?r = "dropWhile isspace (rev ?l)"
  show ?thesis
  proof (cases "?r = []")
    case True
    then show ?thesis by (simp add: app_config_trim_def trimmed_def)
  next
    case False
    have "\<not> isspace (hd ?r)" using dropWhile_hd [of isspace "rev ?l"] False by blast
    moreover have l: "?l \<noteq> []" using False by (metis dropWhile.simps(1) rev.simps(1))
    have "last ?r = last (rev ?l)" by (rule last_dropWhile [OF False])
    then have "last ?r = hd ?l" by (simp only: last_rev)
    moreover have "\<not> isspace (hd ?l)" using dropWhile_hd [of isspace s] l by blast
    ultimately have "\<not> isspace (hd (rev ?r))" "\<not> isspace (last (rev ?r))" by (simp_all only: hd_rev last_rev not_False_eq_True)
    then show ?thesis unfolding app_config_trim_def trimmed_def by blast
  qed
qed

lemma trim_trimmed: "trimmed s \<Longrightarrow> app_config_trim s = s"
proof (cases s)
  case (Cons c cs)
  assume t: "trimmed s"
  then have l: "dropWhile isspace s = s" using Cons by (simp add: trimmed_def)
  have "rev s = last s # rev (butlast s)" using Cons by (metis append_butlast_last_id list.distinct(1) rev_eq_Cons_iff rev_rev_ident)
  then have "dropWhile isspace (rev s) = rev s" using t Cons by (simp add: trimmed_def)
  then show ?thesis using l by (simp add: app_config_trim_def)
qed (simp add: app_config_trim_def)

lemma trim_idem [simp]: "app_config_trim (app_config_trim s) = app_config_trim s"
  by (simp add: trim_trimmed)

lemma length_trim: "length (app_config_trim s) \<le> length s"
  by (simp add: app_config_trim_def) (metis length_dropWhile_le length_rev order_trans)

text \<open>One character of UTF-8 as the name code accepts it, and texts made of such characters.\<close>

definition utf8_chunk :: "string \<Rightarrow> bool" where
  "utf8_chunk c = (c \<noteq> [] \<and> length c = utf8_char_len (code (hd c)) \<and> 0x20 \<le> code (hd c) \<and> code (hd c) \<noteq> 0x7F \<and>
     (\<forall>i\<in>{1..<length c}. continuation (code (c ! i))))"

lemma utf8_chunk_pos: "utf8_chunk c \<Longrightarrow> 0 < length c"
  unfolding utf8_chunk_def length_greater_0_conv by blast

definition clean :: "string \<Rightarrow> bool" where
  "clean s = (\<exists>cs. s = concat cs \<and> (\<forall>c\<in>set cs. utf8_chunk c))"

lemma clean_Nil [simp]: "clean []"
  unfolding clean_def by (intro exI [of _ "[]"]) simp

lemma clean_append: "clean s \<Longrightarrow> utf8_chunk c \<Longrightarrow> clean (s @ c)"
proof -
  assume "clean s" "utf8_chunk c"
  then obtain cs where "s = concat cs" "\<forall>c\<in>set cs. utf8_chunk c" by (auto simp: clean_def)
  then show ?thesis unfolding clean_def using \<open>utf8_chunk c\<close> by (intro exI [of _ "cs @ [c]"]) auto
qed

lemma copy_name_loop_clean:
  "clean written \<Longrightarrow> length written \<le> m \<Longrightarrow>
   clean (copy_name_loop m written cursor) \<and> length (copy_name_loop m written cursor) \<le> m"
proof (induction m written cursor rule: copy_name_loop.induct)
  case (1 m written cursor)
  let ?ch = "byte_at cursor 0"
  let ?n = "utf8_char_len ?ch"
  show ?case
  proof (cases "cursor = [] \<or> length written \<ge> m")
    case True
    then show ?thesis using "1.prems" by (subst (1 2) copy_name_loop.simps) auto
  next
    case go: False
    consider (skip) "?ch < 0x20 \<or> ?ch = 0x7F \<or> ?n = 0" | (full) "\<not> (?ch < 0x20 \<or> ?ch = 0x7F \<or> ?n = 0)" "length written + ?n > m"
      | (bad) "\<not> (?ch < 0x20 \<or> ?ch = 0x7F \<or> ?n = 0)" "length written + ?n \<le> m" "\<not> (\<forall>i\<in>{1..<?n}. continuation (byte_at cursor i))"
      | (char) "\<not> (?ch < 0x20 \<or> ?ch = 0x7F \<or> ?n = 0)" "length written + ?n \<le> m" "\<forall>i\<in>{1..<?n}. continuation (byte_at cursor i)"
      by linarith
    then show ?thesis
    proof cases
      case skip
      then show ?thesis using "1.IH"(1,2) "1.prems" go by (subst (1 2) copy_name_loop.simps) (auto simp: Let_def)
    next
      case full
      then show ?thesis using "1.prems" go by (subst (1 2) copy_name_loop.simps) (auto simp: Let_def)
    next
      case bad
      then show ?thesis using "1.IH"(3) [OF go refl refl] "1.prems" go
        by (subst (1 2) copy_name_loop.simps) (simp add: Let_def)
    next
      case char
      have n: "?n \<le> length cursor"
      proof (rule ccontr)
        assume "\<not> ?n \<le> length cursor"
        moreover have "cursor \<noteq> []" using go by simp
        ultimately have "length cursor \<in> {1..<?n}" by (cases cursor) auto
        then have "continuation (byte_at cursor (length cursor))" using char(3) by blast
        then show False by (simp add: continuation_def byte_at_def)
      qed
      have "utf8_chunk (take ?n cursor)"
        using char n go by (auto simp: utf8_chunk_def byte_at_def hd_conv_nth)
      then have "clean (written @ take ?n cursor)" by (rule clean_append [OF "1.prems"(1)])
      moreover have "length (written @ take ?n cursor) \<le> m" using char(2) by simp
      ultimately show ?thesis using "1.IH"(4) [OF go refl refl] char go
        by (subst (1 2) copy_name_loop.simps) (simp add: Let_def)
    qed
  qed
qed

lemma utf8_chunk_byte_at:
  "utf8_chunk c \<Longrightarrow> byte_at (c @ s) 0 = code (hd c)"
  "utf8_chunk c \<Longrightarrow> i < length c \<Longrightarrow> byte_at (c @ s) i = code (c ! i)"
  by (auto simp: utf8_chunk_def byte_at_def nth_append hd_conv_nth)

lemma copy_name_loop_chunks:
  "\<forall>c\<in>set cs. utf8_chunk c \<Longrightarrow> length written + length (concat cs) \<le> m \<Longrightarrow>
   copy_name_loop m written (concat cs) = written @ concat cs"
proof (induction cs arbitrary: written)
  case Nil
  then show ?case by (subst copy_name_loop.simps) simp
next
  case (Cons c cs)
  have c: "utf8_chunk c" using Cons.prems(1) by simp
  then have c0: "0 < length c" by (rule utf8_chunk_pos)
  from c have n: "utf8_char_len (code (hd c)) = length c" "\<not> code (hd c) < 0x20" "code (hd c) \<noteq> 0x7F"
    "\<forall>i\<in>{1..<length c}. continuation (byte_at (c @ concat cs) i)"
    by (auto simp: utf8_chunk_def utf8_chunk_byte_at(2))
  have "copy_name_loop m written (c @ concat cs) = copy_name_loop m (written @ c) (concat cs)"
  proof -
    have "\<not> m \<le> length written" using Cons.prems(2) c0 unfolding concat.simps length_append by linarith
    then show ?thesis
    using n c0 Cons.prems(2) utf8_chunk_byte_at(1) [OF c, of "concat cs"]
    by (subst copy_name_loop.simps) (simp add: Let_def)
  qed
  then show ?case using Cons by simp
qed

lemma copy_name_clean: "clean s \<Longrightarrow> length s \<le> 64 \<Longrightarrow> app_config_copy_device_name APP_CONFIG_DEVICE_NAME_LEN s = s"
  using copy_name_loop_chunks [of _ "[]" 64]
  by (auto simp: clean_def app_config_copy_device_name_def config_sizes)

lemma clean_copy_name:
  "clean (app_config_copy_device_name APP_CONFIG_DEVICE_NAME_LEN s)"
  "length (app_config_copy_device_name APP_CONFIG_DEVICE_NAME_LEN s) \<le> 64"
  using copy_name_loop_clean [of "[]" 64 s] by (simp_all add: app_config_copy_device_name_def config_sizes)

lemma chunk_space:
  assumes "utf8_chunk c"
  shows "isspace (hd c) \<Longrightarrow> length c = 1" "isspace (last c) \<Longrightarrow> length c = 1"
proof -
  show "isspace (hd c) \<Longrightarrow> length c = 1"
    using assms by (auto simp: utf8_chunk_def isspace_def utf8_char_len_def)
  assume l: "isspace (last c)"
  show "length c = 1"
  proof (rule ccontr)
    assume "length c \<noteq> 1"
    moreover have "0 < length c" by (rule utf8_chunk_pos [OF assms])
    ultimately have "length c - 1 \<in> {1..<length c}" unfolding atLeastLessThan_iff by linarith
    then have "continuation (code (c ! (length c - 1)))" using assms unfolding utf8_chunk_def by blast
    moreover have "c ! (length c - 1) = last c" using assms by (simp add: utf8_chunk_def last_conv_nth)
    ultimately show False using l by (auto simp: continuation_def isspace_def)
  qed
qed

lemma clean_dropWhile: "\<forall>c\<in>set cs. utf8_chunk c \<Longrightarrow> clean (dropWhile isspace (concat cs))"
proof (induction cs)
  case Nil
  then show ?case by simp
next
  case (Cons c cs)
  then have c: "utf8_chunk c" "c \<noteq> []" by (auto simp: utf8_chunk_def)
  show ?case
  proof (cases "isspace (hd c)")
    case True
    then obtain x where "c = [x]" using chunk_space(1) [OF c(1)] by (cases c) auto
    then show ?thesis using True Cons by simp
  next
    case False
    then have "dropWhile isspace (concat (c # cs)) = concat (c # cs)" using c(2) by (cases c) auto
    then show ?thesis using Cons.prems unfolding clean_def by metis
  qed
qed

lemma clean_dropWhile_rev: "\<forall>c\<in>set cs. utf8_chunk c \<Longrightarrow> clean (rev (dropWhile isspace (rev (concat cs))))"
proof (induction cs rule: rev_induct)
  case Nil
  then show ?case by simp
next
  case (snoc c cs)
  then have c: "utf8_chunk c" "c \<noteq> []" by (auto simp: utf8_chunk_def)
  show ?case
  proof (cases "isspace (last c)")
    case True
    then obtain x where "c = [x]" using chunk_space(2) [OF c(1)] by (cases c) auto
    then show ?thesis using True snoc by simp
  next
    case False
    then have "dropWhile isspace (rev (concat (cs @ [c]))) = rev (concat (cs @ [c]))"
      using c(2) by (cases c rule: rev_cases) auto
    then show ?thesis using snoc.prems unfolding clean_def by (metis rev_rev_ident)
  qed
qed

lemma clean_trim: "clean s \<Longrightarrow> clean (app_config_trim s)"
proof -
  assume "clean s"
  then obtain cs where "s = concat cs" "\<forall>c\<in>set cs. utf8_chunk c" by (auto simp: clean_def)
  then have "clean (dropWhile isspace s)" using clean_dropWhile by simp
  then obtain ds where "dropWhile isspace s = concat ds" "\<forall>c\<in>set ds. utf8_chunk c" by (auto simp: clean_def)
  then show ?thesis using clean_dropWhile_rev by (simp add: app_config_trim_def)
qed

text \<open>The names the configuration holds.\<close>

definition stored_name :: "string \<Rightarrow> string" where
  "stored_name name = app_config_trim (app_config_copy_device_name APP_CONFIG_DEVICE_NAME_LEN name)"

definition name_ok :: "string \<Rightarrow> bool" where
  "name_ok s = (clean s \<and> trimmed s \<and> length s \<le> 64)"

lemma name_ok_stored [simp]: "name_ok (stored_name s)"
  using clean_copy_name length_trim [of "app_config_copy_device_name APP_CONFIG_DEVICE_NAME_LEN s"]
  by (auto simp: name_ok_def stored_name_def intro: clean_trim order_trans)

lemma name_ok_fixed:
  "name_ok s \<Longrightarrow> app_config_copy_device_name APP_CONFIG_DEVICE_NAME_LEN s = s"
  "name_ok s \<Longrightarrow> stored_name s = s"
  by (simp_all add: name_ok_def copy_name_clean stored_name_def trim_trimmed)

subsection \<open>The table of sensor names\<close>

definition names_ok :: "app_config \<Rightarrow> bool" where
  "names_ok c = (distinct (List.map fst (cf_device_names c)) \<and> length (cf_device_names c) \<le> APP_CONFIG_DEVICE_NAME_MAX_COUNT \<and>
     (\<forall>d\<in>set (cf_device_names c). name_ok (snd d) \<and> snd d \<noteq> ''''))"

lemma find_key_None: "find_index (\<lambda>d. fst d = k) xs = None \<Longrightarrow> map_of xs k = None"
  by (auto simp: find_index_None_iff map_of_eq_None_iff)

lemma find_key_Some: "find_index (\<lambda>d. fst d = k) xs = Some i \<Longrightarrow> map_of xs k = Some (snd (xs ! i))"
proof (induction xs arbitrary: i)
  case Nil
  then show ?case by simp
next
  case (Cons x xs)
  then show ?case by (cases x) (auto split: if_splits)
qed

lemma get_sensor_name_map:
  "app_config_get_sensor_name c k = (case map_of (cf_device_names c) k of None \<Rightarrow> '''' | Some n \<Rightarrow> n)"
  by (auto simp: app_config_get_sensor_name_def find_key_None find_key_Some split: option.split)

lemma map_of_remove:
  assumes "find_index (\<lambda>d. fst d = k) xs = Some i" "distinct (List.map fst xs)"
  shows "map_of (take i xs @ drop (Suc i) xs) = (map_of xs)(k := None)"
  using assms
proof (induction xs arbitrary: i)
  case Nil
  then show ?case by simp
next
  case (Cons x xs)
  show ?case
  proof (cases "fst x = k")
    case True
    then have "i = 0" using Cons.prems(1) by simp
    moreover have "map_of xs k = None" using Cons.prems(2) True by (auto simp: map_of_eq_None_iff)
    ultimately show ?thesis using True by (cases x) (auto simp: fun_eq_iff)
  next
    case False
    then obtain j where "find_index (\<lambda>d. fst d = k) xs = Some j" "i = Suc j" using Cons.prems(1) by auto
    then show ?thesis using Cons.IH [of j] Cons.prems(2) False by (cases x) (auto simp: fun_eq_iff)
  qed
qed

lemma map_of_update_at:
  assumes "find_index (\<lambda>d. fst d = k) xs = Some i"
  shows "map_of (xs[i := (k, v)]) = (map_of xs)(k \<mapsto> v)"
  using assms
proof (induction xs arbitrary: i)
  case Nil
  then show ?case by simp
next
  case (Cons x xs)
  then show ?case by (cases x) (auto simp: fun_eq_iff split: if_splits)
qed

lemma map_of_append_new:
  "map_of xs k = None \<Longrightarrow> map_of (xs @ [(k, v)]) = (map_of xs)(k \<mapsto> v)"
  by (auto simp: fun_eq_iff map_add_def split: option.split)

lemma fst_update_at: "find_index (\<lambda>d. fst d = k) xs = Some i \<Longrightarrow> List.map fst (xs[i := (k, v)]) = List.map fst xs"
  using find_index_sat [of "\<lambda>d. fst d = k" xs i] find_index_less [of "\<lambda>d. fst d = k" xs i]
  by (simp add: map_update list_update_id) (metis list_update_id nth_map)

text \<open>Setting a name is an update of a finite map; an empty name deletes the entry.\<close>

lemma set_device_name_map:
  assumes "names_ok c" "app_config_set_device_name c k n = (c', ok)"
  shows "map_of (cf_device_names c') =
    (if ok then (map_of (cf_device_names c))(k := (if stored_name n = '''' then None else Some (stored_name n)))
     else map_of (cf_device_names c))"
    "ok = (stored_name n = '''' \<or> map_of (cf_device_names c) k \<noteq> None \<or> length (cf_device_names c) < 128)"
    "names_ok c'" "c' = c\<lparr>cf_device_names := cf_device_names c'\<rparr>"
proof -
  let ?names = "cf_device_names c"
  have st: "app_config_copy_device_name APP_CONFIG_DEVICE_NAME_LEN (stored_name n) = stored_name n"
    by (rule name_ok_fixed(1)) simp
  have inv: "distinct (List.map fst ?names)" "length ?names \<le> 128" "\<forall>d\<in>set ?names. name_ok (snd d) \<and> snd d \<noteq> ''''"
    using assms(1) by (simp_all add: names_ok_def config_sizes)
  have set_eq: "app_config_set_device_name c k n =
     (case find_index (\<lambda>d. fst d = k) ?names of
           Some index \<Rightarrow>
             if stored_name n = ''''
             then (c\<lparr>cf_device_names := take index ?names @ drop (Suc index) ?names\<rparr>, True)
             else (c\<lparr>cf_device_names := ?names[index := (k, stored_name n)]\<rparr>, True)
         | None \<Rightarrow>
             if stored_name n = '''' then (c, True)
             else if length ?names \<ge> 128 then (c, False)
             else (c\<lparr>cf_device_names := ?names @ [(k, stored_name n)]\<rparr>, True))"
    by (simp only: app_config_set_device_name_def Let_def stored_name_def [symmetric] st
        APP_CONFIG_DEVICE_NAME_MAX_COUNT_def)
  have "map_of (cf_device_names c') =
      (if ok then (map_of (cf_device_names c))(k := (if stored_name n = '''' then None else Some (stored_name n)))
       else map_of (cf_device_names c)) \<and>
      ok = (stored_name n = '''' \<or> map_of (cf_device_names c) k \<noteq> None \<or> length (cf_device_names c) < 128) \<and>
      names_ok c' \<and> c' = c\<lparr>cf_device_names := cf_device_names c'\<rparr>"
  proof (cases "find_index (\<lambda>d. fst d = k) ?names")
    case None
    note n = find_key_None [OF None]
    have "k \<notin> fst ` set ?names" using None by (auto simp: find_index_None_iff)
    then show ?thesis
      using assms None n inv set_eq map_of_append_new [OF n]
      by (auto simp: names_ok_def config_sizes fun_upd_idem split: if_splits)
  next
    case (Some i)
    have i: "i < length ?names" using Some by blast
    let ?rem = "take i ?names @ drop (Suc i) ?names" and ?upd = "?names[i := (k, stored_name n)]"
    show ?thesis
    proof (cases "stored_name n = ''''")
      case True
      have "distinct (List.map fst ?rem)"
        using inv(1) set_take_disj_set_drop_if_distinct [of "List.map fst ?names" i "Suc i"]
        by (simp add: take_map [symmetric] drop_map [symmetric])
      moreover have "set ?rem \<subseteq> set ?names" by (auto dest: in_set_takeD in_set_dropD)
      moreover have "length ?rem \<le> 128" using i inv(2) by simp
      ultimately have "names_ok (c\<lparr>cf_device_names := ?rem\<rparr>)"
        using inv(3) unfolding names_ok_def APP_CONFIG_DEVICE_NAME_MAX_COUNT_def by (simp del: set_append map_append) blast
      then show ?thesis using assms(2) Some set_eq True map_of_remove [OF Some inv(1)]
        by (auto simp del: map_of_append)
    next
      case False
      have "set ?upd \<subseteq> insert (k, stored_name n) (set ?names)" by (rule set_update_subset_insert)
      then have "\<forall>d\<in>set ?upd. name_ok (snd d) \<and> snd d \<noteq> ''''" using inv(3) False by auto
      then have "names_ok (c\<lparr>cf_device_names := ?upd\<rparr>)"
        using inv fst_update_at [OF Some, of "stored_name n"]
        by (simp add: names_ok_def APP_CONFIG_DEVICE_NAME_MAX_COUNT_def)
      then show ?thesis using assms(2) Some set_eq False map_of_update_at [OF Some] find_key_Some [OF Some] by auto
    qed
  qed
  then show "map_of (cf_device_names c') =
    (if ok then (map_of (cf_device_names c))(k := (if stored_name n = '''' then None else Some (stored_name n)))
     else map_of (cf_device_names c))"
    "ok = (stored_name n = '''' \<or> map_of (cf_device_names c) k \<noteq> None \<or> length (cf_device_names c) < 128)"
    "names_ok c'" "c' = c\<lparr>cf_device_names := cf_device_names c'\<rparr>"
    by blast+
qed

subsection \<open>The list of accepted MAC addresses\<close>

definition canonical_mac :: "string \<Rightarrow> bool" where
  "canonical_mac m = (length m = 12 \<and> (\<forall>c\<in>set m. isxdigit c \<and> toupper c = c))"

definition macs_ok :: "app_config \<Rightarrow> bool" where
  "macs_ok c = (distinct (cf_allowed_macs c) \<and> length (cf_allowed_macs c) \<le> APP_CONFIG_ALLOWED_MAC_MAX_COUNT \<and>
     (\<forall>m\<in>set (cf_allowed_macs c). canonical_mac m))"

lemma code_toupper: "code (toupper c) = (if 97 \<le> code c \<and> code c \<le> 122 then code c - 32 else code c)"
proof -
  have "code c - 32 < 256" using code_less [of c] by linarith
  then show ?thesis by (simp add: toupper_def)
qed

lemma toupper_xdigit: "isxdigit c \<Longrightarrow> isxdigit (toupper c) \<and> toupper (toupper c) = toupper c"
  by (auto simp: isxdigit_def isdigit_def code_toupper code_eq_iff [of "toupper (toupper c)"])

lemma normalize_mac_loop_canonical:
  "\<forall>c\<in>set w. isxdigit c \<and> toupper c = c \<Longrightarrow> normalize_mac_loop w s = Some m \<Longrightarrow> canonical_mac m"
proof (induction w s rule: normalize_mac_loop.induct)
  case (1 written)
  then show ?case by (auto simp: canonical_mac_def config_sizes split: if_splits)
next
  case (2 written ch input)
  then show ?case using toupper_xdigit by (auto split: if_splits)
qed

lemma xdigit_not_sep: "isxdigit c \<Longrightarrow> c \<noteq> CHR '':'' \<and> c \<noteq> CHR ''-'' \<and> c \<noteq> CHR '' ''"
  by (auto simp: isxdigit_def isdigit_def)

lemma normalize_mac_loop_id:
  "\<forall>c\<in>set s. isxdigit c \<and> toupper c = c \<Longrightarrow> length w + length s = 12 \<Longrightarrow> normalize_mac_loop w s = Some (w @ s)"
proof (induction s arbitrary: w)
  case Nil
  then show ?case by (simp add: config_sizes)
next
  case (Cons c s)
  then show ?case using xdigit_not_sep [of c] by (simp add: config_sizes)
qed

lemma normalize_mac_canonical:
  "app_config_normalize_mac n s = Some m \<Longrightarrow> canonical_mac m"
  "canonical_mac m \<Longrightarrow> app_config_normalize_mac APP_CONFIG_ALLOWED_MAC_LEN m = Some m"
  using normalize_mac_loop_canonical [of "[]" s m] normalize_mac_loop_id [of m "[]"]
  by (auto simp: app_config_normalize_mac_def canonical_mac_def split: if_splits)

lemma set_remove_at:
  "find_index (\<lambda>x. x = a) xs = Some i \<Longrightarrow> distinct xs \<Longrightarrow> set (take i xs @ drop (Suc i) xs) = set xs - {a}"
proof (induction xs arbitrary: i)
  case Nil
  then show ?case by simp
next
  case (Cons x xs)
  then show ?case by (auto split: if_splits)
qed

lemma set_allowed_mac_set:
  assumes "macs_ok c" "app_config_normalize_mac APP_CONFIG_ALLOWED_MAC_LEN s = Some m"
    "app_config_set_allowed_mac c s enabled = (c', ok)"
  shows "set (cf_allowed_macs c') =
     (if \<not> enabled then set (cf_allowed_macs c) - {m} else if ok then insert m (set (cf_allowed_macs c))
      else set (cf_allowed_macs c))"
    "ok = (\<not> enabled \<or> m \<in> set (cf_allowed_macs c) \<or> length (cf_allowed_macs c) < 128)" "macs_ok c'"
proof -
  have cm: "canonical_mac m" by (rule normalize_mac_canonical(1) [OF assms(2)])
  have inv: "distinct (cf_allowed_macs c)" "length (cf_allowed_macs c) \<le> 128" "\<forall>m\<in>set (cf_allowed_macs c). canonical_mac m"
    using assms(1) by (simp_all add: macs_ok_def config_sizes)
  have "set (cf_allowed_macs c') =
     (if \<not> enabled then set (cf_allowed_macs c) - {m} else if ok then insert m (set (cf_allowed_macs c))
      else set (cf_allowed_macs c)) \<and>
    ok = (\<not> enabled \<or> m \<in> set (cf_allowed_macs c) \<or> length (cf_allowed_macs c) < 128) \<and> macs_ok c'"
  proof (cases "find_index (\<lambda>mac. mac = m) (cf_allowed_macs c)")
    case None
    then have "m \<notin> set (cf_allowed_macs c)" by (auto simp: find_index_None_iff)
    then show ?thesis using assms None cm inv
      by (auto simp: app_config_set_allowed_mac_def macs_ok_def config_sizes split: if_splits)
  next
    case (Some i)
    have i: "i < length (cf_allowed_macs c)" "cf_allowed_macs c ! i = m" using Some by auto
    then have mem: "m \<in> set (cf_allowed_macs c)" by auto
    have rem: "set (take i (cf_allowed_macs c) @ drop (Suc i) (cf_allowed_macs c)) = set (cf_allowed_macs c) - {m}"
      by (rule set_remove_at [OF Some inv(1)])
    have "distinct (take i (cf_allowed_macs c) @ drop (Suc i) (cf_allowed_macs c))"
      using inv(1) set_take_disj_set_drop_if_distinct [OF inv(1), of i "Suc i"] by simp
    then show ?thesis using assms Some cm inv i mem rem
      by (cases enabled) (auto simp: app_config_set_allowed_mac_def macs_ok_def config_sizes simp del: set_append)
  qed
  then show "set (cf_allowed_macs c') =
     (if \<not> enabled then set (cf_allowed_macs c) - {m} else if ok then insert m (set (cf_allowed_macs c))
      else set (cf_allowed_macs c))"
    "ok = (\<not> enabled \<or> m \<in> set (cf_allowed_macs c) \<or> length (cf_allowed_macs c) < 128)" "macs_ok c'"
    by blast+
qed

lemma set_allowed_mac_invalid:
  "app_config_normalize_mac APP_CONFIG_ALLOWED_MAC_LEN s = None \<Longrightarrow> app_config_set_allowed_mac c s e = (c, False)"
  by (simp add: app_config_set_allowed_mac_def)

subsection \<open>Normalised configurations\<close>

definition config_ok :: "app_config \<Rightarrow> bool" where
  "config_ok c =
     (trimmed (cf_ssid c) \<and> cf_ssid c \<noteq> '''' \<and> trimmed (cf_hostname c) \<and> cf_hostname c \<noteq> '''' \<and>
      1 \<le> cf_channel c \<and> cf_channel c \<le> 13 \<and>
      trimmed (cf_password c) \<and> (cf_security c = APP_WIFI_SECURITY_OPEN \<longrightarrow> cf_password c = '''') \<and>
      5 \<le> cf_measurement_retention_seconds c \<and> cf_measurement_retention_seconds c \<le> 600 \<and>
      cf_measurement_max_count c \<le> 1000 \<and>
      5 \<le> cf_onewire_poll_interval_seconds c \<and> cf_onewire_poll_interval_seconds c \<le> 300 \<and>
      trimmed (mq_host (cf_mqtt c)) \<and> 0 < mq_port (cf_mqtt c) \<and>
      5 \<le> mq_interval_seconds (cf_mqtt c) \<and> mq_interval_seconds (cf_mqtt c) \<le> 86400 \<and>
      length (cf_allowed_macs c) \<le> 128 \<and> length (cf_device_names c) \<le> 128 \<and>
      (\<forall>d\<in>set (cf_device_names c). name_ok (snd d)))"

lemma clamp_bounds: "lo \<le> hi \<Longrightarrow> lo \<le> clamp lo hi n \<and> clamp lo hi n \<le> hi"
  by (simp add: clamp_def Let_def)

lemma clamp_id: "lo \<le> n \<Longrightarrow> n \<le> hi \<Longrightarrow> clamp lo hi n = n"
  by (simp add: clamp_def)

lemma trimmed_simps [simp]: "trimmed ''''" "trimmed ''BLEBridge''" "trimmed ''blebridge''"
  by (simp_all add: trimmed_def isspace_def)

lemma config_ok_normalize: "config_ok (app_config_normalize c)"
  using clamp_bounds [of 5 600] clamp_bounds [of 5 300] clamp_bounds [of 5 86400] name_ok_stored
  by (auto simp: config_ok_def app_config_normalize_def Let_def config_sizes config_limits stored_name_def
      dest: in_set_takeD)

lemma normalize_config_ok: "config_ok c \<Longrightarrow> app_config_normalize c = c"
proof -
  assume c: "config_ok c"
  have "List.map (\<lambda>(device_id, name). (device_id, stored_name name)) (cf_device_names c) = cf_device_names c"
    using c by (intro map_idI) (auto simp: config_ok_def name_ok_fixed(2))
  then show ?thesis using c
    by (cases c) (simp add: config_ok_def app_config_normalize_def Let_def config_sizes config_limits stored_name_def
        clamp_id trim_trimmed)
qed

subsection \<open>The names as a table\<close>

interpretation sensor_names: keyed_store app_config_set_device_name "\<lambda>c. map_of (cf_device_names c)"
  "\<lambda>n. if stored_name n = '''' then None else Some (stored_name n)" names_ok
proof
  fix s k v
  assume ok: "names_ok s"
  obtain s' r where e: "app_config_set_device_name s k v = (s', r)" by (cases "app_config_set_device_name s k v")
  then show "names_ok (fst (app_config_set_device_name s k v))" using set_device_name_map(3) [OF ok e] by simp
  show "map_of (cf_device_names (fst (app_config_set_device_name s k v))) =
      (if snd (app_config_set_device_name s k v)
       then (map_of (cf_device_names s))(k := if stored_name v = '''' then None else Some (stored_name v))
       else map_of (cf_device_names s))"
    using set_device_name_map(1) [OF ok e] e by simp
qed

subsection \<open>The properties of the configuration record\<close>

text \<open>
  Setting a sensor name is an update of a finite map: the name read back is the cleaned and
  trimmed one, other sensors keep theirs, a full table (128 names) is the only reason for a refusal,
  and the table keeps its invariant (distinct ids, no empty and no over-long name).
\<close>

theorem sensor_name_update:
  assumes "names_ok c" and "app_config_set_device_name c k n = (c', ok)"
  shows "names_ok c' \<and>
    app_config_get_sensor_name c' j = (if ok \<and> j = k then stored_name n else app_config_get_sensor_name c j) \<and>
    (\<not> ok \<longrightarrow> length (cf_device_names c) = 128 \<and> app_config_get_sensor_name c k = '''' \<and> stored_name n \<noteq> '''')"
proof -
  have m: "names_ok c'" "map_of (cf_device_names c') = (if ok
      then (map_of (cf_device_names c))(k := if stored_name n = '''' then None else Some (stored_name n))
      else map_of (cf_device_names c))"
    using sensor_names.put_look [OF assms(1), of k n] sensor_names.put_inv [OF assms(1), of k n] assms(2) by auto
  have "length (cf_device_names c) \<le> 128" using assms(1) by (simp add: names_ok_def config_sizes)
  then have "\<not> ok \<Longrightarrow> length (cf_device_names c) = 128 \<and> map_of (cf_device_names c) k = None \<and> stored_name n \<noteq> ''''"
    using set_device_name_map(2) [OF assms] by linarith
  then show ?thesis using m by (cases ok) (simp_all add: get_sensor_name_map)
qed

theorem sensor_name_update_witness:
  "app_config_get_sensor_name (fst (app_config_set_device_name app_config_defaults 7 '' sauna '')) 7 = stored_name '' sauna ''"
  using sensor_name_update [of app_config_defaults 7 "'' sauna ''" _ _ 7]
  by (cases "app_config_set_device_name app_config_defaults 7 '' sauna ''")
    (auto simp: names_ok_def app_config_defaults_def)

text \<open>
  The list of accepted MAC addresses behaves as a set of canonical addresses: enabling inserts,
  disabling removes, an address that is already there is not stored twice, and only a 129th address is
  refused.
\<close>

theorem allowed_macs_set:
  assumes "macs_ok c" and "app_config_normalize_mac APP_CONFIG_ALLOWED_MAC_LEN s = Some m"
    and "app_config_set_allowed_mac c s enabled = (c', ok)"
  shows "macs_ok c' \<and> canonical_mac m \<and>
    set (cf_allowed_macs c') =
      (if \<not> enabled then set (cf_allowed_macs c) - {m} else if ok then insert m (set (cf_allowed_macs c))
       else set (cf_allowed_macs c)) \<and>
    (ok \<longleftrightarrow> \<not> enabled \<or> m \<in> set (cf_allowed_macs c) \<or> length (cf_allowed_macs c) < 128)"
  using set_allowed_mac_set [OF assms] normalize_mac_canonical(1) [OF assms(2)] by simp

theorem allowed_macs_set_witness:
  "set (cf_allowed_macs (fst (app_config_set_allowed_mac app_config_defaults ''a4:c1:38:00:11:fe'' True))) = {''A4C1380011FE''}"
proof -
  have "app_config_normalize_mac APP_CONFIG_ALLOWED_MAC_LEN ''a4:c1:38:00:11:fe'' = Some ''A4C1380011FE''"
    by code_simp
  then show ?thesis
    using allowed_macs_set [of app_config_defaults "''a4:c1:38:00:11:fe''" "''A4C1380011FE''" True]
    by (cases "app_config_set_allowed_mac app_config_defaults ''a4:c1:38:00:11:fe'' True")
      (auto simp: macs_ok_def app_config_defaults_def)
qed

text \<open>
  Normalisation brings every field into its range (channel 1 to 13, the time limits, non-empty
  names, no password on an open network, at most 128 addresses and names) and is idempotent.
\<close>

theorem normalize_idempotent:
  "app_config_normalize (app_config_normalize c) = app_config_normalize c \<and> config_ok (app_config_normalize c)"
  using config_ok_normalize normalize_config_ok by blast

end
