(* ===== verification/Network_Start.thy ===== *)
theory Network_Start
  imports App_Config C_Text
begin

text \<open>
  \<^verbatim>\<open>BLEBridge.c\<close> up to the network: the search for a USB host, the access point, and joining a network with
  its deadline and its retries.  The file only calls other parts, so its model is the sequence of these calls
  with their arguments and times; a board answers them and says how the outside world moves on.
\<close>

subsection \<open>Constants\<close>

definition WIFI_CONNECT_TIMEOUT_MS :: nat where "WIFI_CONNECT_TIMEOUT_MS = 30000"
definition NARODMON_SEND_INTERVAL_MS :: nat where "NARODMON_SEND_INTERVAL_MS = 5 * 60 * 1000"
definition POLL_INTERVAL_MS :: nat where "POLL_INTERVAL_MS = 50"
definition USB_HOST_DETECT_TIMEOUT_MS :: nat where "USB_HOST_DETECT_TIMEOUT_MS = 1500"
definition WIFI_CONNECT_LED_BLINK_MS :: nat where "WIFI_CONNECT_LED_BLINK_MS = 100"
definition REBOOT_DELAY_MS :: nat where "REBOOT_DELAY_MS = 1000"
definition WATCHDOG_TIMEOUT_MS :: nat where "WATCHDOG_TIMEOUT_MS = 8388"

text \<open>The constants of the Wi-Fi driver.\<close>

definition CYW43_LINK_DOWN :: int where "CYW43_LINK_DOWN = 0"
definition CYW43_LINK_JOIN :: int where "CYW43_LINK_JOIN = 1"
definition CYW43_LINK_NOIP :: int where "CYW43_LINK_NOIP = 2"
definition CYW43_LINK_UP :: int where "CYW43_LINK_UP = 3"
definition CYW43_LINK_FAIL :: int where "CYW43_LINK_FAIL = -1"
definition CYW43_LINK_NONET :: int where "CYW43_LINK_NONET = -2"
definition CYW43_LINK_BADAUTH :: int where "CYW43_LINK_BADAUTH = -3"
definition CYW43_AUTH_OPEN :: nat where "CYW43_AUTH_OPEN = 0"
definition CYW43_AUTH_WPA2_AES_PSK :: nat where "CYW43_AUTH_WPA2_AES_PSK = 0x00400004"

subsection \<open>The calls\<close>

text \<open>
  Every call of \<^verbatim>\<open>BLEBridge.c\<close> that has an effect, to the SDK and its drivers and to the components of the
  firmware, with the arguments the program computes; pointers to its static servers, the network interface and
  the SDK's objects are left out, and so are \<^verbatim>\<open>cyw43_arch_lwip_begin\<close> and \<^verbatim>\<open>_end\<close>, which lock nothing in poll mode.
\<close>

datatype call =
  Cyw43_Arch_Init | Watchdog_Enable nat | Watchdog_Update | Watchdog_Reboot | Sleep_Ms nat | Status_Led_Set bool
| Tusb_Init | Tud_Task | Tud_Deinit
| Cyw43_Arch_Poll | Cyw43_Arch_Wait_For_Work_Until nat
| Cyw43_Arch_Wifi_Connect_Async string "string option" nat | Cyw43_Wifi_Pm_None
| Cyw43_Arch_Enable_Sta_Mode | Cyw43_Wifi_Ap_Set_Channel nat | Cyw43_Arch_Enable_Ap_Mode string "string option" nat
| Netif_Set_Hostname string | Dhcp_Server_Init | Dns_Server_Init | Httpd_Init | App_Web_Register_Http_Handlers
| App_Runtime_Config_Load | App_Log_Init | App_Log string
| App_Web_Init | App_Web_Poll u32 | App_Web_Set_Cpu_Load u8 | App_Web_Set_Narodmon_Seconds_Remaining u32
| Measurement_Store_Init u32 | Measurement_Store_Configure nat nat | Measurement_Store_Periodic u32
| Ble_Scanner_Init | Ble_Scanner_Apply_Config app_config | Ble_Scanner_Periodic u32
| Onewire_Source_Init | Onewire_Source_Apply_Config app_config | Onewire_Source_Periodic u32
| App_Mqtt_Apply_Config app_mqtt_config | App_Mqtt_Poll u32
| App_Narodmon_Poll u32 | App_Narodmon_Start_Send

text \<open>
  What the program sees of the board, the network and the other components: the clock in microseconds,
  what can be read, and what a call does to them and answers (0 or \<^verbatim>\<open>false\<close>, or an error number).
  \<^verbatim>\<open>runtime_config\<close> is the answer of \<^verbatim>\<open>app_runtime_config_get\<close>: the HTTP handlers change it while
  \<^verbatim>\<open>cyw43_arch_poll\<close> runs.
\<close>

record 'w board =
  clock :: "'w \<Rightarrow> nat"
  link_status :: "'w \<Rightarrow> int"
  usb_host_seen :: "'w \<Rightarrow> bool"
  watchdog_caused_reboot :: "'w \<Rightarrow> bool"
  runtime_config :: "'w \<Rightarrow> app_config"
  address_text :: "'w \<Rightarrow> string"
  firmware_build_version :: string
  perform :: "call \<Rightarrow> 'w \<Rightarrow> 'w \<times> int"

text \<open>The world and the calls so far with the time of each.\<close>

record 'w bridge =
  br_world :: 'w
  br_calls :: "(nat \<times> call) list"

definition now :: "'w board \<Rightarrow> 'w bridge \<Rightarrow> nat" where
  "now bd b = clock bd (br_world b)"

definition ask :: "'w board \<Rightarrow> call \<Rightarrow> 'w bridge \<Rightarrow> 'w bridge \<times> int" where
  "ask bd c b = (case perform bd c (br_world b) of (w, r) \<Rightarrow> (\<lparr>br_world = w, br_calls = br_calls b @ [(now bd b, c)]\<rparr>, r))"

definition tell :: "'w board \<Rightarrow> call \<Rightarrow> 'w bridge \<Rightarrow> 'w bridge" where
  "tell bd c b = fst (ask bd c b)"

definition make_timeout_time_ms :: "'w board \<Rightarrow> nat \<Rightarrow> 'w bridge \<Rightarrow> nat" where
  "make_timeout_time_ms bd ms b = now bd b + ms * 1000"

definition time_reached :: "'w board \<Rightarrow> nat \<Rightarrow> 'w bridge \<Rightarrow> bool" where
  "time_reached bd t b \<longleftrightarrow> now bd b \<ge> t"

definition absolute_time_diff_us :: "nat \<Rightarrow> nat \<Rightarrow> int" where
  "absolute_time_diff_us from_time to_time = int to_time - int from_time"

definition to_ms_since_boot :: "nat \<Rightarrow> u32" where
  "to_ms_since_boot t = word_of_nat (t div 1000)"

definition reboot_after_log :: "'w board \<Rightarrow> string \<Rightarrow> 'w bridge \<Rightarrow> 'w bridge" where
  "reboot_after_log bd reason b = tell bd Watchdog_Reboot (tell bd (Sleep_Ms REBOOT_DELAY_MS) (tell bd (App_Log reason) b))"

text \<open>
  A \<^verbatim>\<open>while\<close> loop by its turns: \<open>Inl\<close> leaves it with a result, \<open>Inr\<close> goes on.  A loop that never ends
  has the value \<open>None\<close>.
\<close>

partial_function (option) loop :: "('s \<Rightarrow> 'r + 's) \<Rightarrow> 's \<Rightarrow> 'r option" where
  "loop turn s = (case turn s of Inl r \<Rightarrow> Some r | Inr s' \<Rightarrow> loop turn s')"

lemma loop_invariant:
  fixes turn :: "'s \<Rightarrow> 'r + 's"
  assumes "loop turn s = Some r" "I s" "\<And>s s'. I s \<Longrightarrow> turn s = Inr s' \<Longrightarrow> I s'"
  shows "\<exists>s'. I s' \<and> turn s' = Inl r"
proof -
  have "(\<forall>s s'. I s \<longrightarrow> turn s = Inr s' \<longrightarrow> I s') \<longrightarrow> I s \<longrightarrow> (\<exists>s'. I s' \<and> turn s' = Inl r)"
  proof (rule loop.raw_induct [OF _ assms(1), where P = "\<lambda>turn s r. (\<forall>s s'. I s \<longrightarrow> turn s = Inr s' \<longrightarrow> I s') \<longrightarrow> I s \<longrightarrow> (\<exists>s'. I s' \<and> turn s' = Inl r)"])
    fix self :: "('s \<Rightarrow> 'r + 's) \<Rightarrow> 's \<Rightarrow> 'r option" and turn s r
    assume hyp: "\<And>turn s r. self turn s = Some r \<Longrightarrow>
        (\<forall>s s'. I s \<longrightarrow> turn s = Inr s' \<longrightarrow> I s') \<longrightarrow> I s \<longrightarrow> (\<exists>s'. I s' \<and> turn s' = Inl r)"
      and step: "(case turn s of Inl r \<Rightarrow> Some r | Inr s' \<Rightarrow> self turn s') = Some r"
    show "(\<forall>s s'. I s \<longrightarrow> turn s = Inr s' \<longrightarrow> I s') \<longrightarrow> I s \<longrightarrow> (\<exists>s'. I s' \<and> turn s' = Inl r)"
      using step hyp by (cases "turn s") auto
  qed
  then show ?thesis using assms(2,3) by blast
qed

lemma loop_ends:
  assumes "I s" "\<And>s s'. I s \<Longrightarrow> turn s = Inr s' \<Longrightarrow> I s' \<and> measure_of s' < (measure_of s :: nat)"
  shows "\<exists>r. loop turn s = Some r"
  using assms(1)
proof (induction "measure_of s" arbitrary: s rule: less_induct)
  case less
  show ?case
  proof (cases "turn s")
    case (Inl r)
    then show ?thesis by (subst loop.simps) simp
  next
    case (Inr s')
    then have "\<exists>r. loop turn s' = Some r" using less assms(2) by blast
    then show ?thesis using Inr by (subst loop.simps) simp
  qed
qed

subsection \<open>USB at boot\<close>

text \<open>A turn of the loop: \<open>Inl\<close> leaves it with the answer, \<open>Inr\<close> goes on.\<close>

definition usb_turn :: "'w board \<Rightarrow> nat \<Rightarrow> 'w bridge \<Rightarrow> ('w bridge \<times> bool) + 'w bridge" where
  "usb_turn bd deadline b =
     (if time_reached bd deadline b then Inl (tell bd Tud_Deinit b, False)
      else (let b = tell bd Cyw43_Arch_Poll (tell bd Tud_Task (tell bd Watchdog_Update b))
            in if usb_host_seen bd (br_world b) then Inl (b, True) else Inr (tell bd (Sleep_Ms 1) b)))"

definition usb_host_present_at_boot :: "'w board \<Rightarrow> 'w bridge \<Rightarrow> ('w bridge \<times> bool) option" where
  "usb_host_present_at_boot bd b =
     (let deadline = make_timeout_time_ms bd USB_HOST_DETECT_TIMEOUT_MS b
      in case ask bd Tusb_Init (tell bd (Status_Led_Set False) b) of
           (b1, ok) \<Rightarrow> if ok = 0 then Some (b1, False) else loop (usb_turn bd deadline) b1)"

text \<open>A turn of the loop of \<^verbatim>\<open>run_usb_mass_storage_mode\<close>, which never ends.\<close>

definition usb_mass_storage_turn :: "'w board \<Rightarrow> 'w bridge \<Rightarrow> 'w bridge" where
  "usb_mass_storage_turn bd b =
     tell bd (Sleep_Ms 1) (tell bd Cyw43_Arch_Poll (tell bd Tud_Task (tell bd Watchdog_Update b)))"

subsection \<open>Wi-Fi\<close>

definition app_config_to_cyw43_auth :: "app_wifi_security \<Rightarrow> nat" where
  "app_config_to_cyw43_auth security =
     (if security = APP_WIFI_SECURITY_WPA2 then CYW43_AUTH_WPA2_AES_PSK else CYW43_AUTH_OPEN)"

definition wifi_link_status_name :: "int \<Rightarrow> string" where
  "wifi_link_status_name status =
     (if status = CYW43_LINK_DOWN then ''DOWN''
      else if status = CYW43_LINK_JOIN then ''JOIN''
      else if status = CYW43_LINK_NOIP then ''NOIP''
      else if status = CYW43_LINK_UP then ''UP''
      else if status = CYW43_LINK_FAIL then ''FAIL''
      else if status = CYW43_LINK_NONET then ''NONET''
      else if status = CYW43_LINK_BADAUTH then ''BADAUTH''
      else ''UNKNOWN'')"

record wifi_vars =
  wv_next_blink :: nat
  wv_led_on :: bool
  wv_previous_link_status :: int

definition blink :: "'w board \<Rightarrow> wifi_vars \<Rightarrow> 'w bridge \<Rightarrow> wifi_vars \<times> 'w bridge" where
  "blink bd v b =
     (if absolute_time_diff_us (wv_next_blink v) (now bd b) \<le> 0
      then (let led_on = \<not> wv_led_on v; b1 = tell bd (Status_Led_Set led_on) b
            in (v\<lparr>wv_led_on := led_on, wv_next_blink := make_timeout_time_ms bd WIFI_CONNECT_LED_BLINK_MS b1\<rparr>, b1))
      else (v, b))"

definition log_link :: "'w board \<Rightarrow> int \<Rightarrow> wifi_vars \<Rightarrow> 'w bridge \<Rightarrow> wifi_vars \<times> 'w bridge" where
  "log_link bd status v b =
     (if status \<noteq> wv_previous_link_status v
      then (v\<lparr>wv_previous_link_status := status\<rparr>,
            tell bd (App_Log (''Wi-Fi state: '' @ wifi_link_status_name status @ '' ('' @ show_int status @ '')'')) b)
      else (v, b))"

text \<open>
  The name and the password are pointers into the configuration of the moment: functions of the world.
\<close>

definition join_call :: "('w \<Rightarrow> string) \<Rightarrow> ('w \<Rightarrow> string) option \<Rightarrow> nat \<Rightarrow> 'w bridge \<Rightarrow> call" where
  "join_call ssid password auth b =
     Cyw43_Arch_Wifi_Connect_Async (ssid (br_world b)) (map_option (\<lambda>p. p (br_world b)) password) auth"

text \<open>A turn of the loop of \<^verbatim>\<open>connect_wifi_with_blink\<close>: \<open>Inl\<close> is a return.\<close>

definition connect_turn ::
  "'w board \<Rightarrow> ('w \<Rightarrow> string) \<Rightarrow> ('w \<Rightarrow> string) option \<Rightarrow> nat \<Rightarrow> nat \<Rightarrow> nat \<Rightarrow> wifi_vars \<times> 'w bridge \<Rightarrow> ('w bridge \<times> bool) + (wifi_vars \<times> 'w bridge)" where
  "connect_turn bd ssid password auth timeout_ms deadline s =
     (case s of (v, b) \<Rightarrow>
        if time_reached bd deadline b
        then Inl (tell bd (Status_Led_Set False)
                   (tell bd (App_Log (''Wi-Fi connection timed out after '' @ show_nat timeout_ms @ '' ms; final state='' @
                      wifi_link_status_name (wv_previous_link_status v) @ '' ('' @ show_int (wv_previous_link_status v) @ '')'')) b), False)
        else
          case blink bd v (tell bd Cyw43_Arch_Poll (tell bd Watchdog_Update b)) of
            (v, b) \<Rightarrow>
              let status = link_status bd (br_world b)
              in case log_link bd status v b of
                   (v, b) \<Rightarrow>
                     if status = CYW43_LINK_UP then Inl (tell bd (Status_Led_Set False) b, True)
                     else if status = CYW43_LINK_BADAUTH \<or> status = CYW43_LINK_FAIL
                          then Inl (tell bd (Status_Led_Set False) b, False)
                     else (let wait = (\<lambda>b. tell bd (Cyw43_Arch_Wait_For_Work_Until (make_timeout_time_ms bd POLL_INTERVAL_MS b)) b)
                           in if status = CYW43_LINK_NONET
                              then (case ask bd (join_call ssid password auth b) b of
                                      (b, err) \<Rightarrow>
                                        if err \<noteq> 0
                                        then Inl (tell bd (Status_Led_Set False)
                                                    (tell bd (App_Log (''Wi-Fi retry failed: error='' @ show_int err)) b), False)
                                        else Inr (v, wait b))
                              else Inr (v, wait b)))"

definition connect_wifi_with_blink ::
  "'w board \<Rightarrow> ('w \<Rightarrow> string) \<Rightarrow> ('w \<Rightarrow> string) option \<Rightarrow> nat \<Rightarrow> nat \<Rightarrow> 'w bridge \<Rightarrow> ('w bridge \<times> bool) option" where
  "connect_wifi_with_blink bd ssid password auth timeout_ms b =
     (let deadline = make_timeout_time_ms bd timeout_ms b;
          v = \<lparr>wv_next_blink = now bd b, wv_led_on = False, wv_previous_link_status = CYW43_LINK_UP + 1\<rparr>
      in case ask bd (join_call ssid password auth b) b of
           (b1, err) \<Rightarrow>
             if err \<noteq> 0
             then Some (tell bd (Status_Led_Set False)
                         (tell bd (App_Log (''Wi-Fi connection start failed: error='' @ show_int err)) b1), False)
             else loop (connect_turn bd ssid password auth timeout_ms deadline) (v, tell bd (Status_Led_Set False) b1))"

definition disable_wifi_power_save :: "'w board \<Rightarrow> 'w bridge \<Rightarrow> 'w bridge \<times> bool" where
  "disable_wifi_power_save bd b =
     (case ask bd Cyw43_Wifi_Pm_None b of
        (b1, err) \<Rightarrow>
          if err \<noteq> 0 then (tell bd (App_Log (''Unable to disable Wi-Fi power saving: error='' @ show_int err)) b1, False)
          else (b1, True))"

definition quoted_text :: "string \<Rightarrow> string" where
  "quoted_text s = [CHR 0x27] @ s @ [CHR 0x27]"

text \<open>What \<^verbatim>\<open>app_runtime_config_get\<close> points to, at the moment it is read.\<close>

definition config_of :: "'w board \<Rightarrow> 'w bridge \<Rightarrow> app_config" where
  "config_of bd b = runtime_config bd (br_world b)"

definition ssid_pointer :: "'w board \<Rightarrow> 'w \<Rightarrow> string" where
  "ssid_pointer bd w = cf_ssid (runtime_config bd w)"

definition password_pointer :: "'w board \<Rightarrow> 'w bridge \<Rightarrow> ('w \<Rightarrow> string) option" where
  "password_pointer bd b = (if cf_password (config_of bd b) \<noteq> [] then Some (\<lambda>w. cf_password (runtime_config bd w)) else None)"

definition log_address :: "'w board \<Rightarrow> string \<Rightarrow> 'w bridge \<Rightarrow> 'w bridge" where
  "log_address bd message b = tell bd (App_Log (message @ address_text bd (br_world b))) b"

definition init_client :: "'w board \<Rightarrow> nat \<Rightarrow> 'w bridge \<Rightarrow> ('w bridge \<times> bool) option" where
  "init_client bd auth b =
     (case disable_wifi_power_save bd (tell bd Cyw43_Arch_Enable_Sta_Mode (tell bd (Netif_Set_Hostname (cf_hostname (config_of bd b))) b)) of
        (b1, ok) \<Rightarrow>
          if \<not> ok then Some (b1, False)
          else (let b2 = tell bd (App_Log (''Connecting to Wi-Fi network '' @ quoted_text (cf_ssid (config_of bd b1)) @ '' ('' @
                            app_config_security_name (cf_security (config_of bd b1)) @ '')'')) b1
                in case connect_wifi_with_blink bd (ssid_pointer bd) (password_pointer bd b2) auth WIFI_CONNECT_TIMEOUT_MS b2 of
                     None \<Rightarrow> None
                   | Some (b3, ok) \<Rightarrow>
                       if \<not> ok then Some (tell bd (App_Log ''Wi-Fi connection failed'') b3, False)
                       else Some (log_address bd ''Wi-Fi connected, IP address is '' b3, True)))"

definition init_access_point :: "'w board \<Rightarrow> nat \<Rightarrow> 'w bridge \<Rightarrow> 'w bridge \<times> bool" where
  "init_access_point bd auth b =
     (let b1 = tell bd (Cyw43_Wifi_Ap_Set_Channel (cf_channel (config_of bd b))) b;
          b2 = tell bd (App_Log (''Enabling Wi-Fi access point '' @ quoted_text (cf_ssid (config_of bd b1)) @ '' on channel '' @
                 show_nat (cf_channel (config_of bd b1)) @ '' ('' @ app_config_security_name (cf_security (config_of bd b1)) @ '')'')) b1;
          b3 = tell bd (Cyw43_Arch_Enable_Ap_Mode (cf_ssid (config_of bd b2))
                 (map_option (\<lambda>p. p (br_world b2)) (password_pointer bd b2)) auth) b2
      in case disable_wifi_power_save bd b3 of
           (b4, ok) \<Rightarrow>
             if \<not> ok then (b4, False)
             else (log_address bd ''Wi-Fi access point active, IP address is ''
                     (tell bd Dns_Server_Init (tell bd Dhcp_Server_Init (tell bd (Netif_Set_Hostname (cf_hostname (config_of bd b4))) b4))), True))"

definition init_network_services :: "'w board \<Rightarrow> 'w bridge \<Rightarrow> ('w bridge \<times> bool) option" where
  "init_network_services bd b =
     (let config = config_of bd b; auth = app_config_to_cyw43_auth (cf_security config)
      in if cf_security config = APP_WIFI_SECURITY_WPA2 \<and> length (cf_password config) < 8
         then Some (tell bd (App_Log ''Invalid configuration: WPA2 requires password length of at least 8 characters'') b, False)
         else if cf_mode config = APP_WIFI_MODE_CLIENT then init_client bd auth b
         else Some (init_access_point bd auth b))"

definition reconnect_client_network :: "'w board \<Rightarrow> 'w bridge \<Rightarrow> ('w bridge \<times> bool) option" where
  "reconnect_client_network bd b =
     (let auth = app_config_to_cyw43_auth (cf_security (config_of bd b))
      in case disable_wifi_power_save bd (tell bd Cyw43_Arch_Enable_Sta_Mode
                (tell bd (App_Log (''Wi-Fi link lost, attempting reconnect to '' @ quoted_text (cf_ssid (config_of bd b)))) b)) of
           (b1, ok) \<Rightarrow>
             if \<not> ok then Some (b1, False)
             else (case connect_wifi_with_blink bd (ssid_pointer bd) (password_pointer bd b1) auth WIFI_CONNECT_TIMEOUT_MS b1 of
                     None \<Rightarrow> None
                   | Some (b2, ok) \<Rightarrow>
                       if \<not> ok then Some (tell bd (App_Log ''Wi-Fi reconnect failed'') b2, False)
                       else Some (log_address bd ''Wi-Fi reconnected, IP address is '' b2, True)))"

subsection \<open>Lemmas\<close>

lemma fst_ask [simp]: "fst (ask bd c b) = tell bd c b"
  by (simp add: tell_def)

lemma ask_tell: "ask bd c b = (b', r) \<Longrightarrow> b' = tell bd c b"
  by (simp add: tell_def)

lemma tell_simps [simp]:
  "br_calls (tell bd c b) = br_calls b @ [(now bd b, c)]" "br_world (tell bd c b) = fst (perform bd c (br_world b))"
  by (simp_all add: tell_def ask_def split: prod.split)

text \<open>\<open>J\<close> is kept by the calls with \<open>P\<close>.\<close>

definition keeps :: "'w board \<Rightarrow> (call \<Rightarrow> bool) \<Rightarrow> ('w bridge \<Rightarrow> bool) \<Rightarrow> bool" where
  "keeps bd P J \<longleftrightarrow> (\<forall>c b. P c \<longrightarrow> J b \<longrightarrow> J (tell bd c b))"

lemma keptD: "keeps bd P J \<Longrightarrow> P c \<Longrightarrow> J b \<Longrightarrow> J (tell bd c b)"
  by (simp add: keeps_def)

text \<open>The calls of the network part.\<close>

fun network_call :: "call \<Rightarrow> bool" where
  "network_call Watchdog_Update = True"
| "network_call (Status_Led_Set on) = True"
| "network_call (App_Log m) = True"
| "network_call Cyw43_Arch_Poll = True"
| "network_call (Cyw43_Arch_Wait_For_Work_Until t) = True"
| "network_call (Cyw43_Arch_Wifi_Connect_Async s p a) = True"
| "network_call Cyw43_Wifi_Pm_None = True"
| "network_call Cyw43_Arch_Enable_Sta_Mode = True"
| "network_call (Cyw43_Wifi_Ap_Set_Channel n) = True"
| "network_call (Cyw43_Arch_Enable_Ap_Mode s p a) = True"
| "network_call (Netif_Set_Hostname n) = True"
| "network_call Dhcp_Server_Init = True"
| "network_call Dns_Server_Init = True"
| "network_call _ = False"

lemma join_network_call [simp]: "network_call (join_call s p a b)" "join_call s p a b \<noteq> Status_Led_Set on"
  by (simp_all add: join_call_def)

lemma blink_kept: "keeps bd network_call J \<Longrightarrow> J b \<Longrightarrow> J (snd (blink bd v b))"
  by (simp add: blink_def Let_def keptD)

lemma log_link_kept: "keeps bd network_call J \<Longrightarrow> J b \<Longrightarrow> J (snd (log_link bd status v b))"
  by (simp add: log_link_def keptD)

lemma connect_turn_kept:
  assumes k: "keeps bd network_call J" and "J (snd s)"
  shows "connect_turn bd ssid pw auth ms deadline s = Inl r \<Longrightarrow> J (fst r)"
    and "connect_turn bd ssid pw auth ms deadline s = Inr s' \<Longrightarrow> now bd (snd s) < deadline"
    and "connect_turn bd ssid pw auth ms deadline s = Inr s' \<Longrightarrow>
      (\<And>t b1. J b1 \<Longrightarrow> Q (tell bd (Cyw43_Arch_Wait_For_Work_Until t) b1)) \<Longrightarrow> Q (snd s')"
  using assms(2)
  by (auto simp: connect_turn_def Let_def case_prod_beta keptD [OF k] blink_kept [OF k] log_link_kept [OF k]
      time_reached_def split: if_splits)

lemma connect_turn_keeps:
  "keeps bd network_call J \<Longrightarrow> J (snd s) \<Longrightarrow> connect_turn bd ssid pw auth ms deadline s = Inr s' \<Longrightarrow> J (snd s')"
  using connect_turn_kept(3) [of bd J s ssid pw auth ms deadline s' J] by (simp add: keptD)

text \<open>The last call switches the LED off, and the answer is \<^verbatim>\<open>true\<close> only when the link was up.\<close>

lemma connect_turn_result:
  assumes k: "keeps bd network_call J" and "J (snd s)" and "connect_turn bd ssid pw auth ms deadline s = Inl r"
  shows "\<exists>b1. fst r = tell bd (Status_Led_Set False) b1 \<and>
    (snd r \<longrightarrow> (\<exists>b2 v. J b2 \<and> link_status bd (br_world b2) = CYW43_LINK_UP \<and> b1 = snd (log_link bd CYW43_LINK_UP v b2)))"
  using assms(2,3)
  by (auto simp: connect_turn_def Let_def case_prod_beta keptD [OF k] blink_kept [OF k] split: if_splits)
    (metis blink_kept [OF k] keptD [OF k] network_call.simps(1,4))

lemma connect_kept:
  assumes k: "keeps bd network_call J" and "J b"
    and "connect_wifi_with_blink bd ssid pw auth ms b = Some r"
  shows "J (fst r)"
proof (cases "snd (ask bd (join_call ssid pw auth b) b) = 0")
  case False
  then show ?thesis using assms(2,3)
    by (auto simp: connect_wifi_with_blink_def Let_def case_prod_beta keptD [OF k])
next
  case True
  let ?turn = "connect_turn bd ssid pw auth ms (make_timeout_time_ms bd ms b)"
  obtain v where "loop ?turn (v, tell bd (Status_Led_Set False) (tell bd (join_call ssid pw auth b) b)) = Some r"
    using assms(3) True by (auto simp: connect_wifi_with_blink_def Let_def case_prod_beta)
  moreover have "J (snd (v, tell bd (Status_Led_Set False) (tell bd (join_call ssid pw auth b) b)))"
    using assms(2) by (simp add: keptD [OF k])
  ultimately have "\<exists>s. J (snd s) \<and> ?turn s = Inl r"
    by (rule loop_invariant) (rule connect_turn_keeps [OF k])
  then show ?thesis using connect_turn_kept(1) [OF k] by blast
qed

lemma power_save_kept: "keeps bd network_call J \<Longrightarrow> disable_wifi_power_save bd b = (b', ok) \<Longrightarrow> J b \<Longrightarrow> J b'"
  by (auto simp: disable_wifi_power_save_def case_prod_beta keptD split: if_splits)

lemma log_address_kept: "keeps bd network_call J \<Longrightarrow> J b \<Longrightarrow> J (log_address bd m b)"
  by (simp add: log_address_def keptD)

lemma connected_kept:
  assumes k: "keeps bd network_call J" and "J b"
    and "(case connect_wifi_with_blink bd ssid pw auth ms b of
            None \<Rightarrow> None
          | Some (b2, ok) \<Rightarrow> if \<not> ok then Some (tell bd (App_Log m) b2, False) else Some (log_address bd m' b2, True)) = Some r"
  shows "J (fst r)"
proof (cases "connect_wifi_with_blink bd ssid pw auth ms b")
  case None
  then show ?thesis using assms(3) by simp
next
  case (Some r')
  then have "J (fst r')" by (rule connect_kept [OF assms(1,2)])
  then show ?thesis using assms(3) Some by (cases r'; cases "snd r'") (auto simp: keptD [OF k] log_address_kept [OF k])
qed

lemma reconnect_kept:
  assumes k: "keeps bd network_call J" and "J b" and r: "reconnect_client_network bd b = Some r"
  shows "J (fst r)"
proof -
  obtain m where m: "''Wi-Fi link lost, attempting reconnect to '' @ quoted_text (cf_ssid (config_of bd b)) = m" by blast
  obtain b1 ok where d: "disable_wifi_power_save bd (tell bd Cyw43_Arch_Enable_Sta_Mode (tell bd (App_Log m) b)) = (b1, ok)"
    by fastforce
  have j: "J b1" by (rule power_save_kept [OF k d]) (use assms(2) in \<open>simp add: keptD [OF k]\<close>)
  show ?thesis
  proof (cases ok)
    case True
    then have n: "\<not> \<not> ok" by simp
    show ?thesis
      by (rule connected_kept [OF k j]) (rule r [unfolded reconnect_client_network_def Let_def m d prod.case if_not_P [OF n]])
  next
    case False
    then show ?thesis using j r unfolding reconnect_client_network_def Let_def m d prod.case by auto
  qed
qed

lemma init_client_kept:
  assumes k: "keeps bd network_call J" and "J b" and r: "init_client bd auth b = Some r"
  shows "J (fst r)"
proof -
  obtain b1 ok where d: "disable_wifi_power_save bd (tell bd Cyw43_Arch_Enable_Sta_Mode (tell bd (Netif_Set_Hostname (cf_hostname (config_of bd b))) b)) = (b1, ok)"
    by fastforce
  have j: "J b1" by (rule power_save_kept [OF k d]) (use assms(2) in \<open>simp add: keptD [OF k]\<close>)
  obtain m where m: "''Connecting to Wi-Fi network '' @ quoted_text (cf_ssid (config_of bd b1)) @ '' ('' @
      app_config_security_name (cf_security (config_of bd b1)) @ '')'' = m" by blast
  have j2: "J (tell bd (App_Log m) b1)" using j by (simp add: keptD [OF k])
  show ?thesis
  proof (cases ok)
    case True
    then have n: "\<not> \<not> ok" by simp
    show ?thesis
      by (rule connected_kept [OF k j2]) (rule r [unfolded init_client_def Let_def d prod.case m if_not_P [OF n]])
  next
    case False
    then show ?thesis using j r unfolding init_client_def Let_def d prod.case by auto
  qed
qed

lemma init_access_point_kept:
  assumes k: "keeps bd network_call J" and "J b"
  shows "J (fst (init_access_point bd auth b))"
proof -
  have "J (fst (disable_wifi_power_save bd b))" if "J b" for b
    using power_save_kept [OF k, of b "fst (disable_wifi_power_save bd b)" "snd (disable_wifi_power_save bd b)"] that by simp
  then show ?thesis
    using assms(2) by (simp add: init_access_point_def Let_def case_prod_beta keptD [OF k] log_address_kept [OF k])
qed

lemma init_network_kept:
  assumes k: "keeps bd network_call J" and "J b" and r: "init_network_services bd b = Some r"
  shows "J (fst r)"
proof (cases "cf_security (config_of bd b) = APP_WIFI_SECURITY_WPA2 \<and> length (cf_password (config_of bd b)) < 8")
  case True
  then show ?thesis using r assms(2) unfolding init_network_services_def Let_def if_P [OF True] by (auto simp: keptD [OF k])
next
  case False
  then show ?thesis
    using r assms(2) init_client_kept [OF k] init_access_point_kept [OF k]
    unfolding init_network_services_def Let_def if_not_P [OF False] by (auto split: if_splits)
qed

subsection \<open>The clock\<close>

text \<open>
  The clock does not run backwards; waiting for work and starting a connection take time, and \<^verbatim>\<open>sleep_ms\<close>
  takes the time it is told.
\<close>

definition steady_clock :: "'w board \<Rightarrow> bool" where
  "steady_clock bd \<longleftrightarrow>
     (\<forall>c w. clock bd w \<le> clock bd (fst (perform bd c w))) \<and>
     (\<forall>t w. clock bd w < clock bd (fst (perform bd (Cyw43_Arch_Wait_For_Work_Until t) w))) \<and>
     (\<forall>s p a w. clock bd w < clock bd (fst (perform bd (Cyw43_Arch_Wifi_Connect_Async s p a) w))) \<and>
     (\<forall>ms w. clock bd w + ms * 1000 \<le> clock bd (fst (perform bd (Sleep_Ms ms) w)))"

lemma steady:
  assumes "steady_clock bd"
  shows "now bd b \<le> now bd (tell bd c b)" "now bd b < now bd (tell bd (Cyw43_Arch_Wait_For_Work_Until t) b)"
    and "now bd b < now bd (tell bd (join_call s p' a b') b)" "now bd b + ms * 1000 \<le> now bd (tell bd (Sleep_Ms ms) b)"
  using assms unfolding steady_clock_def now_def join_call_def by auto

lemma now_kept: "steady_clock bd \<Longrightarrow> keeps bd P (\<lambda>b. t \<le> now bd b)"
  unfolding keeps_def using steady(1) le_trans by blast

lemma connect_turn_later:
  assumes "steady_clock bd" "connect_turn bd ssid pw auth ms deadline s = Inr s'"
  shows "deadline - now bd (snd s') < deadline - now bd (snd s)"
proof -
  have k: "keeps bd network_call (\<lambda>b. now bd (snd s) \<le> now bd b)" by (rule now_kept [OF assms(1)])
  have "now bd (snd s) < deadline" by (rule connect_turn_kept(2) [OF k order.refl assms(2)])
  moreover have "now bd (snd s) < now bd (snd s')"
    using connect_turn_kept(3) [OF k order.refl assms(2), of "\<lambda>b. now bd (snd s) < now bd b"]
    by (meson assms(1) le_less_trans steady(2))
  ultimately show ?thesis by simp
qed

lemma connect_ends:
  assumes "steady_clock bd"
  shows "\<exists>r. connect_wifi_with_blink bd ssid pw auth ms b = Some r"
proof -
  have "\<exists>r. loop (connect_turn bd ssid pw auth ms deadline) s = Some r" for deadline s
    by (rule loop_ends [where I = "\<lambda>s. True" and measure_of = "\<lambda>s. deadline - now bd (snd s)"])
      (simp_all add: connect_turn_later [OF assms])
  moreover obtain b1 err where "ask bd (join_call ssid pw auth b) b = (b1, err)" by fastforce
  ultimately show ?thesis
    by (cases "err = 0") (simp_all add: connect_wifi_with_blink_def Let_def del: split_paired_Ex)
qed

lemma connect_result:
  assumes k: "keeps bd network_call J" and "J b" and "connect_wifi_with_blink bd ssid pw auth ms b = Some r"
  shows "\<exists>b1. fst r = tell bd (Status_Led_Set False) b1 \<and>
    (snd r \<longrightarrow> (\<exists>b2 v. J b2 \<and> link_status bd (br_world b2) = CYW43_LINK_UP \<and> b1 = snd (log_link bd CYW43_LINK_UP v b2)))"
proof (cases "snd (ask bd (join_call ssid pw auth b) b) = 0")
  case False
  then show ?thesis using assms(2,3)
    by (auto simp: connect_wifi_with_blink_def Let_def case_prod_beta)
next
  case True
  let ?turn = "connect_turn bd ssid pw auth ms (make_timeout_time_ms bd ms b)"
  obtain v where "loop ?turn (v, tell bd (Status_Led_Set False) (tell bd (join_call ssid pw auth b) b)) = Some r"
    using assms(3) True by (auto simp: connect_wifi_with_blink_def Let_def case_prod_beta)
  moreover have "J (snd (v, tell bd (Status_Led_Set False) (tell bd (join_call ssid pw auth b) b)))"
    using assms(2) by (simp add: keptD [OF k])
  ultimately have "\<exists>s. J (snd s) \<and> ?turn s = Inl r"
    by (rule loop_invariant) (rule connect_turn_keeps [OF k])
  then show ?thesis using connect_turn_result [OF k] by blast
qed

text \<open>From \<open>b\<close> to \<open>b'\<close> only calls with \<open>P\<close> are made.\<close>

definition only :: "(call \<Rightarrow> bool) \<Rightarrow> 'w bridge \<Rightarrow> 'w bridge \<Rightarrow> bool" where
  "only P b b' \<longleftrightarrow> (\<exists>cs. br_calls b' = br_calls b @ cs \<and> list_all (\<lambda>(t, c). P c) cs)"

lemma only_refl [simp]: "only P b b"
  by (simp add: only_def)

lemma only_kept: "keeps bd P (only P b)"
  by (auto simp: keeps_def only_def)

text \<open>
  An attempt to join the network ends, by an answer of the driver or at the deadline; the LED is off then,
  and the answer is \<^verbatim>\<open>true\<close> only when the link was up just before.
\<close>

theorem wifi_connect_ends:
  assumes "steady_clock bd"
  shows "\<exists>b' b1 ok. connect_wifi_with_blink bd ssid pw auth ms b = Some (b', ok) \<and> b' = tell bd (Status_Led_Set False) b1 \<and>
    (ok \<longrightarrow> (\<exists>b2 v. only network_call b b2 \<and> link_status bd (br_world b2) = CYW43_LINK_UP \<and> b1 = snd (log_link bd CYW43_LINK_UP v b2)))"
proof -
  obtain b' ok where r: "connect_wifi_with_blink bd ssid pw auth ms b = Some (b', ok)"
    using connect_ends [OF assms] by force
  then show ?thesis using connect_result [OF only_kept only_refl r] by auto
qed

text \<open>A board on which a call takes a microsecond and the network is up.\<close>

definition quick_board :: "nat board" where
  "quick_board =
     \<lparr>clock = (\<lambda>w. w), link_status = (\<lambda>w. CYW43_LINK_UP), usb_host_seen = (\<lambda>w. False), watchdog_caused_reboot = (\<lambda>w. False),
      runtime_config = (\<lambda>w. app_config_defaults), address_text = (\<lambda>w. ''192.168.4.1''), firmware_build_version = '''',
      perform = (\<lambda>c w. (case c of Sleep_Ms ms \<Rightarrow> w + ms * 1000 | _ \<Rightarrow> w + 1,
         case c of Tusb_Init \<Rightarrow> 1 | App_Runtime_Config_Load \<Rightarrow> 1 | App_Log_Init \<Rightarrow> 1 | Onewire_Source_Init \<Rightarrow> 1 | _ \<Rightarrow> 0))\<rparr>"

lemma quick_board_steady: "steady_clock quick_board"
  by (auto simp: steady_clock_def quick_board_def split: call.split)

theorem wifi_connect_ends_witness:
  "\<exists>b' b1 ok. connect_wifi_with_blink quick_board (\<lambda>w. ''net'') None 0 30000 \<lparr>br_world = 0, br_calls = []\<rparr> = Some (b', ok) \<and>
     b' = tell quick_board (Status_Led_Set False) b1"
  using wifi_connect_ends [OF quick_board_steady, of "\<lambda>w. ''net''" None 0 30000 "\<lparr>br_world = 0, br_calls = []\<rparr>"] by blast

subsection \<open>The blinking LED\<close>

text \<open>\<open>next_blink\<close> is read before the connection is started, and the test for it is the wrong way round.\<close>

definition quiet_call :: "call \<Rightarrow> bool" where
  "quiet_call c \<longleftrightarrow> network_call c \<and> c \<noteq> Status_Led_Set True"

lemma connect_turn_quiet:
  assumes k: "keeps bd quiet_call J" and "J b" and late: "\<And>b. J b \<Longrightarrow> wv_next_blink v < now bd b"
  shows "connect_turn bd ssid pw auth ms deadline (v, b) = Inl r \<Longrightarrow> J (fst r)"
    and "connect_turn bd ssid pw auth ms deadline (v, b) = Inr (v', b') \<Longrightarrow> J b' \<and> wv_next_blink v' = wv_next_blink v"
proof -
  have p: "J (tell bd Cyw43_Arch_Poll (tell bd Watchdog_Update b))"
    using assms(2) by (simp add: keptD [OF k] quiet_call_def)
  have blink: "blink bd v (tell bd Cyw43_Arch_Poll (tell bd Watchdog_Update b)) = (v, tell bd Cyw43_Arch_Poll (tell bd Watchdog_Update b))"
    using late [OF p] by (simp add: blink_def absolute_time_diff_us_def)
  have log: "J (snd (log_link bd st v b)) \<and> wv_next_blink (fst (log_link bd st v b)) = wv_next_blink v" if "J b" for st b
    using that by (simp add: log_link_def keptD [OF k] quiet_call_def)
  show "connect_turn bd ssid pw auth ms deadline (v, b) = Inl r \<Longrightarrow> J (fst r)"
    and "connect_turn bd ssid pw auth ms deadline (v, b) = Inr (v', b') \<Longrightarrow> J b' \<and> wv_next_blink v' = wv_next_blink v"
    unfolding connect_turn_def Let_def prod.case blink
    by (auto simp: case_prod_beta p log keptD [OF k] quiet_call_def assms(2) split: if_splits)
qed

text \<open>
  C40: the LED is meant to blink while the board joins the network; it is never switched on, because the time of
  the first change has passed when it is first tested and the test waits for it to lie ahead.
\<close>

theorem wifi_led_never_blinks:
  assumes "steady_clock bd" and "connect_wifi_with_blink bd ssid pw auth ms b = Some (b', ok)"
  shows "only (\<lambda>c. c \<noteq> Status_Led_Set True) b b'"
proof -
  let ?J = "\<lambda>b1. only quiet_call b b1 \<and> now bd b < now bd b1"
  have k: "keeps bd quiet_call ?J"
    using only_kept [of bd quiet_call b] steady(1) [OF assms(1)] unfolding keeps_def by (meson less_le_trans)
  let ?c = "join_call ssid pw auth b"
  let ?v = "\<lparr>wv_next_blink = now bd b, wv_led_on = False, wv_previous_link_status = CYW43_LINK_UP + 1\<rparr>"
  have "only quiet_call b (tell bd ?c b)" by (rule keptD [OF only_kept]) (simp_all add: quiet_call_def)
  moreover have off: "quiet_call (Status_Led_Set False)" by (simp add: quiet_call_def)
  ultimately have j: "?J (tell bd ?c b)" using steady(3) [OF assms(1)] by simp
  have "?J b'"
  proof (cases "snd (ask bd ?c b) = 0")
    case False
    then have "\<exists>m. b' = tell bd (Status_Led_Set False) (tell bd (App_Log m) (tell bd ?c b))"
      using assms(2) by (auto simp: connect_wifi_with_blink_def Let_def case_prod_beta)
    then show ?thesis using j keptD [OF k] by (auto simp: quiet_call_def)
  next
    case True
    let ?turn = "connect_turn bd ssid pw auth ms (make_timeout_time_ms bd ms b)"
    let ?I = "\<lambda>(v, b1). ?J b1 \<and> wv_next_blink v = now bd b"
    have "loop ?turn (?v, tell bd (Status_Led_Set False) (tell bd ?c b)) = Some (b', ok)"
      using assms(2) True by (simp add: connect_wifi_with_blink_def Let_def case_prod_beta)
    moreover have "?I (?v, tell bd (Status_Led_Set False) (tell bd ?c b))"
      using keptD [OF k off j] by simp
    ultimately have "\<exists>s. ?I s \<and> ?turn s = Inl (b', ok)"
    proof (rule loop_invariant)
      fix s s'
      assume "?I s" "?turn s = Inr s'"
      then show "?I s'"
        using connect_turn_quiet(2) [OF k, of "snd s" "fst s" ssid pw auth ms "make_timeout_time_ms bd ms b" "fst s'" "snd s'"]
        by (cases s; cases s') simp
    qed
    then obtain v1 b1 where "?J b1" "wv_next_blink v1 = now bd b" "?turn (v1, b1) = Inl (b', ok)" by auto
    then show ?thesis using connect_turn_quiet(1) [OF k, of b1 v1] by (metis fst_conv)
  qed
  then show ?thesis by (auto simp: only_def quiet_call_def list_all_iff)
qed

theorem wifi_led_never_blinks_witness:
  "\<exists>b' ok. connect_wifi_with_blink quick_board (\<lambda>w. ''net'') None 0 30000 \<lparr>br_world = 0, br_calls = []\<rparr> = Some (b', ok) \<and>
     only (\<lambda>c. c \<noteq> Status_Led_Set True) \<lparr>br_world = 0, br_calls = []\<rparr> b'"
proof -
  obtain b' ok where "connect_wifi_with_blink quick_board (\<lambda>w. ''net'') None 0 30000 \<lparr>br_world = 0, br_calls = []\<rparr> = Some (b', ok)"
    using connect_ends [OF quick_board_steady] by fastforce
  then show ?thesis using wifi_led_never_blinks [OF quick_board_steady] by blast
qed

end
