(* ===== verification/Mini_Ini.thy ===== *)
theory Mini_Ini
  imports C_Text
begin

text \<open>
  \<^verbatim>\<open>minIni.c\<close>: reading a value from an INI file.  The file on the FAT volume is the list of the bytes that
  can be read, with a flag that says whether reading past them is the end of the file or an error that
  FatFs reports again on every further read.  The loop over the lines may not end; that is \<open>None\<close>.
\<close>

subsection \<open>Lines\<close>

type_synonym fil = "string \<times> bool"

definition trim_left :: "string \<Rightarrow> string" where
  "trim_left s = dropWhile isspace s"

definition trim_right :: "string \<Rightarrow> string" where
  "trim_right s = rev (dropWhile isspace (rev s))"

definition c_str :: "string \<Rightarrow> string" where
  "c_str s = takeWhile (\<lambda>c. c \<noteq> NUL) s"

text \<open>The loop of \<^verbatim>\<open>read_line\<close> with room for \<open>n\<close> more characters: the characters stored and the rest of the file.\<close>

fun read_chars :: "nat \<Rightarrow> string \<Rightarrow> string \<times> string" where
  "read_chars 0 cs = ([], cs)"
| "read_chars (Suc n) [] = ([], [])"
| "read_chars (Suc n) (ch # cs) =
     (if ch = CHR 0x0D then read_chars (Suc n) cs
      else if ch = CHR 0x0A then ([], cs)
      else case read_chars n cs of (line, rest) \<Rightarrow> (ch # line, rest))"

definition read_line :: "nat \<Rightarrow> fil \<Rightarrow> string \<times> fil \<times> bool" where
  "read_line buffer_size file =
     (case file of (cs, broken) \<Rightarrow>
        case read_chars (buffer_size - 1) cs of
          (line, rest) \<Rightarrow> (c_str line, (rest, broken), line \<noteq> [] \<or> \<not> (rest = [] \<and> \<not> broken)))"

subsection \<open>Looking a key up\<close>

text \<open>
  The body of the loop: \<open>Inl b\<close>, it goes on to the next line and \<open>b\<close> says whether it is in the section;
  \<open>Inr v\<close>, the line gives the key the value \<open>v\<close>.
\<close>

definition ini_line :: "string \<Rightarrow> string \<Rightarrow> bool \<Rightarrow> string \<Rightarrow> bool + string" where
  "ini_line section key section_match line =
     (let text = trim_right (trim_left line)
      in if text = '''' \<or> hd text = CHR '';'' \<or> hd text = CHR ''#'' then Inl section_match
         else if hd text = CHR ''['' then
           (if CHR '']'' \<in> set (tl text)
            then Inl (trim_right (bounded_copy 64 (trim_left (takeWhile (\<lambda>c. c \<noteq> CHR '']'') (tl text)))) = section)
            else Inl section_match)
         else if \<not> section_match then Inl section_match
         else if CHR ''='' \<notin> set text then Inl section_match
         else if trim_right (takeWhile (\<lambda>c. c \<noteq> CHR ''='') text) \<noteq> key then Inl section_match
         else Inr (trim_right (trim_left (tl (dropWhile (\<lambda>c. c \<noteq> CHR ''='') text)))))"

partial_function (option) ini_loop :: "string \<Rightarrow> string \<Rightarrow> nat \<Rightarrow> string \<Rightarrow> bool \<Rightarrow> fil \<Rightarrow> string option" where
  "ini_loop section key buffer_size buffer section_match file =
     (case read_line 320 file of
        (line, file', more) \<Rightarrow>
          if \<not> more then Some buffer
          else (case ini_line section key section_match line of
                  Inl b \<Rightarrow> ini_loop section key buffer_size buffer b file'
                | Inr v \<Rightarrow> Some (bounded_copy buffer_size v)))"

text \<open>The text left in the buffer; \<open>None\<close> for the file: it cannot be opened.\<close>

definition ini_gets :: "string \<Rightarrow> string \<Rightarrow> string \<Rightarrow> nat \<Rightarrow> fil option \<Rightarrow> string option" where
  "ini_gets section key def_value buffer_size file =
     (case file of
        None \<Rightarrow> Some (bounded_copy buffer_size def_value)
      | Some f \<Rightarrow> ini_loop section key buffer_size (bounded_copy buffer_size def_value) (section = '''') f)"

text \<open>\<^verbatim>\<open>strtol(s, &end, 10)\<close> for a 32-bit \<^verbatim>\<open>long\<close>; \<open>None\<close>: no digits, \<^verbatim>\<open>end == s\<close>.\<close>

definition digits_value :: "nat \<Rightarrow> string \<Rightarrow> nat" where
  "digits_value base ds = foldl (\<lambda>n c. base * n +
     (if isdigit c then code c - 48 else if code c \<ge> 97 then code c - 87 else code c - 55)) 0 ds"

definition signed_text :: "string \<Rightarrow> bool \<times> string" where
  "signed_text s =
     (let t = dropWhile isspace s
      in case t of [] \<Rightarrow> (False, [])
         | c # cs \<Rightarrow> if c = CHR ''-'' then (True, cs) else if c = CHR ''+'' then (False, cs) else (False, t))"

definition strtol10 :: "string \<Rightarrow> int option" where
  "strtol10 s =
     (case signed_text s of (neg, t) \<Rightarrow>
        let ds = takeWhile isdigit t; v = int (digits_value 10 ds)
        in if ds = [] then None else Some (if neg then max (- (2 ^ 31)) (- v) else min (2 ^ 31 - 1) v))"

definition ini_getl :: "string \<Rightarrow> string \<Rightarrow> int \<Rightarrow> fil option \<Rightarrow> int option" where
  "ini_getl section key def_value file =
     (case ini_gets section key '''' 32 file of
        None \<Rightarrow> None
      | Some val \<Rightarrow>
          if val = '''' then Some def_value
          else (case strtol10 val of None \<Rightarrow> Some def_value | Some parsed \<Rightarrow> Some parsed))"

end
