(* ===== verification/Ini_Files.thy ===== *)
theory Ini_Files
  imports Mini_Ini
begin

text \<open>
  What \<^verbatim>\<open>minIni.c\<close> reads from a well-formed file: the value of the key in its section.
\<close>

subsection \<open>Files that are lists of lines\<close>

definition plain_char :: "char \<Rightarrow> bool" where
  "plain_char c = (c \<noteq> CHR 0x0D \<and> c \<noteq> CHR 0x0A \<and> c \<noteq> NUL)"

lemma plain_chars [simp]: "plain_char (CHR ''='')" "plain_char (CHR ''['')" "plain_char (CHR '']'')" "plain_char (CHR '';'')"
  by (simp_all add: plain_char_def NUL_def)

definition line_ok :: "string \<Rightarrow> bool" where
  "line_ok l = (length l < 319 \<and> (\<forall>c\<in>set l. plain_char c))"

definition unlines :: "string list \<Rightarrow> string" where
  "unlines ls = concat (List.map (\<lambda>l. l @ [CHR 0x0A]) ls)"

lemma unlines_simps [simp]: "unlines [] = []" "unlines (l # ls) = l @ CHR 0x0A # unlines ls" "unlines (xs @ ys) = unlines xs @ unlines ys"
  by (simp_all add: unlines_def)

lemma read_chars_line:
  "length l < n \<Longrightarrow> \<forall>c\<in>set l. c \<noteq> CHR 0x0D \<and> c \<noteq> CHR 0x0A \<Longrightarrow> read_chars n (l @ CHR 0x0A # rest) = (l, rest)"
proof (induction l arbitrary: n)
  case Nil
  then show ?case by (cases n) simp_all
next
  case (Cons c l)
  then show ?case by (cases n) simp_all
qed

lemma read_chars_empty [simp]: "read_chars n [] = ([], [])"
  by (cases n) simp_all

lemma c_str_line: "\<forall>c\<in>set l. c \<noteq> NUL \<Longrightarrow> c_str l = l"
  by (simp add: c_str_def)

lemma read_line_ok:
  "line_ok l \<Longrightarrow> read_line 320 (l @ CHR 0x0A # rest, broken) = (l, (rest, broken), l \<noteq> [] \<or> rest \<noteq> [] \<or> broken)"
  using read_chars_line [of l 319 rest] c_str_line [of l] by (auto simp: read_line_def line_ok_def plain_char_def)

lemma unlines_empty [simp]: "unlines ls = [] \<longleftrightarrow> ls = []"
  by (cases ls) simp_all

fun ini_find :: "string \<Rightarrow> string \<Rightarrow> bool \<Rightarrow> string list \<Rightarrow> string option" where
  "ini_find section key section_match [] = None"
| "ini_find section key section_match (l # ls) =
     (case ini_line section key section_match l of
        Inl b \<Rightarrow> ini_find section key b ls
      | Inr v \<Rightarrow> Some v)"

lemma ini_line_blank [simp]: "ini_line section key m '''' = Inl m"
  by (simp add: ini_line_def trim_right_def trim_left_def)

text \<open>After a read error the loop goes round for ever: each round reads an empty line.\<close>

lemma ini_loop_ends:
  assumes "ini_loop section key n buffer m f = Some v"
  shows "f \<noteq> ([], True)"
proof (rule ini_loop.raw_induct [where P = "\<lambda>section key n buffer m f v. f \<noteq> ([], True)", OF _ assms])
  fix loop "section" key n buffer m v and f :: fil
  assume IH: "\<And>key n buffer m f b y. loop key n buffer m f b = Some y \<Longrightarrow> b \<noteq> ([], True)"
    and e: "(case read_line 320 f of (line, f', more) \<Rightarrow> if \<not> more then Some buffer
       else (case ini_line section key m line of
               Inl b \<Rightarrow> loop section key n buffer b f' | Inr v \<Rightarrow> Some (bounded_copy n v))) = Some v"
  have r: "read_line 320 ([], True) = ([], ([], True), True)" by (simp add: read_line_def c_str_def)
  show "f \<noteq> ([], True)"
  proof
    assume "f = ([], True)"
    then have "loop section key n buffer m ([], True) = Some v" using e by (simp add: r)
    then show False using IH by blast
  qed
qed

lemma ini_loop_broken: "ini_loop section key n buffer m ([], True) = None"
  using ini_loop_ends by fastforce

lemma ini_loop_lines:
  assumes "\<forall>l\<in>set ls. line_ok l"
  shows "ini_loop section key n buffer m (unlines ls, broken) =
    (case ini_find section key m ls of Some v \<Rightarrow> Some (bounded_copy n v) | None \<Rightarrow> if broken then None else Some buffer)"
  using assms
proof (induction ls arbitrary: m)
  case Nil
  show ?case
  proof (cases broken)
    case True
    then show ?thesis by (simp add: ini_loop_broken)
  next
    case False
    then show ?thesis by (subst ini_loop.simps) (simp add: read_line_def c_str_def)
  qed
next
  case (Cons l ls)
  have r: "read_line 320 (l @ CHR 0x0A # unlines ls, broken) = (l, (unlines ls, broken), l \<noteq> [] \<or> ls \<noteq> [] \<or> broken)"
    using read_line_ok [of l "unlines ls" broken] Cons.prems by simp
  have IH: "ini_loop section key n buffer b (unlines ls, broken) =
      (case ini_find section key b ls of Some v \<Rightarrow> Some (bounded_copy n v) | None \<Rightarrow> if broken then None else Some buffer)" for b
    by (rule Cons.IH) (use Cons.prems in simp)
  show ?case
  proof (cases "l = [] \<and> ls = [] \<and> \<not> broken")
    case True
    then have "read_line 320 (CHR 0x0A # [], False) = ([], ([], False), False)" using r by simp
    then show ?thesis using True by (subst ini_loop.simps) simp
  next
    case False
    then show ?thesis using IH by (subst ini_loop.simps) (auto simp: r split: sum.split)
  qed
qed

subsection \<open>Sections\<close>

type_synonym ini_section = "string \<times> (string \<times> string) list"

definition text_ok :: "string \<Rightarrow> bool" where
  "text_ok s = ((\<forall>c\<in>set s. plain_char c) \<and> (s \<noteq> '''' \<longrightarrow> \<not> isspace (hd s) \<and> \<not> isspace (last s)))"

definition key_ok :: "string \<Rightarrow> bool" where
  "key_ok k = (text_ok k \<and> k \<noteq> '''' \<and> hd k \<noteq> CHR '';'' \<and> hd k \<noteq> CHR ''#'' \<and> hd k \<noteq> CHR ''['' \<and> CHR ''='' \<notin> set k)"

definition kv_line :: "string \<times> string \<Rightarrow> string" where
  "kv_line kv = fst kv @ ''='' @ snd kv"

definition section_lines :: "ini_section \<Rightarrow> string list" where
  "section_lines s = (''['' @ fst s @ '']'') # List.map kv_line (snd s)"

definition ini_lines :: "ini_section list \<Rightarrow> string list" where
  "ini_lines ss = concat (List.map (\<lambda>s. '''' # section_lines s) ss)"

definition section_ok :: "ini_section \<Rightarrow> bool" where
  "section_ok s = (text_ok (fst s) \<and> CHR '']'' \<notin> set (fst s) \<and> length (fst s) < 64 \<and>
     (\<forall>(k, v)\<in>set (snd s). key_ok k \<and> text_ok v \<and> length k + length v < 318))"

lemma trims_text_ok: "text_ok s \<Longrightarrow> trim_left s = s" "text_ok s \<Longrightarrow> trim_right s = s"
proof -
  assume t: "text_ok s"
  show "trim_left s = s" using t by (cases s) (simp_all add: text_ok_def trim_left_def)
  show "trim_right s = s"
  proof (cases s rule: rev_cases)
    case (snoc ys y)
    then show ?thesis using t by (simp add: text_ok_def trim_right_def)
  qed (simp add: trim_right_def)
qed

lemma not_space [simp]: "\<not> isspace (CHR ''='')" "\<not> isspace (CHR ''['')" "\<not> isspace (CHR '']'')" "\<not> isspace (CHR '';'')"
  by (simp_all add: isspace_def)

lemma trims_kv:
  assumes "key_ok k" "text_ok v"
  shows "trim_right (trim_left (kv_line (k, v))) = kv_line (k, v)"
proof -
  have "trim_left (kv_line (k, v)) = kv_line (k, v)"
    using assms(1) by (cases k) (simp_all add: key_ok_def text_ok_def trim_left_def kv_line_def)
  moreover have "trim_right (kv_line (k, v)) = kv_line (k, v)"
  proof (cases v rule: rev_cases)
    case Nil
    then show ?thesis by (simp add: trim_right_def kv_line_def)
  next
    case (snoc ys y)
    then show ?thesis using assms(2) by (simp add: trim_right_def kv_line_def text_ok_def)
  qed
  ultimately show ?thesis by simp
qed

lemma ini_line_kv:
  assumes "key_ok k" "text_ok v"
  shows "ini_line section key m (kv_line (k, v)) = (if m \<and> k = key then Inr v else Inl m)"
proof -
  have k: "text_ok k" "k \<noteq> ''''" "hd k \<noteq> CHR '';''" "hd k \<noteq> CHR ''#''" "hd k \<noteq> CHR ''[''" "CHR ''='' \<notin> set k"
    using assms(1) by (simp_all add: key_ok_def)
  have h: "kv_line (k, v) \<noteq> ''''" "hd (kv_line (k, v)) = hd k" using k(2) by (simp_all add: kv_line_def)
  have w: "takeWhile (\<lambda>c. c \<noteq> CHR ''='') (kv_line (k, v)) = k" "dropWhile (\<lambda>c. c \<noteq> CHR ''='') (kv_line (k, v)) = CHR ''='' # v"
    using k(6) by (auto simp: kv_line_def takeWhile_append dropWhile_append3)
  have e: "CHR ''='' \<in> set (kv_line (k, v))" by (simp add: kv_line_def)
  show ?thesis
    unfolding ini_line_def Let_def trims_kv [OF assms]
    using k h w e trims_text_ok [OF k(1)] trims_text_ok [OF assms(2)] by (auto simp del: not_space)
qed

lemma ini_line_section:
  assumes "text_ok name" "CHR '']'' \<notin> set name" "length name < 64"
  shows "ini_line section key m (''['' @ name @ '']'') = Inl (name = section)"
proof -
  have t: "trim_right (trim_left (''['' @ name @ '']'')) = ''['' @ name @ '']''"
    by (simp add: trim_left_def trim_right_def)
  have "takeWhile (\<lambda>c. c \<noteq> CHR '']'') (name @ '']'') = name" using assms(2) by (auto simp: takeWhile_append)
  then show ?thesis unfolding ini_line_def Let_def t
    using trims_text_ok [OF assms(1)] assms(3) by simp
qed

lemma ini_find_append:
  assumes "\<forall>l\<in>set xs. \<forall>b. ini_line section key b l = Inl b"
  shows "ini_find section key m (xs @ ys) = ini_find section key m ys"
  using assms by (induction xs) auto

lemma ini_find_outside:
  assumes "\<forall>(k, v)\<in>set kvs. key_ok k \<and> text_ok v"
  shows "ini_find section key False (List.map kv_line kvs @ ls) = ini_find section key False ls"
  using assms by (induction kvs) (auto simp: ini_line_kv)

lemma ini_find_inside:
  assumes "\<forall>(k, v)\<in>set kvs. key_ok k \<and> text_ok v"
  shows "ini_find section key True (List.map kv_line kvs @ ls) =
    (case map_of kvs key of Some v \<Rightarrow> Some v | None \<Rightarrow> ini_find section key True ls)"
  using assms by (induction kvs) (auto simp: ini_line_kv)

lemma ini_find_sections:
  assumes "\<forall>s\<in>set ss. section_ok s" "distinct (List.map fst ss)" "m \<longrightarrow> section \<notin> fst ` set ss"
  shows "ini_find section key m (ini_lines ss) =
    (case map_of ss section of None \<Rightarrow> None | Some kvs \<Rightarrow> map_of kvs key)"
  using assms
proof (induction ss arbitrary: m)
  case Nil
  then show ?case by (simp add: ini_lines_def)
next
  case (Cons s ss)
  obtain name kvs where s: "s = (name, kvs)" by (cases s)
  have ok: "text_ok name" "CHR '']'' \<notin> set name" "length name < 64" and kvs: "\<forall>(k, v)\<in>set kvs. key_ok k \<and> text_ok v"
    using Cons.prems(1) s by (auto simp: section_ok_def)
  have rest: "ini_find section key (name = section) (ini_lines ss) =
      (case map_of ss section of None \<Rightarrow> None | Some kvs \<Rightarrow> map_of kvs key)"
    using Cons.prems s by (intro Cons.IH) auto
  have "ini_lines (s # ss) = '''' # (''['' @ name @ '']'') # (List.map kv_line kvs @ ini_lines ss)"
    by (simp add: ini_lines_def section_lines_def s)
  then have e: "ini_find section key m (ini_lines (s # ss)) =
      ini_find section key (name = section) (List.map kv_line kvs @ ini_lines ss)"
    using ini_line_section [OF ok, of "section" key m] by (simp del: append_Cons append.simps)
  show ?case
  proof (cases "name = section")
    case True
    then have "map_of ss section = None" using Cons.prems(2) s by (auto simp: map_of_eq_None_iff)
    then show ?thesis using e ini_find_inside [OF kvs, of "section" key "ini_lines ss"] rest True s
      by (simp split: option.split)
  next
    case False
    then show ?thesis using e ini_find_outside [OF kvs, of "section" key "ini_lines ss"] rest s by simp
  qed
qed

lemma ini_line_comment [simp]: "ini_line section key m (CHR '';'' # t) = Inl m"
proof -
  have "trim_right (CHR '';'' # t) = CHR '';'' # trim_right t"
  proof (cases "dropWhile isspace (rev t) = []")
    case True
    then show ?thesis by (auto simp: trim_right_def dropWhile_append)
  next
    case False
    then show ?thesis by (auto simp: trim_right_def dropWhile_append)
  qed
  then show ?thesis by (simp add: ini_line_def trim_left_def)
qed

definition comment_line :: "string \<Rightarrow> bool" where
  "comment_line l = (line_ok l \<and> (l = '''' \<or> hd l = CHR '';''))"

lemma ini_find_comments:
  "\<forall>l\<in>set cs. comment_line l \<Longrightarrow> ini_find section key m (cs @ ls) = ini_find section key m ls"
proof (induction cs)
  case (Cons c cs)
  then have "ini_line section key m c = Inl m" by (cases c) (auto simp: comment_line_def)
  then show ?case using Cons by simp
qed simp

lemma section_lines_ok:
  assumes "section_ok s" "l \<in> set (section_lines s)"
  shows "line_ok l"
proof -
  have s: "\<forall>c\<in>set (fst s). plain_char c" "length (fst s) < 64" using assms(1) by (simp_all add: section_ok_def text_ok_def)
  consider "l = ''['' @ fst s @ '']''" | k v where "(k, v) \<in> set (snd s)" "l = kv_line (k, v)"
    using assms(2) by (auto simp: section_lines_def)
  then show ?thesis
  proof cases
    case 1
    then show ?thesis using s by (auto simp: line_ok_def)
  next
    case 2
    then have "key_ok k" "text_ok v" "length k + length v < 318" using assms(1) by (auto simp: section_ok_def)
    then show ?thesis using 2(2) by (auto simp: line_ok_def kv_line_def key_ok_def text_ok_def)
  qed
qed

lemma ini_lines_ok:
  assumes "\<forall>s\<in>set ss. section_ok s"
  shows "\<forall>l\<in>set (ini_lines ss). line_ok l"
proof
  fix l
  assume "l \<in> set (ini_lines ss)"
  then consider "l = ''''" | s where "s \<in> set ss" "l \<in> set (section_lines s)" by (auto simp: ini_lines_def split: if_splits)
  then show "line_ok l"
  proof cases
    case 1
    then show ?thesis by (simp add: line_ok_def)
  next
    case 2
    then show ?thesis using section_lines_ok assms by blast
  qed
qed

text \<open>Reading a key of a file of comments and sections.\<close>

lemma ini_gets_sections:
  assumes "\<forall>l\<in>set cs. comment_line l" "\<forall>s\<in>set ss. section_ok s" "distinct (List.map fst ss)" "section \<noteq> ''''"
  shows "ini_gets section key def_value n (Some (unlines (cs @ ini_lines ss), broken)) =
    (case Option.bind (map_of ss section) (\<lambda>kvs. map_of kvs key) of
       Some v \<Rightarrow> Some (bounded_copy n v) | None \<Rightarrow> if broken then None else Some (bounded_copy n def_value))"
proof -
  have "\<forall>l\<in>set (cs @ ini_lines ss). line_ok l" using assms(1) ini_lines_ok [OF assms(2)] by (auto simp: comment_line_def)
  note l = ini_loop_lines [OF this, of "section" key n "bounded_copy n def_value" "section = ''''" broken]
  show ?thesis
    unfolding ini_gets_def option.case l
    using ini_find_comments [OF assms(1), of "section" key "section = ''''" "ini_lines ss"]
      ini_find_sections [OF assms(2,3), of "section = ''''" "section" key] assms(4)
    by (simp split: option.split)
qed

lemma bind_map_of: "Option.bind (map_of ss s) (\<lambda>kvs. map_of kvs k) = (case map_of ss s of None \<Rightarrow> None | Some kvs \<Rightarrow> map_of kvs k)"
  by (cases "map_of ss s") simp_all

end
