(* ===== verification/Config_File.thy ===== *)
theory Config_File
  imports Ini_Files App_Config
begin

text \<open>
  \<^verbatim>\<open>app_config_save\<close> and \<^verbatim>\<open>app_config_load\<close>: the configuration as the file \<^verbatim>\<open>config.ini\<close>.  What FatFs
  answers is the parameter \<open>fs\<close>: whether the volume is ready, whether the file can be opened for writing,
  which writes succeed, and whether reading past the bytes that are there is an error.
\<close>

record config_fs =
  fs_ready :: bool
  fs_open_write :: bool
  fs_write_ok :: "nat \<Rightarrow> bool"
  fs_broken :: bool
  fs_config :: "string option"

subsection \<open>Saving\<close>

definition newline :: string where "newline = [CHR 0x0A]"

definition show_bool :: "bool \<Rightarrow> string" where
  "show_bool b = (if b then ''1'' else ''0'')"

definition config_comments :: "string list" where
  "config_comments =
    [''; BLEBridge configuration file'',
     ''; mode: ap | client'',
     ''; ssid: Wi-Fi network name'',
     ''; hostname: DHCP/NetBIOS style host name reported by the interface'',
     ''; channel: 1..13, used only in ap mode'',
     ''; security: open | wpa2'',
     ''; password: empty for open, at least 8 characters for wpa2'',
     ''; send_narodmon: 0 | 1'',
     ''; retention_seconds: measurement storage time, 5..600'',
     ''; max_count: max measurements per device/field pair, 0..1000; 0 means unlimited'',
     ''; poll_interval_seconds: 1-Wire DS18B20 polling interval, 5..300'',
     ''; gpio2_enabled/gpio3_enabled: 0 | 1, enable the corresponding 1-Wire bus'',
     ''; macN: BLE MAC address without separators, enables device processing'',
     ''; [names] stores idN/nameN pairs for user-visible sensor names.'',
     ''; In client mode, the device connects to an existing Wi-Fi network.'',
     ''; In ap mode, the device creates its own Wi-Fi access point.'',
     ''; Changes are applied after reboot.'']"

text \<open>The texts of the calls of \<^verbatim>\<open>app_config_write_line\<close>, in order.\<close>

definition network_piece :: "app_config \<Rightarrow> string" where
  "network_piece c = unlines (config_comments @
     ['''', ''[network]'',
      ''mode='' @ app_config_mode_name (cf_mode c),
      ''ssid='' @ cf_ssid c,
      ''hostname='' @ cf_hostname c,
      ''channel='' @ show_nat (cf_channel c),
      ''security='' @ app_config_security_name (cf_security c),
      ''password='' @ cf_password c,
      ''send_narodmon='' @ show_bool (cf_send_narodmon c)])"

definition mac_pieces :: "app_config \<Rightarrow> string list" where
  "mac_pieces c = List.map (\<lambda>i. unlines [''mac'' @ show_nat (i + 1) @ ''='' @ cf_allowed_macs c ! i]) [0..<length (cf_allowed_macs c)]"

definition measurement_piece :: "app_config \<Rightarrow> string" where
  "measurement_piece c = unlines
     ['''', ''[measurements]'',
      ''retention_seconds='' @ show_nat (cf_measurement_retention_seconds c),
      ''max_count='' @ show_nat (cf_measurement_max_count c)]"

definition onewire_piece :: "app_config \<Rightarrow> string" where
  "onewire_piece c = unlines
     ['''', ''[onewire]'',
      ''poll_interval_seconds='' @ show_nat (cf_onewire_poll_interval_seconds c),
      ''gpio2_enabled='' @ show_bool (cf_onewire_gpio2_enabled c),
      ''gpio3_enabled='' @ show_bool (cf_onewire_gpio3_enabled c)]"

definition mqtt_piece :: "app_config \<Rightarrow> string" where
  "mqtt_piece c = unlines
     ['''', ''[mqtt]'',
      ''enabled='' @ show_bool (mq_enabled (cf_mqtt c)),
      ''host='' @ mq_host (cf_mqtt c),
      ''port='' @ show_nat (mq_port (cf_mqtt c)),
      ''interval_seconds='' @ show_nat (mq_interval_seconds (cf_mqtt c)),
      ''username='' @ mq_username (cf_mqtt c),
      ''password='' @ mq_password (cf_mqtt c)]"

definition name_pieces :: "app_config \<Rightarrow> string list" where
  "name_pieces c = List.map
     (\<lambda>i. unlines [''id'' @ show_nat (i + 1) @ ''='' @ show_nat (unat (fst (cf_device_names c ! i))),
                   ''name'' @ show_nat (i + 1) @ ''='' @ snd (cf_device_names c ! i)]) [0..<length (cf_device_names c)]"

definition config_pieces :: "app_config \<Rightarrow> string list" where
  "config_pieces c =
     network_piece c # mac_pieces c @ [measurement_piece c, onewire_piece c, mqtt_piece c, unlines ['''', ''[names]'']] @ name_pieces c"

text \<open>
  \<^verbatim>\<open>app_config_write_line\<close> for the texts from number \<open>k\<close> on: one that does not fit the line buffer or
  that FatFs does not write ends the saving.
\<close>

fun write_pieces :: "(nat \<Rightarrow> bool) \<Rightarrow> nat \<Rightarrow> string \<Rightarrow> string list \<Rightarrow> string \<times> bool" where
  "write_pieces write_ok k content [] = (content, True)"
| "write_pieces write_ok k content (p # ps) =
     (if length p \<ge> 1024 then (content, False)
      else if \<not> write_ok k then (content, False)
      else write_pieces write_ok (Suc k) (content @ p) ps)"

definition app_config_save :: "app_config \<Rightarrow> config_fs \<Rightarrow> config_fs \<times> bool" where
  "app_config_save config fs =
     (if \<not> fs_open_write fs then (fs, False)
      else case write_pieces (fs_write_ok fs) 0 '''' (config_pieces config) of
             (content, ok) \<Rightarrow> (fs\<lparr>fs_config := Some content\<rparr>, ok))"

definition app_config_write_default_file :: "config_fs \<Rightarrow> config_fs \<times> bool" where
  "app_config_write_default_file fs = app_config_save app_config_defaults fs"

definition app_config_exists :: "config_fs \<Rightarrow> bool" where
  "app_config_exists fs = (fs_config fs \<noteq> None)"

definition app_config_ensure_file :: "config_fs \<Rightarrow> config_fs \<times> bool" where
  "app_config_ensure_file fs = (if app_config_exists fs then (fs, True) else app_config_write_default_file fs)"

subsection \<open>Loading\<close>

text \<open>The readers on the configuration file; \<open>None\<close>: the reader does not return.\<close>

definition config_file :: "config_fs \<Rightarrow> fil option" where
  "config_file fs = map_option (\<lambda>cs. (cs, fs_broken fs)) (fs_config fs)"

text \<open>\<^verbatim>\<open>strtoul(s, NULL, 0)\<close> for a 32-bit \<^verbatim>\<open>unsigned long\<close>.\<close>

definition isoctal :: "char \<Rightarrow> bool" where
  "isoctal c = (48 \<le> code c \<and> code c \<le> 55)"

definition strtoul0 :: "string \<Rightarrow> u32" where
  "strtoul0 s =
     (case signed_text s of (neg, t) \<Rightarrow>
        let v = (if length t \<ge> 3 \<and> hd t = CHR ''0'' \<and> (t ! 1 = CHR ''x'' \<or> t ! 1 = CHR ''X'') \<and> isxdigit (t ! 2)
                 then digits_value 16 (takeWhile isxdigit (drop 2 t))
                 else if t \<noteq> '''' \<and> hd t = CHR ''0'' then digits_value 8 (takeWhile isoctal t)
                 else digits_value 10 (takeWhile isdigit t))
        in if v \<ge> 2 ^ 32 then 0xFFFFFFFF else if neg then - of_nat v else of_nat v)"

definition load_mac :: "fil option \<Rightarrow> nat \<Rightarrow> app_config \<Rightarrow> app_config option" where
  "load_mac f i config =
     map_option (\<lambda>s. let value_mac = app_config_trim s
        in if value_mac = '''' then config
           else case app_config_normalize_mac APP_CONFIG_ALLOWED_MAC_LEN value_mac of
                  None \<Rightarrow> config
                | Some canonical \<Rightarrow> fst (app_config_set_allowed_mac config canonical True))
       (ini_gets ''network'' (''mac'' @ show_nat (i + 1)) '''' (APP_CONFIG_ALLOWED_MAC_LEN + 8) f)"

definition load_name :: "fil option \<Rightarrow> nat \<Rightarrow> app_config \<Rightarrow> app_config option" where
  "load_name f i config =
     Option.bind (ini_gets ''names'' (''id'' @ show_nat (i + 1)) '''' 16 f) (\<lambda>s.
       let value_id = app_config_trim s
       in if value_id = '''' then Some config
          else map_option (\<lambda>n. fst (app_config_set_device_name config (strtoul0 value_id) (app_config_trim n)))
                 (ini_gets ''names'' (''name'' @ show_nat (i + 1)) '''' APP_CONFIG_DEVICE_NAME_LEN f))"

text \<open>A loop over the table positions.\<close>

fun load_each :: "(nat \<Rightarrow> app_config \<Rightarrow> app_config option) \<Rightarrow> nat list \<Rightarrow> app_config \<Rightarrow> app_config option" where
  "load_each f [] config = Some config"
| "load_each f (i # is) config = Option.bind (f i config) (load_each f is)"

definition load_network :: "fil option \<Rightarrow> app_config \<Rightarrow> app_config option" where
  "load_network f c =
     Option.bind (ini_gets ''network'' ''mode'' ''ap'' APP_CONFIG_PASSWORD_MAX_LEN f) (\<lambda>mode.
     Option.bind (ini_gets ''network'' ''ssid'' (cf_ssid c) APP_CONFIG_SSID_MAX_LEN f) (\<lambda>ssid.
     Option.bind (ini_gets ''network'' ''hostname'' (cf_hostname c) APP_CONFIG_HOSTNAME_MAX_LEN f) (\<lambda>hostname.
     Option.bind (ini_getl ''network'' ''channel'' (int (cf_channel c)) f) (\<lambda>channel.
     Option.bind (ini_gets ''network'' ''security'' ''open'' APP_CONFIG_PASSWORD_MAX_LEN f) (\<lambda>security.
     Option.bind (ini_gets ''network'' ''password'' '''' APP_CONFIG_PASSWORD_MAX_LEN f) (\<lambda>password.
     map_option (\<lambda>send. c\<lparr>cf_mode := app_config_parse_mode (app_config_trim mode), cf_ssid := ssid, cf_hostname := hostname,
         cf_channel := nat (channel mod 2 ^ 32), cf_security := app_config_parse_security (app_config_trim security),
         cf_password := password, cf_send_narodmon := (send \<noteq> 0)\<rparr>)
       (ini_getl ''network'' ''send_narodmon'' 0 f)))))))"

definition load_mqtt :: "fil option \<Rightarrow> app_config \<Rightarrow> app_config option" where
  "load_mqtt f c =
     Option.bind (ini_getl ''mqtt'' ''enabled'' 0 f) (\<lambda>enabled.
     Option.bind (ini_gets ''mqtt'' ''host'' '''' APP_CONFIG_MQTT_HOST_MAX_LEN f) (\<lambda>host.
     Option.bind (ini_gets ''mqtt'' ''username'' '''' APP_CONFIG_MQTT_CREDENTIAL_MAX_LEN f) (\<lambda>username.
     Option.bind (ini_gets ''mqtt'' ''password'' '''' APP_CONFIG_MQTT_CREDENTIAL_MAX_LEN f) (\<lambda>password.
     Option.bind (ini_getl ''mqtt'' ''port'' 1883 f) (\<lambda>port.
     map_option (\<lambda>interval. c\<lparr>cf_mqtt := \<lparr>mq_enabled = (enabled \<noteq> 0), mq_host = host,
         mq_port = (if port > 0 \<and> port \<le> 65535 then nat port else 1883),
         mq_interval_seconds = (if interval > 0 then nat interval else APP_CONFIG_MQTT_INTERVAL_DEFAULT_SECONDS),
         mq_username = username, mq_password = password\<rparr>\<rparr>)
       (ini_getl ''mqtt'' ''interval_seconds'' (int APP_CONFIG_MQTT_INTERVAL_DEFAULT_SECONDS) f))))))"

definition load_measurements :: "fil option \<Rightarrow> app_config \<Rightarrow> app_config option" where
  "load_measurements f c =
     Option.bind (ini_getl ''measurements'' ''retention_seconds'' (int (cf_measurement_retention_seconds c)) f) (\<lambda>retention.
     map_option (\<lambda>max_count. c\<lparr>cf_measurement_retention_seconds := (if retention > 0 then nat retention else 0),
         cf_measurement_max_count :=
           (if max_count > int APP_CONFIG_MEASUREMENT_MAX_COUNT_MAX then APP_CONFIG_MEASUREMENT_MAX_COUNT_MAX
            else if max_count > 0 then nat max_count else 0)\<rparr>)
       (ini_getl ''measurements'' ''max_count'' (int (cf_measurement_max_count c)) f))"

definition load_onewire :: "fil option \<Rightarrow> app_config \<Rightarrow> app_config option" where
  "load_onewire f c =
     Option.bind (ini_getl ''onewire'' ''poll_interval_seconds'' (int (cf_onewire_poll_interval_seconds c)) f) (\<lambda>interval.
     Option.bind (ini_getl ''onewire'' ''gpio2_enabled'' 1 f) (\<lambda>gpio2.
     map_option (\<lambda>gpio3. c\<lparr>cf_onewire_poll_interval_seconds := (if interval > 0 then nat interval else 0),
         cf_onewire_gpio2_enabled := (gpio2 \<noteq> 0), cf_onewire_gpio3_enabled := (gpio3 \<noteq> 0)\<rparr>)
       (ini_getl ''onewire'' ''gpio3_enabled'' 1 f)))"

text \<open>\<open>Some (fs, c, ok)\<close>: the function returned \<open>ok\<close> and left \<open>c\<close> in the record.\<close>

definition app_config_load :: "config_fs \<Rightarrow> app_config \<Rightarrow> (config_fs \<times> app_config \<times> bool) option" where
  "app_config_load fs config =
     (if \<not> fs_ready fs then Some (fs, config, False)
      else case app_config_ensure_file fs of
             (fs1, False) \<Rightarrow> Some (fs1, app_config_defaults, False)
           | (fs1, True) \<Rightarrow>
               let f = config_file fs1
               in map_option (\<lambda>c. (fs1, app_config_normalize c, True))
                    (Option.bind (load_network f app_config_defaults) (\<lambda>c.
                     Option.bind (load_mqtt f c) (\<lambda>c.
                     Option.bind (load_measurements f c) (\<lambda>c.
                     Option.bind (load_onewire f c) (\<lambda>c.
                     Option.bind (load_each (load_mac f) [0..<APP_CONFIG_ALLOWED_MAC_MAX_COUNT] (c\<lparr>cf_allowed_macs := []\<rparr>)) (\<lambda>c.
                     load_each (load_name f) [0..<APP_CONFIG_DEVICE_NAME_MAX_COUNT] (c\<lparr>cf_device_names := []\<rparr>))))))))"

definition app_runtime_config_load :: "config_fs \<Rightarrow> runtime_config \<Rightarrow> (config_fs \<times> runtime_config \<times> bool) option" where
  "app_runtime_config_load fs rc =
     map_option (\<lambda>(fs1, c, ok). (fs1, rc\<lparr>rc_config := c\<rparr>, ok)) (app_config_load fs (rc_config rc))"

end
