(* ===== verification/Config_Roundtrip.thy ===== *)
theory Config_Roundtrip
  imports Config_File
begin

text \<open>
  The configuration file as lists of keys, and what comes back from it: a saved configuration is loaded
  unchanged, a network block that is too long loses the file, and a read error stops the loader.
\<close>


subsection \<open>Numbers\<close>

lemma digits_append: "digits_value b (xs @ [c]) = b * digits_value b xs + digits_value b [c]"
  by (simp add: digits_value_def)

lemma digit_char_facts:
  assumes "d < 10"
  shows "code (digit_char d) = 48 + d" "isdigit (digit_char d)" "\<not> isspace (digit_char d)" "digits_value b [digit_char d] = d"
    "plain_char (digit_char d)" "digit_char d \<noteq> CHR ''-''" "digit_char d \<noteq> CHR ''+''"
proof -
  show c: "code (digit_char d) = 48 + d" using assms by (simp add: digit_char_def)
  show "isdigit (digit_char d)" "\<not> isspace (digit_char d)" "digits_value b [digit_char d] = d"
    using assms by (simp_all add: isdigit_def isspace_def digits_value_def c)
  have "code (CHR 0x0D) = 13" "code (CHR 0x0A) = 10" "code NUL = 0" "code (CHR ''-'') = 45" "code (CHR ''+'') = 43"
    by (simp_all add: NUL_def)
  then show "plain_char (digit_char d)" "digit_char d \<noteq> CHR ''-''" "digit_char d \<noteq> CHR ''+''"
    using c assms by (auto simp: plain_char_def)
qed

lemma show_nat_digits: "\<forall>c\<in>set (show_nat n). \<exists>d<10. c = digit_char d"
proof (induction n rule: show_nat.induct)
  case (1 n)
  show ?case
  proof (cases "n < 10")
    case True
    then show ?thesis by (subst show_nat.simps) auto
  next
    case False
    then have "show_nat n = show_nat (n div 10) @ [digit_char (n mod 10)]" by (subst show_nat.simps) simp
    moreover have "\<exists>d<10. digit_char (n mod 10) = digit_char d" by (intro exI [of _ "n mod 10"]) simp
    ultimately show ?thesis using 1 [OF False] by auto
  qed
qed

lemma digits_show_nat [simp]: "digits_value 10 (show_nat n) = n"
proof (induction n rule: show_nat.induct)
  case (1 n)
  show ?case
  proof (cases "n < 10")
    case True
    then show ?thesis using digit_char_facts(4) by (subst show_nat.simps) simp
  next
    case False
    then have "show_nat n = show_nat (n div 10) @ [digit_char (n mod 10)]" by (subst show_nat.simps) simp
    then show ?thesis using 1 [OF False] digit_char_facts(4) [of "n mod 10" 10] by (simp add: digits_append)
  qed
qed

lemma show_nat_eq [simp]: "show_nat m = show_nat n \<longleftrightarrow> m = n"
  by (metis digits_show_nat)

lemma show_nat_zero_head: "hd (show_nat n) = CHR ''0'' \<Longrightarrow> n = 0"
proof (induction n rule: show_nat.induct)
  case (1 n)
  show ?case
  proof (cases "n < 10")
    case True
    then have "digit_char n = CHR ''0''" using "1.prems" by (subst (asm) show_nat.simps) simp
    then have "code (digit_char n) = code (CHR ''0'')" by simp
    then show ?thesis using digit_char_facts(1) [OF True] by simp
  next
    case False
    then have "show_nat n = show_nat (n div 10) @ [digit_char (n mod 10)]" by (subst show_nat.simps) simp
    then have "hd (show_nat (n div 10)) = CHR ''0''" using "1.prems" by simp
    then show ?thesis using "1.IH" [OF False] False by simp
  qed
qed

lemma text_ok_number [simp]: "text_ok (show_nat n)"
proof -
  have "hd (show_nat n) \<in> set (show_nat n)" "last (show_nat n) \<in> set (show_nat n)" by simp_all
  then obtain d e where "d < 10" "hd (show_nat n) = digit_char d" "e < 10" "last (show_nat n) = digit_char e"
    using show_nat_digits [of n] by metis
  moreover have "\<forall>c\<in>set (show_nat n). plain_char c" using show_nat_digits [of n] digit_char_facts(5) by auto
  ultimately show ?thesis using digit_char_facts(3) by (simp add: text_ok_def)
qed

lemma signed_show_nat [simp]: "signed_text (show_nat n) = (False, show_nat n)"
proof -
  obtain d cs where d: "d < 10" "show_nat n = digit_char d # cs"
    using show_nat_digits [of n] show_nat_nonempty [of n] by (metis list.exhaust list.set_intros(1))
  show ?thesis unfolding signed_text_def d(2) using digit_char_facts(3,6,7) [OF d(1)] by simp
qed

lemma take_digits: "takeWhile isdigit (show_nat n) = show_nat n"
  using show_nat_digits [of n] digit_char_facts(2) by (auto intro!: takeWhile_eq_all_conv [THEN iffD2])

lemma strtol_show_nat: "n < 2 ^ 31 \<Longrightarrow> strtol10 (show_nat n) = Some (int n)"
  by (simp add: strtol10_def take_digits Let_def)

lemma strtoul_show_nat: "strtoul0 (show_nat (unat d)) = d"
proof (cases "hd (show_nat (unat d)) = CHR ''0''")
  case True
  then have "unat d = 0" by (rule show_nat_zero_head)
  then have d: "d = 0" by (simp add: unat_eq_zero)
  have z: "show_nat 0 = ''0''" by code_simp
  have t: "signed_text ''0'' = (False, ''0'')" using signed_show_nat [of 0] by (simp only: z)
  have "takeWhile isoctal ''0'' = ''0''" by (simp add: isoctal_def)
  moreover have "digits_value 8 ''0'' = 0" by (simp add: digits_value_def isdigit_def)
  ultimately have "strtoul0 ''0'' = 0" by (simp add: strtoul0_def t)
  then show ?thesis by (simp add: d z)
next
  case False
  have "unat d < 2 ^ 32" using unsigned_less [of d, where ?'a = nat] by simp
  then show ?thesis using False by (simp add: strtoul0_def take_digits Let_def)
qed

subsection \<open>The file as sections\<close>

definition mac_keys :: "app_config \<Rightarrow> (string \<times> string) list" where
  "mac_keys c = List.map (\<lambda>i. (''mac'' @ show_nat (i + 1), cf_allowed_macs c ! i)) [0..<length (cf_allowed_macs c)]"

definition name_keys :: "app_config \<Rightarrow> (string \<times> string) list" where
  "name_keys c = concat (List.map
     (\<lambda>i. [(''id'' @ show_nat (i + 1), show_nat (unat (fst (cf_device_names c ! i)))),
           (''name'' @ show_nat (i + 1), snd (cf_device_names c ! i))]) [0..<length (cf_device_names c)])"

definition network_keys :: "app_config \<Rightarrow> (string \<times> string) list" where
  "network_keys c =
     [(''mode'', app_config_mode_name (cf_mode c)), (''ssid'', cf_ssid c), (''hostname'', cf_hostname c),
      (''channel'', show_nat (cf_channel c)), (''security'', app_config_security_name (cf_security c)),
      (''password'', cf_password c), (''send_narodmon'', show_bool (cf_send_narodmon c))]"

definition measurement_keys :: "app_config \<Rightarrow> (string \<times> string) list" where
  "measurement_keys c =
     [(''retention_seconds'', show_nat (cf_measurement_retention_seconds c)), (''max_count'', show_nat (cf_measurement_max_count c))]"

definition onewire_keys :: "app_config \<Rightarrow> (string \<times> string) list" where
  "onewire_keys c =
     [(''poll_interval_seconds'', show_nat (cf_onewire_poll_interval_seconds c)),
      (''gpio2_enabled'', show_bool (cf_onewire_gpio2_enabled c)), (''gpio3_enabled'', show_bool (cf_onewire_gpio3_enabled c))]"

definition mqtt_keys :: "app_config \<Rightarrow> (string \<times> string) list" where
  "mqtt_keys c =
     [(''enabled'', show_bool (mq_enabled (cf_mqtt c))), (''host'', mq_host (cf_mqtt c)), (''port'', show_nat (mq_port (cf_mqtt c))),
      (''interval_seconds'', show_nat (mq_interval_seconds (cf_mqtt c))), (''username'', mq_username (cf_mqtt c)),
      (''password'', mq_password (cf_mqtt c))]"

definition config_sections :: "app_config \<Rightarrow> ini_section list" where
  "config_sections c =
     [(''network'', network_keys c @ mac_keys c), (''measurements'', measurement_keys c), (''onewire'', onewire_keys c),
      (''mqtt'', mqtt_keys c), (''names'', name_keys c)]"

lemma concat_mac_pieces: "concat (mac_pieces c) = unlines (List.map kv_line (mac_keys c))"
  by (simp add: mac_pieces_def mac_keys_def unlines_def kv_line_def comp_def)

lemma unlines_concat: "unlines (concat xss) = concat (List.map unlines xss)"
  by (induction xss) simp_all

lemma concat_name_pieces: "concat (name_pieces c) = unlines (List.map kv_line (name_keys c))"
  by (simp add: name_pieces_def name_keys_def kv_line_def comp_def map_concat unlines_concat)

lemma concat_config_pieces: "concat (config_pieces c) = unlines (config_comments @ ini_lines (config_sections c))"
proof -
  have n: "network_piece c = unlines (config_comments @ '''' # ''[network]'' # List.map kv_line (network_keys c))"
    by (simp add: network_piece_def network_keys_def kv_line_def)
  have m: "measurement_piece c = unlines ('''' # section_lines (''measurements'', measurement_keys c))"
    by (simp add: measurement_piece_def measurement_keys_def section_lines_def kv_line_def)
  have o: "onewire_piece c = unlines ('''' # section_lines (''onewire'', onewire_keys c))"
    by (simp add: onewire_piece_def onewire_keys_def section_lines_def kv_line_def)
  have q: "mqtt_piece c = unlines ('''' # section_lines (''mqtt'', mqtt_keys c))"
    by (simp add: mqtt_piece_def mqtt_keys_def section_lines_def kv_line_def)
  have "concat (config_pieces c) = network_piece c @ concat (mac_pieces c) @ measurement_piece c @ onewire_piece c @ mqtt_piece c @
      unlines ['''', ''[names]''] @ concat (name_pieces c)"
    by (simp add: config_pieces_def del: unlines_simps)
  also have "\<dots> = unlines (config_comments @ ini_lines (config_sections c))"
    unfolding n m o q concat_mac_pieces concat_name_pieces
    by (simp add: config_sections_def ini_lines_def section_lines_def unlines_def)
  finally show ?thesis .
qed

subsection \<open>Configurations that a file can hold\<close>

definition storable :: "app_config \<Rightarrow> bool" where
  "storable c =
     (config_ok c \<and> macs_ok c \<and> names_ok c \<and>
      (\<forall>s\<in>{cf_ssid c, cf_hostname c, cf_password c, mq_host (cf_mqtt c), mq_username (cf_mqtt c), mq_password (cf_mqtt c)}.
         (\<forall>ch\<in>set s. plain_char ch) \<and> trimmed s) \<and>
      length (cf_ssid c) \<le> 32 \<and> length (cf_hostname c) \<le> 63 \<and> length (cf_password c) \<le> 64 \<and>
      length (mq_host (cf_mqtt c)) \<le> 253 \<and> length (mq_username (cf_mqtt c)) \<le> 64 \<and> length (mq_password (cf_mqtt c)) \<le> 64 \<and>
      mq_port (cf_mqtt c) \<le> 65535)"

lemma text_ok_iff: "text_ok s \<longleftrightarrow> (\<forall>ch\<in>set s. plain_char ch) \<and> trimmed s"
  by (auto simp: text_ok_def trimmed_def)

lemma clean_plain: "clean s \<Longrightarrow> \<forall>ch\<in>set s. plain_char ch"
proof
  fix ch
  assume "clean s" "ch \<in> set s"
  then obtain cs where cs: "\<forall>k\<in>set cs. utf8_chunk k" "ch \<in> set (concat cs)" unfolding clean_def by blast
  then obtain k where k: "utf8_chunk k" "ch \<in> set k" unfolding set_concat by blast
  then obtain i where i: "i < length k" "ch = k ! i" by (auto simp: in_set_conv_nth)
  have "0x20 \<le> code ch"
  proof (cases i)
    case 0
    then have "ch = hd k" using i by (cases k) simp_all
    then show ?thesis using k(1) unfolding utf8_chunk_def by blast
  next
    case (Suc j)
    then have "i \<in> {1..<length k}" using i by simp
    then have "continuation (code (k ! i))" using k(1) unfolding utf8_chunk_def by blast
    then show ?thesis using i by (simp add: continuation_def)
  qed
  moreover have "code (CHR 0x0D) = 13" "code (CHR 0x0A) = 10" "code NUL = 0" by (simp_all add: NUL_def)
  ultimately show "plain_char ch" by (auto simp: plain_char_def)
qed

lemma text_ok_name: "name_ok s \<Longrightarrow> text_ok s"
  using clean_plain by (auto simp: name_ok_def text_ok_iff)

lemma xdigit_plain: "isxdigit ch \<Longrightarrow> plain_char ch \<and> \<not> isspace ch"
proof -
  assume x: "isxdigit ch"
  have "code (CHR 0x0D) = 13" "code (CHR 0x0A) = 10" "code NUL = 0" by (simp_all add: NUL_def)
  then show ?thesis using x by (auto simp: plain_char_def isxdigit_def isdigit_def isspace_def)
qed

lemma text_ok_mac: "canonical_mac m \<Longrightarrow> text_ok m"
proof -
  assume m: "canonical_mac m"
  then have "m \<noteq> []" by (auto simp: canonical_mac_def)
  then have "hd m \<in> set m" "last m \<in> set m" by simp_all
  then show ?thesis using m xdigit_plain unfolding text_ok_def canonical_mac_def by blast
qed

lemma text_ok_consts [simp]: "text_ok (show_bool b)" "text_ok (app_config_mode_name m)" "text_ok (app_config_security_name s)"
proof -
  show "text_ok (show_bool b)" by (cases b) (simp_all add: show_bool_def text_ok_def plain_char_def isspace_def NUL_def)
  show "text_ok (app_config_mode_name m)" by (cases m) (simp_all add: app_config_mode_name_def text_ok_def plain_char_def isspace_def NUL_def)
  show "text_ok (app_config_security_name s)"
    by (cases s) (simp_all add: app_config_security_name_def text_ok_def plain_char_def isspace_def NUL_def)
qed

lemma key_ok_names:
  "key_ok ''mode''" "key_ok ''ssid''" "key_ok ''hostname''" "key_ok ''channel''" "key_ok ''security''" "key_ok ''password''"
  "key_ok ''send_narodmon''" "key_ok ''retention_seconds''" "key_ok ''max_count''" "key_ok ''poll_interval_seconds''"
  "key_ok ''gpio2_enabled''" "key_ok ''gpio3_enabled''" "key_ok ''enabled''" "key_ok ''host''" "key_ok ''port''"
  "key_ok ''interval_seconds''" "key_ok ''username''"
  by (simp_all add: key_ok_def text_ok_def plain_char_def isspace_def NUL_def)

lemma key_ok_numbered:
  assumes "key_ok k"
  shows "key_ok (k @ show_nat n)"
proof -
  have d: "\<forall>c\<in>set (show_nat n). plain_char c \<and> \<not> isspace c \<and> c \<noteq> CHR ''=''"
  proof
    fix c
    assume "c \<in> set (show_nat n)"
    then obtain e where e: "e < 10" "c = digit_char e" using show_nat_digits by blast
    have "code (CHR ''='') = 61" by simp
    then have "c \<noteq> CHR ''=''" using digit_char_facts(1) [OF e(1)] e by auto
    then show "plain_char c \<and> \<not> isspace c \<and> c \<noteq> CHR ''=''" using digit_char_facts(3,5) [OF e(1)] e(2) by simp
  qed
  have "last (show_nat n) \<in> set (show_nat n)" by simp
  then show ?thesis using assms d by (auto simp: key_ok_def text_ok_def)
qed

lemma section_okI:
  assumes "text_ok name" "CHR '']'' \<notin> set name" "length name < 64"
    "\<And>k v. (k, v) \<in> set kvs \<Longrightarrow> key_ok k \<and> text_ok v \<and> length k + length v < 318"
  shows "section_ok (name, kvs)"
  unfolding section_ok_def using assms by auto

lemma section_names [simp]:
  "text_ok ''network''" "text_ok ''measurements''" "text_ok ''onewire''" "text_ok ''mqtt''" "text_ok ''names''"
  by (simp_all add: text_ok_def plain_char_def isspace_def NUL_def)

lemma length_show_bool [simp]: "length (show_bool b) = 1"
  by (simp add: show_bool_def)

lemma short_texts: "length (app_config_mode_name m) \<le> 6" "length (app_config_security_name s) \<le> 4"
  by (simp_all add: app_config_mode_name_def app_config_security_name_def)

lemma short_number: "n < 2 ^ 32 \<Longrightarrow> length (show_nat n) \<le> 10"
  using length_show_nat_le [of n 10] by simp

lemma storable_texts:
  assumes "storable c"
  shows "text_ok (cf_ssid c)" "text_ok (cf_hostname c)" "text_ok (cf_password c)" "text_ok (mq_host (cf_mqtt c))"
    "text_ok (mq_username (cf_mqtt c))" "text_ok (mq_password (cf_mqtt c))"
  using assms by (auto simp: storable_def text_ok_iff)

lemma storable_lengths:
  assumes "storable c"
  shows "length (cf_ssid c) \<le> 32" "length (cf_hostname c) \<le> 63" "length (cf_password c) \<le> 64"
    "length (mq_host (cf_mqtt c)) \<le> 253" "length (mq_username (cf_mqtt c)) \<le> 64" "length (mq_password (cf_mqtt c)) \<le> 64"
    "length (show_nat (cf_channel c)) \<le> 10" "length (show_nat (cf_measurement_retention_seconds c)) \<le> 10"
    "length (show_nat (cf_measurement_max_count c)) \<le> 10" "length (show_nat (cf_onewire_poll_interval_seconds c)) \<le> 10"
    "length (show_nat (mq_port (cf_mqtt c))) \<le> 10" "length (show_nat (mq_interval_seconds (cf_mqtt c))) \<le> 10"
  using assms by (simp_all add: storable_def config_ok_def short_number)

lemma storable_numbers:
  assumes "storable c"
  shows "cf_channel c < 2 ^ 31" "cf_measurement_retention_seconds c < 2 ^ 31" "cf_measurement_max_count c < 2 ^ 31"
    "cf_onewire_poll_interval_seconds c < 2 ^ 31" "mq_port (cf_mqtt c) < 2 ^ 31" "mq_interval_seconds (cf_mqtt c) < 2 ^ 31"
  using assms by (simp_all add: storable_def config_ok_def)

lemma numbered_length: "i < 128 \<Longrightarrow> length (show_nat (i + 1)) \<le> 10"
  by (simp add: short_number)

lemma mac_key_ok:
  assumes "storable c" "(k, v) \<in> set (mac_keys c)"
  shows "key_ok k" "text_ok v" "length k + length v < 318"
proof -
  obtain i where i: "i < length (cf_allowed_macs c)" "k = ''mac'' @ show_nat (i + 1)" "v = cf_allowed_macs c ! i"
    using assms(2) by (auto simp: mac_keys_def)
  have m: "canonical_mac v" "i < 128" using assms(1) i nth_mem [OF i(1)]
    by (auto simp: storable_def macs_ok_def config_sizes)
  have "key_ok ''mac''" by (simp add: key_ok_def text_ok_def plain_char_def isspace_def NUL_def)
  then show "key_ok k" unfolding i(2) by (rule key_ok_numbered)
  show "text_ok v" by (rule text_ok_mac [OF m(1)])
  have "length v = 12" using m(1) by (simp add: canonical_mac_def)
  then show "length k + length v < 318" using numbered_length [OF m(2)] i(2) by simp
qed

lemma names_text_ok: "storable c \<Longrightarrow> d \<in> set (cf_device_names c) \<Longrightarrow> text_ok (snd d) \<and> length (snd d) \<le> 64"
  using text_ok_name by (auto simp: storable_def config_ok_def name_ok_def)

lemma name_key_ok:
  assumes "storable c" "(k, v) \<in> set (name_keys c)"
  shows "key_ok k \<and> text_ok v \<and> length k + length v < 318"
proof -
  have b: "key_ok ''id''" "key_ok ''name''" by (simp_all add: key_ok_def text_ok_def plain_char_def isspace_def NUL_def)
  obtain i where i: "i < length (cf_device_names c)"
    "k = ''id'' @ show_nat (i + 1) \<and> v = show_nat (unat (fst (cf_device_names c ! i))) \<or>
     k = ''name'' @ show_nat (i + 1) \<and> v = snd (cf_device_names c ! i)"
    using assms(2) unfolding name_keys_def by auto
  have "i < 128" using assms(1) i(1) by (simp add: storable_def config_ok_def)
  note n = numbered_length [OF this]
  have u: "length (show_nat (unat (fst (cf_device_names c ! i)))) \<le> 10"
    by (rule short_number) (use unsigned_less [of "fst (cf_device_names c ! i)", where ?'a = nat] in simp)
  note t = names_text_ok [OF assms(1) nth_mem [OF i(1)]]
  from i(2) show ?thesis
  proof
    assume e: "k = ''id'' @ show_nat (i + 1) \<and> v = show_nat (unat (fst (cf_device_names c ! i)))"
    then show ?thesis using key_ok_numbered [OF b(1), of "i + 1"] n u by simp
  next
    assume e: "k = ''name'' @ show_nat (i + 1) \<and> v = snd (cf_device_names c ! i)"
    then show ?thesis using key_ok_numbered [OF b(2), of "i + 1"] n t by simp
  qed
qed

lemma config_sections_ok:
  assumes "storable c"
  shows "\<forall>s\<in>set (config_sections c). section_ok s"
proof -
  note t = storable_texts [OF assms] storable_lengths [OF assms]
  have nk: "key_ok k \<and> text_ok v \<and> length k + length v < 318" if "(k, v) \<in> set (network_keys c)" for k v
    using that t short_texts(1) [of "cf_mode c"] short_texts(2) [of "cf_security c"]
    by (auto simp: network_keys_def key_ok_names)
  have "section_ok (''network'', network_keys c @ mac_keys c)"
    by (rule section_okI) (use nk mac_key_ok [OF assms] in auto)
  moreover have "section_ok (''measurements'', measurement_keys c)"
    by (rule section_okI) (use t in \<open>auto simp: measurement_keys_def key_ok_names\<close>)
  moreover have "section_ok (''onewire'', onewire_keys c)"
    by (rule section_okI) (use t in \<open>auto simp: onewire_keys_def key_ok_names\<close>)
  moreover have "section_ok (''mqtt'', mqtt_keys c)"
    by (rule section_okI) (use t in \<open>auto simp: mqtt_keys_def key_ok_names\<close>)
  moreover have "section_ok (''names'', name_keys c)"
    by (rule section_okI) (use name_key_ok [OF assms] in auto)
  ultimately show ?thesis by (simp add: config_sections_def)
qed

lemma config_sections_distinct: "distinct (List.map fst (config_sections c))"
  by (simp add: config_sections_def)

lemma config_comments_ok: "\<forall>l\<in>set config_comments. comment_line l"
  by (simp add: config_comments_def comment_line_def line_ok_def plain_char_def NUL_def)

subsection \<open>Saving succeeds or loses the file\<close>

lemma write_pieces_ok:
  "\<forall>p\<in>set ps. length p < 1024 \<Longrightarrow> \<forall>j. w j \<Longrightarrow> write_pieces w k content ps = (content @ concat ps, True)"
  by (induction ps arbitrary: k content) auto

lemma mac_pieces_short:
  assumes "storable c" "p \<in> set (mac_pieces c)"
  shows "length p < 1024"
proof -
  obtain i where i: "i < length (cf_allowed_macs c)" "p = unlines [''mac'' @ show_nat (i + 1) @ ''='' @ cf_allowed_macs c ! i]"
    using assms(2) by (auto simp: mac_pieces_def)
  then have "(''mac'' @ show_nat (i + 1), cf_allowed_macs c ! i) \<in> set (mac_keys c)" by (auto simp: mac_keys_def)
  from mac_key_ok(3) [OF assms(1) this] show ?thesis unfolding i(2) by simp
qed

lemma name_pieces_short:
  assumes "storable c" "p \<in> set (name_pieces c)"
  shows "length p < 1024"
proof -
  obtain i where i: "i < length (cf_device_names c)"
    "p = unlines [''id'' @ show_nat (i + 1) @ ''='' @ show_nat (unat (fst (cf_device_names c ! i))),
                  ''name'' @ show_nat (i + 1) @ ''='' @ snd (cf_device_names c ! i)]"
    using assms(2) by (auto simp: name_pieces_def)
  have "(''id'' @ show_nat (i + 1), show_nat (unat (fst (cf_device_names c ! i)))) \<in> set (name_keys c)"
    "(''name'' @ show_nat (i + 1), snd (cf_device_names c ! i)) \<in> set (name_keys c)"
    using i(1) unfolding name_keys_def by auto
  from this [THEN name_key_ok [OF assms(1), THEN conjunct2, THEN conjunct2]] show ?thesis unfolding i(2) by simp
qed

lemma config_pieces_short:
  assumes "storable c" "length (network_piece c) < 1024"
  shows "\<forall>p\<in>set (config_pieces c). length p < 1024"
proof -
  note l = storable_lengths [OF assms(1)]
  have "length (measurement_piece c) < 1024" "length (onewire_piece c) < 1024" "length (mqtt_piece c) < 1024"
    using l by (simp_all add: measurement_piece_def onewire_piece_def mqtt_piece_def)
  then show ?thesis using assms(2) mac_pieces_short [OF assms(1)] name_pieces_short [OF assms(1)]
    by (auto simp: config_pieces_def)
qed

lemma save_storable:
  assumes "storable c" "length (network_piece c) < 1024" "fs_open_write fs" "\<forall>j. fs_write_ok fs j"
  shows "app_config_save c fs = (fs\<lparr>fs_config := Some (unlines (config_comments @ ini_lines (config_sections c)))\<rparr>, True)"
  using write_pieces_ok [OF config_pieces_short [OF assms(1,2)] assms(4), of 0 "[]"] assms(3)
  by (simp add: app_config_save_def concat_config_pieces)

lemma write_pieces_content: "write_pieces w k content ps = (r, True) \<Longrightarrow> r = content @ concat ps"
proof (induction ps arbitrary: k content)
  case (Cons p ps)
  then have "write_pieces w (Suc k) (content @ p) ps = (r, True)" by (simp split: if_splits)
  from Cons.IH [OF this] show ?case by simp
qed simp

text \<open>A save that reports success has written the whole file.\<close>

lemma saved_content:
  "app_config_save c fs = (fs', True) \<Longrightarrow>
   fs' = fs\<lparr>fs_config := Some (unlines (config_comments @ ini_lines (config_sections c)))\<rparr>"
  by (auto simp: app_config_save_def concat_config_pieces dest!: write_pieces_content split: if_splits prod.splits)

lemma length_network_piece:
  "length (network_piece c) = 940 + length (app_config_mode_name (cf_mode c)) + length (cf_ssid c) + length (cf_hostname c) +
     length (show_nat (cf_channel c)) + length (app_config_security_name (cf_security c)) + length (cf_password c)"
  by (simp add: network_piece_def config_comments_def)

subsection \<open>Looking the keys up\<close>

lemma numbered_other_key [simp]:
  "(''mac'' @ s = ''id'' @ t) = False" "(''name'' @ s = ''id'' @ t) = False" "(''id'' @ s = ''name'' @ t) = False"
  by simp_all

lemma map_of_indexed:
  assumes "inj f"
  shows "map_of (List.map (\<lambda>i. (f i, g i)) [0..<n]) (f j) = (if j < n then Some (g j) else None)"
  using assms by (induction n) (auto simp: map_add_def inj_eq less_Suc_eq split: option.split)

lemma map_of_pairs:
  assumes "inj f" "inj h" "\<And>i j. f i \<noteq> h j"
  shows "map_of (concat (List.map (\<lambda>i. [(f i, g i), (h i, l i)]) [0..<n])) (f j) = (if j < n then Some (g j) else None)"
    "map_of (concat (List.map (\<lambda>i. [(f i, g i), (h i, l i)]) [0..<n])) (h j) = (if j < n then Some (l j) else None)"
proof (induction n)
  case (Suc n)
  have n: "h j \<noteq> f i" for i j using assms(3) [of i j] by simp
  case 1
  show ?case using Suc(1) assms n by (auto simp: map_add_def inj_eq less_Suc_eq split: option.split)
  case 2
  show ?case using Suc(2) assms n by (auto simp: map_add_def inj_eq less_Suc_eq split: option.split)
qed simp_all

lemma inj_numbered: "inj (\<lambda>i. k @ show_nat (i + 1))"
  by (rule injI) simp

lemma lookup_mac: "map_of (mac_keys c) (''mac'' @ show_nat (i + 1)) =
    (if i < length (cf_allowed_macs c) then Some (cf_allowed_macs c ! i) else None)"
  unfolding mac_keys_def by (rule map_of_indexed [OF inj_numbered])

lemma lookup_names:
  "map_of (name_keys c) (''id'' @ show_nat (i + 1)) =
    (if i < length (cf_device_names c) then Some (show_nat (unat (fst (cf_device_names c ! i)))) else None)"
  "map_of (name_keys c) (''name'' @ show_nat (i + 1)) =
    (if i < length (cf_device_names c) then Some (snd (cf_device_names c ! i)) else None)"
  unfolding name_keys_def
  by (rule map_of_pairs [OF inj_numbered inj_numbered], simp)+

definition config_value :: "app_config \<Rightarrow> string \<Rightarrow> string \<Rightarrow> string option" where
  "config_value c s k = Option.bind (map_of (config_sections c) s) (\<lambda>kvs. map_of kvs k)"

definition saved_file :: "app_config \<Rightarrow> fil option" where
  "saved_file c = Some (unlines (config_comments @ ini_lines (config_sections c)), False)"

lemma gets_saved:
  assumes "storable c" "s \<noteq> ''''"
  shows "ini_gets s k d n (saved_file c) = Some (bounded_copy n (case config_value c s k of Some v \<Rightarrow> v | None \<Rightarrow> d))"
  unfolding saved_file_def config_value_def
  using ini_gets_sections [OF config_comments_ok config_sections_ok [OF assms(1)] config_sections_distinct assms(2), of k d n False]
  by (simp split: option.split)

lemma getl_saved:
  assumes "storable c" "s \<noteq> ''''" "config_value c s k = Some (show_nat m)" "m < 2 ^ 31"
  shows "ini_getl s k d (saved_file c) = Some (int m)"
proof -
  have "length (show_nat m) < 32" using length_show_nat_le [of m 10] assms(4) by simp
  then show ?thesis using gets_saved [OF assms(1,2), of k "''''" 32] assms(3) strtol_show_nat [OF assms(4)]
    by (simp add: ini_getl_def)
qed

lemma show_bool_nat: "show_bool b = show_nat (of_bool b)"
proof -
  have "show_nat 1 = ''1''" "show_nat 0 = ''0''" by code_simp+
  then show ?thesis by (simp add: show_bool_def)
qed

lemma getl_bool:
  assumes "storable c" "s \<noteq> ''''" "config_value c s k = Some (show_bool b)"
  shows "ini_getl s k d (saved_file c) = Some (of_bool b)"
  using getl_saved [OF assms(1,2), of k "of_bool b" d] assms(3) by (simp add: show_bool_nat)

lemma map_of_network:
  assumes "map_of (network_keys c) k = Some v"
  shows "config_value c ''network'' k = Some v"
  using assms by (simp add: config_value_def config_sections_def)

lemma config_values:
  "config_value c ''network'' ''mode'' = Some (app_config_mode_name (cf_mode c))"
  "config_value c ''network'' ''ssid'' = Some (cf_ssid c)"
  "config_value c ''network'' ''hostname'' = Some (cf_hostname c)"
  "config_value c ''network'' ''channel'' = Some (show_nat (cf_channel c))"
  "config_value c ''network'' ''security'' = Some (app_config_security_name (cf_security c))"
  "config_value c ''network'' ''password'' = Some (cf_password c)"
  "config_value c ''network'' ''send_narodmon'' = Some (show_bool (cf_send_narodmon c))"
  "config_value c ''mqtt'' ''enabled'' = Some (show_bool (mq_enabled (cf_mqtt c)))"
  "config_value c ''mqtt'' ''host'' = Some (mq_host (cf_mqtt c))"
  "config_value c ''mqtt'' ''port'' = Some (show_nat (mq_port (cf_mqtt c)))"
  "config_value c ''mqtt'' ''interval_seconds'' = Some (show_nat (mq_interval_seconds (cf_mqtt c)))"
  "config_value c ''mqtt'' ''username'' = Some (mq_username (cf_mqtt c))"
  "config_value c ''mqtt'' ''password'' = Some (mq_password (cf_mqtt c))"
  "config_value c ''measurements'' ''retention_seconds'' = Some (show_nat (cf_measurement_retention_seconds c))"
  "config_value c ''measurements'' ''max_count'' = Some (show_nat (cf_measurement_max_count c))"
  "config_value c ''onewire'' ''poll_interval_seconds'' = Some (show_nat (cf_onewire_poll_interval_seconds c))"
  "config_value c ''onewire'' ''gpio2_enabled'' = Some (show_bool (cf_onewire_gpio2_enabled c))"
  "config_value c ''onewire'' ''gpio3_enabled'' = Some (show_bool (cf_onewire_gpio3_enabled c))"
  by (rule map_of_network, simp add: network_keys_def)+
    (simp_all add: config_value_def config_sections_def mqtt_keys_def measurement_keys_def onewire_keys_def)

lemma config_value_indexed:
  "config_value c ''network'' (''mac'' @ show_nat (i + 1)) =
     (if i < length (cf_allowed_macs c) then Some (cf_allowed_macs c ! i) else None)"
  "config_value c ''names'' (''id'' @ show_nat (i + 1)) =
     (if i < length (cf_device_names c) then Some (show_nat (unat (fst (cf_device_names c ! i)))) else None)"
  "config_value c ''names'' (''name'' @ show_nat (i + 1)) =
     (if i < length (cf_device_names c) then Some (snd (cf_device_names c ! i)) else None)"
proof -
  have "map_of (network_keys c) (''mac'' @ show_nat (i + 1)) = None" by (simp add: network_keys_def)
  then have "map_of (network_keys c @ mac_keys c) (''mac'' @ show_nat (i + 1)) = map_of (mac_keys c) (''mac'' @ show_nat (i + 1))"
    unfolding map_of_append map_add_def by simp
  then show "config_value c ''network'' (''mac'' @ show_nat (i + 1)) =
     (if i < length (cf_allowed_macs c) then Some (cf_allowed_macs c ! i) else None)"
    unfolding config_value_def config_sections_def lookup_mac by simp
  show "config_value c ''names'' (''id'' @ show_nat (i + 1)) =
     (if i < length (cf_device_names c) then Some (show_nat (unat (fst (cf_device_names c ! i)))) else None)"
    "config_value c ''names'' (''name'' @ show_nat (i + 1)) =
     (if i < length (cf_device_names c) then Some (snd (cf_device_names c ! i)) else None)"
    using lookup_names [of c i] by (simp_all add: config_value_def config_sections_def)
qed

lemma parse_names [simp]:
  "app_config_parse_mode (app_config_trim (app_config_mode_name m)) = m"
  "app_config_parse_security (app_config_trim (app_config_security_name s)) = s"
proof -
  have t: "trimmed (app_config_mode_name m)" "trimmed (app_config_security_name s)"
    using text_ok_consts by (auto simp: text_ok_iff)
  show "app_config_parse_mode (app_config_trim (app_config_mode_name m)) = m"
    unfolding trim_trimmed [OF t(1)] by (cases m) (simp_all add: app_config_parse_mode_def app_config_mode_name_def)
  show "app_config_parse_security (app_config_trim (app_config_security_name s)) = s"
    unfolding trim_trimmed [OF t(2)] by (cases s) (simp_all add: app_config_parse_security_def app_config_security_name_def)
qed

subsection \<open>Loading what was saved\<close>

lemma gets_text:
  assumes "storable c" "s \<noteq> ''''" "config_value c s k = Some v" "length v < n"
  shows "ini_gets s k d n (saved_file c) = Some v"
  using gets_saved [OF assms(1,2), of k d n] assms(3,4) by simp

lemma load_network_saved:
  assumes c: "storable c"
  shows "load_network (saved_file c) d = Some (d\<lparr>cf_mode := cf_mode c, cf_ssid := cf_ssid c, cf_hostname := cf_hostname c,
    cf_channel := cf_channel c, cf_security := cf_security c, cf_password := cf_password c, cf_send_narodmon := cf_send_narodmon c\<rparr>)"
proof -
  note l = storable_lengths [OF c] and n = storable_numbers [OF c]
  have m: "length (app_config_mode_name (cf_mode c)) < 65" "length (app_config_security_name (cf_security c)) < 65"
    using short_texts(1) [of "cf_mode c"] short_texts(2) [of "cf_security c"] by simp_all
  note g = gets_text [OF c, of "''network''"]
  show ?thesis
    using l n m by (simp add: load_network_def config_sizes g [OF _ config_values(1)] g [OF _ config_values(2)]
      g [OF _ config_values(3)] g [OF _ config_values(5)] g [OF _ config_values(6)] getl_saved [OF c _ config_values(4)]
      getl_bool [OF c _ config_values(7)])
qed

lemma load_mqtt_saved:
  assumes c: "storable c"
  shows "load_mqtt (saved_file c) d = Some (d\<lparr>cf_mqtt := cf_mqtt c\<rparr>)"
proof -
  note l = storable_lengths [OF c] and n = storable_numbers [OF c]
  note g = gets_text [OF c, of "''mqtt''"]
  have "0 < mq_port (cf_mqtt c)" "mq_port (cf_mqtt c) \<le> 65535" "0 < mq_interval_seconds (cf_mqtt c)"
    using c by (auto simp: storable_def config_ok_def)
  then show ?thesis
    using l n by (simp add: load_mqtt_def config_sizes g [OF _ config_values(9)] g [OF _ config_values(12)]
      g [OF _ config_values(13)] getl_saved [OF c _ config_values(10)] getl_saved [OF c _ config_values(11)]
      getl_bool [OF c _ config_values(8)])
qed

lemma load_measurements_saved:
  assumes c: "storable c"
  shows "load_measurements (saved_file c) d = Some (d\<lparr>cf_measurement_retention_seconds := cf_measurement_retention_seconds c,
    cf_measurement_max_count := cf_measurement_max_count c\<rparr>)"
proof -
  have "0 < cf_measurement_retention_seconds c" "cf_measurement_max_count c \<le> 1000"
    using c by (auto simp: storable_def config_ok_def)
  then show ?thesis
    using storable_numbers [OF c] by (simp add: load_measurements_def config_limits getl_saved [OF c _ config_values(14)]
      getl_saved [OF c _ config_values(15)])
qed

lemma load_onewire_saved:
  assumes c: "storable c"
  shows "load_onewire (saved_file c) d = Some (d\<lparr>cf_onewire_poll_interval_seconds := cf_onewire_poll_interval_seconds c,
    cf_onewire_gpio2_enabled := cf_onewire_gpio2_enabled c, cf_onewire_gpio3_enabled := cf_onewire_gpio3_enabled c\<rparr>)"
proof -
  have "0 < cf_onewire_poll_interval_seconds c" using c by (auto simp: storable_def config_ok_def)
  then show ?thesis
    using storable_numbers [OF c] by (simp add: load_onewire_def getl_saved [OF c _ config_values(16)]
      getl_bool [OF c _ config_values(17)] getl_bool [OF c _ config_values(18)])
qed

lemma load_each_append: "load_each f (xs @ ys) c = Option.bind (load_each f xs c) (load_each f ys)"
  by (induction xs arbitrary: c) (auto split: bind_split)

lemma load_each_invariant:
  "(\<And>i. i < n \<Longrightarrow> f i (S i) = Some (S (Suc i))) \<Longrightarrow> load_each f [0..<n] (S 0) = Some (S n)"
  by (induction n) (simp_all add: load_each_append)

lemma take_Suc_nth: "take (Suc i) xs = (if i < length xs then take i xs @ [xs ! i] else take i xs)"
  by (simp add: take_Suc_conv_app_nth)

lemma trim_empty [simp]: "app_config_trim '''' = ''''"
  by (simp add: app_config_trim_def)

lemma load_macs_saved:
  assumes c: "storable c"
  shows "load_each (load_mac (saved_file c)) [0..<APP_CONFIG_ALLOWED_MAC_MAX_COUNT] (d\<lparr>cf_allowed_macs := []\<rparr>) =
    Some (d\<lparr>cf_allowed_macs := cf_allowed_macs c\<rparr>)"
proof -
  let ?m = "cf_allowed_macs c" and ?S = "\<lambda>i. d\<lparr>cf_allowed_macs := take i (cf_allowed_macs c)\<rparr>"
  have inv: "distinct ?m" "length ?m \<le> 128" "\<forall>m\<in>set ?m. canonical_mac m"
    using c by (auto simp: storable_def macs_ok_def config_sizes)
  have "load_mac (saved_file c) i (?S i) = Some (?S (Suc i))" if "i < 128" for i
  proof (cases "i < length ?m")
    case False
    then show ?thesis using gets_saved [OF c, of "''network''" "''mac'' @ show_nat (i + 1)" "''''" 21]
      unfolding config_value_indexed(1) by (simp add: load_mac_def config_sizes take_Suc_nth)
  next
    case True
    then have m: "canonical_mac (?m ! i)" using inv(3) by simp
    then have v: "length (?m ! i) = 12" "?m ! i \<noteq> ''''" "app_config_trim (?m ! i) = ?m ! i"
      using text_ok_mac [OF m] by (auto simp: canonical_mac_def text_ok_iff trim_trimmed)
    have "?m ! i \<notin> set (take i ?m)" using inv(1) True by (auto simp: in_set_conv_nth nth_eq_iff_index_eq)
    then have "find_index (\<lambda>mac. mac = ?m ! i) (take i ?m) = None" by (auto simp: find_index_None_iff)
    then have "app_config_set_allowed_mac (?S i) (?m ! i) True = (?S (Suc i), True)"
      using True inv(2) that
      by (simp add: app_config_set_allowed_mac_def normalize_mac_canonical(2) [OF m] take_Suc_nth APP_CONFIG_ALLOWED_MAC_MAX_COUNT_def)
    moreover have "ini_gets ''network'' (''mac'' @ show_nat (i + 1)) '''' 21 (saved_file c) = Some (?m ! i)"
      by (rule gets_text [OF c]) (use True v in \<open>simp_all only: config_value_indexed(1) if_True, simp_all\<close>)
    ultimately show ?thesis
      using v normalize_mac_canonical(2) [OF m] by (simp add: load_mac_def Let_def config_sizes)
  qed
  from load_each_invariant [of 128 "load_mac (saved_file c)" ?S, OF this] show ?thesis
    using inv(2) by (simp add: config_sizes)
qed

lemma text_ok_trim: "text_ok s \<Longrightarrow> app_config_trim s = s"
  by (simp add: text_ok_iff trim_trimmed)

lemma load_names_saved:
  assumes c: "storable c"
  shows "load_each (load_name (saved_file c)) [0..<APP_CONFIG_DEVICE_NAME_MAX_COUNT] (d\<lparr>cf_device_names := []\<rparr>) =
    Some (d\<lparr>cf_device_names := cf_device_names c\<rparr>)"
proof -
  let ?m = "cf_device_names c" and ?S = "\<lambda>i. d\<lparr>cf_device_names := take i (cf_device_names c)\<rparr>"
  have inv: "distinct (List.map fst ?m)" "length ?m \<le> 128" "\<forall>d\<in>set ?m. name_ok (snd d) \<and> snd d \<noteq> ''''"
    using c by (auto simp: storable_def names_ok_def config_sizes)
  have "load_name (saved_file c) i (?S i) = Some (?S (Suc i))" if "i < 128" for i
  proof (cases "i < length ?m")
    case False
    then show ?thesis using gets_saved [OF c, of "''names''" "''id'' @ show_nat (i + 1)" "''''" 16]
      unfolding config_value_indexed(2) by (simp add: load_name_def config_sizes take_Suc_nth)
  next
    case True
    obtain k n where kn: "?m ! i = (k, n)" by (cases "?m ! i")
    then have n: "name_ok n" "n \<noteq> ''''" using inv(3) nth_mem [OF True] by auto
    have len: "length n \<le> 64" using n(1) by (simp add: name_ok_def)
    have "k \<notin> fst ` set (take i ?m)"
    proof
      assume "k \<in> fst ` set (take i ?m)"
      then obtain j where "j < i" "fst (?m ! j) = k" using True by (auto simp: in_set_conv_nth)
      then show False using inv(1) True kn nth_eq_iff_index_eq [OF inv(1), of j i] by simp
    qed
    then have "find_index (\<lambda>d. fst d = k) (take i ?m) = None" by (auto simp: find_index_None_iff)
    then have st: "app_config_set_device_name (?S i) k n = (?S (Suc i), True)"
      using True inv(2) n(2) kn name_ok_fixed [OF n(1)]
      by (simp add: app_config_set_device_name_def take_Suc_nth stored_name_def APP_CONFIG_DEVICE_NAME_MAX_COUNT_def Let_def)
    have u: "length (show_nat (unat k)) \<le> 10"
      by (rule short_number) (use unsigned_less [of k, where ?'a = nat] in simp)
    have "ini_gets ''names'' (''id'' @ show_nat (i + 1)) '''' 16 (saved_file c) = Some (show_nat (unat k))"
      by (rule gets_text [OF c]) (use True kn u in \<open>simp_all only: config_value_indexed(2) if_True fst_conv, simp_all\<close>)
    moreover have "ini_gets ''names'' (''name'' @ show_nat (i + 1)) '''' 65 (saved_file c) = Some n"
      by (rule gets_text [OF c]) (use True kn len in \<open>simp_all only: config_value_indexed(3) if_True snd_conv, simp_all\<close>)
    ultimately show ?thesis
      using st by (simp add: load_name_def Let_def text_ok_trim text_ok_name [OF n(1)] strtoul_show_nat APP_CONFIG_DEVICE_NAME_LEN_def)
  qed
  from load_each_invariant [of 128 "load_name (saved_file c)" ?S, OF this] show ?thesis
    using inv(2) by (simp add: config_sizes)
qed

lemma all_fields:
  "app_config_defaults\<lparr>cf_mode := cf_mode c, cf_ssid := cf_ssid c, cf_hostname := cf_hostname c,
     cf_channel := cf_channel c, cf_security := cf_security c, cf_password := cf_password c,
     cf_send_narodmon := cf_send_narodmon c, cf_mqtt := cf_mqtt c,
     cf_measurement_retention_seconds := cf_measurement_retention_seconds c,
     cf_measurement_max_count := cf_measurement_max_count c,
     cf_onewire_poll_interval_seconds := cf_onewire_poll_interval_seconds c,
     cf_onewire_gpio2_enabled := cf_onewire_gpio2_enabled c, cf_onewire_gpio3_enabled := cf_onewire_gpio3_enabled c,
     cf_allowed_macs := cf_allowed_macs c, cf_device_names := cf_device_names c\<rparr> = c"
  by (cases c) (simp add: app_config_defaults_def)

lemma load_saved_file:
  assumes "storable c" "fs_ready fs" "\<not> fs_broken fs"
    and "fs_config fs = Some (unlines (config_comments @ ini_lines (config_sections c)))"
  shows "app_config_load fs old = Some (fs, c, True)"
proof -
  have f: "config_file fs = saved_file c" using assms(3,4) by (simp add: config_file_def saved_file_def)
  have e: "app_config_ensure_file fs = (fs, True)" using assms(4) by (simp add: app_config_ensure_file_def app_config_exists_def)
  have "app_config_normalize c = c" using assms(1) by (intro normalize_config_ok) (simp add: storable_def)
  then show ?thesis
    using assms(2) e f load_network_saved [OF assms(1)] load_mqtt_saved [OF assms(1)] load_measurements_saved [OF assms(1)]
      load_onewire_saved [OF assms(1)] load_macs_saved [OF assms(1)] load_names_saved [OF assms(1)]
    by (simp add: app_config_load_def Let_def all_fields)
qed

text \<open>
  C19: a configuration that passed normalisation and whose texts fit a line survives a restart: when the
  network block fits the 1024-byte line buffer and FatFs takes every write, saving it and loading it
  gives back every field, with all addresses and all sensor names in their order.
\<close>

theorem config_roundtrip:
  assumes "storable c" and "length (network_piece c) < 1024"
    and "fs_ready fs" and "fs_open_write fs" and "\<forall>j. fs_write_ok fs j" and "\<not> fs_broken fs"
  shows "\<exists>fs'. app_config_save c fs = (fs', True) \<and> app_config_load fs' old = Some (fs', c, True)"
  using save_storable [OF assms(1,2,4,5)] load_saved_file [OF assms(1)] assms(3,6) by simp

theorem config_roundtrip_witness:
  "\<exists>fs'. app_config_save (app_config_defaults\<lparr>cf_allowed_macs := [''A4C1380011FE''], cf_device_names := [(7, ''sauna'')]\<rparr>)
       \<lparr>fs_ready = True, fs_open_write = True, fs_write_ok = (\<lambda>j. True), fs_broken = False, fs_config = None\<rparr> = (fs', True) \<and>
     app_config_load fs' app_config_defaults =
       Some (fs', app_config_defaults\<lparr>cf_allowed_macs := [''A4C1380011FE''], cf_device_names := [(7, ''sauna'')]\<rparr>, True)"
proof -
  have "clean ''sauna''" unfolding clean_def
    by (intro exI [of _ "[''s'', ''a'', ''u'', ''n'', ''a'']"]) (simp add: utf8_chunk_def utf8_char_len_def)
  then have "storable (app_config_defaults\<lparr>cf_allowed_macs := [''A4C1380011FE''], cf_device_names := [(7, ''sauna'')]\<rparr>)"
    by (simp add: storable_def config_ok_def macs_ok_def names_ok_def name_ok_def canonical_mac_def app_config_defaults_def
        config_sizes config_limits trimmed_def isspace_def plain_char_def NUL_def isxdigit_def isdigit_def toupper_def)
  moreover have "length (show_nat 3) \<le> 1" using length_show_nat_le [of 3 1] by simp
  then have "length (network_piece (app_config_defaults\<lparr>cf_allowed_macs := [''A4C1380011FE''], cf_device_names := [(7, ''sauna'')]\<rparr>)) < 1024"
    by (simp add: length_network_piece app_config_defaults_def app_config_mode_name_def app_config_security_name_def)
  ultimately show ?thesis
    using config_roundtrip [of _ "\<lparr>fs_ready = True, fs_open_write = True, fs_write_ok = (\<lambda>j. True), fs_broken = False, fs_config = None\<rparr>"]
    by simp
qed

lemma gets_empty:
  "ini_gets s k d n (Some ('''', False)) = Some (bounded_copy n d)"
  using ini_loop_lines [of "[]" s k n "bounded_copy n d" "s = ''''" False] by (simp add: ini_gets_def)

lemma getl_empty: "ini_getl s k d (Some ('''', False)) = Some d"
  by (simp add: ini_getl_def gets_empty bounded_copy_def)

lemma config_ok_defaults: "config_ok app_config_defaults"
  by (simp add: config_ok_def app_config_defaults_def config_limits)

lemma load_empty:
  assumes "fs_ready fs" "fs_config fs = Some ''''" "\<not> fs_broken fs"
  shows "app_config_load fs old = Some (fs, app_config_defaults, True)"
proof -
  have f: "config_file fs = Some ('''', False)" using assms by (simp add: config_file_def)
  have e: "app_config_ensure_file fs = (fs, True)" using assms(2) by (simp add: app_config_ensure_file_def app_config_exists_def)
  note s = gets_empty getl_empty bounded_copy_def config_sizes config_limits app_config_defaults_def
  have m: "load_each (load_mac (Some ('''', False))) [0..<n] c = Some c" for n c
    by (rule load_each_invariant [of n _ "\<lambda>i. c"]) (simp add: load_mac_def gets_empty bounded_copy_def)
  have n: "load_each (load_name (Some ('''', False))) [0..<n] c = Some c" for n c
    by (rule load_each_invariant [of n _ "\<lambda>i. c"]) (simp add: load_name_def gets_empty bounded_copy_def)
  have l: "load_network (Some ('''', False)) app_config_defaults = Some app_config_defaults"
    "load_mqtt (Some ('''', False)) app_config_defaults = Some app_config_defaults"
    "load_measurements (Some ('''', False)) app_config_defaults = Some app_config_defaults"
    "load_onewire (Some ('''', False)) app_config_defaults = Some app_config_defaults"
    "app_config_defaults\<lparr>cf_allowed_macs := []\<rparr> = app_config_defaults"
    "app_config_defaults\<lparr>cf_device_names := []\<rparr> = app_config_defaults"
    by (simp_all add: s load_network_def load_mqtt_def load_measurements_def load_onewire_def
        app_config_parse_mode_def app_config_parse_security_def app_config_trim_def isspace_def)
  show ?thesis
    using assms(1) by (simp add: app_config_load_def Let_def e f l m n normalize_config_ok [OF config_ok_defaults])
qed



lemma load_each_None: "i \<in> set is \<Longrightarrow> \<forall>c. f i c = None \<Longrightarrow> load_each f is c = None"
  by (induction "is" arbitrary: c) (auto split: bind_split)

text \<open>
  A read error is not an error to the loader: \<^verbatim>\<open>read_line\<close> takes it for a line that does not end the
  file, so when FatFs fails on every read behind the saved text, looking up the first absent key (there is
  one unless all 128 addresses are used) goes round for ever and loading does not return.
\<close>

theorem config_read_error_hangs:
  assumes "storable c" and "length (cf_allowed_macs c) < 128" and "fs_ready fs" and "fs_broken fs"
    and "fs_config fs = Some (concat (config_pieces c))"
  shows "app_config_load fs old = None"
proof -
  let ?f = "Some (unlines (config_comments @ ini_lines (config_sections c)), True)"
  have f: "config_file fs = ?f" using assms(4,5) by (simp add: config_file_def concat_config_pieces)
  have e: "app_config_ensure_file fs = (fs, True)" using assms(5) by (simp add: app_config_ensure_file_def app_config_exists_def)
  have v: "config_value c ''network'' (''mac'' @ show_nat (127 + 1)) = None"
    using assms(2) by (simp only: config_value_indexed) simp
  have "''network'' \<noteq> ''''" by simp
  note g = ini_gets_sections [OF config_comments_ok config_sections_ok [OF assms(1)] config_sections_distinct this,
      of "''mac'' @ show_nat (127 + 1)" "''''" 21 True]
  have "ini_gets ''network'' (''mac'' @ show_nat (127 + 1)) '''' 21 ?f = None"
    unfolding g using v unfolding config_value_def by (simp only: option.case if_True)
  then have "load_mac ?f 127 d = None" for d by (simp add: load_mac_def config_sizes)
  then have "load_each (load_mac ?f) [0..<APP_CONFIG_ALLOWED_MAC_MAX_COUNT] d = None" for d
    by (intro load_each_None [of 127]) (simp_all add: config_sizes)
  then show ?thesis
    using assms(3) unfolding app_config_load_def e f Let_def prod.case bool.case by (auto split: bind_split)
qed

theorem config_read_error_hangs_witness:
  "app_config_load \<lparr>fs_ready = True, fs_open_write = True, fs_write_ok = (\<lambda>j. True), fs_broken = True,
     fs_config = Some (concat (config_pieces app_config_defaults))\<rparr> app_config_defaults = None"
proof -
  have "storable app_config_defaults" using config_ok_defaults
    by (simp add: storable_def macs_ok_def names_ok_def app_config_defaults_def plain_char_def NUL_def trimmed_def isspace_def)
  then show ?thesis by (intro config_read_error_hangs) (simp_all add: app_config_defaults_def)
qed

end
