(* ===== verification/Crc.thy ===== *)
theory Crc
  imports Base
begin

unbundle bit_operations_syntax

text \<open>
  Reflected cyclic redundancy checks: the shift-and-xor step that the OTA code (CRC-32, twice) and
  the 1-Wire code (CRC-8) share, as a reference, and what makes such a check worth having: a
  polynomial with its top bit set makes every step injective, so two messages that differ in one
  byte have different checksums.
\<close>

definition crc_bit :: "'a::len word \<Rightarrow> 'a word \<Rightarrow> 'a word" where
  "crc_bit poly c = (if bit c 0 then drop_bit 1 c XOR poly else drop_bit 1 c)"

definition crc_byte :: "'a::len word \<Rightarrow> 'a word \<Rightarrow> u8 \<Rightarrow> 'a word" where
  "crc_byte poly c b = (crc_bit poly ^^ 8) (c XOR ucast b)"

definition crc_bytes :: "'a::len word \<Rightarrow> 'a word \<Rightarrow> u8 list \<Rightarrow> 'a word" where
  "crc_bytes poly = foldl (crc_byte poly)"

lemma crc_bytes_simps [simp]:
  "crc_bytes poly c [] = c"
  "crc_bytes poly c (b # bs) = crc_bytes poly (crc_byte poly c b) bs"
  "crc_bytes poly c (bs @ cs) = crc_bytes poly (crc_bytes poly c bs) cs"
  by (simp_all add: crc_bytes_def)

lemma xor_right_cancel [simp]: "(x :: 'a::len word) XOR z = y XOR z \<longleftrightarrow> x = y"
  by (metis bit.xor_self xor.assoc xor.right_neutral)

lemma xor_left_cancel [simp]: "z XOR (x :: 'a::len word) = z XOR y \<longleftrightarrow> x = y"
  by (metis xor_right_cancel xor.commute)

lemma crc_bit_top:
  "bit poly (LENGTH('a) - 1) \<Longrightarrow> bit (crc_bit poly (c :: 'a::len word)) (LENGTH('a) - 1) = bit c 0"
  by (auto simp: crc_bit_def bit_xor_iff bit_drop_bit_eq dest: bit_imp_le_length)

lemma crc_bit_inj:
  fixes poly :: "'a::len word"
  assumes "bit poly (LENGTH('a) - 1)" and "crc_bit poly c = crc_bit poly d"
  shows "c = d"
proof -
  have low: "bit c 0 = bit d 0"
    using crc_bit_top [OF assms(1), of c] crc_bit_top [OF assms(1), of d] assms(2) by simp
  then have "drop_bit 1 c = drop_bit 1 d"
    using assms(2) by (auto simp: crc_bit_def split: if_splits)
  then have "bit c (Suc n) = bit d (Suc n)" for n
    by (metis bit_drop_bit_eq comp_apply plus_1_eq_Suc)
  then show ?thesis using low by (intro bit_word_eqI) (metis not0_implies_Suc)
qed

lemma crc_bits_inj:
  fixes poly :: "'a::len word"
  assumes "bit poly (LENGTH('a) - 1)" and "(crc_bit poly ^^ n) c = (crc_bit poly ^^ n) d"
  shows "c = d"
  using assms(2) by (induction n) (auto dest: crc_bit_inj [OF assms(1)])

lemma crc_byte_inj_crc:
  fixes poly :: "'a::len word"
  assumes "bit poly (LENGTH('a) - 1)" and "crc_byte poly c b = crc_byte poly d b"
  shows "c = d"
proof -
  have "c XOR ucast b = d XOR ucast b"
    using assms crc_bits_inj unfolding crc_byte_def by blast
  then show ?thesis by simp
qed

lemma crc_byte_inj_byte:
  fixes poly :: "'a::len word"
  assumes "bit poly (LENGTH('a) - 1)" and "8 \<le> LENGTH('a)" and "crc_byte poly c a = crc_byte poly c b"
  shows "a = b"
proof -
  have "c XOR ucast a = c XOR ucast b"
    using assms crc_bits_inj unfolding crc_byte_def by blast
  then have "(ucast a :: 'a word) = ucast b" by simp
  then have "unat (ucast a :: 'a word) = unat (ucast b :: 'a word)" by simp
  moreover have "unat (ucast x :: 'a word) = unat x" for x :: u8
  proof -
    have "unat x < 2 ^ 8" using unsigned_less [of x] by simp
    also have "(2::nat) ^ 8 \<le> 2 ^ LENGTH('a)" using assms(2) by (rule power_increasing) simp
    finally show ?thesis by (simp add: unsigned_ucast_eq take_bit_nat_eq_self)
  qed
  ultimately show ?thesis by (simp add: word_unat_eq_iff)
qed

lemma crc_bytes_inj_crc:
  fixes poly :: "'a::len word"
  assumes "bit poly (LENGTH('a) - 1)"
  shows "crc_bytes poly c bs = crc_bytes poly d bs \<Longrightarrow> c = d"
proof (induction bs arbitrary: c d)
  case Nil
  then show ?case by simp
next
  case (Cons b bs)
  then have "crc_byte poly c b = crc_byte poly d b" by simp
  then show ?case by (rule crc_byte_inj_crc [OF assms])
qed

text \<open>One changed byte always changes the checksum.\<close>

lemma crc_bytes_one_byte:
  fixes poly :: "'a::len word"
  assumes "bit poly (LENGTH('a) - 1)" and "8 \<le> LENGTH('a)"
    and "crc_bytes poly c (xs @ a # ys) = crc_bytes poly c (xs @ b # ys)"
  shows "a = b"
proof -
  have "crc_byte poly (crc_bytes poly c xs) a = crc_byte poly (crc_bytes poly c xs) b"
    by (rule crc_bytes_inj_crc [OF assms(1), of _ ys]) (use assms(3) in simp)
  then show ?thesis by (rule crc_byte_inj_byte [OF assms(1,2)])
qed

text \<open>A checksum byte appended to its message leaves the register at 0.\<close>

lemma crc_bit_0 [simp]: "crc_bit poly 0 = 0"
  by (simp add: crc_bit_def)

lemma crc_bits_0 [simp]: "(crc_bit poly ^^ n) 0 = 0"
  by (induction n) simp_all

lemma crc8_residue: "crc_bytes poly (c :: u8) (bs @ [crc_bytes poly c bs]) = 0"
  by (simp add: crc_byte_def)

text \<open>The masked form of the step: \<^verbatim>\<open>mask = 0u - (crc & 1u); crc = (crc >> 1u) ^ (POLY & mask)\<close>.\<close>

lemma crc_bit_masked: "drop_bit 1 c XOR (poly AND (0 - (c AND 1))) = crc_bit poly (c :: 'a::len word)"
proof -
  have "c AND 1 = of_bool (bit c 0)"
    by (simp add: and_one_eq odd_iff_mod_2_eq_one bit_0)
  then show ?thesis by (simp add: crc_bit_def)
qed

end
