(* ===== verification/Flash_Device.thy ===== *)
theory Flash_Device
  imports Base
begin

text \<open>
  The QSPI flash as the firmware sees it.  The driver (\<^verbatim>\<open>flash_range_erase\<close>,
  \<^verbatim>\<open>flash_range_program\<close>, \<^verbatim>\<open>flash_safe_execute\<close> of the Pico SDK) is not part of the repository:
  its functions are fields of the flash record, and \<open>flash_laws\<close> states their documented behaviour:
  an aligned erase sets its range to \<^verbatim>\<open>0xFF\<close>, an aligned program of erased bytes stores the data,
  neither touches a byte outside its range.  \<^verbatim>\<open>flash_safe_execute\<close> may refuse to run its callback;
  \<open>exec_ok\<close> says which calls succeed.  Memory is indexed by flash offset, the distance from
  \<^verbatim>\<open>XIP_BASE\<close>, where the same bytes are mapped for reading.
\<close>

type_synonym memory = "nat \<Rightarrow> u8"

record flash =
  mem :: memory
  erase_fn :: "memory \<Rightarrow> nat \<Rightarrow> nat \<Rightarrow> memory"
  program_fn :: "memory \<Rightarrow> nat \<Rightarrow> u8 list \<Rightarrow> memory"
  exec_ok :: "nat \<Rightarrow> bool"
  exec_calls :: nat

definition FLASH_SECTOR_SIZE :: nat where "FLASH_SECTOR_SIZE = 4096"
definition FLASH_PAGE_SIZE :: nat where "FLASH_PAGE_SIZE = 256"
definition XIP_BASE :: nat where "XIP_BASE = 0x10000000"

lemmas flash_sizes = FLASH_SECTOR_SIZE_def FLASH_PAGE_SIZE_def

definition flash_laws :: "flash \<Rightarrow> bool" where
  "flash_laws f =
     ((\<forall>m off n a. off mod 4096 = 0 \<longrightarrow> n mod 4096 = 0 \<longrightarrow>
        erase_fn f m off n a = (if off \<le> a \<and> a < off + n then 0xFF else m a)) \<and>
      (\<forall>m off ds a. off mod 256 = 0 \<longrightarrow> length ds mod 256 = 0 \<longrightarrow>
        (off \<le> a \<and> a < off + length ds \<longrightarrow> m a = 0xFF \<longrightarrow> program_fn f m off ds a = ds ! (a - off)) \<and>
        (\<not> (off \<le> a \<and> a < off + length ds) \<longrightarrow> program_fn f m off ds a = m a)))"

definition flash_range_erase :: "nat \<Rightarrow> nat \<Rightarrow> flash \<Rightarrow> flash" where
  "flash_range_erase off n f = f\<lparr>mem := erase_fn f (mem f) off n\<rparr>"

definition flash_range_program :: "nat \<Rightarrow> u8 list \<Rightarrow> flash \<Rightarrow> flash" where
  "flash_range_program off ds f = f\<lparr>mem := program_fn f (mem f) off ds\<rparr>"

definition flash_safe_execute :: "(flash \<Rightarrow> flash) \<Rightarrow> flash \<Rightarrow> flash \<times> bool" where
  "flash_safe_execute callback f =
     (let f' = f\<lparr>exec_calls := Suc (exec_calls f)\<rparr>
      in if exec_ok f (exec_calls f) then (callback f', True) else (f', False))"

definition read_flash :: "flash \<Rightarrow> nat \<Rightarrow> nat \<Rightarrow> u8 list" where
  "read_flash f off n = map (\<lambda>i. mem f (off + i)) [0..<n]"

text \<open>The loop that programs a buffer page by page from the offset \<open>off\<close>.\<close>

fun program_pages :: "nat \<Rightarrow> nat \<Rightarrow> u8 list \<Rightarrow> flash \<Rightarrow> flash" where
  "program_pages 0 off buf f = f"
| "program_pages (Suc k) off buf f =
     program_pages k (off + FLASH_PAGE_SIZE) (drop FLASH_PAGE_SIZE buf)
       (flash_range_program off (take FLASH_PAGE_SIZE buf) f)"

subsection \<open>What changes and what does not\<close>

text \<open>Two flash states that differ at most in contents and in the number of calls made.\<close>

definition same_driver :: "flash \<Rightarrow> flash \<Rightarrow> bool" where
  "same_driver f g = (erase_fn f = erase_fn g \<and> program_fn f = program_fn g \<and> exec_ok f = exec_ok g)"

lemma same_driver_refl [simp, intro]: "same_driver f f"
  by (simp add: same_driver_def)

lemma same_driver_trans [trans]: "same_driver f g \<Longrightarrow> same_driver g h \<Longrightarrow> same_driver f h"
  by (simp add: same_driver_def)

lemma same_driver_sym: "same_driver f g \<Longrightarrow> same_driver g f"
  by (simp add: same_driver_def)

lemma same_driver_updates [simp, intro]:
  "same_driver f (flash_range_erase off n f)"
  "same_driver f (flash_range_program off ds f)"
  "same_driver f (f\<lparr>exec_calls := c\<rparr>)"
  "same_driver f (f\<lparr>mem := m\<rparr>)"
  by (simp_all add: same_driver_def flash_range_erase_def flash_range_program_def)

lemma flash_laws_same_driver: "same_driver f g \<Longrightarrow> flash_laws g = flash_laws f"
  by (simp add: same_driver_def flash_laws_def)

lemma flash_laws_updates [simp]:
  "flash_laws (flash_range_erase off n f) = flash_laws f"
  "flash_laws (flash_range_program off ds f) = flash_laws f"
  "flash_laws (f\<lparr>exec_calls := c\<rparr>) = flash_laws f"
  "flash_laws (f\<lparr>mem := m\<rparr>) = flash_laws f"
  by (rule flash_laws_same_driver, simp)+

lemma mem_exec_calls [simp]: "mem (f\<lparr>exec_calls := c\<rparr>) = mem f"
  by simp

lemma mem_erase:
  "flash_laws f \<Longrightarrow> off mod 4096 = 0 \<Longrightarrow> n mod 4096 = 0 \<Longrightarrow>
   mem (flash_range_erase off n f) a = (if off \<le> a \<and> a < off + n then 0xFF else mem f a)"
  by (simp add: flash_range_erase_def flash_laws_def)

lemma mem_program_out:
  "flash_laws f \<Longrightarrow> off mod 256 = 0 \<Longrightarrow> length ds mod 256 = 0 \<Longrightarrow>
   \<not> (off \<le> a \<and> a < off + length ds) \<Longrightarrow> mem (flash_range_program off ds f) a = mem f a"
  unfolding flash_range_program_def flash_laws_def by simp

lemma mem_program_in:
  "flash_laws f \<Longrightarrow> off mod 256 = 0 \<Longrightarrow> length ds mod 256 = 0 \<Longrightarrow>
   off \<le> a \<Longrightarrow> a < off + length ds \<Longrightarrow> mem f a = 0xFF \<Longrightarrow>
   mem (flash_range_program off ds f) a = ds ! (a - off)"
  unfolding flash_range_program_def flash_laws_def by simp

lemma mem_program_erased:
  "flash_laws f \<Longrightarrow> off mod 256 = 0 \<Longrightarrow> length ds mod 256 = 0 \<Longrightarrow>
   (\<And>a. off \<le> a \<Longrightarrow> a < off + length ds \<Longrightarrow> mem f a = 0xFF) \<Longrightarrow>
   mem (flash_range_program off ds f) a =
     (if off \<le> a \<and> a < off + length ds then ds ! (a - off) else mem f a)"
  using mem_program_in mem_program_out by simp

lemma length_read_flash [simp]: "length (read_flash f off n) = n"
  by (simp add: read_flash_def)

lemma nth_read_flash [simp]: "i < n \<Longrightarrow> read_flash f off n ! i = mem f (off + i)"
  by (simp add: read_flash_def)

lemma read_flash_eqI:
  "length xs = n \<Longrightarrow> (\<And>i. i < n \<Longrightarrow> mem f (off + i) = xs ! i) \<Longrightarrow> read_flash f off n = xs"
  by (simp add: list_eq_iff_nth_eq)

lemma read_flash_cong:
  "(\<And>a. off \<le> a \<Longrightarrow> a < off + n \<Longrightarrow> mem f a = mem g a) \<Longrightarrow> read_flash f off n = read_flash g off n"
  by (simp add: list_eq_iff_nth_eq)

lemma same_driver_program_pages [simp, intro]: "same_driver f (program_pages k off buf f)"
proof (induction k arbitrary: off buf f)
  case 0
  then show ?case by simp
next
  case (Suc k)
  show ?case unfolding program_pages.simps
    by (rule same_driver_trans [OF same_driver_updates(2) Suc.IH])
qed

lemma mem_program_pages:
  assumes "flash_laws f" "off mod 256 = 0" "length buf = k * 256"
    "\<And>a. off \<le> a \<Longrightarrow> a < off + k * 256 \<Longrightarrow> mem f a = 0xFF"
  shows "mem (program_pages k off buf f) a =
    (if off \<le> a \<and> a < off + k * 256 then buf ! (a - off) else mem f a)"
  using assms
proof (induction k arbitrary: off buf f)
  case 0
  then show ?case by auto
next
  case (Suc k)
  let ?f = "flash_range_program off (take 256 buf) f"
  have len: "length (take 256 buf) = 256" using Suc.prems(3) by simp
  have m: "mem ?f a = (if off \<le> a \<and> a < off + 256 then buf ! (a - off) else mem f a)" for a
    using mem_program_erased [OF Suc.prems(1,2), of "take 256 buf" a] len Suc.prems(4) by auto
  have "mem (program_pages k (off + 256) (drop 256 buf) ?f) a =
      (if off + 256 \<le> a \<and> a < off + 256 + k * 256 then drop 256 buf ! (a - (off + 256)) else mem ?f a)"
    using Suc.prems by (intro Suc.IH) (simp_all add: m mod_simps)
  then show ?case using Suc.prems(3) m by (auto simp: FLASH_PAGE_SIZE_def)
qed

text \<open>A sector erased and then programmed with a full buffer holds the buffer.\<close>

definition rewrite_sector :: "nat \<Rightarrow> u8 list \<Rightarrow> flash \<Rightarrow> flash" where
  "rewrite_sector off buf f =
     program_pages (FLASH_SECTOR_SIZE div FLASH_PAGE_SIZE) off buf
       (flash_range_erase off FLASH_SECTOR_SIZE f)"

lemma same_driver_rewrite_sector [simp, intro]: "same_driver f (rewrite_sector off buf f)"
  unfolding rewrite_sector_def
  by (rule same_driver_trans [OF same_driver_updates(1) same_driver_program_pages])

lemma mem_rewrite_sector:
  assumes "flash_laws f" "off mod 4096 = 0" "length buf = 4096"
  shows "mem (rewrite_sector off buf f) a =
    (if off \<le> a \<and> a < off + 4096 then buf ! (a - off) else mem f a)"
proof -
  let ?e = "flash_range_erase off 4096 f"
  have e: "mem ?e b = (if off \<le> b \<and> b < off + 4096 then 0xFF else mem f b)" for b
    using assms(1,2) by (simp add: mem_erase)
  have "off mod 4096 mod 256 = off mod 256" by (rule mod_mod_cancel) simp
  then have "off mod 256 = 0" using assms(2) by simp
  then have "mem (program_pages 16 off buf ?e) a =
      (if off \<le> a \<and> a < off + 16 * 256 then buf ! (a - off) else mem ?e a)"
    using assms(1,3) e by (intro mem_program_pages) simp_all
  then show ?thesis using e by (simp add: rewrite_sector_def flash_sizes)
qed

subsection \<open>A concrete NOR flash\<close>

text \<open>
  Erasing sets bytes to \<^verbatim>\<open>0xFF\<close>; programming can only clear bits.  It satisfies the laws, so the
  theorems that assume them are about a device that exists.
\<close>

unbundle bit_operations_syntax

definition nor_flash :: "memory \<Rightarrow> (nat \<Rightarrow> bool) \<Rightarrow> flash" where
  "nor_flash m ok =
     \<lparr>mem = m,
      erase_fn = (\<lambda>m off n a. if off \<le> a \<and> a < off + n then 0xFF else m a),
      program_fn = (\<lambda>m off ds a. if off \<le> a \<and> a < off + length ds then m a AND ds ! (a - off) else m a),
      exec_ok = ok, exec_calls = 0\<rparr>"

lemma and_FF [simp]: "(0xFF :: u8) AND x = x"
proof -
  have "(0xFF :: u8) = - 1" by simp
  then show ?thesis by (metis and.left_neutral)
qed

lemma flash_laws_nor [simp, intro]: "flash_laws (nor_flash m ok)"
  by (simp add: flash_laws_def nor_flash_def)

lemma mem_nor [simp]: "mem (nor_flash m ok) = m"
  by (simp add: nor_flash_def)

lemma exec_ok_nor [simp]: "exec_ok (nor_flash m ok) = ok"
  by (simp add: nor_flash_def)

end
