(* ===== verification/Firmware_Update.thy ===== *)
theory Firmware_Update
  imports Crc C_Text Flash_Device
begin

text \<open>
  \<^verbatim>\<open>app_firmware_update.c\<close>: the upload of a firmware image.  The first 4096 bytes of an upload are
  the header (the manifest, padded to a flash sector); what follows is the image, staged page by page
  in the firmware-copy region; the header is written to the update-metadata sector last, which is
  what arms the bootloader.  The state record holds the module's static variables, the flash and the
  messages given to \<^verbatim>\<open>app_log\<close>.
\<close>

subsection \<open>Data\<close>

datatype app_firmware_update_result =
    APP_FIRMWARE_UPDATE_OK
  | APP_FIRMWARE_UPDATE_INVALID_SIZE
  | APP_FIRMWARE_UPDATE_INVALID_HEADER
  | APP_FIRMWARE_UPDATE_IMAGE_TOO_LARGE
  | APP_FIRMWARE_UPDATE_INCOMPLETE
  | APP_FIRMWARE_UPDATE_NOT_ACTIVE
  | APP_FIRMWARE_UPDATE_INVALID_OFFSET
  | APP_FIRMWARE_UPDATE_FLASH_ERROR

definition FIRMWARE_UPDATE_MAGIC :: u32 where "FIRMWARE_UPDATE_MAGIC = 0x55424250"
definition FIRMWARE_UPDATE_MANIFEST_VERSION :: u32 where "FIRMWARE_UPDATE_MANIFEST_VERSION = 1"
definition FIRMWARE_UPDATE_FLAG_PENDING :: u32 where "FIRMWARE_UPDATE_FLAG_PENDING = 1"
definition APP_FIRMWARE_UPDATE_HEADER_SIZE :: nat where
  "APP_FIRMWARE_UPDATE_HEADER_SIZE = FLASH_SECTOR_SIZE"
definition APP_FIRMWARE_UPDATE_CRC32_POLY :: u32 where
  "APP_FIRMWARE_UPDATE_CRC32_POLY = 0xedb88320"

text \<open>The manifest (\<^verbatim>\<open>firmware_update.h\<close>): fifteen packed little-endian 32-bit fields.\<close>

record firmware_update_manifest =
  magic :: u32
  version :: u32
  header_size :: u32
  flags :: u32
  image_size :: u32
  image_crc32 :: u32
  sequence :: u32
  header_crc32 :: u32

definition sizeof_manifest :: nat where "sizeof_manifest = 64"
definition offsetof_header_crc32 :: nat where "offsetof_header_crc32 = 60"

definition manifest_of :: "u8 list \<Rightarrow> firmware_update_manifest" where
  "manifest_of header =
     \<lparr>magic = read_le32 header 0, version = read_le32 header 4, header_size = read_le32 header 8,
      flags = read_le32 header 12, image_size = read_le32 header 16, image_crc32 = read_le32 header 20,
      sequence = read_le32 header 24, header_crc32 = read_le32 header offsetof_header_crc32\<rparr>"

text \<open>The linker symbols of \<^verbatim>\<open>memmap_storage.ld\<close>.\<close>

definition update_metadata_start :: nat where "update_metadata_start = 0x1001f000"
definition firmware_copy_start :: nat where "firmware_copy_start = 0x10100000"
definition firmware_copy_end :: nat where "firmware_copy_end = 0x10100000 + 896 * 1024"

record ota =
  ota_active :: bool
  ota_header_valid :: bool
  ota_result :: app_firmware_update_result
  ota_content_len :: nat
  ota_received :: nat
  ota_image_received :: nat
  ota_image_size :: nat
  ota_page_fill :: nat
  ota_erased_up_to :: nat
  ota_header :: "u8 list"
  ota_page :: "u8 list"
  ota_flash :: flash
  ota_log :: "string list"

subsection \<open>Helpers\<close>

definition app_firmware_update_flash_offset :: "nat \<Rightarrow> nat" where
  "app_firmware_update_flash_offset xip_address = sub32 xip_address XIP_BASE"

definition app_firmware_update_image_max_size :: nat where
  "app_firmware_update_image_max_size = sub32 firmware_copy_end firmware_copy_start"

fun app_firmware_update_crc32_bits :: "nat \<Rightarrow> u32 \<Rightarrow> u32" where
  "app_firmware_update_crc32_bits 0 crc = crc"
| "app_firmware_update_crc32_bits (Suc bits) crc =
     (let mask = 0 - (crc AND 1)
      in app_firmware_update_crc32_bits bits (drop_bit 1 crc XOR (APP_FIRMWARE_UPDATE_CRC32_POLY AND mask)))"

fun app_firmware_update_crc32_update :: "u32 \<Rightarrow> u8 list \<Rightarrow> u32" where
  "app_firmware_update_crc32_update crc [] = crc"
| "app_firmware_update_crc32_update crc (b # bs) =
     app_firmware_update_crc32_update (app_firmware_update_crc32_bits 8 (crc XOR ucast b)) bs"

definition app_firmware_update_crc32 :: "u8 list \<Rightarrow> u32" where
  "app_firmware_update_crc32 bs = app_firmware_update_crc32_update 0xffffffff bs XOR 0xffffffff"

definition app_firmware_update_manifest_is_valid :: "u8 list \<Rightarrow> nat \<Rightarrow> firmware_update_manifest option" where
  "app_firmware_update_manifest_is_valid header content_len =
     (if content_len < APP_FIRMWARE_UPDATE_HEADER_SIZE then None else
      let manifest = manifest_of header in
      if magic manifest \<noteq> FIRMWARE_UPDATE_MAGIC \<or>
         version manifest \<noteq> FIRMWARE_UPDATE_MANIFEST_VERSION \<or>
         unat (header_size manifest) \<noteq> sizeof_manifest \<or>
         flags manifest AND FIRMWARE_UPDATE_FLAG_PENDING = 0 \<or>
         unat (image_size manifest) = 0 \<or>
         unat (image_size manifest) > app_firmware_update_image_max_size \<or>
         content_len \<noteq> add32 APP_FIRMWARE_UPDATE_HEADER_SIZE (unat (image_size manifest))
      then None
      else if app_firmware_update_crc32 (take offsetof_header_crc32 header) = header_crc32 manifest
      then Some manifest else None)"

fun app_firmware_update_result_text :: "app_firmware_update_result \<Rightarrow> string" where
  "app_firmware_update_result_text APP_FIRMWARE_UPDATE_OK = ''Update uploaded. Reboot to apply firmware.''"
| "app_firmware_update_result_text APP_FIRMWARE_UPDATE_INVALID_SIZE = ''Update failed: invalid OTA file size''"
| "app_firmware_update_result_text APP_FIRMWARE_UPDATE_INVALID_HEADER = ''Update failed: invalid OTA header''"
| "app_firmware_update_result_text APP_FIRMWARE_UPDATE_IMAGE_TOO_LARGE =
     ''Update failed: OTA image is larger than manifest size''"
| "app_firmware_update_result_text APP_FIRMWARE_UPDATE_INCOMPLETE = ''Update failed: incomplete OTA upload''"
| "app_firmware_update_result_text APP_FIRMWARE_UPDATE_INVALID_OFFSET =
     ''Update failed: unexpected OTA chunk offset''"
| "app_firmware_update_result_text APP_FIRMWARE_UPDATE_FLASH_ERROR = ''Update failed: flash write error''"
| "app_firmware_update_result_text APP_FIRMWARE_UPDATE_NOT_ACTIVE =
     ''Update failed: OTA upload is not active''"

definition ota_app_log :: "string \<Rightarrow> ota \<Rightarrow> ota" where
  "ota_app_log line w = w\<lparr>ota_log := ota_log w @ [line]\<rparr>"

definition app_firmware_update_fail :: "app_firmware_update_result \<Rightarrow> ota \<Rightarrow> ota" where
  "app_firmware_update_fail result w =
     (if ota_result w = result then w
      else ota_app_log (''OTA update failed: '' @ app_firmware_update_result_text result)
             (w\<lparr>ota_result := result\<rparr>))"

definition app_firmware_update_flash_program_page :: "nat \<Rightarrow> u8 list \<Rightarrow> ota \<Rightarrow> ota \<times> bool" where
  "app_firmware_update_flash_program_page flash_offset page w =
     (case flash_safe_execute (flash_range_program flash_offset (take FLASH_PAGE_SIZE page)) (ota_flash w) of
        (f, ok) \<Rightarrow> (w\<lparr>ota_flash := f\<rparr>, ok))"

definition app_firmware_update_flash_erase_sector :: "nat \<Rightarrow> ota \<Rightarrow> ota \<times> bool" where
  "app_firmware_update_flash_erase_sector flash_offset w =
     (case flash_safe_execute (flash_range_erase flash_offset FLASH_SECTOR_SIZE) (ota_flash w) of
        (f, ok) \<Rightarrow> (w\<lparr>ota_flash := f\<rparr>, ok))"

subsection \<open>Staging the image\<close>

text \<open>
  The loop \<open>while (erased_up_to <= page_offset)\<close>, which erases the sectors up to the one the page
  lies in.  \<open>None\<close> is the loop whose 32-bit cursor wraps to 0 and that would start over.
\<close>

function erase_up_to_page :: "ota \<Rightarrow> nat \<Rightarrow> (ota \<times> bool) option" where
  "erase_up_to_page w page_offset =
     (if ota_erased_up_to w \<le> page_offset then
        (case app_firmware_update_flash_erase_sector
                (add32 (app_firmware_update_flash_offset firmware_copy_start) (ota_erased_up_to w)) w of
           (w1, False) \<Rightarrow> Some (w1, False)
         | (w1, True) \<Rightarrow>
             if 2 ^ 32 \<le> ota_erased_up_to w + FLASH_SECTOR_SIZE then None
             else erase_up_to_page
                    (w1\<lparr>ota_erased_up_to := add32 (ota_erased_up_to w) FLASH_SECTOR_SIZE\<rparr>) page_offset)
      else Some (w, True))"
  by pat_completeness auto
termination
  by (relation "measure (\<lambda>(w, p). Suc p - ota_erased_up_to w)") (auto simp: FLASH_SECTOR_SIZE_def add32_def)

declare erase_up_to_page.simps [simp del]

lemma sub32_256_eq_0: "sub32 256 pf = 0 \<longleftrightarrow> pf mod 2 ^ 32 = 256"
proof -
  have r: "pf mod 2 ^ 32 < 2 ^ 32" by simp
  show ?thesis
  proof (cases "pf mod 2 ^ 32 \<le> 256")
    case True
    then have "256 + (2 ^ 32 - pf mod 2 ^ 32) = (256 - pf mod 2 ^ 32) + 2 ^ 32" by simp
    then have "sub32 256 pf = (256 - pf mod 2 ^ 32) mod 2 ^ 32" unfolding sub32_def by (simp only: mod_add_self2)
    then show ?thesis using True by simp
  next
    case False
    then have "256 + (2 ^ 32 - pf mod 2 ^ 32) < 2 ^ 32" using r by linarith
    then show ?thesis using False r by (simp add: sub32_def)
  qed
qed

lemma chunk_full:
  "data \<noteq> [] \<Longrightarrow> chunk = (if length data < sub32 256 pf then length data else sub32 256 pf) \<Longrightarrow>
   2 * (length data - chunk) < 2 * length data + (if pf mod 2 ^ 32 = 256 then 1 else 0)"
  using sub32_256_eq_0 [of pf] by auto

lemma chunk_part:
  assumes "data \<noteq> []" "chunk = (if length data < sub32 256 pf then length data else sub32 256 pf)"
    "add32 pf chunk \<noteq> 256"
  shows "2 * (length data - chunk) + (if add32 pf chunk mod 2 ^ 32 = 256 then 1 else 0)
    < 2 * length data + (if pf mod 2 ^ 32 = 256 then 1 else (0 :: nat))"
proof -
  have "add32 pf chunk mod 2 ^ 32 \<noteq> 256" using assms(3) by (simp add: add32_def)
  moreover have "0 < chunk"
  proof (rule ccontr)
    assume "\<not> 0 < chunk"
    then have "sub32 256 pf = 0" "chunk = 0" using assms(1,2) by (auto split: if_splits)
    then have "pf mod 2 ^ 32 = 256" using sub32_256_eq_0 by blast
    then show False using assms(3) \<open>chunk = 0\<close> by (simp add: add32_def)
  qed
  moreover have "2 * (length data - chunk) < 2 * length data" if "0 < chunk"
    using that assms(1) by (cases data) auto
  ultimately show ?thesis by fastforce
qed

function app_firmware_update_write_image_data :: "ota \<Rightarrow> u8 list \<Rightarrow> (ota \<times> bool) option" where
  "app_firmware_update_write_image_data w data =
     (if data = [] then Some (w, True) else
      let copy_start = app_firmware_update_flash_offset firmware_copy_start;
          space = sub32 FLASH_PAGE_SIZE (ota_page_fill w);
          chunk = (if length data < space then length data else space);
          w1 = w\<lparr>ota_page := splice (ota_page w) (ota_page_fill w) (take chunk data),
                ota_page_fill := add32 (ota_page_fill w) chunk,
                ota_image_received := add32 (ota_image_received w) chunk\<rparr>;
          rest = drop chunk data
      in if ota_image_received w1 > ota_image_size w1
         then Some (app_firmware_update_fail APP_FIRMWARE_UPDATE_IMAGE_TOO_LARGE w1, False)
         else if ota_page_fill w1 = FLASH_PAGE_SIZE then
           (let page_offset = sub32 (ota_image_received w1) FLASH_PAGE_SIZE
            in case erase_up_to_page w1 page_offset of
                 None \<Rightarrow> None
               | Some (w2, False) \<Rightarrow> Some (app_firmware_update_fail APP_FIRMWARE_UPDATE_FLASH_ERROR w2, False)
               | Some (w2, True) \<Rightarrow>
                   (case app_firmware_update_flash_program_page (add32 copy_start page_offset) (ota_page w2) w2 of
                      (w3, False) \<Rightarrow> Some (app_firmware_update_fail APP_FIRMWARE_UPDATE_FLASH_ERROR w3, False)
                    | (w3, True) \<Rightarrow>
                        app_firmware_update_write_image_data
                          (w3\<lparr>ota_page_fill := 0, ota_page := replicate FLASH_PAGE_SIZE 0xff\<rparr>) rest))
         else app_firmware_update_write_image_data w1 rest)"
  by pat_completeness auto
termination
proof (relation "measure (\<lambda>(w, data). 2 * length data + (if ota_page_fill w mod 2 ^ 32 = 256 then 1 else 0))",
    goal_cases)
  case 1
  show ?case by (rule wf_measure)
next
  case (2 w data cs sp ch w1 rest)
  have "2 * (length data - ch) < 2 * length data + (if ota_page_fill w mod 2 ^ 32 = 256 then 1 else 0)"
    by (rule chunk_full) (use 2(1,3,4) in \<open>simp_all add: FLASH_PAGE_SIZE_def\<close>)
  then show ?case by (simp add: 2(6))
next
  case (3 w data cs sp ch w1 rest)
  have "ota_page_fill w1 = add32 (ota_page_fill w) ch" using 3(5) by simp
  moreover from this have "2 * (length data - ch) + (if add32 (ota_page_fill w) ch mod 2 ^ 32 = 256 then 1 else 0)
    < 2 * length data + (if ota_page_fill w mod 2 ^ 32 = 256 then 1 else 0)"
    by (intro chunk_part) (use 3(1,3,4,8) in \<open>simp_all add: FLASH_PAGE_SIZE_def\<close>)
  ultimately show ?case by (simp add: 3(6))
qed

declare app_firmware_update_write_image_data.simps [simp del]

definition app_firmware_update_finish_page :: "ota \<Rightarrow> (ota \<times> bool) option" where
  "app_firmware_update_finish_page w =
     (if ota_page_fill w > 0 then
        (let copy_start = app_firmware_update_flash_offset firmware_copy_start;
             page_offset = sub32 (ota_image_received w) (ota_page_fill w);
             w1 = w\<lparr>ota_page := take (ota_page_fill w) (ota_page w)
                                 @ replicate (FLASH_PAGE_SIZE - ota_page_fill w) 0xff\<rparr>
         in case erase_up_to_page w1 page_offset of
              None \<Rightarrow> None
            | Some (w2, False) \<Rightarrow> Some (w2, False)
            | Some (w2, True) \<Rightarrow>
                (case app_firmware_update_flash_program_page (add32 copy_start page_offset) (ota_page w2) w2 of
                   (w3, False) \<Rightarrow> Some (w3, False)
                 | (w3, True) \<Rightarrow> Some (w3\<lparr>ota_page_fill := 0\<rparr>, True)))
      else Some (w, True))"

text \<open>The loop that programs the header sector, \<open>offset\<close> from 0 in steps of a page.\<close>

function program_header :: "nat \<Rightarrow> nat \<Rightarrow> ota \<Rightarrow> ota \<times> bool" where
  "program_header metadata_start offset w =
     (if offset < APP_FIRMWARE_UPDATE_HEADER_SIZE then
        (case app_firmware_update_flash_program_page (add32 metadata_start offset) (drop offset (ota_header w)) w of
           (w1, False) \<Rightarrow> (w1, False)
         | (w1, True) \<Rightarrow> program_header metadata_start (offset + FLASH_PAGE_SIZE) w1)
      else (w, True))"
  by pat_completeness auto
termination
  by (relation "measure (\<lambda>(m, offset, w). APP_FIRMWARE_UPDATE_HEADER_SIZE - offset)")
    (auto simp: FLASH_PAGE_SIZE_def)

declare program_header.simps [simp del]

definition app_firmware_update_finish_write :: "ota \<Rightarrow> (ota \<times> bool) option" where
  "app_firmware_update_finish_write w =
     (let metadata_start = app_firmware_update_flash_offset update_metadata_start
      in case app_firmware_update_finish_page w of
           None \<Rightarrow> None
         | Some (w1, False) \<Rightarrow> Some (w1, False)
         | Some (w1, True) \<Rightarrow>
             (case app_firmware_update_flash_erase_sector metadata_start w1 of
                (w2, False) \<Rightarrow> Some (w2, False)
              | (w2, True) \<Rightarrow> Some (program_header metadata_start 0 w2)))"

subsection \<open>The operations of the module\<close>

definition app_firmware_update_begin :: "nat \<Rightarrow> ota \<Rightarrow> ota \<times> app_firmware_update_result" where
  "app_firmware_update_begin content_len w =
     (let w0 = w\<lparr>ota_active := False, ota_header_valid := False, ota_result := APP_FIRMWARE_UPDATE_OK,
                ota_content_len := 0, ota_received := 0, ota_image_received := 0, ota_image_size := 0,
                ota_page_fill := 0, ota_erased_up_to := 0,
                ota_header := replicate APP_FIRMWARE_UPDATE_HEADER_SIZE 0,
                ota_page := replicate FLASH_PAGE_SIZE 0\<rparr>
      in if content_len < APP_FIRMWARE_UPDATE_HEADER_SIZE \<or>
            content_len > add32 APP_FIRMWARE_UPDATE_HEADER_SIZE app_firmware_update_image_max_size
         then (let w1 = app_firmware_update_fail APP_FIRMWARE_UPDATE_INVALID_SIZE w0 in (w1, ota_result w1))
         else (ota_app_log (''OTA update upload started: '' @ show_nat content_len @ '' bytes'')
                 (w0\<lparr>ota_active := True, ota_content_len := content_len\<rparr>), APP_FIRMWARE_UPDATE_OK))"

function app_firmware_update_write_loop :: "ota \<Rightarrow> u8 list \<Rightarrow> (ota \<times> app_firmware_update_result) option" where
  "app_firmware_update_write_loop w data =
     (if data \<noteq> [] \<and> ota_result w = APP_FIRMWARE_UPDATE_OK then
        (if ota_received w < APP_FIRMWARE_UPDATE_HEADER_SIZE then
           (let header_remaining = APP_FIRMWARE_UPDATE_HEADER_SIZE - ota_received w;
                chunk = (if length data < header_remaining then length data else header_remaining);
                w1 = w\<lparr>ota_header := splice (ota_header w) (ota_received w) (take chunk data),
                       ota_received := add32 (ota_received w) chunk\<rparr>;
                rest = drop chunk data
            in if ota_received w1 = APP_FIRMWARE_UPDATE_HEADER_SIZE then
                 (case app_firmware_update_manifest_is_valid (ota_header w1) (ota_content_len w1) of
                    None \<Rightarrow> let w2 = app_firmware_update_fail APP_FIRMWARE_UPDATE_INVALID_HEADER w1
                            in Some (w2, ota_result w2)
                  | Some manifest \<Rightarrow>
                      app_firmware_update_write_loop
                        (w1\<lparr>ota_header_valid := True, ota_image_size := unat (image_size manifest),
                            ota_page := replicate FLASH_PAGE_SIZE 0xff\<rparr>) rest)
               else app_firmware_update_write_loop w1 rest)
         else (let w1 = w\<lparr>ota_received := add32 (ota_received w) (length data)\<rparr>
               in case app_firmware_update_write_image_data w1 data of
                    None \<Rightarrow> None
                  | Some (w2, _) \<Rightarrow> Some (w2, ota_result w2)))
      else Some (w, ota_result w))"
  by pat_completeness auto
termination
  by (relation "measure (\<lambda>(w, data). length data)") auto

declare app_firmware_update_write_loop.simps [simp del]

definition app_firmware_update_write :: "u8 list \<Rightarrow> ota \<Rightarrow> (ota \<times> app_firmware_update_result) option" where
  "app_firmware_update_write data w =
     (if \<not> ota_active w then Some (w, APP_FIRMWARE_UPDATE_NOT_ACTIVE)
      else app_firmware_update_write_loop w data)"

definition app_firmware_update_finish :: "ota \<Rightarrow> (ota \<times> app_firmware_update_result) option" where
  "app_firmware_update_finish w =
     (if \<not> ota_active w then Some (w, APP_FIRMWARE_UPDATE_NOT_ACTIVE) else
      let finished =
        (if ota_result w = APP_FIRMWARE_UPDATE_OK then
           (if \<not> ota_header_valid w \<or> ota_received w \<noteq> ota_content_len w \<or>
               ota_image_received w \<noteq> ota_image_size w
            then Some (app_firmware_update_fail APP_FIRMWARE_UPDATE_INCOMPLETE w)
            else (case app_firmware_update_finish_write w of
                    None \<Rightarrow> None
                  | Some (w1, False) \<Rightarrow> Some (app_firmware_update_fail APP_FIRMWARE_UPDATE_FLASH_ERROR w1)
                  | Some (w1, True) \<Rightarrow>
                      Some (ota_app_log (''OTA update uploaded: image='' @ show_nat (ota_image_size w1) @ '' bytes'') w1)))
         else Some w)
      in map_option (\<lambda>w1. let w2 = w1\<lparr>ota_active := False\<rparr> in (w2, ota_result w2)) finished)"

definition app_firmware_update_abort :: "app_firmware_update_result \<Rightarrow> ota \<Rightarrow> ota" where
  "app_firmware_update_abort result w =
     (let result' = (if result = APP_FIRMWARE_UPDATE_OK then APP_FIRMWARE_UPDATE_INCOMPLETE else result)
      in (app_firmware_update_fail result' w)\<lparr>ota_active := False\<rparr>)"

definition app_firmware_update_is_active :: "ota \<Rightarrow> bool" where
  "app_firmware_update_is_active w = ota_active w"

definition app_firmware_update_received :: "ota \<Rightarrow> nat" where
  "app_firmware_update_received w = ota_received w"

definition app_firmware_update_total_size :: "ota \<Rightarrow> nat" where
  "app_firmware_update_total_size w = ota_content_len w"

end
