(* ===== verification/Ota_Staging.thy ===== *)
theory Ota_Staging
  imports Firmware_Update
begin

text \<open>
  What the staging of an image leaves in the flash: the layout of the copy region and the metadata
  sector, the loop that erases a sector before its first page is programmed, the invariant of the
  loop of \<^verbatim>\<open>app_firmware_update_write_image_data\<close>, the last page, and the header sector.  The
  lemmas speak of a driver that may refuse any of its calls.
\<close>

subsection \<open>The memory layout\<close>

lemma ota_consts [simp]:
  "app_firmware_update_flash_offset firmware_copy_start = 0x100000"
  "app_firmware_update_flash_offset update_metadata_start = 0x1f000"
  "app_firmware_update_image_max_size = 917504"
  "APP_FIRMWARE_UPDATE_HEADER_SIZE = 4096"
  by (simp_all add: app_firmware_update_flash_offset_def firmware_copy_start_def update_metadata_start_def
      app_firmware_update_image_max_size_def firmware_copy_end_def APP_FIRMWARE_UPDATE_HEADER_SIZE_def
      XIP_BASE_def FLASH_SECTOR_SIZE_def sub32_def)

definition in_copy :: "nat \<Rightarrow> bool" where
  "in_copy a = (0x100000 \<le> a \<and> a < 0x100000 + 917504)"

definition in_metadata :: "nat \<Rightarrow> bool" where
  "in_metadata a = (0x1f000 \<le> a \<and> a < 0x1f000 + 4096)"

text \<open>The length rounded up to whole sectors, and down to whole pages.\<close>

definition sectors :: "nat \<Rightarrow> nat" where
  "sectors n = (n + 4095) div 4096 * 4096"

definition pages :: "nat \<Rightarrow> nat" where
  "pages n = n div 256 * 256"

lemma sectors_bounds: "n \<le> sectors n" "sectors n < n + 4096"
  unfolding sectors_def by linarith+

lemma sectors_le: "n \<le> 917504 \<Longrightarrow> sectors n \<le> 917504"
proof -
  assume "n \<le> 917504"
  then have "(n + 4095) div 4096 \<le> (917504 + 4095) div 4096" by (intro div_le_mono) simp
  then show ?thesis by (simp add: sectors_def)
qed

lemma sectors_mod [simp]: "sectors n mod 4096 = 0"
  by (simp add: sectors_def)

lemma sectors_eqI: "4096 * q < n + 4096 \<Longrightarrow> n \<le> 4096 * q \<Longrightarrow> sectors n = 4096 * q"
proof -
  assume "4096 * q < n + 4096" "n \<le> 4096 * q"
  then have "(n + 4095) div 4096 = q" by (intro div_nat_eqI) simp_all
  then show ?thesis by (simp add: sectors_def)
qed

lemma sectors_aligned: "n mod 4096 = 0 \<Longrightarrow> sectors n = n \<and> sectors (n + 256) = n + 4096"
proof -
  assume "n mod 4096 = 0"
  then obtain q where "n = 4096 * q" by (metis mod_0_imp_dvd dvdE)
  then show ?thesis using sectors_eqI [of q n] sectors_eqI [of "Suc q" "n + 256"] by simp
qed

lemma sectors_not_aligned:
  assumes "n mod 256 = 0" "n mod 4096 \<noteq> 0"
  shows "n < sectors n \<and> sectors (n + 256) = sectors n"
proof -
  let ?q = "n div 4096" and ?r = "n mod 4096"
  have n: "n = 4096 * ?q + ?r" by simp
  have "?r mod 256 = n mod 256" by (rule mod_mod_cancel) simp
  with assms(1) have r: "?r = 256 * (?r div 256)" by (metis add.right_neutral mult_div_mod_eq)
  have "?r < 4096" by simp
  then have "?r div 256 < 16" by (simp add: less_mult_imp_div_less)
  moreover have "?r div 256 \<noteq> 0" using r assms(2) by (metis mult_0_right)
  ultimately have b: "256 \<le> ?r" "?r \<le> 3840" using r by linarith+
  obtain q r where q: "n = 4096 * q + r" "256 \<le> r" "r \<le> 3840" using n b by blast
  have "4096 * (q + 1) < n + 4096" "n \<le> 4096 * (q + 1)"
    "4096 * (q + 1) < (n + 256) + 4096" "n + 256 \<le> 4096 * (q + 1)" using q by simp_all
  then have "sectors n = 4096 * (q + 1)" "sectors (n + 256) = 4096 * (q + 1)"
    using sectors_eqI [of "q + 1" n] sectors_eqI [of "q + 1" "n + 256"] by blast+
  then show ?thesis using q by simp
qed

lemma pages_le: "pages n \<le> n" "n < pages n + 256"
  unfolding pages_def by linarith+

lemma pages_mod [simp]: "pages n mod 256 = 0"
  by (simp add: pages_def)

lemma pages_plus_mod: "pages n + n mod 256 = n"
  by (simp add: pages_def)

text \<open>
  The flash during staging: \<open>P\<close> bytes of the image are programmed, the rest of the first \<open>E\<close> bytes
  of the copy region is erased, everything else is as in \<open>m\<close>.
\<close>

definition staged_mem :: "memory \<Rightarrow> u8 list \<Rightarrow> nat \<Rightarrow> nat \<Rightarrow> memory" where
  "staged_mem m img P E a =
     (if 0x100000 \<le> a \<and> a < 0x100000 + P then img ! (a - 0x100000)
      else if 0x100000 + P \<le> a \<and> a < 0x100000 + E then 0xFF else m a)"

lemma staged_mem_append: "P \<le> length img \<Longrightarrow> staged_mem m (img @ xs) P E = staged_mem m img P E"
  by (auto simp: staged_mem_def nth_append fun_eq_iff)

lemma staged_mem_0 [simp]: "staged_mem m img 0 0 = m"
  by (auto simp: staged_mem_def fun_eq_iff)

lemma staged_mem_outside: "P \<le> 917504 \<Longrightarrow> E \<le> 917504 \<Longrightarrow> \<not> in_copy a \<Longrightarrow> staged_mem m img P E a = m a"
  by (auto simp: staged_mem_def in_copy_def)

subsection \<open>Erasing and programming a page\<close>

lemma erase_sector_eq:
  "app_firmware_update_flash_erase_sector off w =
     (let f = (ota_flash w)\<lparr>exec_calls := Suc (exec_calls (ota_flash w))\<rparr>
      in if exec_ok (ota_flash w) (exec_calls (ota_flash w))
         then (w\<lparr>ota_flash := flash_range_erase off 4096 f\<rparr>, True) else (w\<lparr>ota_flash := f\<rparr>, False))"
  by (simp add: app_firmware_update_flash_erase_sector_def flash_safe_execute_def FLASH_SECTOR_SIZE_def Let_def)

lemma program_page_eq:
  "app_firmware_update_flash_program_page off page w =
     (let f = (ota_flash w)\<lparr>exec_calls := Suc (exec_calls (ota_flash w))\<rparr>
      in if exec_ok (ota_flash w) (exec_calls (ota_flash w))
         then (w\<lparr>ota_flash := flash_range_program off (take 256 page) f\<rparr>, True) else (w\<lparr>ota_flash := f\<rparr>, False))"
  by (simp add: app_firmware_update_flash_program_page_def flash_safe_execute_def FLASH_PAGE_SIZE_def Let_def)

text \<open>Before a page is programmed its sector is erased, unless an earlier page of it was.\<close>

lemma erase_step:
  assumes "flash_laws (ota_flash w)" "P mod 256 = 0" "P < 917504" "ota_erased_up_to w = sectors P"
    "mem (ota_flash w) = staged_mem m img P (sectors P)"
  shows "\<exists>f'. same_driver (ota_flash w) f' \<and>
    (erase_up_to_page w P = Some (w\<lparr>ota_flash := f', ota_erased_up_to := sectors (P + 256)\<rparr>, True) \<and>
       mem f' = staged_mem m img P (sectors (P + 256)) \<or>
     erase_up_to_page w P = Some (w\<lparr>ota_flash := f'\<rparr>, False) \<and> mem f' = mem (ota_flash w) \<and>
       \<not> exec_ok (ota_flash w) (exec_calls (ota_flash w)))"
proof (cases "P mod 4096 = 0")
  case False
  then have "\<not> sectors P \<le> P" "sectors (P + 256) = sectors P"
    using sectors_not_aligned [OF assms(2)] by auto
  then show ?thesis
    using assms(4,5) by (intro exI [of _ "ota_flash w"]) (subst erase_up_to_page.simps, simp)
next
  case True
  then have E: "sectors P = P" "sectors (P + 256) = P + 4096" using sectors_aligned by auto
  let ?f = "(ota_flash w)\<lparr>exec_calls := Suc (exec_calls (ota_flash w))\<rparr>"
  let ?g = "flash_range_erase (0x100000 + P) 4096 ?f"
  have a32: "add32 0x100000 P = 0x100000 + P" "add32 P 4096 = P + 4096"
    using assms(3) by (simp_all add: add32_id)
  have "(256 * 4096 + P) mod 4096 = P mod 4096" by (rule mod_mult_self3)
  then have "(0x100000 + P) mod 4096 = 0" using True by simp
  then have "mem ?g = staged_mem m img P (sectors (P + 256))"
    using assms(1,5) E by (auto simp: mem_erase staged_mem_def fun_eq_iff)
  moreover have "same_driver (ota_flash w) ?g"
    by (rule same_driver_trans [OF same_driver_updates(3) same_driver_updates(1)])
  moreover have "erase_up_to_page (w\<lparr>ota_flash := ?g, ota_erased_up_to := P + 4096\<rparr>) P
      = Some (w\<lparr>ota_flash := ?g, ota_erased_up_to := P + 4096\<rparr>, True)"
    by (subst erase_up_to_page.simps) simp
  then have "erase_up_to_page w P =
      (if exec_ok (ota_flash w) (exec_calls (ota_flash w))
       then Some (w\<lparr>ota_flash := ?g, ota_erased_up_to := P + 4096\<rparr>, True)
       else Some (w\<lparr>ota_flash := ?f\<rparr>, False))"
    using assms(3,4) E a32
    by (subst erase_up_to_page.simps) (simp add: erase_sector_eq FLASH_SECTOR_SIZE_def)
  ultimately show ?thesis
    using E by (cases "exec_ok (ota_flash w) (exec_calls (ota_flash w))") (auto intro: exI [of _ ?f] exI [of _ ?g])
qed

text \<open>Programming the page after the erase extends the staged part by a page.\<close>

lemma mem_program_staged:
  assumes "flash_laws f" "P mod 256 = 0" "length page = 256" "P + 256 \<le> E"
    "mem f = staged_mem m img P E" "length img = P"
  shows "mem (flash_range_program (0x100000 + P) page f) = staged_mem m (img @ page) (P + 256) E"
proof
  fix a
  have al: "(0x100000 + P) mod 256 = 0"
  proof -
    have "(4096 * 256 + P) mod 256 = P mod 256" by (rule mod_mult_self3)
    then show ?thesis using assms(2) by simp
  qed
  have "mem (flash_range_program (0x100000 + P) page f) a =
      (if 0x100000 + P \<le> a \<and> a < 0x100000 + P + length page then page ! (a - (0x100000 + P)) else mem f a)"
    using assms by (intro mem_program_erased al) (simp_all add: staged_mem_def)
  then show "mem (flash_range_program (0x100000 + P) page f) a = staged_mem m (img @ page) (P + 256) E a"
    using assms(3-6) by (auto simp: staged_mem_def nth_append)
qed

lemma sectors_page: "n mod 256 = 0 \<Longrightarrow> n + 256 \<le> sectors (n + 256)"
  using sectors_bounds(1) [of "n + 256"] .

subsection \<open>The invariant of the staging loop\<close>

text \<open>
  After the bytes \<open>img\<close> of the image: whole pages are in the flash, the rest is in the page buffer.
\<close>

definition img_inv :: "memory \<Rightarrow> ota \<Rightarrow> u8 list \<Rightarrow> bool" where
  "img_inv m w img =
     (flash_laws (ota_flash w) \<and> length (ota_page w) = 256 \<and>
      ota_image_received w = length img \<and> length img \<le> ota_image_size w \<and> ota_image_size w \<le> 917504 \<and>
      ota_page_fill w = length img mod 256 \<and>
      take (length img mod 256) (ota_page w) = drop (pages (length img)) img \<and>
      ota_erased_up_to w = sectors (pages (length img)) \<and>
      mem (ota_flash w) = staged_mem m img (pages (length img)) (sectors (pages (length img))))"

text \<open>What staging leaves alone.\<close>

definition ota_frame :: "ota \<Rightarrow> ota \<Rightarrow> bool" where
  "ota_frame w w' =
     (ota_active w' = ota_active w \<and> ota_header_valid w' = ota_header_valid w \<and>
      ota_content_len w' = ota_content_len w \<and> ota_received w' = ota_received w \<and>
      ota_image_size w' = ota_image_size w \<and> ota_header w' = ota_header w \<and>
      same_driver (ota_flash w) (ota_flash w'))"

lemma ota_frame_refl [simp]: "ota_frame w w"
  by (simp add: ota_frame_def)

lemma ota_frame_trans [trans]: "ota_frame w w1 \<Longrightarrow> ota_frame w1 w2 \<Longrightarrow> ota_frame w w2"
  by (auto simp: ota_frame_def intro: same_driver_trans)

lemma fail_simps [simp]:
  "ota_result (app_firmware_update_fail r w) = r"
  "ota_flash (app_firmware_update_fail r w) = ota_flash w"
  "ota_active (app_firmware_update_fail r w) = ota_active w"
  "ota_header_valid (app_firmware_update_fail r w) = ota_header_valid w"
  "ota_content_len (app_firmware_update_fail r w) = ota_content_len w"
  "ota_received (app_firmware_update_fail r w) = ota_received w"
  "ota_image_size (app_firmware_update_fail r w) = ota_image_size w"
  "ota_image_received (app_firmware_update_fail r w) = ota_image_received w"
  "ota_header (app_firmware_update_fail r w) = ota_header w"
  by (auto simp: app_firmware_update_fail_def ota_app_log_def)

lemma ota_frame_fail [simp]: "ota_frame w (app_firmware_update_fail r w') = ota_frame w w'"
  by (simp add: ota_frame_def)

text \<open>A chunk that does not fill the page.\<close>

lemma img_inv_partial:
  assumes "img_inv m w img" "length img mod 256 + length c < 256" "length img + length c \<le> ota_image_size w"
    and "w1 = w\<lparr>ota_page := splice (ota_page w) (length img mod 256) c,
               ota_page_fill := length img mod 256 + length c,
               ota_image_received := length img + length c\<rparr>"
  shows "img_inv m w1 (img @ c)"
proof -
  have q: "(length img + length c) div 256 = length img div 256"
    by (rule div_nat_eqI; (simp only: mult_Suc_right)?;
        use div_mult_mod_eq [of "length img" 256] assms(2) in linarith)
  then have p: "pages (length img + length c) = pages (length img)" by (simp add: pages_def)
  have r: "(length img + length c) mod 256 = length img mod 256 + length c"
    using assms(2) by (metis mod_add_left_eq mod_less)
  have "take (length img mod 256 + length c) (splice (ota_page w) (length img mod 256) c)
      = drop (pages (length img)) img @ c"
    using assms(1,2) by (simp add: take_splice img_inv_def)
  then show ?thesis
    using assms pages_le(1) [of "length img"] p r by (simp add: img_inv_def staged_mem_append)
qed

subsection \<open>Staging a page\<close>

definition stage_page :: "ota \<Rightarrow> nat \<Rightarrow> (ota \<times> bool) option" where
  "stage_page w off =
     (case erase_up_to_page w off of
        None \<Rightarrow> None
      | Some (w2, False) \<Rightarrow> Some (w2, False)
      | Some (w2, True) \<Rightarrow>
          Some (app_firmware_update_flash_program_page
            (add32 (app_firmware_update_flash_offset firmware_copy_start) off) (ota_page w2) w2))"

definition copy_only :: "memory \<Rightarrow> memory \<Rightarrow> bool" where
  "copy_only m m' = (\<forall>a. \<not> in_copy a \<longrightarrow> m' a = m a)"

lemma copy_only_staged: "P \<le> 917504 \<Longrightarrow> E \<le> 917504 \<Longrightarrow> copy_only m (staged_mem m img P E)"
  by (simp add: copy_only_def staged_mem_outside)

lemma stage_page_spec:
  assumes "flash_laws (ota_flash w)" "P mod 256 = 0" "P + 256 \<le> 917504" "ota_erased_up_to w = sectors P"
    "mem (ota_flash w) = staged_mem m img P (sectors P)" "length img = P" "length (ota_page w) = 256"
  shows "\<exists>f' e ok. stage_page w P = Some (w\<lparr>ota_flash := f', ota_erased_up_to := e\<rparr>, ok) \<and>
    same_driver (ota_flash w) f' \<and>
    (ok \<longrightarrow> e = sectors (P + 256) \<and> mem f' = staged_mem m (img @ ota_page w) (P + 256) (sectors (P + 256))) \<and>
    (\<not> ok \<longrightarrow> copy_only m (mem f') \<and> \<not> (\<forall>k. exec_ok (ota_flash w) k))"
proof -
  have a32: "add32 0x100000 P = 0x100000 + P" using assms(3) by (simp add: add32_id)
  have le: "P \<le> 917504" "sectors P \<le> 917504" "sectors (P + 256) \<le> 917504"
    using assms(3) by (simp_all add: sectors_le)
  obtain f' where f': "same_driver (ota_flash w) f'"
    and o: "erase_up_to_page w P = Some (w\<lparr>ota_flash := f', ota_erased_up_to := sectors (P + 256)\<rparr>, True) \<and>
       mem f' = staged_mem m img P (sectors (P + 256)) \<or>
     erase_up_to_page w P = Some (w\<lparr>ota_flash := f'\<rparr>, False) \<and> mem f' = mem (ota_flash w) \<and>
       \<not> exec_ok (ota_flash w) (exec_calls (ota_flash w))"
    using erase_step [OF assms(1,2) _ assms(4,5)] assms(3) by auto
  from o show ?thesis
  proof (elim disjE conjE)
    assume "erase_up_to_page w P = Some (w\<lparr>ota_flash := f'\<rparr>, False)" "mem f' = mem (ota_flash w)"
      "\<not> exec_ok (ota_flash w) (exec_calls (ota_flash w))"
    then show ?thesis using f' assms(4,5) copy_only_staged [OF le(1,2)]
      by (intro exI [of _ f'] exI [of _ "sectors P"] exI [of _ False]) (auto simp: stage_page_def)
  next
    assume er: "erase_up_to_page w P = Some (w\<lparr>ota_flash := f', ota_erased_up_to := sectors (P + 256)\<rparr>, True)"
      and mf: "mem f' = staged_mem m img P (sectors (P + 256))"
    let ?f = "f'\<lparr>exec_calls := Suc (exec_calls f')\<rparr>"
    let ?g = "flash_range_program (0x100000 + P) (ota_page w) ?f"
    have "flash_laws ?f" using assms(1) flash_laws_same_driver [OF f'] by simp
    then have mg: "mem ?g = staged_mem m (img @ ota_page w) (P + 256) (sectors (P + 256))"
      using assms mf sectors_page [OF assms(2)] by (intro mem_program_staged) simp_all
    have eo: "exec_ok f' = exec_ok (ota_flash w)" using f' by (simp add: same_driver_def)
    have sd: "same_driver (ota_flash w) ?f" "same_driver (ota_flash w) ?g"
      using f' by (simp_all add: same_driver_def flash_range_program_def)
    have "stage_page w P = Some (if exec_ok f' (exec_calls f')
       then (w\<lparr>ota_flash := ?g, ota_erased_up_to := sectors (P + 256)\<rparr>, True)
       else (w\<lparr>ota_flash := ?f, ota_erased_up_to := sectors (P + 256)\<rparr>, False))"
      using assms(7) by (simp add: stage_page_def er program_page_eq a32 Let_def)
    moreover have "copy_only m (mem ?f)" using mf copy_only_staged [OF le(1,3)] by simp
    moreover have "exec_ok f' (exec_calls f') = exec_ok (ota_flash w) (exec_calls f')" by (simp only: eo)
    ultimately show ?thesis
      using sd mg
      apply (cases "exec_ok f' (exec_calls f')")
       apply (intro exI [of _ ?g] exI [of _ "sectors (P + 256)"] exI [of _ True]; simp)
      by (intro exI [of _ ?f] exI [of _ "sectors (P + 256)"] exI [of _ False]; auto)
  qed
qed

text \<open>A chunk that fills the page: the page is staged and the buffer starts afresh.\<close>

lemma img_inv_full:
  assumes "img_inv m w img" "length img mod 256 + length c = 256" "length img + length c \<le> ota_image_size w"
    and w1: "w1 = w\<lparr>ota_page := splice (ota_page w) (length img mod 256) c,
               ota_page_fill := 256, ota_image_received := length img + length c\<rparr>"
  shows "\<exists>w2 ok. stage_page w1 (pages (length img)) = Some (w2, ok) \<and> ota_frame w w2 \<and>
    ota_result w2 = ota_result w \<and>
    (ok \<longrightarrow> img_inv m (w2\<lparr>ota_page_fill := 0, ota_page := replicate 256 0xff\<rparr>) (img @ c)) \<and>
    (\<not> ok \<longrightarrow> copy_only m (mem (ota_flash w2)) \<and> \<not> (\<forall>k. exec_ok (ota_flash w) k))"
proof -
  let ?P = "pages (length img)"
  have len: "length (img @ c) = ?P + 256" using pages_plus_mod [of "length img"] assms(2) by simp
  have i: "flash_laws (ota_flash w)" "length (ota_page w) = 256" "ota_image_size w \<le> 917504"
    "take (length img mod 256) (ota_page w) = drop ?P img" "ota_erased_up_to w = sectors ?P"
    "mem (ota_flash w) = staged_mem m img ?P (sectors ?P)" using assms(1) by (simp_all add: img_inv_def)
  have pg: "ota_page w1 = drop ?P img @ c"
    using take_splice [of "length img mod 256" c "ota_page w"] i(2,4) assms(2) w1
    by (simp add: length_splice)
  have split: "img = take ?P img @ drop ?P img" by simp
  have mm: "staged_mem m img P E = staged_mem m (take ?P img) P E" if "P = ?P" for P E
    using staged_mem_append [of ?P "take ?P img" m "drop ?P img" E] that pages_le(1) [of "length img"] by simp
  have lt: "length (take ?P img) = ?P" using pages_le(1) [of "length img"] by simp
  have "length (ota_page w1) = 256" using w1 i(2) assms(2) by (simp add: length_splice)
  then obtain f' e ok where st: "stage_page w1 ?P = Some (w1\<lparr>ota_flash := f', ota_erased_up_to := e\<rparr>, ok)"
    and sd: "same_driver (ota_flash w) f'"
    and ok: "ok \<Longrightarrow> e = sectors (?P + 256) \<and>
      mem f' = staged_mem m (take ?P img @ ota_page w1) (?P + 256) (sectors (?P + 256))"
    and nok: "\<not> ok \<Longrightarrow> copy_only m (mem f') \<and> \<not> (\<forall>k. exec_ok (ota_flash w) k)"
    using stage_page_spec [of w1 ?P m "take ?P img"] i assms(3) len mm [OF refl] lt w1
    by auto
  have whole: "take ?P img @ ota_page w1 = img @ c" using pg by simp
  have "pages (length (img @ c)) = ?P + 256" "length (img @ c) mod 256 = 0"
    using len pages_mod [of "length img"] by (simp_all add: pages_def)
  then have "img_inv m (w1\<lparr>ota_flash := f', ota_erased_up_to := e, ota_page_fill := 0,
      ota_page := replicate 256 0xff\<rparr>) (img @ c)" if "ok"
    using that ok [OF that] i(1,3) flash_laws_same_driver [OF sd] assms(3) len whole w1
    by (simp add: img_inv_def)
  then show ?thesis
    using st sd nok w1 by (auto simp: ota_frame_def)
qed

subsection \<open>The staging loop\<close>

text \<open>One round of the loop, as it runs in a state of the invariant.\<close>

lemma write_image_data_eq:
  assumes "img_inv m w img" "data \<noteq> []" "n = min (length data) (256 - length img mod 256)"
    "length img + length data < 2 ^ 32"
    and w1: "w1 = w\<lparr>ota_page := splice (ota_page w) (length img mod 256) (take n data),
               ota_page_fill := length img mod 256 + n, ota_image_received := length img + n\<rparr>"
  shows "app_firmware_update_write_image_data w data =
    (if length img + n > ota_image_size w
     then Some (app_firmware_update_fail APP_FIRMWARE_UPDATE_IMAGE_TOO_LARGE w1, False)
     else if length img mod 256 + n = 256 then
       (case stage_page w1 (pages (length img)) of
          None \<Rightarrow> None
        | Some (w2, False) \<Rightarrow> Some (app_firmware_update_fail APP_FIRMWARE_UPDATE_FLASH_ERROR w2, False)
        | Some (w2, True) \<Rightarrow>
            app_firmware_update_write_image_data
              (w2\<lparr>ota_page_fill := 0, ota_page := replicate 256 0xff\<rparr>) (drop n data))
     else app_firmware_update_write_image_data w1 (drop n data))"
proof -
  have i: "ota_page_fill w = length img mod 256" "ota_image_received w = length img"
    "ota_image_size w \<le> 917504" using assms(1) by (simp_all add: img_inv_def)
  have n: "length img mod 256 + n \<le> 256" "n \<le> length data" using assms(3) by (auto simp: min_def)
  have sp: "sub32 256 (length img mod 256) = 256 - length img mod 256" by (simp add: sub32_id less_imp_le)
  have ch: "(if length data < 256 - length img mod 256 then length data else 256 - length img mod 256) = n"
    using assms(3) by simp
  have a: "add32 (length img mod 256) n = length img mod 256 + n" "add32 (length img) n = length img + n"
    using n assms(4) by (simp_all add: add32_id)
  have po: "sub32 (length img + n) 256 = pages (length img)" if "length img mod 256 + n = 256"
    using that pages_plus_mod [of "length img"] n(2) assms(4) by (simp add: sub32_id)
  have "app_firmware_update_write_image_data w data =
    (if ota_image_received w1 > ota_image_size w1
     then Some (app_firmware_update_fail APP_FIRMWARE_UPDATE_IMAGE_TOO_LARGE w1, False)
     else if ota_page_fill w1 = 256 then
       (case erase_up_to_page w1 (sub32 (ota_image_received w1) 256) of
         None \<Rightarrow> None
       | Some (w2, False) \<Rightarrow> Some (app_firmware_update_fail APP_FIRMWARE_UPDATE_FLASH_ERROR w2, False)
       | Some (w2, True) \<Rightarrow>
           (case app_firmware_update_flash_program_page
              (add32 (app_firmware_update_flash_offset firmware_copy_start) (sub32 (ota_image_received w1) 256))
              (ota_page w2) w2 of
              (w3, False) \<Rightarrow> Some (app_firmware_update_fail APP_FIRMWARE_UPDATE_FLASH_ERROR w3, False)
            | (w3, True) \<Rightarrow>
                app_firmware_update_write_image_data
                  (w3\<lparr>ota_page_fill := 0, ota_page := replicate 256 0xff\<rparr>) (drop n data)))
     else app_firmware_update_write_image_data w1 (drop n data))"
    by (subst app_firmware_update_write_image_data.simps)
      (simp only: FLASH_PAGE_SIZE_def Let_def i(1,2) sp ch a w1 assms(2) if_False)
  moreover have "ota_image_received w1 = length img + n" "ota_image_size w1 = ota_image_size w"
    "ota_page_fill w1 = length img mod 256 + n" by (simp_all add: w1)
  ultimately show ?thesis
    using po unfolding stage_page_def
    by (cases "erase_up_to_page w1 (pages (length img))")
      (simp_all split: prod.split bool.split del: ota_consts)
qed

lemma write_image_data_spec:
  assumes "img_inv m w img" "length img + length data < 2 ^ 32"
  shows "\<exists>w' ok. app_firmware_update_write_image_data w data = Some (w', ok) \<and> ota_frame w w' \<and>
    (ok \<longrightarrow> img_inv m w' (img @ data) \<and> ota_result w' = ota_result w) \<and>
    (\<not> ok \<longrightarrow> copy_only m (mem (ota_flash w')) \<and> ota_result w' \<noteq> APP_FIRMWARE_UPDATE_OK \<and>
       \<not> ((\<forall>k. exec_ok (ota_flash w) k) \<and> length (img @ data) \<le> ota_image_size w))"
  using assms
proof (induction "length data" arbitrary: w img data rule: less_induct)
  case less
  show ?case
  proof (cases "data = []")
    case True
    then show ?thesis using less.prems by (subst app_firmware_update_write_image_data.simps) auto
  next
    case False
    define n where "n = min (length data) (256 - length img mod 256)"
    define w1 where "w1 = w\<lparr>ota_page := splice (ota_page w) (length img mod 256) (take n data),
        ota_page_fill := length img mod 256 + n, ota_image_received := length img + n\<rparr>"
    let ?c = "take n data" and ?d = "drop n data"
    have "0 < n" using False by (simp add: n_def)
    have n: "n \<le> length data" "length img mod 256 + n \<le> 256" by (auto simp: n_def min_def)
    have d: "length ?d < length data" using \<open>0 < n\<close> False by simp
    have fr: "ota_frame w w1" "ota_flash w1 = ota_flash w" by (simp_all add: w1_def ota_frame_def)
    have cp: "copy_only m (mem (ota_flash w))"
      using less.prems(1) pages_le(1) [of "length img"] sectors_le [of "pages (length img)"]
      by (simp add: img_inv_def copy_only_staged)
    note eq = write_image_data_eq [OF less.prems(1) False n_def less.prems(2) w1_def]
    show ?thesis
    proof (cases "length img + n > ota_image_size w")
      case True
      then show ?thesis using eq fr cp n
        by (intro exI [of _ "app_firmware_update_fail APP_FIRMWARE_UPDATE_IMAGE_TOO_LARGE w1"]
            exI [of _ False]) simp
    next
      case fits: False
      show ?thesis
      proof (cases "length img mod 256 + n = 256")
        case part: False
        have "img_inv m w1 (img @ ?c)"
          using less.prems(1) n part fits by (intro img_inv_partial [OF less.prems(1)]) (simp_all add: w1_def)
        then obtain w' ok where
          "app_firmware_update_write_image_data w1 ?d = Some (w', ok)" "ota_frame w1 w'"
          "ok \<longrightarrow> img_inv m w' ((img @ ?c) @ ?d) \<and> ota_result w' = ota_result w1"
          "\<not> ok \<longrightarrow> copy_only m (mem (ota_flash w')) \<and> ota_result w' \<noteq> APP_FIRMWARE_UPDATE_OK \<and>
            \<not> ((\<forall>k. exec_ok (ota_flash w1) k) \<and> length ((img @ ?c) @ ?d) \<le> ota_image_size w1)"
          using less.hyps [OF d, of w1 "img @ ?c"] less.prems(2) n by auto
        then show ?thesis using eq part fits fr n
          by (intro exI [of _ w'] exI [of _ ok]) (auto simp: w1_def intro: ota_frame_trans)
      next
        case full: True
        obtain w2 ok where st: "stage_page w1 (pages (length img)) = Some (w2, ok)" "ota_frame w w2"
          "ota_result w2 = ota_result w"
          and inv: "ok \<Longrightarrow> img_inv m (w2\<lparr>ota_page_fill := 0, ota_page := replicate 256 0xff\<rparr>) (img @ ?c)"
          and nok: "\<not> ok \<Longrightarrow> copy_only m (mem (ota_flash w2)) \<and> \<not> (\<forall>k. exec_ok (ota_flash w) k)"
          using img_inv_full [OF less.prems(1), of ?c w1] full fits n by (auto simp: w1_def)
        show ?thesis
        proof (cases ok)
          case False
          then show ?thesis using eq full fits st nok
            by (intro exI [of _ "app_firmware_update_fail APP_FIRMWARE_UPDATE_FLASH_ERROR w2"]
                exI [of _ False]) simp
        next
          case True
          define w3 where "w3 = w2\<lparr>ota_page_fill := 0, ota_page := replicate 256 0xff\<rparr>"
          have fr3: "ota_frame w w3" "ota_result w3 = ota_result w" using st by (simp_all add: w3_def ota_frame_def)
          obtain w' ok' where
            "app_firmware_update_write_image_data w3 ?d = Some (w', ok')" "ota_frame w3 w'"
            "ok' \<longrightarrow> img_inv m w' ((img @ ?c) @ ?d) \<and> ota_result w' = ota_result w3"
            "\<not> ok' \<longrightarrow> copy_only m (mem (ota_flash w')) \<and> ota_result w' \<noteq> APP_FIRMWARE_UPDATE_OK \<and>
              \<not> ((\<forall>k. exec_ok (ota_flash w3) k) \<and> length ((img @ ?c) @ ?d) \<le> ota_image_size w3)"
            using less.hyps [OF d, of w3 "img @ ?c"] less.prems(2) n inv [OF True] by (auto simp: w3_def)
          moreover have "exec_ok (ota_flash w3) = exec_ok (ota_flash w)" "ota_image_size w3 = ota_image_size w"
            using fr3 by (simp_all add: ota_frame_def same_driver_def)
          ultimately show ?thesis using eq full fits st True fr3
            by (intro exI [of _ w'] exI [of _ ok']) (auto simp: w3_def [symmetric] intro: ota_frame_trans)
        qed
      qed
    qed
  qed
qed

subsection \<open>The last page and the header\<close>

definition image_mem :: "memory \<Rightarrow> u8 list \<Rightarrow> memory" where
  "image_mem m img = staged_mem m img (length img) (sectors (length img))"

lemma sectors_last_page: "pages n < n \<Longrightarrow> sectors (pages n + 256) = sectors n"
proof -
  assume a: "pages n < n"
  define q where "q = (pages n + 256 + 4095) div 4096"
  define p where "p = n div 256"
  have q: "sectors (pages n + 256) = 256 * (16 * q)" by (simp add: sectors_def q_def)
  have p: "pages n = 256 * p" by (simp add: pages_def p_def)
  have "256 * (16 * q) < 256 * p + 256 + 4096" "256 * p + 256 \<le> 256 * (16 * q)"
    using sectors_bounds [of "pages n + 256"] q p by simp_all
  then have "16 * q \<le> p + 16" by simp
  then have "4096 * q < n + 4096" using a p by simp
  moreover have "n \<le> 4096 * q" using pages_le(2) [of n] sectors_bounds(1) [of "pages n + 256"] q by simp
  ultimately show ?thesis using q sectors_eqI [of q n] by simp
qed

lemma finish_page_spec:
  assumes inv: "img_inv m w img"
  shows "\<exists>w' ok. app_firmware_update_finish_page w = Some (w', ok) \<and> ota_frame w w' \<and>
    ota_result w' = ota_result w \<and>
    (ok \<longrightarrow> mem (ota_flash w') = image_mem m img) \<and>
    (\<not> ok \<longrightarrow> copy_only m (mem (ota_flash w')) \<and> \<not> (\<forall>k. exec_ok (ota_flash w) k))"
proof (cases "length img mod 256 = 0")
  case True
  then have "pages (length img) = length img" using pages_plus_mod [of "length img"] by simp
  then show ?thesis using inv True
    by (intro exI [of _ w] exI [of _ True]) (simp add: img_inv_def app_firmware_update_finish_page_def image_mem_def)
next
  case False
  let ?P = "pages (length img)" and ?r = "length img mod 256"
  have i: "flash_laws (ota_flash w)" "length (ota_page w) = 256" "length img \<le> 917504"
    "take ?r (ota_page w) = drop ?P img" "ota_erased_up_to w = sectors ?P"
    "mem (ota_flash w) = staged_mem m img ?P (sectors ?P)" "ota_page_fill w = ?r"
    "ota_image_received w = length img" using inv by (simp_all add: img_inv_def)
  have Pr: "?P + ?r = length img" by (rule pages_plus_mod)
  have "?r < 256" by simp
  have P: "?P < length img" using Pr False by linarith
  have fits: "?P + 256 \<le> 917504"
  proof -
    have "?P < 256 * 3584" using P i(3) by simp
    then have "length img div 256 < 3584" by (simp add: pages_def)
    then show ?thesis by (simp add: pages_def)
  qed
  define w1 where "w1 = w\<lparr>ota_page := drop ?P img @ replicate (256 - ?r) 0xff\<rparr>"
  have po: "sub32 (length img) ?r = ?P" using Pr i(3) by (simp add: sub32_id)
  have mm: "staged_mem m img ?P E = staged_mem m (take ?P img) ?P E" for E
    using staged_mem_append [of ?P "take ?P img" m "drop ?P img" E] P by simp
  have lt: "length (take ?P img) = ?P" using P by simp
  have lp: "length (ota_page w1) = 256" using Pr \<open>?r < 256\<close> by (simp add: w1_def)
  obtain f' e ok where st: "stage_page w1 ?P = Some (w1\<lparr>ota_flash := f', ota_erased_up_to := e\<rparr>, ok)"
    and sd: "same_driver (ota_flash w) f'"
    and ok: "ok \<Longrightarrow> mem f' = staged_mem m (take ?P img @ ota_page w1) (?P + 256) (sectors (?P + 256))"
    and nok: "\<not> ok \<Longrightarrow> copy_only m (mem f') \<and> \<not> (\<forall>k. exec_ok (ota_flash w) k)"
    using stage_page_spec [of w1 ?P m "take ?P img"] i fits mm lt lp by (auto simp: w1_def)
  have "take ?P img @ ota_page w1 = img @ replicate (256 - ?r) 0xff" by (simp add: w1_def)
  moreover have "staged_mem m (img @ replicate (256 - ?r) 0xff) (?P + 256) (sectors (length img)) = image_mem m img"
    using Pr sectors_last_page [OF P] sectors_page [of ?P]
    by (auto simp: image_mem_def staged_mem_def fun_eq_iff nth_append)
  ultimately have m': "ok \<Longrightarrow> mem f' = image_mem m img" using ok sectors_last_page [OF P] by simp
  have eq: "app_firmware_update_finish_page w = (case stage_page w1 ?P of
      None \<Rightarrow> None | Some (w2, False) \<Rightarrow> Some (w2, False)
    | Some (w2, True) \<Rightarrow> Some (w2\<lparr>ota_page_fill := 0\<rparr>, True))"
    using False i(4)
    by (cases "erase_up_to_page w1 ?P")
      (simp_all add: app_firmware_update_finish_page_def FLASH_PAGE_SIZE_def i(7,8) po stage_page_def w1_def
        split: prod.split bool.split)
  show ?thesis
  proof (cases ok)
    case True
    then show ?thesis using eq st sd m'
      by (intro exI [of _ "w1\<lparr>ota_flash := f', ota_erased_up_to := e, ota_page_fill := 0\<rparr>"] exI [of _ True])
        (simp add: w1_def ota_frame_def)
  next
    case False
    then show ?thesis using eq st sd nok
      by (intro exI [of _ "w1\<lparr>ota_flash := f', ota_erased_up_to := e\<rparr>"] exI [of _ False])
        (simp add: w1_def ota_frame_def)
  qed
qed

text \<open>The header sector while its pages are programmed.\<close>

definition header_mem :: "memory \<Rightarrow> u8 list \<Rightarrow> nat \<Rightarrow> memory" where
  "header_mem m hdr k a = (if 0x1f000 \<le> a \<and> a < 0x1f000 + k then hdr ! (a - 0x1f000)
     else if in_metadata a then 0xFF else m a)"

lemma program_header_spec:
  assumes "flash_laws (ota_flash w)" "off mod 256 = 0" "off \<le> 4096" "length (ota_header w) = 4096"
    "mem (ota_flash w) = header_mem m (ota_header w) off"
  shows "\<exists>f' ok k. program_header 0x1f000 off w = (w\<lparr>ota_flash := f'\<rparr>, ok) \<and> same_driver (ota_flash w) f' \<and>
    mem f' = header_mem m (ota_header w) k \<and> k \<le> 4096 \<and>
    (ok \<longrightarrow> k = 4096) \<and> (\<not> ok \<longrightarrow> \<not> (\<forall>k. exec_ok (ota_flash w) k))"
  using assms
proof (induction "4096 - off" arbitrary: off w rule: less_induct)
  case less
  show ?case
  proof (cases "off < 4096")
    case False
    then show ?thesis using less.prems
      by (intro exI [of _ "ota_flash w"] exI [of _ True] exI [of _ 4096])
        (subst program_header.simps, simp)
  next
    case True
    let ?f = "(ota_flash w)\<lparr>exec_calls := Suc (exec_calls (ota_flash w))\<rparr>"
    let ?pg = "take 256 (drop off (ota_header w))"
    let ?g = "flash_range_program (0x1f000 + off) ?pg ?f"
    obtain j where j: "off = 256 * j" using less.prems(2) by (metis mod_0_imp_dvd dvdE)
    then have off: "off + 256 \<le> 4096" using True by simp
    have a32: "add32 0x1f000 off = 0x1f000 + off" using True by (simp add: add32_id)
    have lp: "length ?pg = 256" using off less.prems(4) by simp
    have al: "(0x1f000 + off) mod 256 = 0" using j by simp
    have "mem ?g a = header_mem m (ota_header w) (off + 256) a" for a
    proof -
      have "mem ?g a = (if 0x1f000 + off \<le> a \<and> a < 0x1f000 + off + length ?pg
          then ?pg ! (a - (0x1f000 + off)) else mem ?f a)"
        using less.prems lp off by (intro mem_program_erased al) (auto simp: header_mem_def in_metadata_def)
      also have "\<dots> = header_mem m (ota_header w) (off + 256) a"
        using less.prems(4,5) lp off by (auto simp: header_mem_def in_metadata_def)
      finally show ?thesis .
    qed
    then have mg: "mem ?g = header_mem m (ota_header w) (off + 256)" by (rule ext)
    have eq: "program_header 0x1f000 off w = (if exec_ok (ota_flash w) (exec_calls (ota_flash w))
        then program_header 0x1f000 (off + 256) (w\<lparr>ota_flash := ?g\<rparr>) else (w\<lparr>ota_flash := ?f\<rparr>, False))"
      using True by (subst program_header.simps) (simp add: program_page_eq a32 FLASH_PAGE_SIZE_def Let_def)
    have sd: "same_driver (ota_flash w) ?g" "same_driver (ota_flash w) ?f"
      by (simp_all add: same_driver_def flash_range_program_def)
    show ?thesis
    proof (cases "exec_ok (ota_flash w) (exec_calls (ota_flash w))")
      case no: False
      then show ?thesis using eq sd less.prems(3,5)
        by (intro exI [of _ ?f] exI [of _ False] exI [of _ off]) auto
    next
      case yes: True
      have "(off + 256) mod 256 = 0" using j by simp
      have dec: "4096 - (off + 256) < 4096 - off" using True by simp
      have "\<exists>f' ok k. program_header 0x1f000 (off + 256) (w\<lparr>ota_flash := ?g\<rparr>)
          = ((w\<lparr>ota_flash := ?g\<rparr>)\<lparr>ota_flash := f'\<rparr>, ok) \<and> same_driver (ota_flash (w\<lparr>ota_flash := ?g\<rparr>)) f' \<and>
        mem f' = header_mem m (ota_header (w\<lparr>ota_flash := ?g\<rparr>)) k \<and> k \<le> 4096 \<and> (ok \<longrightarrow> k = 4096) \<and>
        (\<not> ok \<longrightarrow> \<not> (\<forall>k. exec_ok (ota_flash (w\<lparr>ota_flash := ?g\<rparr>)) k))"
        using less.prems(1,4) \<open>(off + 256) mod 256 = 0\<close> off mg by (intro less.hyps [OF dec]) simp_all
      then obtain f' ok k where
        "program_header 0x1f000 (off + 256) (w\<lparr>ota_flash := ?g\<rparr>) = (w\<lparr>ota_flash := f'\<rparr>, ok)"
        "same_driver ?g f'" "mem f' = header_mem m (ota_header w) k" "k \<le> 4096" "ok \<longrightarrow> k = 4096"
        "\<not> ok \<longrightarrow> \<not> (\<forall>k. exec_ok ?g k)"
        by auto
      moreover have "exec_ok ?g = exec_ok (ota_flash w)" by (simp add: flash_range_program_def)
      ultimately show ?thesis using eq yes sd
        by (intro exI [of _ f'] exI [of _ ok] exI [of _ k]) (auto intro: same_driver_trans)
    qed
  qed
qed

end
