(* ===== verification/Firmware_Upload.thy ===== *)
theory Firmware_Upload
  imports Ota_Staging
begin

text \<open>
  An upload from \<^verbatim>\<open>begin\<close> over any sequence of chunks to \<^verbatim>\<open>finish\<close>, and what it leaves in the flash.
\<close>

definition valid_upload :: "nat \<Rightarrow> u8 list \<Rightarrow> bool" where
  "valid_upload n bs = (app_firmware_update_manifest_is_valid (take 4096 bs) n \<noteq> None)"

lemma manifest_valid_size:
  "app_firmware_update_manifest_is_valid h n = Some mf \<Longrightarrow>
   mf = manifest_of h \<and> n = 4096 + unat (image_size mf) \<and> 0 < unat (image_size mf) \<and>
   unat (image_size mf) \<le> 917504"
  by (auto simp: app_firmware_update_manifest_is_valid_def Let_def add32_id split: if_splits)

text \<open>The state of an upload of \<open>n\<close> announced bytes after the bytes \<open>bs\<close>, nothing refused yet.\<close>

definition up_ok :: "memory \<Rightarrow> nat \<Rightarrow> ota \<Rightarrow> u8 list \<Rightarrow> bool" where
  "up_ok m n w bs =
     (ota_result w = APP_FIRMWARE_UPDATE_OK \<and> ota_active w \<and> ota_content_len w = n \<and>
      ota_received w = length bs \<and> length (ota_header w) = 4096 \<and>
      (if length bs < 4096
       then \<not> ota_header_valid w \<and> take (length bs) (ota_header w) = bs \<and> ota_image_received w = 0 \<and>
            ota_page_fill w = 0 \<and> ota_erased_up_to w = 0 \<and>
            mem (ota_flash w) = m \<and> flash_laws (ota_flash w)
       else ota_header_valid w \<and> ota_header w = take 4096 bs \<and> valid_upload n bs \<and>
            ota_image_size w = unat (image_size (manifest_of (take 4096 bs))) \<and>
            img_inv m w (drop 4096 bs)))"

text \<open>The state after something was refused.\<close>

definition up_bad :: "memory \<Rightarrow> ota \<Rightarrow> bool" where
  "up_bad m w = (ota_result w \<noteq> APP_FIRMWARE_UPDATE_OK \<and> ota_active w \<and> copy_only m (mem (ota_flash w)))"

text \<open>What an upload needs in order not to be refused.\<close>

definition acceptable :: "nat \<Rightarrow> flash \<Rightarrow> u8 list \<Rightarrow> bool" where
  "acceptable n f bs = ((\<forall>k. exec_ok f k) \<and> length bs \<le> n \<and> (4096 \<le> length bs \<longrightarrow> valid_upload n bs))"

lemma copy_only_refl [simp]: "copy_only m m"
  by (simp add: copy_only_def)

lemma write_loop_image:
  assumes "up_ok m n w bs" "4096 \<le> length bs" "data \<noteq> []" "length data < 2 ^ 31"
  shows "\<exists>w'. app_firmware_update_write_loop w data = Some (w', ota_result w') \<and>
    same_driver (ota_flash w) (ota_flash w') \<and>
    (up_ok m n w' (bs @ data) \<or> up_bad m w' \<and> \<not> acceptable n (ota_flash w) (bs @ data))"
proof -
  have v: "valid_upload n bs" "ota_image_size w = unat (image_size (manifest_of (take 4096 bs)))"
    "img_inv m w (drop 4096 bs)" "ota_result w = APP_FIRMWARE_UPDATE_OK" "ota_received w = length bs"
    "ota_header_valid w" "ota_header w = take 4096 bs" "ota_active w" "ota_content_len w = n"
    using assms(1,2) by (simp_all add: up_ok_def)
  from v(1) obtain mf where "app_firmware_update_manifest_is_valid (take 4096 bs) n = Some mf"
    by (auto simp: valid_upload_def)
  then have n: "n = 4096 + ota_image_size w" using manifest_valid_size v(2) by auto
  have "length (drop 4096 bs) \<le> 917504" using v(3) unfolding img_inv_def by linarith
  then have sz: "length bs \<le> 4096 + 917504" by simp
  define w1 where "w1 = w\<lparr>ota_received := length bs + length data\<rparr>"
  have inv: "img_inv m w1 (drop 4096 bs)" using v(3) by (simp add: w1_def img_inv_def)
  have lt: "length (drop 4096 bs) + length data < 2 ^ 32" using sz assms(4) by simp
  obtain w' ok where wi: "app_firmware_update_write_image_data w1 data = Some (w', ok)" "ota_frame w1 w'"
    and ok: "ok \<longrightarrow> img_inv m w' (drop 4096 bs @ data) \<and> ota_result w' = ota_result w1"
    and nok: "\<not> ok \<longrightarrow> copy_only m (mem (ota_flash w')) \<and> ota_result w' \<noteq> APP_FIRMWARE_UPDATE_OK \<and>
       \<not> ((\<forall>k. exec_ok (ota_flash w1) k) \<and> length (drop 4096 bs @ data) \<le> ota_image_size w1)"
    using write_image_data_spec [OF inv lt] by blast
  have eq: "app_firmware_update_write_loop w data = Some (w', ota_result w')"
    using v assms(2-4) sz wi(1)
    by (subst app_firmware_update_write_loop.simps) (simp add: w1_def add32_id)
  have d: "drop 4096 (bs @ data) = drop 4096 bs @ data" "take 4096 (bs @ data) = take 4096 bs"
    using assms(2) by simp_all
  show ?thesis
  proof (cases ok)
    case True
    then have "up_ok m n w' (bs @ data)"
      using ok v assms(2) wi(2) d by (simp add: up_ok_def w1_def ota_frame_def valid_upload_def)
    then show ?thesis using eq wi(2) by (auto simp: w1_def ota_frame_def)
  next
    case False
    then have "up_bad m w'" "\<not> acceptable n (ota_flash w) (bs @ data)"
      using nok v(8) wi(2) n assms(2) by (auto simp: up_bad_def acceptable_def w1_def ota_frame_def)
    then show ?thesis using eq wi(2) by (auto simp: w1_def ota_frame_def)
  qed
qed

lemma img_inv_0:
  "flash_laws (ota_flash w) \<Longrightarrow> mem (ota_flash w) = m \<Longrightarrow> length (ota_page w) = 256 \<Longrightarrow>
   ota_image_received w = 0 \<Longrightarrow> ota_page_fill w = 0 \<Longrightarrow> ota_erased_up_to w = 0 \<Longrightarrow>
   ota_image_size w \<le> 917504 \<Longrightarrow> img_inv m w []"
  by (simp add: img_inv_def pages_def sectors_def)

lemma write_loop_spec:
  assumes "up_ok m n w bs" "length data < 2 ^ 31"
  shows "\<exists>w'. app_firmware_update_write_loop w data = Some (w', ota_result w') \<and>
    same_driver (ota_flash w) (ota_flash w') \<and>
    (up_ok m n w' (bs @ data) \<or> up_bad m w' \<and> \<not> acceptable n (ota_flash w) (bs @ data))"
  using assms
proof (induction "length data" arbitrary: w bs data rule: less_induct)
  case less
  show ?case
  proof (cases "data = []")
    case True
    then show ?thesis using less.prems
      by (intro exI [of _ w]) (subst app_firmware_update_write_loop.simps, simp)
  next
    case ne: False
    show ?thesis
    proof (cases "4096 \<le> length bs")
      case True
      then show ?thesis by (rule write_loop_image [OF less.prems(1) _ ne less.prems(2)])
    next
      case hd: False
      define c where "c = min (length data) (4096 - length bs)"
      define w1 where "w1 = w\<lparr>ota_header := splice (ota_header w) (length bs) (take c data),
          ota_received := length bs + c\<rparr>"
      have v: "ota_result w = APP_FIRMWARE_UPDATE_OK" "ota_received w = length bs" "length (ota_header w) = 4096"
        "take (length bs) (ota_header w) = bs" "mem (ota_flash w) = m" "flash_laws (ota_flash w)"
        "ota_active w" "ota_content_len w = n" "\<not> ota_header_valid w" "ota_image_received w = 0"
        "ota_page_fill w = 0" "ota_erased_up_to w = 0"
        using less.prems(1) hd by (simp_all add: up_ok_def)
      have c: "0 < c" "c \<le> length data" "length bs + c \<le> 4096" using ne hd by (auto simp: c_def)
      have hdr: "take (length bs + c) (ota_header w1) = bs @ take c data" "length (ota_header w1) = 4096"
        using v c take_splice [of "length bs" "take c data" "ota_header w"] by (simp_all add: w1_def)
      have a: "add32 (length bs) c = length bs + c" using c by (simp add: add32_id)
      have ch: "(if length data < 4096 - length bs then length data else 4096 - length bs) = c"
        by (simp add: c_def)
      have eq: "app_firmware_update_write_loop w data =
        (if length bs + c = 4096 then
           (case app_firmware_update_manifest_is_valid (ota_header w1) n of
              None \<Rightarrow> Some (app_firmware_update_fail APP_FIRMWARE_UPDATE_INVALID_HEADER w1,
                            APP_FIRMWARE_UPDATE_INVALID_HEADER)
            | Some manifest \<Rightarrow>
                app_firmware_update_write_loop
                  (w1\<lparr>ota_header_valid := True, ota_image_size := unat (image_size manifest),
                      ota_page := replicate 256 0xff\<rparr>) (drop c data))
         else app_firmware_update_write_loop w1 (drop c data))"
      proof -
        have lt: "length bs < 4096" using hd by simp
        have "app_firmware_update_write_loop w data =
          (if ota_received w1 = 4096 then
             (case app_firmware_update_manifest_is_valid (ota_header w1) (ota_content_len w1) of
                None \<Rightarrow> Some (app_firmware_update_fail APP_FIRMWARE_UPDATE_INVALID_HEADER w1,
                   ota_result (app_firmware_update_fail APP_FIRMWARE_UPDATE_INVALID_HEADER w1))
              | Some manifest \<Rightarrow>
                  app_firmware_update_write_loop
                    (w1\<lparr>ota_header_valid := True, ota_image_size := unat (image_size manifest),
                        ota_page := replicate 256 0xff\<rparr>) (drop c data))
           else app_firmware_update_write_loop w1 (drop c data))"
          by (subst app_firmware_update_write_loop.simps)
            (simp only: v(1,2) ne lt ch a FLASH_PAGE_SIZE_def Let_def ota_consts(4) w1_def [symmetric]
              simp_thms if_True)
        moreover have "ota_received w1 = length bs + c" "ota_content_len w1 = n" using v by (simp_all add: w1_def)
        ultimately show ?thesis by (simp split: option.split)
      qed
      have d: "length (drop c data) < length data" using c ne by simp
      have app: "(bs @ take c data) @ drop c data = bs @ data" by simp
      have l2: "length (drop c data) < 2 ^ 31" using less.prems(2) by simp
      show ?thesis
      proof (cases "length bs + c = 4096")
        case False
        then have "up_ok m n w1 (bs @ take c data)"
          using v c hdr by (simp add: up_ok_def w1_def)
        from less.hyps [OF d this l2] show ?thesis using eq False app by (simp add: w1_def)
      next
        case full: True
        then have hb: "ota_header w1 = bs @ take c data" using hdr by (metis take_all_iff order_refl)
        have tk: "take 4096 (bs @ data) = ota_header w1"
          using full c(2) hb by (metis app append_eq_conv_conj hdr(2))
        show ?thesis
        proof (cases "app_firmware_update_manifest_is_valid (ota_header w1) n")
          case None
          then have "\<not> acceptable n (ota_flash w) (bs @ data)"
            using tk full c(2) by (simp add: acceptable_def valid_upload_def)
          moreover have "up_bad m (app_firmware_update_fail APP_FIRMWARE_UPDATE_INVALID_HEADER w1)"
            using v by (simp add: up_bad_def w1_def)
          ultimately show ?thesis using eq full None by (auto simp: w1_def)
        next
          case (Some mf)
          define w2 where "w2 = w1\<lparr>ota_header_valid := True, ota_image_size := unat (image_size mf),
                      ota_page := replicate 256 0xff\<rparr>"
          have mf: "mf = manifest_of (ota_header w1)" "unat (image_size mf) \<le> 917504"
            using manifest_valid_size [OF Some] by auto
          have iv: "img_inv m w2 []" using v mf(2) by (intro img_inv_0) (simp_all add: w2_def w1_def)
          have "up_ok m n w2 (bs @ take c data)"
          proof -
            have c': "take (4096 - length bs) data = take c data"
              using full by (metis add_diff_cancel_left')
            show ?thesis
              using iv v full c(2) hdr(2) hb Some mf by (simp add: up_ok_def w2_def w1_def valid_upload_def c')
          qed
          from less.hyps [OF d this l2] show ?thesis
            using eq full Some app by (simp add: w2_def w1_def)
        qed
      qed
    qed
  qed
qed

subsection \<open>The end of an upload\<close>

text \<open>The flash after a successful upload: the image staged and the header in the metadata sector.\<close>

definition uploaded_mem :: "memory \<Rightarrow> u8 list \<Rightarrow> memory" where
  "uploaded_mem m bs a =
     (if in_metadata a then bs ! (a - 0x1f000) else image_mem m (drop 4096 bs) a)"

definition spares :: "memory \<Rightarrow> memory \<Rightarrow> bool" where
  "spares m m' = (\<forall>a. \<not> in_copy a \<longrightarrow> \<not> in_metadata a \<longrightarrow> m' a = m a)"

lemma spares_refl [simp]: "spares m m" and copy_only_spares: "copy_only m m' \<Longrightarrow> spares m m'"
  and spares_trans [trans]: "spares m m1 \<Longrightarrow> spares m1 m2 \<Longrightarrow> spares m m2"
  by (auto simp: spares_def copy_only_def)

lemma copy_only_image_mem: "length img \<le> 917504 \<Longrightarrow> copy_only m (image_mem m img)"
  by (simp add: image_mem_def copy_only_staged sectors_le)

lemma finish_write_spec:
  assumes inv: "img_inv m w (drop 4096 bs)" and hdr: "ota_header w = take 4096 bs" "4096 \<le> length bs"
  shows "\<exists>w' ok. app_firmware_update_finish_write w = Some (w', ok) \<and> ota_frame w w' \<and>
    ota_result w' = ota_result w \<and>
    (ok \<longrightarrow> mem (ota_flash w') = uploaded_mem m bs) \<and>
    (\<not> ok \<longrightarrow> spares m (mem (ota_flash w')) \<and> \<not> (\<forall>k. exec_ok (ota_flash w) k))"
proof -
  obtain w1 ok where p: "app_firmware_update_finish_page w = Some (w1, ok)" "ota_frame w w1"
    "ota_result w1 = ota_result w"
    and ok: "ok \<Longrightarrow> mem (ota_flash w1) = image_mem m (drop 4096 bs)"
    and nok: "\<not> ok \<Longrightarrow> copy_only m (mem (ota_flash w1)) \<and> \<not> (\<forall>k. exec_ok (ota_flash w) k)"
    using finish_page_spec [OF inv] by blast
  have len: "length (drop 4096 bs) \<le> 917504" using inv unfolding img_inv_def by linarith
  have sd: "same_driver (ota_flash w) (ota_flash w1)" using p(2) by (simp add: ota_frame_def)
  have eo: "exec_ok (ota_flash w1) = exec_ok (ota_flash w)" using sd by (simp add: same_driver_def)
  show ?thesis
  proof (cases ok)
    case False
    then show ?thesis using p nok
      by (intro exI [of _ w1] exI [of _ False])
        (simp add: app_firmware_update_finish_write_def copy_only_spares)
  next
    case True
    let ?f = "(ota_flash w1)\<lparr>exec_calls := Suc (exec_calls (ota_flash w1))\<rparr>"
    let ?g = "flash_range_erase 0x1f000 4096 ?f"
    let ?m = "image_mem m (drop 4096 bs)"
    have m1: "mem (ota_flash w1) = ?m" using ok True by simp
    have eq: "app_firmware_update_finish_write w = (if exec_ok (ota_flash w1) (exec_calls (ota_flash w1))
        then Some (program_header 0x1f000 0 (w1\<lparr>ota_flash := ?g\<rparr>)) else Some (w1\<lparr>ota_flash := ?f\<rparr>, False))"
      using p(1) True by (simp add: app_firmware_update_finish_write_def erase_sector_eq Let_def)
    have sp: "spares m ?m" using copy_only_image_mem [OF len] by (rule copy_only_spares)
    show ?thesis
    proof (cases "exec_ok (ota_flash w1) (exec_calls (ota_flash w1))")
      case False
      then show ?thesis using eq p sd m1 sp eo
        by (intro exI [of _ "w1\<lparr>ota_flash := ?f\<rparr>"] exI [of _ False]) (auto simp: ota_frame_def same_driver_def)
    next
      case yes: True
      have fl: "flash_laws ?f"
        using inv flash_laws_same_driver [OF sd] unfolding img_inv_def by simp
      have h1: "ota_header w1 = take 4096 bs" using p(2) hdr by (simp add: ota_frame_def)
      have "mem ?g = header_mem ?m (take 4096 bs) 0"
        using fl m1 by (auto simp: fun_eq_iff mem_erase header_mem_def in_metadata_def)
      then obtain f' ok' k where ph: "program_header 0x1f000 0 (w1\<lparr>ota_flash := ?g\<rparr>) = (w1\<lparr>ota_flash := f'\<rparr>, ok')"
        "same_driver ?g f'" and m': "mem f' = header_mem ?m (take 4096 bs) k" "ok' \<longrightarrow> k = 4096" "k \<le> 4096"
        and nx: "\<not> ok' \<longrightarrow> \<not> (\<forall>k. exec_ok ?g k)"
        using program_header_spec [of "w1\<lparr>ota_flash := ?g\<rparr>" 0 ?m] fl h1 hdr(2) by auto
      have "header_mem ?m (take 4096 bs) 4096 = uploaded_mem m bs"
        by (auto simp: fun_eq_iff header_mem_def uploaded_mem_def in_metadata_def)
      moreover have "spares ?m (mem f')"
        using m'(1,3) by (auto simp: spares_def header_mem_def in_metadata_def)
      then have "spares m (mem f')" using sp by (rule spares_trans [rotated])
      moreover have "exec_ok ?g = exec_ok (ota_flash w)" by (simp add: flash_range_erase_def eo)
      moreover have "same_driver (ota_flash w) f'" using sd ph(2) by (simp add: same_driver_def flash_range_erase_def)
      ultimately show ?thesis using eq yes ph p m' nx
        by (intro exI [of _ "w1\<lparr>ota_flash := f'\<rparr>"] exI [of _ ok']) (auto simp: ota_frame_def)
    qed
  qed
qed

lemma app_log_simps [simp]:
  "ota_result (ota_app_log l w) = ota_result w" "ota_flash (ota_app_log l w) = ota_flash w"
  "ota_active (ota_app_log l w) = ota_active w"
  by (simp_all add: ota_app_log_def)

definition complete_upload :: "nat \<Rightarrow> u8 list \<Rightarrow> bool" where
  "complete_upload n bs = (length bs = n \<and> valid_upload n bs)"

lemma finish_spec:
  assumes "up_ok m n w bs" "4096 \<le> n"
  shows "\<exists>w'. app_firmware_update_finish w = Some (w', ota_result w') \<and> \<not> ota_active w' \<and>
    same_driver (ota_flash w) (ota_flash w') \<and>
    (if ota_result w' = APP_FIRMWARE_UPDATE_OK then complete_upload n bs \<and> mem (ota_flash w') = uploaded_mem m bs
     else spares m (mem (ota_flash w')) \<and>
       (complete_upload n bs \<longrightarrow> \<not> (\<forall>k. exec_ok (ota_flash w) k)) \<and>
       (\<not> complete_upload n bs \<longrightarrow> mem (ota_flash w') = mem (ota_flash w)))"
proof (cases "complete_upload n bs")
  case False
  have "\<not> ota_header_valid w \<or> ota_received w \<noteq> ota_content_len w \<or> ota_image_received w \<noteq> ota_image_size w"
    using assms False by (auto simp: up_ok_def complete_upload_def split: if_splits)
  moreover have "copy_only m (mem (ota_flash w))"
    using assms(1) pages_le(1) [of "length bs - 4096"] sectors_le [of "pages (length bs - 4096)"]
    by (auto simp: up_ok_def img_inv_def copy_only_staged split: if_splits)
  ultimately show ?thesis
    using assms(1) False copy_only_spares
    by (intro exI [of _ "(app_firmware_update_fail APP_FIRMWARE_UPDATE_INCOMPLETE w)\<lparr>ota_active := False\<rparr>"])
      (auto simp: app_firmware_update_finish_def up_ok_def Let_def)
next
  case True
  have len: "4096 \<le> length bs" using True assms(2) by (simp add: complete_upload_def)
  have u: "ota_result w = APP_FIRMWARE_UPDATE_OK" "ota_active w" "ota_content_len w = n" "ota_received w = length bs"
    "ota_header_valid w" "ota_header w = take 4096 bs" "valid_upload n bs"
    "ota_image_size w = unat (image_size (manifest_of (take 4096 bs)))" "img_inv m w (drop 4096 bs)"
    using assms(1) len by (simp_all add: up_ok_def)
  from u(7) obtain mf where "app_firmware_update_manifest_is_valid (take 4096 bs) n = Some mf"
    by (auto simp: valid_upload_def)
  then have n: "n = 4096 + ota_image_size w" using manifest_valid_size u(8) by auto
  then have rec: "ota_image_received w = ota_image_size w" "length bs = n"
    using u(9) True by (simp_all add: complete_upload_def img_inv_def)
  obtain w1 ok where f: "app_firmware_update_finish_write w = Some (w1, ok)" "ota_frame w w1"
    "ota_result w1 = ota_result w" "ok \<longrightarrow> mem (ota_flash w1) = uploaded_mem m bs"
    "\<not> ok \<longrightarrow> spares m (mem (ota_flash w1)) \<and> \<not> (\<forall>k. exec_ok (ota_flash w) k)"
    using finish_write_spec [OF u(9,6) len] by blast
  have "app_firmware_update_finish w =
    (let w2 = (if ok then ota_app_log (''OTA update uploaded: image='' @ show_nat (ota_image_size w1) @ '' bytes'') w1
               else app_firmware_update_fail APP_FIRMWARE_UPDATE_FLASH_ERROR w1)\<lparr>ota_active := False\<rparr>
     in Some (w2, ota_result w2))"
    using u(1-5) rec f(1) by (simp add: app_firmware_update_finish_def Let_def)
  then show ?thesis using f True u(1) by (cases ok) (simp_all add: ota_frame_def Let_def)
qed

subsection \<open>Sequences of operations\<close>

datatype ota_event =
    Ota_begin nat
  | Ota_write "u8 list"
  | Ota_finish
  | Ota_abort app_firmware_update_result

text \<open>One call of the module; \<open>None\<close> would be a call that does not return.\<close>

fun ota_step :: "ota_event \<Rightarrow> ota \<Rightarrow> (ota \<times> app_firmware_update_result) option" where
  "ota_step (Ota_begin content_len) w = Some (app_firmware_update_begin content_len w)"
| "ota_step (Ota_write data) w = app_firmware_update_write data w"
| "ota_step Ota_finish w = app_firmware_update_finish w"
| "ota_step (Ota_abort result) w =
     (let w' = app_firmware_update_abort result w in Some (w', ota_result w'))"

fun ota_run :: "ota_event list \<Rightarrow> ota \<Rightarrow> ota option" where
  "ota_run [] w = Some w"
| "ota_run (e # es) w = (case ota_step e w of None \<Rightarrow> None | Some (w', r) \<Rightarrow> ota_run es w')"

text \<open>What a caller can pass: a \<^verbatim>\<open>uint32_t\<close> length, chunks of less than 2 GiB.\<close>

fun event_ok :: "ota_event \<Rightarrow> bool" where
  "event_ok (Ota_begin content_len) = (content_len < 2 ^ 32)"
| "event_ok (Ota_write data) = (length data < 2 ^ 31)"
| "event_ok _ = True"

text \<open>The invariant of the module between calls.\<close>

definition ota_inv :: "ota \<Rightarrow> bool" where
  "ota_inv w = (flash_laws (ota_flash w) \<and>
     (ota_active w \<longrightarrow> ota_result w = APP_FIRMWARE_UPDATE_OK \<longrightarrow>
        (\<exists>m n bs. 4096 \<le> n \<and> up_ok m n w bs \<and> copy_only m (mem (ota_flash w)))))"

lemma up_ok_copy_only: "up_ok m n w bs \<Longrightarrow> copy_only m (mem (ota_flash w))"
  using pages_le(1) [of "length bs - 4096"] sectors_le [of "pages (length bs - 4096)"]
  by (auto simp: up_ok_def img_inv_def copy_only_staged split: if_splits)

lemma up_ok_laws: "up_ok m n w bs \<Longrightarrow> flash_laws (ota_flash w)"
  by (auto simp: up_ok_def img_inv_def split: if_splits)

lemma up_ok_active: "up_ok m n w bs \<Longrightarrow> ota_active w" "up_ok m n w bs \<Longrightarrow> ota_result w = APP_FIRMWARE_UPDATE_OK"
  by (simp_all add: up_ok_def)

lemma begin_spec:
  assumes "flash_laws (ota_flash w)"
  shows "\<exists>w'. app_firmware_update_begin n w = (w', ota_result w') \<and> ota_flash w' = ota_flash w \<and>
    (if 4096 \<le> n \<and> n \<le> 4096 + 917504 then up_ok (mem (ota_flash w)) n w' []
     else ota_result w' = APP_FIRMWARE_UPDATE_INVALID_SIZE \<and> \<not> ota_active w')"
  using assms
  by (simp add: app_firmware_update_begin_def Let_def add32_id up_ok_def ota_app_log_def
      app_firmware_update_fail_def)

lemma write_spec:
  assumes "ota_active w" "up_ok m n w bs" "length data < 2 ^ 31"
  shows "\<exists>w'. app_firmware_update_write data w = Some (w', ota_result w') \<and>
    same_driver (ota_flash w) (ota_flash w') \<and>
    (up_ok m n w' (bs @ data) \<or> up_bad m w' \<and> \<not> acceptable n (ota_flash w) (bs @ data))"
  using write_loop_spec [OF assms(2,3)] assms(1) by (simp add: app_firmware_update_write_def)

lemma write_idle:
  assumes "\<not> (ota_active w \<and> ota_result w = APP_FIRMWARE_UPDATE_OK)"
  shows "\<exists>r. r \<noteq> APP_FIRMWARE_UPDATE_OK \<and> app_firmware_update_write data w = Some (w, r)"
  using assms
  by (auto simp: app_firmware_update_write_def app_firmware_update_write_loop.simps [of w data])

lemma finish_idle:
  assumes "\<not> (ota_active w \<and> ota_result w = APP_FIRMWARE_UPDATE_OK)"
  shows "\<exists>w' r. r \<noteq> APP_FIRMWARE_UPDATE_OK \<and> app_firmware_update_finish w = Some (w', r) \<and>
    ota_flash w' = ota_flash w \<and> \<not> ota_active w'"
  using assms by (auto simp: app_firmware_update_finish_def Let_def)

lemma begin_inv:
  assumes "flash_laws (ota_flash w)"
  shows "\<exists>w'. app_firmware_update_begin n w = (w', ota_result w') \<and> ota_flash w' = ota_flash w \<and> ota_inv w'"
proof -
  obtain w' where w': "app_firmware_update_begin n w = (w', ota_result w')" "ota_flash w' = ota_flash w"
    "if 4096 \<le> n \<and> n \<le> 4096 + 917504 then up_ok (mem (ota_flash w)) n w' []
     else ota_result w' = APP_FIRMWARE_UPDATE_INVALID_SIZE \<and> \<not> ota_active w'"
    using begin_spec [OF assms, of n] by blast
  show ?thesis
  proof (cases "4096 \<le> n \<and> n \<le> 4096 + 917504")
    case True
    then have "up_ok (mem (ota_flash w)) n w' []" using w'(3) by simp
    then have "\<exists>m n bs. 4096 \<le> n \<and> up_ok m n w' bs \<and> copy_only m (mem (ota_flash w'))"
      using True w'(2) by (intro exI [of _ "mem (ota_flash w)"] exI [of _ n] exI [of _ "[]"]) simp
    then show ?thesis using w'(1,2) assms unfolding ota_inv_def by auto
  next
    case False
    then show ?thesis using w' assms by (auto simp: ota_inv_def)
  qed
qed

text \<open>
  One call keeps the invariant, always returns, and leaves alone everything outside the two staging
  areas; the metadata sector is written only by a successful or interrupted \<^verbatim>\<open>finish\<close> of a complete
  upload.
\<close>

lemma ota_step_spec:
  assumes inv: "ota_inv w" and e: "event_ok e"
  shows "\<exists>w' r. ota_step e w = Some (w', r) \<and> ota_inv w' \<and> same_driver (ota_flash w) (ota_flash w') \<and>
    spares (mem (ota_flash w)) (mem (ota_flash w')) \<and>
    (e \<noteq> Ota_finish \<longrightarrow> copy_only (mem (ota_flash w)) (mem (ota_flash w')))"
proof -
  have fl: "flash_laws (ota_flash w)" using inv by (simp add: ota_inv_def)
  show ?thesis
  proof (cases "ota_active w \<and> ota_result w = APP_FIRMWARE_UPDATE_OK")
    case idle: False
    show ?thesis
    proof (cases e)
      case (Ota_begin n)
      then show ?thesis using begin_inv [OF fl, of n] by auto
    next
      case (Ota_write data)
      then show ?thesis using write_idle [OF idle, of data] inv by auto
    next
      case Ota_finish
      then show ?thesis using finish_idle [OF idle] fl by (auto simp: ota_inv_def)
    next
      case (Ota_abort r)
      then show ?thesis using fl by (simp add: ota_inv_def app_firmware_update_abort_def Let_def)
    qed
  next
    case busy: True
    then obtain m n bs where n: "4096 \<le> n" and up: "up_ok m n w bs" and co: "copy_only m (mem (ota_flash w))"
      using inv by (auto simp: ota_inv_def)
    have co': "copy_only (mem (ota_flash w)) m'" if "copy_only m m'" for m'
      using that co by (simp add: copy_only_def)
    have sp': "spares (mem (ota_flash w)) m'" if "spares m m'" for m'
      using that co by (simp add: copy_only_def spares_def)
    show ?thesis
    proof (cases e)
      case (Ota_begin n')
      then show ?thesis using begin_inv [OF fl, of n'] by auto
    next
      case (Ota_write data)
      then obtain w' where w': "app_firmware_update_write data w = Some (w', ota_result w')"
        "same_driver (ota_flash w) (ota_flash w')" "up_ok m n w' (bs @ data) \<or> up_bad m w'"
        using write_spec [OF _ up, of data] e busy by auto
      have c: "copy_only m (mem (ota_flash w'))" using w'(3) up_ok_copy_only by (auto simp: up_bad_def)
      have "ota_inv w'"
        using w'(3) n c flash_laws_same_driver [OF w'(2)] fl by (auto simp: ota_inv_def up_bad_def)
      then show ?thesis using Ota_write w' co' [OF c] copy_only_spares [OF co' [OF c]] by simp
    next
      case Ota_finish
      obtain w' where f: "app_firmware_update_finish w = Some (w', ota_result w')" "\<not> ota_active w'"
        "same_driver (ota_flash w) (ota_flash w')"
        "ota_result w' = APP_FIRMWARE_UPDATE_OK \<Longrightarrow> complete_upload n bs \<and> mem (ota_flash w') = uploaded_mem m bs"
        "ota_result w' \<noteq> APP_FIRMWARE_UPDATE_OK \<Longrightarrow> spares m (mem (ota_flash w'))"
        using finish_spec [OF up n] by (auto split: if_splits)
      have "spares m (uploaded_mem m bs)" if "complete_upload n bs"
      proof -
        have "img_inv m w (drop 4096 bs)" using up n that by (auto simp: up_ok_def complete_upload_def)
        then have "length (drop 4096 bs) \<le> 917504" unfolding img_inv_def by linarith
        then show ?thesis using copy_only_image_mem by (auto simp: spares_def uploaded_mem_def copy_only_def)
      qed
      then have "spares m (mem (ota_flash w'))" using f(4,5) by (cases "ota_result w' = APP_FIRMWARE_UPDATE_OK") auto
      then show ?thesis using Ota_finish f(1-3) sp' fl flash_laws_same_driver [OF f(3)] by (simp add: ota_inv_def)
    next
      case (Ota_abort r)
      then show ?thesis using fl by (simp add: ota_inv_def app_firmware_update_abort_def Let_def)
    qed
  qed
qed

lemma ota_run_spec:
  assumes "ota_inv w" "\<forall>e\<in>set es. event_ok e"
  shows "\<exists>w'. ota_run es w = Some w' \<and> ota_inv w' \<and> spares (mem (ota_flash w)) (mem (ota_flash w')) \<and>
    (Ota_finish \<notin> set es \<longrightarrow> copy_only (mem (ota_flash w)) (mem (ota_flash w')))"
  using assms
proof (induction es arbitrary: w)
  case Nil
  then show ?case by simp
next
  case (Cons e es)
  obtain w1 r where w1: "ota_step e w = Some (w1, r)" "ota_inv w1" "spares (mem (ota_flash w)) (mem (ota_flash w1))"
    "e \<noteq> Ota_finish \<longrightarrow> copy_only (mem (ota_flash w)) (mem (ota_flash w1))"
    using ota_step_spec [OF Cons.prems(1), of e] Cons.prems(2) by auto
  obtain w2 where "ota_run es w1 = Some w2" "ota_inv w2" "spares (mem (ota_flash w1)) (mem (ota_flash w2))"
    "Ota_finish \<notin> set es \<longrightarrow> copy_only (mem (ota_flash w1)) (mem (ota_flash w2))"
    using Cons.IH [OF w1(2)] Cons.prems(2) by auto
  then show ?case using w1 by (auto simp: spares_def copy_only_def)
qed

text \<open>The module's zero-initialised state after a reset.\<close>

definition ota_boot :: "flash \<Rightarrow> ota" where
  "ota_boot f = \<lparr>ota_active = False, ota_header_valid = False, ota_result = APP_FIRMWARE_UPDATE_OK,
     ota_content_len = 0, ota_received = 0, ota_image_received = 0, ota_image_size = 0, ota_page_fill = 0,
     ota_erased_up_to = 0, ota_header = replicate 4096 0, ota_page = replicate 256 0, ota_flash = f,
     ota_log = []\<rparr>"

lemma ota_boot_simps [simp]: "ota_flash (ota_boot f) = f" "ota_inv (ota_boot f) = flash_laws f"
  by (simp_all add: ota_boot_def ota_inv_def)

definition ota_upload :: "nat \<Rightarrow> u8 list list \<Rightarrow> ota \<Rightarrow> ota option" where
  "ota_upload n chunks w = ota_run (Ota_begin n # List.map Ota_write chunks @ [Ota_finish]) w"

lemma ota_run_append:
  "ota_run (es @ es') w = (case ota_run es w of None \<Rightarrow> None | Some w' \<Rightarrow> ota_run es' w')"
  by (induction es arbitrary: w) (auto split: option.split)

lemma acceptable_append: "acceptable n f (xs @ ys) \<Longrightarrow> acceptable n f xs"
  by (auto simp: acceptable_def valid_upload_def)

lemma acceptable_complete: "complete_upload n bs \<Longrightarrow> \<forall>k. exec_ok f k \<Longrightarrow> acceptable n f bs"
  by (simp add: acceptable_def complete_upload_def)

lemma writes_idle:
  "\<not> (ota_active w \<and> ota_result w = APP_FIRMWARE_UPDATE_OK) \<Longrightarrow> ota_run (List.map Ota_write cs) w = Some w"
proof (induction cs)
  case Nil
  then show ?case by simp
next
  case (Cons c cs)
  then show ?case using write_idle [OF Cons.prems, of c] by auto
qed

lemma run_writes:
  assumes "up_ok m n w bs" "\<forall>c\<in>set cs. length c < 2 ^ 31"
  shows "\<exists>w'. ota_run (List.map Ota_write cs) w = Some w' \<and> same_driver (ota_flash w) (ota_flash w') \<and>
    (up_ok m n w' (bs @ concat cs) \<or> up_bad m w' \<and> \<not> acceptable n (ota_flash w) (bs @ concat cs))"
  using assms
proof (induction cs arbitrary: w bs)
  case Nil
  then show ?case by simp
next
  case (Cons c cs)
  have c: "length c < 2 ^ 31" "\<forall>c\<in>set cs. length c < 2 ^ 31" using Cons.prems(2) by simp_all
  obtain w1 where w1: "app_firmware_update_write c w = Some (w1, ota_result w1)"
    "same_driver (ota_flash w) (ota_flash w1)"
    "up_ok m n w1 (bs @ c) \<or> up_bad m w1 \<and> \<not> acceptable n (ota_flash w) (bs @ c)"
    using write_spec [OF up_ok_active(1) [OF Cons.prems(1)] Cons.prems(1) c(1)] by blast
  have acc: "acceptable n (ota_flash w1) = acceptable n (ota_flash w)"
    using w1(2) by (simp add: fun_eq_iff acceptable_def same_driver_def)
  from w1(3) show ?case
  proof
    assume "up_ok m n w1 (bs @ c)"
    from Cons.IH [OF this c(2)] obtain w' where "ota_run (List.map Ota_write cs) w1 = Some w'"
      "same_driver (ota_flash w1) (ota_flash w')"
      "up_ok m n w' ((bs @ c) @ concat cs) \<or> up_bad m w' \<and> \<not> acceptable n (ota_flash w1) ((bs @ c) @ concat cs)"
      by blast
    then show ?thesis using w1(1,2) acc same_driver_trans by auto
  next
    assume b: "up_bad m w1 \<and> \<not> acceptable n (ota_flash w) (bs @ c)"
    then have "ota_run (List.map Ota_write cs) w1 = Some w1" by (intro writes_idle) (simp add: up_bad_def)
    moreover have "\<not> acceptable n (ota_flash w) (bs @ concat (c # cs))"
      using b acceptable_append [of n "ota_flash w" "bs @ c" "concat cs"] by auto
    ultimately show ?thesis using b w1 by auto
  qed
qed

lemma upload_spec:
  assumes "flash_laws (ota_flash w)" "\<forall>c\<in>set chunks. length c < 2 ^ 31"
  shows "\<exists>w'. ota_upload n chunks w = Some w' \<and>
    (if ota_result w' = APP_FIRMWARE_UPDATE_OK
     then complete_upload n (concat chunks) \<and> mem (ota_flash w') = uploaded_mem (mem (ota_flash w)) (concat chunks)
     else spares (mem (ota_flash w)) (mem (ota_flash w')) \<and>
       (complete_upload n (concat chunks) \<longrightarrow> \<not> (\<forall>k. exec_ok (ota_flash w) k)) \<and>
       (\<not> complete_upload n (concat chunks) \<longrightarrow> copy_only (mem (ota_flash w)) (mem (ota_flash w'))))"
proof -
  let ?bs = "concat chunks" and ?m = "mem (ota_flash w)"
  obtain w1 where b: "app_firmware_update_begin n w = (w1, ota_result w1)" "ota_flash w1 = ota_flash w"
    "if 4096 \<le> n \<and> n \<le> 4096 + 917504 then up_ok ?m n w1 []
     else ota_result w1 = APP_FIRMWARE_UPDATE_INVALID_SIZE \<and> \<not> ota_active w1"
    using begin_spec [OF assms(1), of n] by blast
  have run: "ota_upload n chunks w = (case ota_run (List.map Ota_write chunks) w1 of None \<Rightarrow> None
      | Some w2 \<Rightarrow> map_option fst (app_firmware_update_finish w2))"
    by (simp add: ota_upload_def b(1) ota_run_append split: option.split)
  show ?thesis
  proof (cases "4096 \<le> n \<and> n \<le> 4096 + 917504")
    case False
    then have w1: "ota_result w1 = APP_FIRMWARE_UPDATE_INVALID_SIZE" "\<not> ota_active w1" using b(3) by auto
    have "\<not> complete_upload n ?bs"
      using False manifest_valid_size by (fastforce simp: complete_upload_def valid_upload_def)
    moreover have "ota_upload n chunks w = Some w1"
      using run writes_idle [of w1 chunks] w1 by (simp add: app_firmware_update_finish_def)
    ultimately show ?thesis using w1 b(2) by simp
  next
    case True
    then have up: "up_ok ?m n w1 []" using b(3) by simp
    obtain w2 where w2: "ota_run (List.map Ota_write chunks) w1 = Some w2"
      "same_driver (ota_flash w1) (ota_flash w2)"
      "up_ok ?m n w2 ?bs \<or> up_bad ?m w2 \<and> \<not> acceptable n (ota_flash w1) ?bs"
      using run_writes [OF up assms(2)] by auto
    have eo: "exec_ok (ota_flash w2) = exec_ok (ota_flash w)" using w2(2) b(2) by (simp add: same_driver_def)
    from w2(3) show ?thesis
    proof
      assume up2: "up_ok ?m n w2 ?bs"
      then show ?thesis using finish_spec [OF up2] True run w2(1) eo up_ok_copy_only [OF up2] by auto
    next
      assume bad: "up_bad ?m w2 \<and> \<not> acceptable n (ota_flash w1) ?bs"
      then obtain w3 where "app_firmware_update_finish w2 = Some (w3, ota_result w2)"
        "ota_flash w3 = ota_flash w2" "ota_result w3 = ota_result w2"
        by (auto simp: up_bad_def app_firmware_update_finish_def Let_def)
      moreover have "\<not> (\<forall>k. exec_ok (ota_flash w) k)" if "complete_upload n ?bs"
        using bad acceptable_complete [OF that, of "ota_flash w"] b(2) by auto
      ultimately show ?thesis using run w2(1) bad
        by (simp add: up_bad_def copy_only_spares)
    qed
  qed
qed

subsection \<open>A well-formed OTA file\<close>

text \<open>A well-formed OTA file for an image, which shows that the hypotheses below can hold.\<close>

definition package_fields :: "u8 list \<Rightarrow> u32 \<Rightarrow> u8 list" where
  "package_fields img seq = le_bytes FIRMWARE_UPDATE_MAGIC @ le_bytes FIRMWARE_UPDATE_MANIFEST_VERSION @
     le_bytes 64 @ le_bytes FIRMWARE_UPDATE_FLAG_PENDING @ le_bytes (word_of_nat (length img)) @
     le_bytes (app_firmware_update_crc32 img) @ le_bytes seq @ replicate 32 0"

definition package_header :: "u8 list \<Rightarrow> u32 \<Rightarrow> u8 list" where
  "package_header img seq = package_fields img seq @
     le_bytes (app_firmware_update_crc32 (package_fields img seq)) @ replicate 4032 0"

definition ota_package :: "u8 list \<Rightarrow> u32 \<Rightarrow> u8 list" where
  "ota_package img seq = package_header img seq @ img"

lemma length_package [simp]: "length (package_fields img seq) = 60" "length (package_header img seq) = 4096"
  by (simp_all add: package_fields_def package_header_def)

lemma take_package [simp]: "take 60 (package_header img seq) = package_fields img seq"
  "take 4096 (ota_package img seq) = package_header img seq" "drop 4096 (ota_package img seq) = img"
  by (simp_all add: package_header_def ota_package_def)

lemma manifest_package:
  "manifest_of (package_header img seq) =
     \<lparr>magic = FIRMWARE_UPDATE_MAGIC, version = FIRMWARE_UPDATE_MANIFEST_VERSION, header_size = 64,
      flags = FIRMWARE_UPDATE_FLAG_PENDING, image_size = word_of_nat (length img),
      image_crc32 = app_firmware_update_crc32 img, sequence = seq,
      header_crc32 = app_firmware_update_crc32 (package_fields img seq)\<rparr>"
proof -
  have "read_le32 (package_header img seq) 60 = app_firmware_update_crc32 (package_fields img seq)"
    unfolding package_header_def by (subst read_le32_shift) simp_all
  then show ?thesis
    unfolding package_header_def manifest_of_def offsetof_header_crc32_def
    by (simp add: read_le32_append) (simp add: package_fields_def read_le32_shift)
qed

lemma package_valid:
  assumes "0 < length img" "length img \<le> 917504"
  shows "app_firmware_update_manifest_is_valid (package_header img seq) (4096 + length img) = Some (manifest_of (package_header img seq))"
proof -
  have "unat (word_of_nat (length img) :: u32) = length img"
    using assms(2) by (simp add: unsigned_of_nat take_bit_nat_eq_self)
  then show ?thesis using assms
    by (simp add: app_firmware_update_manifest_is_valid_def Let_def manifest_package add32_id
        sizeof_manifest_def offsetof_header_crc32_def FIRMWARE_UPDATE_FLAG_PENDING_def)
qed

lemma package_complete:
  assumes "0 < length img" "length img \<le> 917504"
  shows "complete_upload (4096 + length img) (ota_package img seq)"
  using package_valid [OF assms]
  by (simp add: complete_upload_def valid_upload_def) (simp add: ota_package_def)

subsection \<open>The properties of an upload\<close>



text \<open>
  C2: a complete upload with a valid header succeeds when the flash driver runs every operation, in
  whatever chunks the data arrives.
\<close>

theorem ota_upload_complete:
  assumes "flash_laws (ota_flash w)" and "\<forall>c\<in>set chunks. length c < 2 ^ 31"
    and "\<forall>k. exec_ok (ota_flash w) k"
    and "length (concat chunks) = n" and "valid_upload n (concat chunks)"
  shows "\<exists>w'. ota_upload n chunks w = Some w' \<and> ota_result w' = APP_FIRMWARE_UPDATE_OK \<and>
    mem (ota_flash w') = uploaded_mem (mem (ota_flash w)) (concat chunks)"
  using upload_spec [OF assms(1,2), of n] assms(3-5) by (auto simp: complete_upload_def split: if_splits)

theorem ota_upload_complete_witness:
  "\<exists>w'. ota_upload 4098 [ota_package [1, 2] 7] (ota_boot (nor_flash (\<lambda>a. 0) (\<lambda>k. True))) = Some w' \<and>
     ota_result w' = APP_FIRMWARE_UPDATE_OK \<and> mem (ota_flash w') 0x100001 = 2 \<and>
     mem (ota_flash w') 0x100002 = 0xFF \<and> mem (ota_flash w') 0x101000 = 0"
proof -
  have c: "complete_upload 4098 (ota_package [1, 2] 7)" using package_complete [of "[1, 2]" 7] by simp
  then have len: "length (ota_package [1, 2] 7) = 4098" by (simp add: complete_upload_def)
  obtain w' where "ota_upload 4098 [ota_package [1, 2] 7] (ota_boot (nor_flash (\<lambda>a. 0) (\<lambda>k. True))) = Some w'"
    "ota_result w' = APP_FIRMWARE_UPDATE_OK"
    "mem (ota_flash w') = uploaded_mem (\<lambda>a. 0) (ota_package [1, 2] 7)"
    using ota_upload_complete [of "ota_boot (nor_flash (\<lambda>a. 0) (\<lambda>k. True))" "[ota_package [1, 2] 7]" 4098]
      c len by (auto simp: complete_upload_def)
  then show ?thesis
    by (simp add: uploaded_mem_def in_metadata_def image_mem_def staged_mem_def sectors_def)
qed

text \<open>
  Whatever calls the web server makes, in whatever order, each of them returns, and the bootloader
  and the running program are never written: only the copy region and the metadata sector change.
  Without a call of \<^verbatim>\<open>app_firmware_update_finish\<close> the metadata sector does not change either.
\<close>

theorem ota_run_safe:
  assumes "flash_laws (ota_flash w)" and "\<not> ota_active w" and "\<forall>e\<in>set es. event_ok e"
  shows "\<exists>w'. ota_run es w = Some w' \<and>
    (\<forall>a. mem (ota_flash w') a \<noteq> mem (ota_flash w) a \<longrightarrow>
       0x1f000 \<le> a \<and> a < 0x20000 \<and> Ota_finish \<in> set es \<or> 0x100000 \<le> a \<and> a < 0x1e0000)"
proof -
  have "ota_inv w" using assms(1,2) by (simp add: ota_inv_def)
  from ota_run_spec [OF this assms(3)] show ?thesis
    by (fastforce simp: spares_def copy_only_def in_copy_def in_metadata_def)
qed

theorem ota_run_safe_witness:
  "\<exists>w'. ota_run [Ota_finish, Ota_write [1], Ota_begin 5000, Ota_write [1, 2, 3], Ota_abort APP_FIRMWARE_UPDATE_OK]
      (ota_boot (nor_flash (\<lambda>a. 7) (\<lambda>k. even k))) = Some w' \<and> mem (ota_flash w') 0x20000 = 7"
proof -
  have "\<not> ota_active (ota_boot (nor_flash (\<lambda>a. 7) (\<lambda>k. even k)))" by (simp add: ota_boot_def)
  then show ?thesis
    using ota_run_safe [of "ota_boot (nor_flash (\<lambda>a. 7) (\<lambda>k. even k))"
        "[Ota_finish, Ota_write [1], Ota_begin 5000, Ota_write [1, 2, 3], Ota_abort APP_FIRMWARE_UPDATE_OK]"]
    by force
qed

end
