(* ===== verification/Web_Update.thy ===== *)
theory Web_Update
  imports Config_Roundtrip Firmware_Upload
begin

text \<open>
  The firmware upload of the web server (\<^verbatim>\<open>app_web.c\<close>): the callbacks \<^verbatim>\<open>httpd_post_begin\<close>,
  \<^verbatim>\<open>httpd_post_receive_data\<close> and \<^verbatim>\<open>httpd_post_finished\<close> of lwIP's HTTP server on top of
  \<^verbatim>\<open>app_firmware_update.c\<close>, the reading of the address, and the script of \<^verbatim>\<open>html/settings.html\<close> that sends
  a file in slices.  The record \<open>app_web\<close> holds all static variables of \<^verbatim>\<open>app_web.c\<close>.
\<close>

subsection \<open>State\<close>

definition APP_WEB_SAVE_STATUS_MAX_LEN :: nat where "APP_WEB_SAVE_STATUS_MAX_LEN = 96"
definition APP_WEB_REBOOT_DELAY_MS :: u32 where "APP_WEB_REBOOT_DELAY_MS = 1000"
definition APP_WEB_OTA_URI :: string where "APP_WEB_OTA_URI = ''/update''"
definition APP_WEB_OTA_RESPONSE_URI :: string where "APP_WEB_OTA_RESPONSE_URI = ''/update.txt''"
definition APP_WEB_OTA_CHUNK_SIZE :: nat where "APP_WEB_OTA_CHUNK_SIZE = 4096"

record app_web_update_request =
  req_valid :: bool
  req_offset :: nat
  req_size :: nat
  req_received :: nat

record app_web =
  web_next_config :: app_config
  web_cpu_load_percent :: u8
  web_narodmon_seconds_remaining :: u32
  web_save_status_valid :: bool
  web_save_status :: string
  web_reboot_pending :: bool
  web_reboot_deadline_ms :: u32
  web_update_request :: app_web_update_request

definition no_request :: app_web_update_request where
  "no_request = \<lparr>req_valid = False, req_offset = 0, req_size = 0, req_received = 0\<rparr>"

definition app_web_init :: "app_web \<Rightarrow> app_web" where
  "app_web_init web = web\<lparr>web_cpu_load_percent := 0, web_narodmon_seconds_remaining := 0, web_save_status_valid := False,
     web_save_status := '''', web_reboot_pending := False, web_reboot_deadline_ms := 0, web_update_request := no_request\<rparr>"

definition app_web_set_save_status :: "string \<Rightarrow> app_web \<Rightarrow> app_web" where
  "app_web_set_save_status message web =
     web\<lparr>web_save_status_valid := True, web_save_status := bounded_copy APP_WEB_SAVE_STATUS_MAX_LEN message\<rparr>"

subsection \<open>The address of a request\<close>

definition app_web_uri_path_equals :: "string \<Rightarrow> string \<Rightarrow> bool" where
  "app_web_uri_path_equals uri path =
     (take (length path) uri = path \<and> (length uri = length path \<or> uri ! length path = CHR ''?''))"

text \<open>\<^verbatim>\<open>strtoul(s, &end, 10)\<close> for a 32-bit \<^verbatim>\<open>unsigned long\<close>: the value, and the text \<^verbatim>\<open>end\<close> points to.\<close>

definition strtoul10 :: "string \<Rightarrow> nat \<times> string" where
  "strtoul10 s =
     (case signed_text s of (neg, t) \<Rightarrow>
        let ds = takeWhile isdigit t; v = digits_value 10 ds
        in if ds = [] then (0, s)
           else (if v \<ge> 2 ^ 32 then 2 ^ 32 - 1 else if neg then sub32 0 v else v, dropWhile isdigit t))"

function query_loop :: "string \<Rightarrow> string \<Rightarrow> nat option" where
  "query_loop name query =
     (if query = [] then None else
      let item_len = length (takeWhile (\<lambda>c. c \<noteq> CHR ''&'') query);
          name_len = length name
      in if item_len > name_len \<and> take name_len query = name \<and> query ! name_len = CHR ''=''
         then (let text = drop (name_len + 1) query
               in case strtoul10 text of (parsed, end_text) \<Rightarrow>
                    if length end_text = length text \<or> length query - length end_text \<noteq> item_len \<or> parsed > 0xFFFFFFFF
                    then None else Some parsed)
         else if item_len = length query then None
         else query_loop name (drop (item_len + 1) query))"
  by pat_completeness auto
termination
  by (relation "measure (\<lambda>(name, query). length query)") auto

declare query_loop.simps [simp del]

definition app_web_query_u32 :: "string \<Rightarrow> string \<Rightarrow> nat option" where
  "app_web_query_u32 uri name =
     (case dropWhile (\<lambda>c. c \<noteq> CHR ''?'') uri of [] \<Rightarrow> None | _ # query \<Rightarrow> query_loop name query)"

subsection \<open>POST requests\<close>

definition ERR_OK :: int where "ERR_OK = 0"
definition ERR_ARG :: int where "ERR_ARG = - 16"

text \<open>What a callback gives back to the HTTP server: the error, the text put in \<^verbatim>\<open>response_uri\<close>, and whether
  \<^verbatim>\<open>*post_auto_wnd\<close> was set to 1.\<close>

record post_reply =
  pr_err :: int
  pr_response_uri :: "string option"
  pr_auto_wnd :: bool

definition app_web_update_request_fail :: "app_firmware_update_result \<Rightarrow> app_web \<times> ota \<Rightarrow> app_web \<times> ota" where
  "app_web_update_request_fail result st =
     (case st of (web, w) \<Rightarrow>
        (app_web_set_save_status (app_firmware_update_result_text result)
           (web\<lparr>web_update_request := (web_update_request web)\<lparr>req_valid := False\<rparr>\<rparr>),
         if app_firmware_update_is_active w then app_firmware_update_abort result w else w))"

text \<open>\<open>None\<close> is a \<^verbatim>\<open>NULL\<close> buffer, \<open>Some n\<close> one of \<open>n\<close> bytes.\<close>

definition response_text :: "nat option \<Rightarrow> string option" where
  "response_text response_uri =
     (case response_uri of
        None \<Rightarrow> None
      | Some len \<Rightarrow> if len > 0 then Some (bounded_copy len APP_WEB_OTA_RESPONSE_URI) else None)"

text \<open>The numbers of the address that the first test of \<^verbatim>\<open>httpd_post_begin\<close> lets pass.\<close>

definition update_range :: "string \<Rightarrow> int \<Rightarrow> (nat \<times> nat) option" where
  "update_range uri content_len =
     (if content_len < 0 then None else
      case app_web_query_u32 uri ''offset'' of
        None \<Rightarrow> None
      | Some offset \<Rightarrow>
          (case app_web_query_u32 uri ''total'' of
             None \<Rightarrow> None
           | Some whole \<Rightarrow> if offset \<ge> whole then None else Some (offset, whole)))"

definition httpd_post_begin :: "string \<Rightarrow> int \<Rightarrow> nat option \<Rightarrow> bool \<Rightarrow> app_web \<times> ota \<Rightarrow> (app_web \<times> ota) \<times> post_reply" where
  "httpd_post_begin uri content_len response_uri has_auto_wnd st =
     (case st of (web0, w) \<Rightarrow>
      let web = web0\<lparr>web_update_request := no_request\<rparr>;
          reply = \<lparr>pr_err = ERR_OK, pr_response_uri = response_text response_uri, pr_auto_wnd = False\<rparr>
      in if \<not> app_web_uri_path_equals uri APP_WEB_OTA_URI
         then ((web, w), \<lparr>pr_err = ERR_ARG, pr_response_uri = None, pr_auto_wnd = False\<rparr>)
         else case update_range uri content_len of
           None \<Rightarrow> (app_web_update_request_fail APP_FIRMWARE_UPDATE_INVALID_SIZE (web, w), reply)
         | Some (offset, whole) \<Rightarrow>
             let reply = reply\<lparr>pr_auto_wnd := has_auto_wnd\<rparr>;
                 rest = sub32 whole offset;
                 expected_size = (if rest > APP_WEB_OTA_CHUNK_SIZE then APP_WEB_OTA_CHUNK_SIZE else rest);
                 request = \<lparr>req_valid = True, req_offset = offset, req_size = nat (content_len mod 2 ^ 32), req_received = 0\<rparr>
             in if nat (content_len mod 2 ^ 32) \<noteq> expected_size
                then (app_web_update_request_fail APP_FIRMWARE_UPDATE_INVALID_SIZE (web, w), reply)
                else if offset = 0 then
                  (case app_firmware_update_begin whole w of
                     (w1, result) \<Rightarrow>
                       if result \<noteq> APP_FIRMWARE_UPDATE_OK
                       then ((app_web_set_save_status (app_firmware_update_result_text result) web, w1), reply)
                       else (((app_web_set_save_status ''Update upload started'' web)\<lparr>web_update_request := request\<rparr>, w1), reply))
                else if \<not> app_firmware_update_is_active w \<or> whole \<noteq> app_firmware_update_total_size w \<or>
                        offset \<noteq> app_firmware_update_received w
                then (app_web_update_request_fail APP_FIRMWARE_UPDATE_INVALID_OFFSET (web, w), reply)
                else ((web\<lparr>web_update_request := request\<rparr>, w), reply))"

text \<open>The loop over the bytes \<open>rest\<close> of the packet that were not handled yet.\<close>

function post_data_loop :: "u8 list \<Rightarrow> app_web \<times> ota \<Rightarrow> (app_web \<times> ota) option" where
  "post_data_loop rest st =
     (case st of (web, w) \<Rightarrow>
        if rest \<noteq> [] \<and> req_valid (web_update_request web) \<and> app_firmware_update_is_active w then
          (let chunk = (if length rest > 256 then 256 else length rest)
           in case app_firmware_update_write (take chunk rest) w of
                None \<Rightarrow> None
              | Some (w1, result) \<Rightarrow>
                  let request = web_update_request web;
                      web1 = web\<lparr>web_update_request := request\<lparr>req_received := add32 (req_received request) chunk\<rparr>\<rparr>
                  in if result \<noteq> APP_FIRMWARE_UPDATE_OK then Some (app_web_update_request_fail result (web1, w1))
                     else post_data_loop (drop chunk rest) (web1, w1))
        else Some (web, w))"
  by pat_completeness auto
termination
  by (relation "measure (\<lambda>(rest, st). length rest)") auto

declare post_data_loop.simps [simp del]

text \<open>A packet is the bytes of its \<^verbatim>\<open>pbuf\<close> chain; the flag of the result says that it was freed.\<close>

definition httpd_post_receive_data :: "u8 list option \<Rightarrow> app_web \<times> ota \<Rightarrow> ((app_web \<times> ota) \<times> int \<times> bool) option" where
  "httpd_post_receive_data p st =
     (case p of
        None \<Rightarrow> Some (st, ERR_OK, False)
      | Some payload \<Rightarrow> map_option (\<lambda>st1. (st1, ERR_OK, True)) (post_data_loop payload st))"

definition httpd_post_finished :: "nat option \<Rightarrow> app_web \<times> ota \<Rightarrow> ((app_web \<times> ota) \<times> string option) option" where
  "httpd_post_finished response_uri st =
     (case st of (web, w) \<Rightarrow>
      let request = web_update_request web; response = response_text response_uri
      in if \<not> req_valid request then Some ((web, w), response)
         else if req_received request \<noteq> req_size request \<or>
                 app_firmware_update_received w \<noteq> add32 (req_offset request) (req_size request)
         then Some (app_web_update_request_fail APP_FIRMWARE_UPDATE_INCOMPLETE (web, w), response)
         else map_option
           (\<lambda>(web1, w1). ((web1\<lparr>web_update_request := (web_update_request web1)\<lparr>req_valid := False\<rparr>\<rparr>, w1), response))
           (if app_firmware_update_is_active w \<and> app_firmware_update_received w = app_firmware_update_total_size w
            then map_option (\<lambda>(w1, result). (app_web_set_save_status (app_firmware_update_result_text result) web, w1))
                   (app_firmware_update_finish w)
            else Some (app_web_set_save_status ''Update upload in progress'' web, w)))"

subsection \<open>Sequences of requests\<close>

text \<open>What the HTTP server calls; several connections may interleave.\<close>

datatype http_event =
    Post_begin string int
  | Post_data "u8 list option"
  | Post_finished

fun http_step :: "http_event \<Rightarrow> app_web \<times> ota \<Rightarrow> (app_web \<times> ota) option" where
  "http_step (Post_begin uri content_len) st = Some (fst (httpd_post_begin uri content_len (Some 64) True st))"
| "http_step (Post_data p) st = map_option fst (httpd_post_receive_data p st)"
| "http_step Post_finished st = map_option fst (httpd_post_finished (Some 64) st)"

fun http_run :: "http_event list \<Rightarrow> app_web \<times> ota \<Rightarrow> (app_web \<times> ota) option" where
  "http_run [] st = Some st"
| "http_run (e # es) st = Option.bind (http_step e st) (http_run es)"

subsection \<open>The upload script of the settings page\<close>

function slices :: "nat \<Rightarrow> 'a list \<Rightarrow> 'a list list" where
  "slices n bs = (if bs = [] \<or> n = 0 then [] else take n bs # slices n (drop n bs))"
  by pat_completeness auto
termination
  by (relation "measure (\<lambda>(n, bs). length bs)") auto

declare slices.simps [simp del]

definition update_uri :: "nat \<Rightarrow> nat \<Rightarrow> string" where
  "update_uri offset whole = ''/update?offset='' @ show_nat offset @ ''&total='' @ show_nat whole"

text \<open>The requests for the slices of a file of \<open>whole\<close> bytes, each as the packets it arrives in.\<close>

fun upload_requests :: "nat \<Rightarrow> nat \<Rightarrow> u8 list list list \<Rightarrow> http_event list" where
  "upload_requests whole offset [] = []"
| "upload_requests whole offset (packets # rest) =
     Post_begin (update_uri offset whole) (int (length (concat packets))) #
     List.map (\<lambda>p. Post_data (Some p)) packets @ Post_finished #
     upload_requests whole (offset + length (concat packets)) rest"


subsection \<open>The requests of the upload script are understood\<close>

lemma signed_number: "signed_text (show_nat n @ t) = (False, show_nat n @ t)"
proof -
  obtain d cs where d: "d < 10" "show_nat n = digit_char d # cs"
    using show_nat_digits [of n] show_nat_nonempty [of n] by (metis list.exhaust list.set_intros(1))
  show ?thesis unfolding signed_text_def d(2) using digit_char_facts(3,6,7) [OF d(1)] by simp
qed

lemma strtoul10_number:
  assumes "n < 2 ^ 32" "t = [] \<or> \<not> isdigit (hd t)"
  shows "strtoul10 (show_nat n @ t) = (n, t)"
proof -
  have "\<forall>c\<in>set (show_nat n). isdigit c" using show_nat_digits [of n] digit_char_facts(2) by auto
  then have "takeWhile isdigit (show_nat n @ t) = show_nat n" "dropWhile isdigit (show_nat n @ t) = t"
    using assms(2) by (cases t; simp add: takeWhile_append dropWhile_append)+
  then show ?thesis using assms(1) by (simp add: strtoul10_def signed_number Let_def)
qed

lemma strtoul10_bound: "strtoul10 s = (n, t) \<Longrightarrow> n < 2 ^ 32"
  using sub32_less [of 0] by (auto simp: strtoul10_def Let_def split: prod.splits if_splits)

lemma query_loop_bound: "query_loop name query = Some n \<Longrightarrow> n < 2 ^ 32"
proof (induction name query rule: query_loop.induct)
  case (1 name query)
  note eq = "1.prems" [unfolded query_loop.simps [of name query] Let_def]
  show ?case
    using eq "1.IH" [OF _ refl refl] strtoul10_bound by (auto split: if_splits prod.splits)
qed

lemma query_u32_bound: "app_web_query_u32 uri name = Some n \<Longrightarrow> n < 2 ^ 32"
  using query_loop_bound by (auto simp: app_web_query_u32_def split: list.splits)

lemma number_no_amp: "CHR ''&'' \<notin> set (show_nat n)" "CHR ''?'' \<notin> set (show_nat n)"
proof -
  have "\<forall>c\<in>set (show_nat n). isdigit c" using show_nat_digits [of n] digit_char_facts(2) by auto
  then show "CHR ''&'' \<notin> set (show_nat n)" "CHR ''?'' \<notin> set (show_nat n)" by (auto simp: isdigit_def)
qed

lemma take_item:
  "CHR ''&'' \<notin> set s \<Longrightarrow> takeWhile (\<lambda>c. c \<noteq> CHR ''&'') (s @ CHR ''&'' # t) = s"
  "CHR ''&'' \<notin> set s \<Longrightarrow> takeWhile (\<lambda>c. c \<noteq> CHR ''&'') s = s"
  by (induction s) auto

lemma query_found:
  assumes "n < 2 ^ 32" "CHR ''&'' \<notin> set name" "t = [] \<or> (\<exists>u. t = CHR ''&'' # u)"
  shows "query_loop name (name @ CHR ''='' # show_nat n @ t) = Some n"
proof -
  let ?q = "name @ CHR ''='' # show_nat n @ t"
  have tw: "takeWhile (\<lambda>c. c \<noteq> CHR ''&'') ?q = name @ CHR ''='' # show_nat n"
  proof -
    have a: "CHR ''&'' \<notin> set (name @ CHR ''='' # show_nat n)" using assms(2) number_no_amp(1) [of n] by simp
    from assms(3) show ?thesis
    proof
      assume "t = []"
      then show ?thesis using take_item(2) [OF a] by simp
    next
      assume "\<exists>u. t = CHR ''&'' # u"
      then obtain u where "t = CHR ''&'' # u" by blast
      then show ?thesis using take_item(1) [OF a, of u] by simp
    qed
  qed
  have st: "strtoul10 (show_nat n @ t) = (n, t)" using assms(1,3) by (intro strtoul10_number) (auto simp: isdigit_def)
  have d: "drop (length name + 1) ?q = show_nat n @ t" by simp
  have c: "length (name @ CHR ''='' # show_nat n) > length name \<and> take (length name) ?q = name \<and> ?q ! length name = CHR ''=''"
    by simp
  have e: "\<not> (length t = length (show_nat n @ t) \<or> length ?q - length t \<noteq> length (name @ CHR ''='' # show_nat n) \<or> n > 0xFFFFFFFF)"
    using assms(1) by simp
  have "?q \<noteq> []" by simp
  then show ?thesis
    unfolding query_loop.simps [of name ?q] Let_def tw d st prod.case if_P [OF c] if_not_P [OF e] by (rule if_not_P)
qed

lemma query_skip:
  assumes "CHR ''&'' \<notin> set item" "\<not> (length item > length name \<and> take (length name) item = name \<and> item ! length name = CHR ''='')"
  shows "query_loop name (item @ CHR ''&'' # t) = query_loop name t"
proof -
  have tw: "takeWhile (\<lambda>c. c \<noteq> CHR ''&'') (item @ CHR ''&'' # t) = item" using take_item(1) [OF assms(1)] .
  have eq: "length item > length name \<and> take (length name) (item @ CHR ''&'' # t) = name \<and>
      (item @ CHR ''&'' # t) ! length name = CHR ''='' \<longleftrightarrow>
    length item > length name \<and> take (length name) item = name \<and> item ! length name = CHR ''=''"
    by (auto simp: nth_append)
  show ?thesis using assms(2)
    by (subst query_loop.simps) (simp only: tw Let_def eq, simp)
qed

lemma update_uri_read:
  assumes "offset < 2 ^ 32" "whole < 2 ^ 32"
  shows "app_web_uri_path_equals (update_uri offset whole) APP_WEB_OTA_URI"
    and "app_web_query_u32 (update_uri offset whole) ''offset'' = Some offset"
    and "app_web_query_u32 (update_uri offset whole) ''total'' = Some whole"
proof -
  show "app_web_uri_path_equals (update_uri offset whole) APP_WEB_OTA_URI"
    by (simp add: app_web_uri_path_equals_def update_uri_def APP_WEB_OTA_URI_def)
  have q: "app_web_query_u32 (update_uri offset whole) name =
      query_loop name ((''offset='' @ show_nat offset) @ CHR ''&'' # (''total='' @ show_nat whole))" for name
    by (simp add: app_web_query_u32_def update_uri_def)
  have "query_loop ''offset'' (''offset'' @ CHR ''='' # show_nat offset @ CHR ''&'' # (''total='' @ show_nat whole)) = Some offset"
    by (rule query_found) (use assms in auto)
  then show "app_web_query_u32 (update_uri offset whole) ''offset'' = Some offset" unfolding q by simp
  have "query_loop ''total'' ((''offset='' @ show_nat offset) @ CHR ''&'' # (''total='' @ show_nat whole)) =
      query_loop ''total'' (''total='' @ show_nat whole)"
    by (rule query_skip) (use number_no_amp(1) [of offset] in auto)
  also have "\<dots> = Some whole" using query_found [of whole "''total''" "[]"] assms(2) by simp
  finally show "app_web_query_u32 (update_uri offset whole) ''total'' = Some whole" unfolding q .
qed


subsection \<open>What a request can do to the flash\<close>

lemma abort_simps [simp]:
  "ota_flash (app_firmware_update_abort r w) = ota_flash w" "ota_active (app_firmware_update_abort r w) = False"
  by (simp_all add: app_firmware_update_abort_def Let_def app_firmware_update_fail_def)

lemma request_fail_simps:
  "ota_flash (snd (app_web_update_request_fail r (web, w))) = ota_flash w"
  "\<not> ota_active (snd (app_web_update_request_fail r (web, w)))"
  "ota_inv w \<Longrightarrow> ota_inv (snd (app_web_update_request_fail r (web, w)))"
  by (simp_all add: app_web_update_request_fail_def app_firmware_update_is_active_def ota_inv_def)

lemma post_begin_spec:
  assumes "ota_inv w"
  shows "\<exists>web' w'. fst (httpd_post_begin uri n r a (web, w)) = (web', w') \<and> ota_inv w' \<and> ota_flash w' = ota_flash w"
proof -
  have fl: "flash_laws (ota_flash w)" using assms by (simp add: ota_inv_def)
  have b: "\<exists>w'. app_firmware_update_begin m w = (w', ota_result w') \<and> ota_flash w' = ota_flash w \<and> ota_inv w'" for m
    by (rule begin_inv [OF fl])
  let ?st = "fst (httpd_post_begin uri n r a (web, w))"
  note def = httpd_post_begin_def Let_def prod.case
  have "ota_inv (snd ?st) \<and> ota_flash (snd ?st) = ota_flash w"
  proof (cases "app_web_uri_path_equals uri APP_WEB_OTA_URI")
    case False
    then show ?thesis unfolding def using assms by simp
  next
    case uri: True
    show ?thesis
    proof (cases "update_range uri n")
      case None
      show ?thesis unfolding def None using uri assms request_fail_simps(1,3) by simp
    next
      case (Some p)
      obtain offset whole where p: "p = (offset, whole)" by fastforce
      obtain wb where wb: "app_firmware_update_begin whole w = (wb, ota_result wb)" "ota_flash wb = ota_flash w" "ota_inv wb"
        using b [of whole] by blast
      show ?thesis unfolding def Some p option.case wb(1) using uri assms wb(2,3) request_fail_simps(1,3)
        by (simp split: if_split)
    qed
  qed
  then show ?thesis by (metis prod.collapse)
qed

abbreviation count_received :: "nat \<Rightarrow> app_web \<Rightarrow> app_web" where
  "count_received n web \<equiv> web\<lparr>web_update_request :=
     (web_update_request web)\<lparr>req_received := add32 (req_received (web_update_request web)) n\<rparr>\<rparr>"

lemma post_data_step:
  assumes "rest \<noteq> [] \<and> req_valid (web_update_request web) \<and> app_firmware_update_is_active w"
    and "app_firmware_update_write (take (if length rest > 256 then 256 else length rest) rest) w = Some (w1, r)"
  shows "post_data_loop rest (web, w) =
    (if r \<noteq> APP_FIRMWARE_UPDATE_OK
     then Some (app_web_update_request_fail r (count_received (if length rest > 256 then 256 else length rest) web, w1))
     else post_data_loop (drop (if length rest > 256 then 256 else length rest) rest)
       (count_received (if length rest > 256 then 256 else length rest) web, w1))"
  unfolding post_data_loop.simps [of rest "(web, w)"] prod.case if_P [OF assms(1)] Let_def assms(2) option.case ..

lemma post_data_spec:
  assumes "ota_inv w"
  shows "\<exists>web' w'. post_data_loop rest (web, w) = Some (web', w') \<and> ota_inv w' \<and>
    copy_only (mem (ota_flash w)) (mem (ota_flash w'))"
  using assms
proof (induction "length rest" arbitrary: rest web w rule: less_induct)
  case less
  let ?n = "if length rest > 256 then 256 else length rest"
  have ev: "event_ok (Ota_write (take ?n rest))" by simp
  show ?case
  proof (cases "rest \<noteq> [] \<and> req_valid (web_update_request web) \<and> app_firmware_update_is_active w")
    case False
    have "post_data_loop rest (web, w) = Some (web, w)"
      unfolding post_data_loop.simps [of rest "(web, w)"] prod.case by (rule if_not_P [OF False])
    then show ?thesis using less.prems by simp
  next
    case go: True
    obtain w1 r where w1: "app_firmware_update_write (take ?n rest) w = Some (w1, r)" "ota_inv w1"
      "copy_only (mem (ota_flash w)) (mem (ota_flash w1))"
      using ota_step_spec [OF less.prems ev] unfolding ota_step.simps by blast
    obtain web1 where eq: "post_data_loop rest (web, w) =
      (if r \<noteq> APP_FIRMWARE_UPDATE_OK then Some (app_web_update_request_fail r (web1, w1))
       else post_data_loop (drop ?n rest) (web1, w1))"
      using post_data_step [OF go w1(1)] by blast
    show ?thesis
    proof (cases "r = APP_FIRMWARE_UPDATE_OK")
      case False
      then show ?thesis using eq w1(2,3) request_fail_simps(1,3) [where r = r and web = web1 and w = w1]
        by (metis (no_types, lifting) prod.collapse)
    next
      case True
      have "length (drop ?n rest) < length rest" using go by auto
      from less.hyps [OF this w1(2), of web1] show ?thesis using eq True w1(3) by (auto simp: copy_only_def)
    qed
  qed
qed

text \<open>The call that may write the metadata sector: the end of the request that completes an upload.\<close>

definition completes_upload :: "http_event \<Rightarrow> app_web \<Rightarrow> ota \<Rightarrow> bool" where
  "completes_upload e web w =
     (e = Post_finished \<and> req_valid (web_update_request web) \<and> ota_active w \<and> ota_received w = ota_content_len w \<and>
      app_firmware_update_manifest_is_valid (ota_header w) (ota_content_len w) \<noteq> None)"

lemma finish_incomplete:
  assumes "ota_inv w" "app_firmware_update_finish w = Some (w', r)" "mem (ota_flash w') \<noteq> mem (ota_flash w)"
  shows "ota_active w \<and> ota_received w = ota_content_len w \<and>
    app_firmware_update_manifest_is_valid (ota_header w) (ota_content_len w) \<noteq> None"
proof (cases "ota_active w \<and> ota_result w = APP_FIRMWARE_UPDATE_OK")
  case False
  then show ?thesis using finish_idle [OF False] assms(2,3) by auto
next
  case True
  then obtain m n bs where n: "4096 \<le> n" and up: "up_ok m n w bs" using assms(1) by (auto simp: ota_inv_def)
  have "complete_upload n bs" using finish_spec [OF up n] assms(2,3) by (auto split: if_splits)
  then show ?thesis using up n by (auto simp: complete_upload_def up_ok_def valid_upload_def)
qed

lemma post_finished_spec:
  assumes "ota_inv w"
  shows "\<exists>web' w'. map_option fst (httpd_post_finished r (web, w)) = Some (web', w') \<and> ota_inv w' \<and>
    spares (mem (ota_flash w)) (mem (ota_flash w')) \<and>
    (mem (ota_flash w') \<noteq> mem (ota_flash w) \<longrightarrow> completes_upload Post_finished web w)"
proof -
  obtain w1 res where f: "app_firmware_update_finish w = Some (w1, res)" "ota_inv w1"
    "spares (mem (ota_flash w)) (mem (ota_flash w1))"
    using ota_step_spec [OF assms, of Ota_finish] by auto
  have c: "mem (ota_flash w1) \<noteq> mem (ota_flash w) \<longrightarrow>
      ota_active w \<and> ota_received w = ota_content_len w \<and>
      app_firmware_update_manifest_is_valid (ota_header w) (ota_content_len w) \<noteq> None"
    using finish_incomplete [OF assms f(1)] by blast
  obtain webf wf where rf: "app_web_update_request_fail APP_FIRMWARE_UPDATE_INCOMPLETE (web, w) = (webf, wf)" by fastforce
  then have "ota_flash wf = ota_flash w" "ota_inv wf"
    using request_fail_simps(1,3) [where r = APP_FIRMWARE_UPDATE_INCOMPLETE and web = web and w = w] assms by auto
  then show ?thesis unfolding httpd_post_finished_def Let_def prod.case
    using assms f c rf by (simp add: completes_upload_def)
qed

lemma http_step_spec:
  assumes "ota_inv w"
  shows "\<exists>web' w'. http_step e (web, w) = Some (web', w') \<and> ota_inv w' \<and>
    (\<forall>a. mem (ota_flash w') a \<noteq> mem (ota_flash w) a \<longrightarrow> in_copy a \<or> in_metadata a \<and> completes_upload e web w)"
proof (cases e)
  case (Post_begin uri n)
  then show ?thesis using post_begin_spec [OF assms, of uri n "Some 64" True web] by auto
next
  case (Post_data p)
  show ?thesis
  proof (cases p)
    case None
    then show ?thesis using Post_data assms by (simp add: httpd_post_receive_data_def)
  next
    case (Some payload)
    then show ?thesis using Post_data post_data_spec [OF assms, of payload web]
      by (auto simp: httpd_post_receive_data_def copy_only_def)
  qed
next
  case Post_finished
  then show ?thesis using post_finished_spec [OF assms, of "Some 64" web] by (fastforce simp: spares_def)
qed

lemma http_run_inv: "ota_inv w \<Longrightarrow> \<exists>web' w'. http_run es (web, w) = Some (web', w') \<and> ota_inv w'"
proof (induction es arbitrary: web w)
  case (Cons e es)
  from http_step_spec [OF Cons.prems, of e web] show ?case using Cons.IH by auto
qed simp



subsection \<open>An upload through the web server\<close>

lemma http_run_append: "http_run (es @ es') st = Option.bind (http_run es st) (http_run es')"
  by (induction es arbitrary: st) (auto split: bind_splits)

lemma post_packet:
  assumes "up_ok m n w bs" "req_valid (web_update_request web)" "acceptable n (ota_flash w) (bs @ rest)"
    "req_received (web_update_request web) + length rest < 2 ^ 32"
  shows "\<exists>w'. post_data_loop rest (web, w) = Some (count_received (length rest) web, w') \<and>
    up_ok m n w' (bs @ rest) \<and> same_driver (ota_flash w) (ota_flash w')"
  using assms
proof (induction "length rest" arbitrary: rest web w bs rule: less_induct)
  case less
  let ?n = "if length rest > 256 then 256 else length rest"
  show ?case
  proof (cases "rest = []")
    case True
    then show ?thesis using less.prems(1,4)
      by (subst post_data_loop.simps) (simp add: add32_id)
  next
    case False
    have act: "ota_active w" using up_ok_active(1) [OF less.prems(1)] .
    then have go: "rest \<noteq> [] \<and> req_valid (web_update_request web) \<and> app_firmware_update_is_active w"
      using False less.prems(2) by (simp add: app_firmware_update_is_active_def)
    have l: "length (take ?n rest) < 2 ^ 31" by simp
    obtain w1 where w1: "app_firmware_update_write (take ?n rest) w = Some (w1, ota_result w1)"
      "same_driver (ota_flash w) (ota_flash w1)"
      "up_ok m n w1 (bs @ take ?n rest) \<or> up_bad m w1 \<and> \<not> acceptable n (ota_flash w) (bs @ take ?n rest)"
      using write_spec [OF act less.prems(1) l] by blast
    have app: "(bs @ take ?n rest) @ drop ?n rest = bs @ rest" by simp
    have "acceptable n (ota_flash w) (bs @ take ?n rest)"
      using less.prems(3) acceptable_append [of n "ota_flash w" "bs @ take ?n rest" "drop ?n rest"] unfolding app by blast
    then have up: "up_ok m n w1 (bs @ take ?n rest)" using w1(3) by blast
    have acc: "acceptable n (ota_flash w1) ((bs @ take ?n rest) @ drop ?n rest)"
      using less.prems(3) w1(2) unfolding app by (simp add: acceptable_def same_driver_def)
    let ?web = "count_received ?n web"
    have step: "post_data_loop rest (web, w) = post_data_loop (drop ?n rest) (?web, w1)"
      using post_data_step [OF go w1(1)] up_ok_active(2) [OF up] by simp
    have n: "?n \<le> length rest" "length (drop ?n rest) < length rest" using False by auto
    have sum: "req_received (web_update_request web) + ?n < 2 ^ 32" using less.prems(4) n(1) by linarith
    have v: "req_valid (web_update_request ?web)"
      "req_received (web_update_request ?web) + length (drop ?n rest) < 2 ^ 32"
      using less.prems(2,4) n(1) add32_id [OF sum] by simp_all
    obtain w' where w': "post_data_loop (drop ?n rest) (?web, w1) = Some (count_received (length (drop ?n rest)) ?web, w')"
      "up_ok m n w' (bs @ rest)" "same_driver (ota_flash w1) (ota_flash w')"
      using less.hyps [OF n(2) up v(1) acc v(2)] unfolding app by blast
    have "count_received (length (drop ?n rest)) ?web = count_received (length rest) web"
      using add32_id [OF sum] n(1) less.prems(4) by (simp add: add32_id)
    then show ?thesis using step w' same_driver_trans [OF w1(2) w'(3)] by auto
  qed
qed

lemma post_packets:
  assumes "up_ok m n w bs" "req_valid (web_update_request web)" "acceptable n (ota_flash w) (bs @ concat ps)"
    "req_received (web_update_request web) + length (concat ps) < 2 ^ 32"
  shows "\<exists>w'. http_run (List.map (\<lambda>p. Post_data (Some p)) ps) (web, w) = Some (count_received (length (concat ps)) web, w') \<and>
    up_ok m n w' (bs @ concat ps) \<and> same_driver (ota_flash w) (ota_flash w')"
  using assms
proof (induction ps arbitrary: web w bs)
  case Nil
  then show ?case by (simp add: add32_id)
next
  case (Cons p ps)
  have a: "acceptable n (ota_flash w) (bs @ p)"
    using Cons.prems(3) acceptable_append [of n "ota_flash w" "bs @ p" "concat ps"] by simp
  have l: "req_received (web_update_request web) + length p < 2 ^ 32" using Cons.prems(4) by simp
  obtain w1 where w1: "post_data_loop p (web, w) = Some (count_received (length p) web, w1)"
    "up_ok m n w1 (bs @ p)" "same_driver (ota_flash w) (ota_flash w1)"
    using post_packet [OF Cons.prems(1,2) a l] by blast
  let ?web = "count_received (length p) web"
  have v: "req_valid (web_update_request ?web)" "acceptable n (ota_flash w1) ((bs @ p) @ concat ps)"
    "req_received (web_update_request ?web) + length (concat ps) < 2 ^ 32"
    using Cons.prems(2-4) w1(3) add32_id [OF l] by (simp_all add: acceptable_def same_driver_def)
  obtain w' where w': "http_run (List.map (\<lambda>p. Post_data (Some p)) ps) (?web, w1) = Some (count_received (length (concat ps)) ?web, w')"
    "up_ok m n w' ((bs @ p) @ concat ps)" "same_driver (ota_flash w1) (ota_flash w')"
    using Cons.IH [OF w1(2) v] by blast
  have "count_received (length (concat ps)) ?web = count_received (length (concat (p # ps))) web"
    using add32_id [OF l] Cons.prems(4) by (simp add: add32_id)
  then show ?case using w1(1,3) w' same_driver_trans [OF w1(3) w'(3)]
    by (simp add: httpd_post_receive_data_def)
qed


lemma post_begin_accepted:
  assumes "file = bs @ rest" "rest \<noteq> []" "length file = n" "4096 \<le> n" "n \<le> 4096 + 917504"
    and "if bs = [] then flash_laws (ota_flash w) \<and> mem (ota_flash w) = m else up_ok m n w bs"
  shows "\<exists>web1 w1. http_step (Post_begin (update_uri (length bs) n) (int (length (take 4096 rest)))) (web, w) = Some (web1, w1) \<and>
    up_ok m n w1 bs \<and> same_driver (ota_flash w) (ota_flash w1) \<and>
    web_update_request web1 = \<lparr>req_valid = True, req_offset = length bs, req_size = length (take 4096 rest), req_received = 0\<rparr>"
proof -
  have n: "n < 2 ^ 32" "length bs < n" "length rest = n - length bs" using assms(1-3,5) by auto
  note uri = update_uri_read [of "length bs" n]
  let ?web = "web\<lparr>web_update_request := no_request\<rparr>"
  have c: "update_range (update_uri (length bs) n) (int (length (take 4096 rest))) = Some (length bs, n)"
    using uri n(1,2) by (simp add: update_range_def)
  have s: "sub32 n (length bs) = length rest" using n by (simp add: sub32_id)
  have len: "nat (int (length (take 4096 rest)) mod 2 ^ 32) =
      (if length rest > APP_WEB_OTA_CHUNK_SIZE then APP_WEB_OTA_CHUNK_SIZE else length rest)"
    using n(1,3) by (simp add: APP_WEB_OTA_CHUNK_SIZE_def nat_mod_as_int)
  have l: "nat (int (length (take 4096 rest)) mod 2 ^ 32) = length (take 4096 rest)" by (simp add: min_def)
  let ?req = "\<lparr>req_valid = True, req_offset = length bs, req_size = length (take 4096 rest), req_received = 0\<rparr>"
  have path: "\<not> \<not> app_web_uri_path_equals (update_uri (length bs) n) APP_WEB_OTA_URI" using uri(1) n by simp
  have ne: "\<not> (length (take 4096 rest) \<noteq>
      (if length rest > APP_WEB_OTA_CHUNK_SIZE then APP_WEB_OTA_CHUNK_SIZE else length rest))"
    using len unfolding l by blast
  have eq: "http_step (Post_begin (update_uri (length bs) n) (int (length (take 4096 rest)))) (web, w) =
    Some (if length bs = 0 then
        (case app_firmware_update_begin n w of
           (w1, result) \<Rightarrow>
             if result \<noteq> APP_FIRMWARE_UPDATE_OK
             then (app_web_set_save_status (app_firmware_update_result_text result) ?web, w1)
             else ((app_web_set_save_status ''Update upload started'' ?web)\<lparr>web_update_request := ?req\<rparr>, w1))
      else if \<not> app_firmware_update_is_active w \<or> n \<noteq> app_firmware_update_total_size w \<or>
              length bs \<noteq> app_firmware_update_received w
      then app_web_update_request_fail APP_FIRMWARE_UPDATE_INVALID_OFFSET (?web, w)
      else (?web\<lparr>web_update_request := ?req\<rparr>, w))"
  proof -
    obtain wb r where b: "app_firmware_update_begin n w = (wb, r)" by fastforce
    show ?thesis
      unfolding http_step.simps httpd_post_begin_def Let_def prod.case if_not_P [OF path] c option.case s l if_not_P [OF ne] b
      by (simp only: if_distrib [of fst] fst_conv)
  qed
  show ?thesis
  proof (cases "bs = []")
    case True
    then obtain w1 where w1: "app_firmware_update_begin n w = (w1, ota_result w1)" "ota_flash w1 = ota_flash w"
      "up_ok m n w1 []"
      using begin_spec [of w n] assms(4-6) by auto
    then show ?thesis using eq True up_ok_active(2) [OF w1(3)] by simp
  next
    case False
    then have up: "up_ok m n w bs" using assms(6) by simp
    then have g: "\<not> (\<not> app_firmware_update_is_active w \<or> n \<noteq> app_firmware_update_total_size w \<or>
        length bs \<noteq> app_firmware_update_received w)"
      by (simp add: up_ok_def app_firmware_update_is_active_def app_firmware_update_total_size_def
          app_firmware_update_received_def)
    have z: "\<not> length bs = 0" using False by simp
    show ?thesis unfolding eq if_not_P [OF z] if_not_P [OF g] using up by simp
  qed
qed

lemma post_finished_progress:
  assumes "up_ok m n w bs" "length bs < n" "n < 2 ^ 32"
    and "web_update_request web = \<lparr>req_valid = True, req_offset = off, req_size = k, req_received = k\<rparr>" "off + k = length bs"
  shows "\<exists>web'. http_step Post_finished (web, w) = Some (web', w)"
proof -
  have "ota_active w" "ota_received w = length bs" "ota_content_len w = n" using assms(1) by (simp_all add: up_ok_def)
  then show ?thesis using assms(2-5)
    by (simp add: httpd_post_finished_def Let_def app_firmware_update_is_active_def app_firmware_update_received_def
        app_firmware_update_total_size_def add32_id)
qed

lemma post_finished_complete:
  assumes "up_ok m n w bs" "complete_upload n bs" "4096 \<le> n" "n < 2 ^ 32" "\<forall>k. exec_ok (ota_flash w) k"
    and "web_update_request web = \<lparr>req_valid = True, req_offset = off, req_size = k, req_received = k\<rparr>" "off + k = length bs"
  shows "\<exists>web' w'. http_step Post_finished (web, w) = Some (web', w') \<and> mem (ota_flash w') = uploaded_mem m bs \<and>
    web_save_status web' = ''Update uploaded. Reboot to apply firmware.''"
proof -
  have a: "ota_active w" "ota_received w = length bs" "ota_content_len w = n" "length bs = n"
    using assms(1,2) by (simp_all add: up_ok_def complete_upload_def)
  obtain w' where w': "app_firmware_update_finish w = Some (w', APP_FIRMWARE_UPDATE_OK)" "mem (ota_flash w') = uploaded_mem m bs"
    using finish_spec [OF assms(1,3)] assms(2,5) by (auto split: if_splits)
  then show ?thesis using a assms(4,6,7)
    by (simp add: httpd_post_finished_def Let_def app_firmware_update_is_active_def app_firmware_update_received_def
        app_firmware_update_total_size_def add32_id app_web_set_save_status_def APP_WEB_SAVE_STATUS_MAX_LEN_def)
qed


lemma slices_Cons: "bs \<noteq> [] \<Longrightarrow> slices 4096 bs = take 4096 bs # slices 4096 (drop 4096 bs)"
  by (subst slices.simps) simp

lemma slices_Nil [simp]: "slices n [] = []"
  by (subst slices.simps) simp

lemma web_upload_from:
  assumes "file = bs @ rest" "rest \<noteq> []" "complete_upload n file" "List.map concat posts = slices 4096 rest"
    and "if bs = [] then flash_laws (ota_flash w) \<and> mem (ota_flash w) = m else up_ok m n w bs"
    and "\<forall>k. exec_ok (ota_flash w) k"
  shows "\<exists>web' w'. http_run (upload_requests n (length bs) posts) (web, w) = Some (web', w') \<and>
    mem (ota_flash w') = uploaded_mem m file \<and> web_save_status web' = ''Update uploaded. Reboot to apply firmware.''"
  using assms
proof (induction posts arbitrary: bs rest web w)
  case Nil
  then show ?case by (simp add: slices_Cons)
next
  case (Cons packets posts)
  let ?p = "take 4096 rest"
  have p: "concat packets = ?p" "List.map concat posts = slices 4096 (drop 4096 rest)"
    using Cons.prems(2,4) by (simp_all add: slices_Cons)
  have n: "length file = n" "4096 \<le> n" "n \<le> 4096 + 917504"
  proof -
    obtain mf where "app_firmware_update_manifest_is_valid (take 4096 file) n = Some mf"
      using Cons.prems(3) by (auto simp: complete_upload_def valid_upload_def)
    from manifest_valid_size [OF this] show "length file = n" "4096 \<le> n" "n \<le> 4096 + 917504"
      using Cons.prems(3) by (auto simp: complete_upload_def)
  qed
  obtain web1 w1 where b: "http_step (Post_begin (update_uri (length bs) n) (int (length ?p))) (web, w) = Some (web1, w1)"
    "up_ok m n w1 bs" "same_driver (ota_flash w) (ota_flash w1)"
    "web_update_request web1 = \<lparr>req_valid = True, req_offset = length bs, req_size = length ?p, req_received = 0\<rparr>"
    using post_begin_accepted [OF Cons.prems(1,2) n Cons.prems(5)] by blast
  have ex1: "\<forall>k. exec_ok (ota_flash w1) k" using b(3) Cons.prems(6) by (simp add: same_driver_def)
  have app: "(bs @ concat packets) @ drop 4096 rest = file" using Cons.prems(1) p(1) by simp
  have "acceptable n (ota_flash w1) file" using acceptable_complete [OF Cons.prems(3) ex1] .
  then have acc: "acceptable n (ota_flash w1) (bs @ concat packets)"
    using acceptable_append [of n "ota_flash w1" "bs @ concat packets" "drop 4096 rest"] unfolding app by blast
  have v: "req_valid (web_update_request web1)" "req_received (web_update_request web1) + length (concat packets) < 2 ^ 32"
    using b(4) p(1) by simp_all
  let ?web = "count_received (length (concat packets)) web1"
  obtain w2 where d: "http_run (List.map (\<lambda>p. Post_data (Some p)) packets) (web1, w1) = Some (?web, w2)"
    "up_ok m n w2 (bs @ concat packets)" "same_driver (ota_flash w1) (ota_flash w2)"
    using post_packets [OF b(2) v(1) acc v(2)] by blast
  have ex2: "\<forall>k. exec_ok (ota_flash w2) k" using d(3) ex1 by (simp add: same_driver_def)
  have req: "web_update_request ?web = \<lparr>req_valid = True, req_offset = length bs, req_size = length ?p, req_received = length ?p\<rparr>"
    using b(4) p(1) by (simp add: add32_id)
  have off: "length bs + length ?p = length (bs @ concat packets)" using p(1) by simp
  have run: "http_run (upload_requests n (length bs) (packets # posts)) (web, w) =
      Option.bind (http_step Post_finished (?web, w2)) (http_run (upload_requests n (length (bs @ concat packets)) posts))"
    using b(1) d(1) p(1) by (simp add: http_run_append)
  have n32: "n < 2 ^ 32" using n(3) by simp
  show ?case
  proof (cases "drop 4096 rest = []")
    case True
    then have f: "bs @ concat packets = file" using app by simp
    then have "posts = []" using p(2) True by simp
    then show ?thesis
      using run post_finished_complete [OF d(2) _ n(2) n32 ex2 req off] Cons.prems(3) unfolding f by auto
  next
    case False
    then have l: "length (bs @ concat packets) < n" using n(1) by (metis app length_append length_greater_0_conv less_add_same_cancel1)
    obtain web3 where f: "http_step Post_finished (?web, w2) = Some (web3, w2)"
      using post_finished_progress [OF d(2) l n32 req off] by blast
    have ne: "bs @ concat packets \<noteq> []" using Cons.prems(2) p(1) by simp
    have "if bs @ concat packets = [] then flash_laws (ota_flash w2) \<and> mem (ota_flash w2) = m
        else up_ok m n w2 (bs @ concat packets)" using ne d(2) by (simp only: if_False)
    from Cons.IH [OF app [symmetric] False Cons.prems(3) p(2) this ex2, of web3]
    show ?thesis unfolding run f Option.bind.simps .
  qed
qed

text \<open>
  C4: the upload of a valid OTA file by the script of the settings page, in requests of 4096 bytes that may
  arrive in any packets, leaves the file in the flash, ready for the bootloader, and reports so.
\<close>

theorem web_update_upload:
  assumes "flash_laws (ota_flash w)" and "\<forall>k. exec_ok (ota_flash w) k"
    and "valid_upload (length file) file" and "List.map concat posts = slices 4096 file"
  shows "\<exists>web' w'. http_run (upload_requests (length file) 0 posts) (web, w) = Some (web', w') \<and>
    mem (ota_flash w') = uploaded_mem (mem (ota_flash w)) file \<and>
    web_save_status web' = ''Update uploaded. Reboot to apply firmware.''"
proof -
  have c: "complete_upload (length file) file" using assms(3) by (simp add: complete_upload_def)
  have "file \<noteq> []" using assms(3) manifest_valid_size by (fastforce simp: valid_upload_def)
  then show ?thesis
    using web_upload_from [where bs = "[]" and rest = "file" and n = "length file" and m = "mem (ota_flash w)" and w = w]
      c assms(1,2,4) by simp
qed


text \<open>The static variables of the web server after a reset.\<close>

definition web_boot :: app_web where
  "web_boot = \<lparr>web_next_config = app_config_defaults, web_cpu_load_percent = 0, web_narodmon_seconds_remaining = 0,
     web_save_status_valid = False, web_save_status = '''', web_reboot_pending = False, web_reboot_deadline_ms = 0,
     web_update_request = no_request\<rparr>"


theorem web_update_upload_witness:
  "\<exists>web' w'. http_run (upload_requests 4098 0
       [[take 100 (package_header [1, 2] 7), [], drop 100 (package_header [1, 2] 7)], [[1], [2]]])
     (web_boot, ota_boot (nor_flash (\<lambda>a. 0) (\<lambda>k. True))) = Some (web', w') \<and>
     web_save_status web' = ''Update uploaded. Reboot to apply firmware.''"
proof -
  let ?file = "ota_package [1, 2] 7" and ?w = "ota_boot (nor_flash (\<lambda>a. 0) (\<lambda>k. True))"
  let ?posts = "[[take 100 (package_header [1, 2] 7), [], drop 100 (package_header [1, 2] 7)], [[1], [2]]]"
  have c: "length ?file = 4098" "valid_upload (length ?file) ?file"
    using package_complete [of "[1, 2]" 7] by (simp_all add: complete_upload_def)
  have ne: "?file \<noteq> []" using c(1) by force
  have "slices 4096 ?file = [package_header [1, 2] 7, [1, 2]]"
    unfolding slices_Cons [OF ne] take_package by (subst slices_Cons) simp_all
  then have "List.map concat ?posts = slices 4096 ?file" by simp
  then show ?thesis
    using web_update_upload [of ?w ?file ?posts web_boot] c unfolding c(1) by auto
qed

text \<open>
  The record of the request in progress belongs to no connection: a POST to any other address empties
  it, and what then arrives of the upload is dropped without a message.
\<close>

theorem web_post_drops_upload:
  assumes "\<not> app_web_uri_path_equals uri APP_WEB_OTA_URI"
  shows "http_run (Post_begin uri n # List.map Post_data ps @ [Post_finished]) (web, w) =
    Some (web\<lparr>web_update_request := no_request\<rparr>, w)"
proof -
  let ?st = "(web\<lparr>web_update_request := no_request\<rparr>, w)"
  have "post_data_loop rest ?st = Some ?st" for rest
    by (subst post_data_loop.simps) (simp add: no_request_def)
  then have "http_run (List.map Post_data ps) ?st = Some ?st"
    by (induction ps) (auto simp: httpd_post_receive_data_def split: option.split)
  then show ?thesis using assms
    by (simp add: httpd_post_begin_def Let_def http_run_append httpd_post_finished_def no_request_def)
qed

theorem web_post_drops_upload_witness:
  "http_run [Post_begin ''/updates'' 3, Post_data (Some [1, 2, 3]), Post_finished]
     (web_boot\<lparr>web_update_request := \<lparr>req_valid = True, req_offset = 4096, req_size = 100, req_received = 40\<rparr>\<rparr>,
      ota_boot (nor_flash (\<lambda>a. 0) (\<lambda>k. True))) =
   Some (web_boot\<lparr>web_update_request := no_request\<rparr>, ota_boot (nor_flash (\<lambda>a. 0) (\<lambda>k. True)))"
  using web_post_drops_upload [of "''/updates''" 3 "[Some [1, 2, 3]]"
      "web_boot\<lparr>web_update_request := \<lparr>req_valid = True, req_offset = 4096, req_size = 100, req_received = 40\<rparr>\<rparr>"]
  by (simp add: app_web_uri_path_equals_def APP_WEB_OTA_URI_def)

end
