(* ===== verification/C_Float.thy ===== *)
theory C_Float
  imports Complex_Main C_Text
begin

text \<open>
  Single-precision arithmetic as the firmware uses it: a finite \<^verbatim>\<open>float\<close> is the rational number it
  stands for, and every operation rounds the exact result to 24 significant bits, ties to even, with
  the smallest step \<open>2\<^sup>-\<^sup>1\<^sup>4\<^sup>9\<close>.  Overflow to infinity is out of reach of the values the firmware adds
  (at most 2048 values below \<open>2\<^sup>1\<^sup>6\<close>), and is not modelled.
\<close>

type_synonym f32 = rat

subsection \<open>Rounding\<close>

text \<open>To the nearest integer, ties to even.\<close>

definition round_even :: "rat \<Rightarrow> int" where
  "round_even y =
     (let f = floor y; d = y - of_int f
      in if d < 1 / 2 then f else if d > 1 / 2 then f + 1 else if even f then f else f + 1)"

fun ilog2 :: "nat \<Rightarrow> nat" where
  "ilog2 n = (if n < 2 then 0 else Suc (ilog2 (n div 2)))"

declare ilog2.simps [simp del]

definition pow2 :: "int \<Rightarrow> rat" where
  "pow2 e = (if 0 \<le> e then 2 ^ nat e else 1 / 2 ^ nat (- e))"

text \<open>The exponent \<open>e\<close> with \<open>2\<^sup>e \<le> |x| < 2\<^sup>e\<^sup>+\<^sup>1\<close>.\<close>

definition exponent :: "rat \<Rightarrow> int" where
  "exponent x =
     (let (p, q) = quotient_of \<bar>x\<bar>; e = int (ilog2 (nat p)) - int (ilog2 (nat q))
      in if pow2 e \<le> \<bar>x\<bar> then e else e - 1)"

definition quantum :: "rat \<Rightarrow> rat" where
  "quantum x = pow2 (max (exponent x - 23) (-149))"

definition f32_round :: "rat \<Rightarrow> f32" where
  "f32_round x = (if x = 0 then 0 else of_int (round_even (x / quantum x)) * quantum x)"

definition f32_add :: "f32 \<Rightarrow> f32 \<Rightarrow> f32" where "f32_add x y = f32_round (x + y)"
definition f32_mul :: "f32 \<Rightarrow> f32 \<Rightarrow> f32" where "f32_mul x y = f32_round (x * y)"
definition f32_div :: "f32 \<Rightarrow> f32 \<Rightarrow> f32" where "f32_div x y = f32_round (x / y)"
definition f32_of_int :: "int \<Rightarrow> f32" where "f32_of_int i = f32_round (of_int i)"

subsection \<open>Rounding integers is exact below \<open>2\<^sup>2\<^sup>4\<close>\<close>

lemma round_even_int [simp]: "round_even (of_int i) = i"
  by (simp add: round_even_def)

lemma ilog2_bounds: "0 < n \<Longrightarrow> 2 ^ ilog2 n \<le> n \<and> n < 2 ^ Suc (ilog2 n)"
proof (induction n rule: ilog2.induct)
  case (1 n)
  show ?case
  proof (cases "n < 2")
    case True
    then show ?thesis using "1.prems" by (subst (1 2) ilog2.simps) auto
  next
    case False
    then have "0 < n div 2" by simp
    with "1.IH" False have "2 ^ ilog2 (n div 2) \<le> n div 2 \<and> n div 2 < 2 ^ Suc (ilog2 (n div 2))" by simp
    then have "2 * 2 ^ ilog2 (n div 2) \<le> n \<and> n < 2 * 2 ^ Suc (ilog2 (n div 2))" by linarith
    then show ?thesis using False by (subst (1 2) ilog2.simps) simp
  qed
qed

lemma ilog2_less: "n < 2 ^ k \<Longrightarrow> 0 < k \<Longrightarrow> ilog2 n < k"
proof (cases "n = 0")
  case False
  assume "n < 2 ^ k"
  then have "2 ^ ilog2 n < (2 :: nat) ^ k" using ilog2_bounds [of n] False by linarith
  then show ?thesis by (simp add: power_strict_increasing_iff)
qed (simp add: ilog2.simps)

lemma quotient_of_int_abs: "quotient_of \<bar>of_int i :: rat\<bar> = (\<bar>i\<bar>, 1)"
  by (simp only: of_int_abs [symmetric] quotient_of_rat_of_int)

lemma exponent_int:
  assumes "i \<noteq> 0" "\<bar>i\<bar> < 2 ^ k" "0 < k"
  shows "exponent (of_int i) < int k \<and> 0 \<le> exponent (of_int i)"
proof -
  let ?n = "nat \<bar>i\<bar>"
  have n: "0 < ?n" using assms(1) by simp
  have "int ?n < int (2 ^ k)" using assms(2) by simp
  then have "?n < 2 ^ k" by linarith
  then have l: "ilog2 ?n < k" using assms(3) by (rule ilog2_less)
  have "int (2 ^ ilog2 ?n) \<le> int ?n" using ilog2_bounds [OF n] by linarith
  then have "2 ^ ilog2 ?n \<le> \<bar>i\<bar>" by simp
  then have "(of_int (2 ^ ilog2 ?n) :: rat) \<le> of_int \<bar>i\<bar>" by (rule of_int_le_iff [THEN iffD2])
  then have "pow2 (int (ilog2 ?n)) \<le> \<bar>of_int i :: rat\<bar>" by (simp add: pow2_def)
  moreover have "ilog2 1 = 0" by (simp add: ilog2.simps)
  ultimately have "exponent (of_int i) = int (ilog2 ?n)"
    by (simp add: exponent_def quotient_of_int_abs)
  then show ?thesis using l by simp
qed

lemma f32_round_int:
  assumes "\<bar>i\<bar> < 2 ^ 24"
  shows "f32_round (of_int i) = of_int i"
proof (cases "i = 0")
  case False
  have e: "exponent (of_int i) < 24" "0 \<le> exponent (of_int i)"
    using exponent_int [OF False assms] by simp_all
  let ?d = "nat (23 - exponent (of_int i))"
  have q: "quantum (of_int i) = 1 / 2 ^ ?d"
    using e by (cases "exponent (of_int i) = 23") (simp_all add: quantum_def pow2_def max_def)
  have "of_int i / quantum (of_int i) = of_int (i * 2 ^ ?d)" by (simp add: q)
  then have "round_even (of_int i / quantum (of_int i)) = i * 2 ^ ?d" by (simp only: round_even_int)
  then show ?thesis using False by (simp add: f32_round_def q)
qed (simp add: f32_round_def)

lemma f32_round_nat: "n < 2 ^ 24 \<Longrightarrow> f32_round (of_nat n) = of_nat n"
  using f32_round_int [of "int n"] by simp

lemma f32_add_nat: "m + n < 2 ^ 24 \<Longrightarrow> f32_add (of_nat m) (of_nat n) = of_nat (m + n)"
  using f32_round_nat [of "m + n"] by (simp add: f32_add_def)

subsection \<open>Rounding is monotone\<close>

lemma round_even_bounds: "of_int (round_even y) \<le> y + 1 / 2 \<and> y - 1 / 2 \<le> of_int (round_even y)"
proof -
  define f where "f = floor y"
  have f: "of_int f \<le> y" "y < of_int f + 1" unfolding f_def by linarith+
  have "round_even y = (if y - of_int f < 1 / 2 then f else if y - of_int f > 1 / 2 then f + 1
      else if even f then f else f + 1)" by (simp add: round_even_def Let_def f_def)
  moreover have "(of_int (f + 1) :: rat) = of_int f + 1" by simp
  ultimately consider "of_int (round_even y) = (of_int f :: rat)" "y - of_int f \<le> 1 / 2"
    | "of_int (round_even y) = (of_int f + 1 :: rat)" "1 / 2 \<le> y - of_int f"
    by (cases "y - of_int f < 1 / 2"; cases "y - of_int f > 1 / 2"; cases "even f") auto
  then show ?thesis by cases (use f in linarith)+
qed

subsection \<open>\<^verbatim>\<open>%.df\<close>\<close>

definition show_fixed :: "nat \<Rightarrow> rat \<Rightarrow> string" where
  "show_fixed d x =
     (let n = nat (round_even (\<bar>x\<bar> * 10 ^ d))
      in (if x < 0 then ''-'' else '''') @ show_nat (n div 10 ^ d) @ ''.'' @ show_pad d (n mod 10 ^ d))"

lemma length_show_fixed:
  assumes "\<bar>x\<bar> * 10 ^ d + 1 / 2 < 10 ^ (d + k)" "0 < d" "0 < k"
  shows "length (show_fixed d x) \<le> (if x < 0 then 1 else 0) + k + 1 + d"
proof -
  define n where "n = nat (round_even (\<bar>x\<bar> * 10 ^ d))"
  have "of_int (round_even (\<bar>x\<bar> * 10 ^ d)) < (10 ^ (d + k) :: rat)"
    using round_even_bounds [of "\<bar>x\<bar> * 10 ^ d"] assms(1) by linarith
  then have "of_int (round_even (\<bar>x\<bar> * 10 ^ d)) < (of_int (10 ^ (d + k)) :: rat)" by (simp only: of_int_power of_int_numeral)
  then have "round_even (\<bar>x\<bar> * 10 ^ d) < 10 ^ (d + k)" by (simp only: of_int_less_iff)
  then have "n < 10 ^ (d + k)" by (simp add: n_def nat_less_iff)
  then have "n div 10 ^ d < 10 ^ k" by (simp add: less_mult_imp_div_less power_add mult.commute)
  then have "length (show_nat (n div 10 ^ d)) \<le> k" using assms(3) by (rule length_show_nat_le)
  moreover have "length (show_pad d (n mod 10 ^ d)) = d" using assms(2) by (intro length_show_pad) simp_all
  ultimately show ?thesis by (simp add: show_fixed_def Let_def n_def [symmetric])
qed

end
