(* ===== verification/App_Text.thy ===== *)
theory App_Text
  imports C_Text
begin

text \<open>
  \<^verbatim>\<open>app_text.c\<close>: the JSON escaping of the strings the web interface prints and the decoding of
  URL-encoded parameters.
\<close>

subsection \<open>JSON escaping\<close>

text \<open>
  The loop of \<^verbatim>\<open>app_text_json_escape\<close>: \<open>out\<close> is the text written so far, so \<^verbatim>\<open>written\<close> is its
  length.
\<close>

fun json_escape_loop :: "nat \<Rightarrow> string \<Rightarrow> string \<Rightarrow> string" where
  "json_escape_loop dst_size out [] = out"
| "json_escape_loop dst_size out (ch # src) =
     (if length out + 1 < dst_size then
        (if (ch = CHR 0x5C \<or> ch = CHR 0x22) \<and> length out + 2 < dst_size
         then json_escape_loop dst_size (out @ [CHR 0x5C, ch]) src
         else if 0x20 \<le> code ch
         then json_escape_loop dst_size (out @ [ch]) src
         else json_escape_loop dst_size out src)
      else out)"

definition app_text_json_escape :: "nat \<Rightarrow> string option \<Rightarrow> string" where
  "app_text_json_escape dst_size src =
     (case src of None \<Rightarrow> [] | Some s \<Rightarrow> json_escape_loop dst_size [] s)"

subsection \<open>URL decoding\<close>

definition app_text_hex_value :: "char \<Rightarrow> int" where
  "app_text_hex_value ch =
     (if 48 \<le> code ch \<and> code ch \<le> 57 then int (code ch) - 48
      else if 97 \<le> code ch \<and> code ch \<le> 102 then 10 + (int (code ch) - 97)
      else if 65 \<le> code ch \<and> code ch \<le> 70 then 10 + (int (code ch) - 65)
      else -1)"

fun url_decode_bytes :: "string \<Rightarrow> string" where
  "url_decode_bytes [] = []"
| "url_decode_bytes (c # src) =
     (if c = CHR ''+'' then CHR '' '' # url_decode_bytes src
      else if c = CHR ''%'' then
        (case src of
           h # l # rest \<Rightarrow>
             (if 0 \<le> app_text_hex_value h \<and> 0 \<le> app_text_hex_value l
              then char_of (nat (16 * app_text_hex_value h + app_text_hex_value l)) # url_decode_bytes rest
              else c # url_decode_bytes src)
         | _ \<Rightarrow> c # url_decode_bytes src)
      else c # url_decode_bytes src)"

text \<open>
  A decoded \<^verbatim>\<open>%00\<close> is a NUL in the buffer, so the string the caller sees ends there.
\<close>

definition app_text_url_decode :: "string \<Rightarrow> string" where
  "app_text_url_decode text = takeWhile (\<lambda>c. c \<noteq> NUL) (url_decode_bytes text)"

subsection \<open>What escaping guarantees\<close>

text \<open>
  The escaping a JSON string body needs, character by character, and the reader's side: the
  string a body denotes, \<open>None\<close> for a body that a JSON reader cuts short or refuses.
\<close>

definition json_escape_char :: "char \<Rightarrow> string" where
  "json_escape_char ch =
     (if ch = CHR 0x5C \<or> ch = CHR 0x22 then [CHR 0x5C, ch]
      else if 0x20 \<le> code ch then [ch] else [])"

fun json_unescape :: "string \<Rightarrow> string option" where
  "json_unescape [] = Some []"
| "json_unescape (c # rest) =
     (if c = CHR 0x22 \<or> code c < 0x20 then None
      else if c = CHR 0x5C then
        (case rest of
           d # rest' \<Rightarrow>
             (if d = CHR 0x5C \<or> d = CHR 0x22 then map_option (Cons d) (json_unescape rest') else None)
         | [] \<Rightarrow> None)
      else map_option (Cons c) (json_unescape rest))"

lemma length_json_escape_loop:
  "length out < n \<Longrightarrow> length (json_escape_loop n out src) < n"
  by (induction n out src rule: json_escape_loop.induct) auto

lemma json_escape_loop_complete:
  "length out + 2 * length src < n \<Longrightarrow>
   json_escape_loop n out src = out @ concat (map json_escape_char src)"
proof (induction src arbitrary: out)
  case Nil
  then show ?case by simp
next
  case (Cons c src)
  then show ?case by (simp add: json_escape_char_def)
qed

lemma json_unescape_escape:
  "json_unescape (concat (map json_escape_char s)) = Some (filter (\<lambda>c. 0x20 \<le> code c) s)"
  by (induction s) (auto simp: json_escape_char_def)

subsection \<open>URL encodings and their decoding\<close>

text \<open>
  The encodings a browser may send for a string: a character as itself, a blank as a plus sign, any
  byte as a percent sign and two hexadecimal digits of either case.
\<close>

inductive url_encodes :: "string \<Rightarrow> string \<Rightarrow> bool" where
  empty: "url_encodes [] []"
| plain: "url_encodes s t \<Longrightarrow> c \<noteq> CHR ''+'' \<Longrightarrow> c \<noteq> CHR ''%'' \<Longrightarrow> url_encodes (c # s) (c # t)"
| plus: "url_encodes s t \<Longrightarrow> url_encodes (CHR '' '' # s) (CHR ''+'' # t)"
| percent: "url_encodes s t \<Longrightarrow> 0 \<le> app_text_hex_value h \<Longrightarrow> 0 \<le> app_text_hex_value l \<Longrightarrow>
     c = char_of (nat (16 * app_text_hex_value h + app_text_hex_value l)) \<Longrightarrow>
     url_encodes (c # s) (CHR ''%'' # h # l # t)"

lemma url_decode_encoded: "url_encodes s t \<Longrightarrow> url_decode_bytes t = s"
  by (induction rule: url_encodes.induct) auto

lemma length_url_decode_bytes: "length (url_decode_bytes t) \<le> length t"
proof (induction t rule: length_induct)
  case (1 t)
  show ?case
  proof (cases t)
    case Nil
    then show ?thesis by simp
  next
    case (Cons c src)
    have IH: "length u < length t \<Longrightarrow> length (url_decode_bytes u) \<le> length u" for u
      using 1 by blast
    have "length (url_decode_bytes (c # src)) \<le> length (c # src)"
      using IH [of src] IH [of "tl (tl src)"] Cons
      by (subst url_decode_bytes.simps(2)) (auto simp del: url_decode_bytes.simps split: list.splits)
    then show ?thesis using Cons by simp
  qed
qed

lemma length_url_decode: "length (app_text_url_decode t) \<le> length t"
  unfolding app_text_url_decode_def
  using length_takeWhile_le [of "\<lambda>c. c \<noteq> NUL" "url_decode_bytes t"] length_url_decode_bytes [of t]
  by linarith

lemma url_decode_plain:
  "CHR ''%'' \<notin> set t \<Longrightarrow> CHR ''+'' \<notin> set t \<Longrightarrow> NUL \<notin> set t \<Longrightarrow> app_text_url_decode t = t"
proof -
  assume *: "CHR ''%'' \<notin> set t" "CHR ''+'' \<notin> set t" "NUL \<notin> set t"
  then have "url_encodes t t" by (induction t) (auto intro: url_encodes.intros)
  then have "url_decode_bytes t = t" by (rule url_decode_encoded)
  with * show ?thesis by (auto simp: app_text_url_decode_def takeWhile_eq_all_conv)
qed

subsection \<open>Properties\<close>

text \<open>
  A string escaped into a buffer of more than twice its length is a well-formed JSON string
  body that denotes the string without its control characters: nothing in a sensor name or a
  setting can break out of its JSON string.
\<close>

theorem json_escape_roundtrip:
  assumes "2 * length s < dst_size"
  shows "json_unescape (app_text_json_escape dst_size (Some s)) = Some (filter (\<lambda>c. 0x20 \<le> code c) s)
    \<and> length (app_text_json_escape dst_size (Some s)) < dst_size"
  using assms json_escape_loop_complete [of "[]" s dst_size] length_json_escape_loop [of "[]" dst_size s]
  by (simp add: app_text_json_escape_def json_unescape_escape)

theorem json_escape_roundtrip_witness:
  "json_unescape (app_text_json_escape 10 (Some [CHR ''a'', CHR 0x22, CHR 0x07, CHR 0x5C]))
   = Some [CHR ''a'', CHR 0x22, CHR 0x5C]"
  using json_escape_roundtrip [of "[CHR ''a'', CHR 0x22, CHR 0x07, CHR 0x5C]" 10] by simp

text \<open>
  At the edge of a smaller buffer the escaping fails: whatever the size of the buffer, a
  quote that meets a buffer with room for one character only is written without its backslash, and
  the result is not a JSON string body.
\<close>

theorem json_escape_edge_unescaped:
  "json_unescape (app_text_json_escape (m + 2) (Some (replicate m (CHR ''a'') @ [CHR 0x22]))) = None"
proof -
  have fill: "json_escape_loop (k + j + 2) (replicate k (CHR ''a'')) (replicate j (CHR ''a'') @ [CHR 0x22])
      = replicate (k + j) (CHR ''a'') @ [CHR 0x22]" for k j
  proof (induction j arbitrary: k)
    case 0
    then show ?case by simp
  next
    case (Suc j)
    then show ?case using Suc [of "Suc k"] by (simp add: replicate_append_same)
  qed
  have bad: "json_unescape (replicate j (CHR ''a'') @ [CHR 0x22]) = None" for j
    by (induction j) auto
  from fill [of 0 m] bad [of m] show ?thesis by (simp add: app_text_json_escape_def)
qed

text \<open>
  Decoding inverts every URL encoding of a string without NUL, and the decoded text is never
  longer than the encoded one, so decoding in place stays inside the buffer.
\<close>

theorem url_decode_roundtrip:
  assumes "url_encodes s t" and "NUL \<notin> set s"
  shows "app_text_url_decode t = s \<and> length s \<le> length t"
proof -
  from assms(1) have "url_decode_bytes t = s" by (rule url_decode_encoded)
  moreover from this have "length s \<le> length t" using length_url_decode_bytes [of t] by simp
  ultimately show ?thesis using assms(2)
    by (auto simp: app_text_url_decode_def takeWhile_eq_all_conv)
qed

theorem url_decode_roundtrip_witness:
  "app_text_url_decode ''a+%2b%2F'' = ''a +/''"
proof -
  have "url_encodes ''a +/'' ''a+%2b%2F''"
    by (intro url_encodes.intros) (simp_all add: app_text_hex_value_def code_eq_iff)
  from url_decode_roundtrip [OF this] show ?thesis by (simp add: NUL_def)
qed

end
