(* ===== verification/Measurement_Store.thy ===== *)
theory Measurement_Store
  imports C_Float App_Text App_Config
begin

text \<open>
  \<^verbatim>\<open>measurement_store.c\<close>: the table of the latest measurements, its ageing and its limits, the view of
  averages rebuilt from it, and the two texts made from the view (the JSON rows of the web interface
  and the narodmon.ru report).
\<close>

subsection \<open>Data\<close>

datatype measurement_field =
    MEASUREMENT_FIELD_NONE
  | MEASUREMENT_FIELD_BATTERY
  | MEASUREMENT_FIELD_TEMPERATURE
  | MEASUREMENT_FIELD_HUMIDITY
  | MEASUREMENT_FIELD_1WIRE_TEMPERATURE

definition MEASUREMENT_STORE_TABLE_SIZE :: nat where "MEASUREMENT_STORE_TABLE_SIZE = 2048"
definition MEASUREMENT_STORE_VIEW_SIZE :: nat where "MEASUREMENT_STORE_VIEW_SIZE = 150"
definition MEASUREMENT_STORE_RETENTION_DEFAULT_MS :: u32 where
  "MEASUREMENT_STORE_RETENTION_DEFAULT_MS = of_nat APP_CONFIG_MEASUREMENT_RETENTION_DEFAULT_SECONDS * 1000"
definition MEASUREMENT_STORE_REVISION_INTERVAL_MS :: u32 where "MEASUREMENT_STORE_REVISION_INTERVAL_MS = 1000"

record measurement_entry =
  me_device_id :: u32
  me_field_type :: measurement_field
  me_value :: f32
  me_timestamp_ms :: u32

record measurement_view_entry =
  mv_in_use :: bool
  mv_device_id :: u32
  mv_field_type :: measurement_field
  mv_average_value :: f32
  mv_sample_count :: nat

record measurement_accumulator =
  ac_sum_value :: f32
  ac_sample_count :: nat

record measurement_store =
  ms_table :: "measurement_entry list"
  ms_view :: "measurement_view_entry list"
  ms_retention_ms :: u32
  ms_max_count :: nat
  ms_last_revision_ms :: u32

definition empty_entry :: measurement_entry where
  "empty_entry = \<lparr>me_device_id = 0, me_field_type = MEASUREMENT_FIELD_NONE, me_value = 0, me_timestamp_ms = 0\<rparr>"

definition empty_view_entry :: measurement_view_entry where
  "empty_view_entry = \<lparr>mv_in_use = False, mv_device_id = 0, mv_field_type = MEASUREMENT_FIELD_NONE,
     mv_average_value = 0, mv_sample_count = 0\<rparr>"

definition measurement_device_id_to_display :: "u32 \<Rightarrow> nat" where
  "measurement_device_id_to_display device_id = unat device_id mod 1000000"

fun measurement_field_name :: "measurement_field \<Rightarrow> string" where
  "measurement_field_name MEASUREMENT_FIELD_BATTERY = ''battery''"
| "measurement_field_name MEASUREMENT_FIELD_TEMPERATURE = ''temperature''"
| "measurement_field_name MEASUREMENT_FIELD_1WIRE_TEMPERATURE = ''1wire_temperature''"
| "measurement_field_name MEASUREMENT_FIELD_HUMIDITY = ''humidity''"
| "measurement_field_name MEASUREMENT_FIELD_NONE = ''unknown''"

subsection \<open>The table\<close>

definition live :: "measurement_entry \<Rightarrow> bool" where
  "live e = (me_field_type e \<noteq> MEASUREMENT_FIELD_NONE)"

definition freed :: "measurement_entry \<Rightarrow> measurement_entry" where
  "freed e = e\<lparr>me_field_type := MEASUREMENT_FIELD_NONE\<rparr>"

text \<open>One pass of the loop of \<^verbatim>\<open>measurement_table_prune\<close> over the table, with the number of free slots.\<close>

fun measurement_table_prune :: "u32 \<Rightarrow> u32 \<Rightarrow> measurement_entry list \<Rightarrow> measurement_entry list \<times> nat" where
  "measurement_table_prune now_ms retention_ms [] = ([], 0)"
| "measurement_table_prune now_ms retention_ms (e # es) =
     (case measurement_table_prune now_ms retention_ms es of
        (es', free_count) \<Rightarrow>
          if \<not> live e then (e # es', Suc free_count)
          else if age_ms now_ms (me_timestamp_ms e) > retention_ms then (freed e # es', Suc free_count)
          else (e # es', free_count))"

definition in_series :: "u32 \<Rightarrow> measurement_field \<Rightarrow> measurement_entry \<Rightarrow> bool" where
  "in_series device_id field_type e = (me_device_id e = device_id \<and> me_field_type e = field_type)"

definition measurement_find_oldest ::
  "u32 \<Rightarrow> u32 \<Rightarrow> measurement_field \<Rightarrow> bool \<Rightarrow> measurement_entry list \<Rightarrow> nat option" where
  "measurement_find_oldest now_ms device_id field_type filter_series table =
     scan_oldest (\<lambda>e. live e \<and> \<not> (filter_series \<and> (me_device_id e \<noteq> device_id \<or> me_field_type e \<noteq> field_type)))
       (\<lambda>e. age_ms now_ms (me_timestamp_ms e)) 0 None table"

definition measurement_find_free_slot :: "measurement_entry list \<Rightarrow> nat option" where
  "measurement_find_free_slot table = find_index (\<lambda>e. \<not> live e) table"

lemma series_shrinks:
  assumes "measurement_find_oldest now d f True table = Some i"
  shows "count_if (in_series d f) (table[i := freed (table ! i)]) < count_if (in_series d f) table"
proof -
  have i: "i < length table" "live (table ! i)" "in_series d f (table ! i)"
    using scan_oldest_Some [OF assms [unfolded measurement_find_oldest_def]] by (auto simp: in_series_def)
  then have "f \<noteq> MEASUREMENT_FIELD_NONE" by (auto simp: live_def in_series_def)
  then have "\<not> in_series d f (freed (table ! i))" by (simp add: in_series_def freed_def)
  then show ?thesis using count_if_update [OF i(1), of "in_series d f" "freed (table ! i)"] i(3) by simp
qed

text \<open>The loop \<^verbatim>\<open>while (true)\<close> that frees the oldest entry of a series until one more fits.\<close>

function enforce_limit_loop ::
  "u32 \<Rightarrow> u32 \<Rightarrow> measurement_field \<Rightarrow> nat \<Rightarrow> measurement_entry list \<Rightarrow> measurement_entry list" where
  "enforce_limit_loop now_ms device_id field_type max_count table =
     (if count_if (in_series device_id field_type) table < max_count then table
      else case measurement_find_oldest now_ms device_id field_type True table of
             None \<Rightarrow> table
           | Some oldest_index \<Rightarrow>
               enforce_limit_loop now_ms device_id field_type max_count
                 (table[oldest_index := freed (table ! oldest_index)]))"
  by pat_completeness auto
termination
  by (relation "measure (\<lambda>(now, d, f, m, table). count_if (in_series d f) table)") (simp_all add: series_shrinks)

declare enforce_limit_loop.simps [simp del]

definition measurement_enforce_series_limit ::
  "u32 \<Rightarrow> u32 \<Rightarrow> measurement_field \<Rightarrow> nat \<Rightarrow> measurement_entry list \<Rightarrow> measurement_entry list" where
  "measurement_enforce_series_limit now_ms device_id field_type max_count table =
     (if max_count = 0 then table else enforce_limit_loop now_ms device_id field_type max_count table)"

subsection \<open>The view\<close>

text \<open>The inner loop over the view: the row of the series, or else the first unused row.\<close>

fun view_slot :: "u32 \<Rightarrow> measurement_field \<Rightarrow> nat \<Rightarrow> nat option \<Rightarrow> measurement_view_entry list \<Rightarrow> nat option" where
  "view_slot device_id field_type j slot [] = slot"
| "view_slot device_id field_type j slot (v # vs) =
     (if \<not> mv_in_use v then view_slot device_id field_type (Suc j) (if slot = None then Some j else slot) vs
      else if mv_field_type v = field_type \<and> mv_device_id v = device_id then Some j
      else view_slot device_id field_type (Suc j) slot vs)"

fun view_add_entry ::
  "measurement_entry \<Rightarrow> measurement_view_entry list \<times> measurement_accumulator list
   \<Rightarrow> measurement_view_entry list \<times> measurement_accumulator list" where
  "view_add_entry e (view, acc) =
     (if \<not> live e then (view, acc) else
      case view_slot (me_device_id e) (me_field_type e) 0 None view of
        None \<Rightarrow> (view, acc)
      | Some slot \<Rightarrow>
          let view' = (if mv_in_use (view ! slot) then view
                       else view[slot := (view ! slot)\<lparr>mv_in_use := True, mv_device_id := me_device_id e,
                                                       mv_field_type := me_field_type e\<rparr>]);
              a = acc ! slot
          in (view', acc[slot := \<lparr>ac_sum_value = f32_add (ac_sum_value a) (me_value e),
                                  ac_sample_count = Suc (ac_sample_count a)\<rparr>]))"

definition view_finish :: "measurement_view_entry \<Rightarrow> measurement_accumulator \<Rightarrow> measurement_view_entry" where
  "view_finish v a =
     (if \<not> mv_in_use v \<or> ac_sample_count a = 0 then v\<lparr>mv_in_use := False\<rparr>
      else v\<lparr>mv_sample_count := ac_sample_count a mod 2 ^ 16,
             mv_average_value := f32_div (ac_sum_value a) (f32_of_int (int (ac_sample_count a)))\<rparr>)"

definition measurement_view_rebuild :: "measurement_store \<Rightarrow> measurement_store" where
  "measurement_view_rebuild s =
     (case foldl (\<lambda>va e. view_add_entry e va)
             (replicate MEASUREMENT_STORE_VIEW_SIZE empty_view_entry,
              replicate MEASUREMENT_STORE_VIEW_SIZE \<lparr>ac_sum_value = 0, ac_sample_count = 0\<rparr>) (ms_table s) of
        (view, acc) \<Rightarrow> s\<lparr>ms_view := List.map (\<lambda>(v, a). view_finish v a) (zip view acc)\<rparr>)"

definition measurement_revision :: "u32 \<Rightarrow> measurement_store \<Rightarrow> measurement_store" where
  "measurement_revision now_ms s =
     (let s1 = s\<lparr>ms_table := fst (measurement_table_prune now_ms (ms_retention_ms s) (ms_table s))\<rparr>
      in (measurement_view_rebuild s1)\<lparr>ms_last_revision_ms := now_ms\<rparr>)"

subsection \<open>The operations of the module\<close>

definition measurement_store_init :: "u32 \<Rightarrow> measurement_store" where
  "measurement_store_init now_ms =
     \<lparr>ms_table = replicate MEASUREMENT_STORE_TABLE_SIZE empty_entry,
      ms_view = replicate MEASUREMENT_STORE_VIEW_SIZE empty_view_entry,
      ms_retention_ms = MEASUREMENT_STORE_RETENTION_DEFAULT_MS,
      ms_max_count = APP_CONFIG_MEASUREMENT_MAX_COUNT_DEFAULT,
      ms_last_revision_ms = now_ms\<rparr>"

definition measurement_store_configure :: "nat \<Rightarrow> nat \<Rightarrow> measurement_store \<Rightarrow> measurement_store" where
  "measurement_store_configure retention_seconds max_measurements_per_series s =
     (let retention = clamp APP_CONFIG_MEASUREMENT_RETENTION_MIN_SECONDS
                        APP_CONFIG_MEASUREMENT_RETENTION_MAX_SECONDS retention_seconds;
          max_count = (if max_measurements_per_series > APP_CONFIG_MEASUREMENT_MAX_COUNT_MAX
                       then APP_CONFIG_MEASUREMENT_MAX_COUNT_MAX else max_measurements_per_series)
      in s\<lparr>ms_retention_ms := of_nat retention * 1000, ms_max_count := max_count\<rparr>)"

definition measurement_store_periodic :: "u32 \<Rightarrow> measurement_store \<Rightarrow> measurement_store" where
  "measurement_store_periodic now_ms s =
     (if now_ms - ms_last_revision_ms s \<ge> MEASUREMENT_STORE_REVISION_INTERVAL_MS
      then measurement_revision now_ms s else s)"

definition measurement_store_add ::
  "u32 \<Rightarrow> measurement_field \<Rightarrow> f32 \<Rightarrow> u32 \<Rightarrow> measurement_store \<Rightarrow> measurement_store \<times> bool" where
  "measurement_store_add device_id field_type value timestamp_ms s =
     (if field_type = MEASUREMENT_FIELD_NONE then (s, False) else
      let table1 = fst (measurement_table_prune timestamp_ms (ms_retention_ms s) (ms_table s));
          table2 = measurement_enforce_series_limit timestamp_ms device_id field_type (ms_max_count s) table1;
          entry = \<lparr>me_device_id = device_id, me_field_type = field_type, me_value = value, me_timestamp_ms = timestamp_ms\<rparr>
      in case measurement_find_free_slot table2 of
           Some free_index \<Rightarrow> (s\<lparr>ms_table := table2[free_index := entry]\<rparr>, True)
         | None \<Rightarrow>
             (case measurement_find_oldest timestamp_ms 0 MEASUREMENT_FIELD_NONE False table2 of
                None \<Rightarrow> (s\<lparr>ms_table := table2\<rparr>, False)
              | Some oldest_index \<Rightarrow> (s\<lparr>ms_table := table2[oldest_index := entry]\<rparr>, True)))"

type_synonym measurement_sample = "u32 \<times> measurement_field \<times> f32"

text \<open>The loop that copies the rows in use, at most \<open>capacity\<close> of them.\<close>

fun snapshot_rows :: "nat \<Rightarrow> measurement_view_entry list \<Rightarrow> measurement_sample list" where
  "snapshot_rows 0 vs = []"
| "snapshot_rows (Suc c) [] = []"
| "snapshot_rows (Suc c) (v # vs) =
     (if mv_in_use v then (mv_device_id v, mv_field_type v, mv_average_value v) # snapshot_rows c vs
      else snapshot_rows (Suc c) vs)"

definition measurement_store_snapshot ::
  "nat \<Rightarrow> u32 \<Rightarrow> measurement_store \<Rightarrow> measurement_store \<times> measurement_sample list" where
  "measurement_store_snapshot capacity now_ms s =
     (let s1 = measurement_revision now_ms s in (s1, snapshot_rows capacity (ms_view s1)))"

definition measurement_store_table_used :: "measurement_store \<Rightarrow> nat" where
  "measurement_store_table_used s = count_if live (ms_table s)"

definition measurement_store_table_capacity :: nat where
  "measurement_store_table_capacity = MEASUREMENT_STORE_TABLE_SIZE"

definition measurement_store_view_used :: "measurement_store \<Rightarrow> nat" where
  "measurement_store_view_used s = count_if mv_in_use (ms_view s)"

definition measurement_store_view_capacity :: nat where
  "measurement_store_view_capacity = MEASUREMENT_STORE_VIEW_SIZE"

subsection \<open>The JSON rows\<close>

definition measurement_json_row :: "runtime_config \<Rightarrow> bool \<Rightarrow> measurement_view_entry \<Rightarrow> string" where
  "measurement_json_row rc first v =
     (if first then '''' else '','') @ ''{\"id\":\"'' @ show_pad 6 (measurement_device_id_to_display (mv_device_id v)) @
     ''\",\"name\":\"'' @
     app_text_json_escape (APP_CONFIG_DEVICE_NAME_LEN * 2) (Some (app_runtime_config_get_sensor_name rc (mv_device_id v))) @
     ''\",\"field_type\":\"'' @ measurement_field_name (mv_field_type v) @
     ''\",\"average_value\":'' @ show_fixed 3 (mv_average_value v) @
     '',\"sample_count\":'' @ show_nat (mv_sample_count v) @ ''}''"

fun measurement_json_loop :: "runtime_config \<Rightarrow> nat \<Rightarrow> bool \<Rightarrow> string \<Rightarrow> measurement_view_entry list \<Rightarrow> string" where
  "measurement_json_loop rc insert_len first out [] = out"
| "measurement_json_loop rc insert_len first out (v # vs) =
     (if \<not> mv_in_use v then measurement_json_loop rc insert_len first out vs
      else case append_fits insert_len out (measurement_json_row rc first v) of
             None \<Rightarrow> out
           | Some out' \<Rightarrow> measurement_json_loop rc insert_len False out' vs)"

definition measurement_store_write_json :: "runtime_config \<Rightarrow> nat \<Rightarrow> measurement_store \<Rightarrow> string" where
  "measurement_store_write_json rc insert_len s = measurement_json_loop rc insert_len True '''' (ms_view s)"

subsection \<open>The narodmon report\<close>

definition APP_NARODMON_PAYLOAD_MAX_LEN :: nat where "APP_NARODMON_PAYLOAD_MAX_LEN = 4096"
definition NARODMON_LINE_TEMP_MAX_LEN :: nat where "NARODMON_LINE_TEMP_MAX_LEN = 20"
definition NARODMON_LINE_RH_MAX_LEN :: nat where "NARODMON_LINE_RH_MAX_LEN = 17"
definition NARODMON_LINE_BATTERY_MAX_LEN :: nat where "NARODMON_LINE_BATTERY_MAX_LEN = 21"
definition NARODMON_LINE_SIGNAL_MAX_LEN :: nat where "NARODMON_LINE_SIGNAL_MAX_LEN = 20"
definition NARODMON_LINE_UPTIME_MAX_LEN :: nat where "NARODMON_LINE_UPTIME_MAX_LEN = 19"
definition NARODMON_HEADER_AND_TRAILER_MAX_LEN :: nat where "NARODMON_HEADER_AND_TRAILER_MAX_LEN = 20"
definition NARODMON_MAX_DEVICES :: nat where
  "NARODMON_MAX_DEVICES =
     (APP_NARODMON_PAYLOAD_MAX_LEN - NARODMON_HEADER_AND_TRAILER_MAX_LEN - NARODMON_LINE_UPTIME_MAX_LEN) div
     (NARODMON_LINE_TEMP_MAX_LEN + NARODMON_LINE_RH_MAX_LEN + NARODMON_LINE_BATTERY_MAX_LEN +
      NARODMON_LINE_SIGNAL_MAX_LEN) - 1"

record narodmon_signal_entry =
  ns_in_use :: bool
  ns_device_id :: u32
  ns_max_samples :: nat

text \<open>The loop over the signal entries: the entry of the device, or \<open>first_free\<close>.\<close>

fun find_signal :: "u32 \<Rightarrow> nat \<Rightarrow> nat option \<Rightarrow> narodmon_signal_entry list \<Rightarrow> nat option \<times> nat option" where
  "find_signal device_id i first_free [] = (None, first_free)"
| "find_signal device_id i first_free (e # es) =
     (if \<not> ns_in_use e then find_signal device_id (Suc i) (if first_free = None then Some i else first_free) es
      else if ns_device_id e = device_id then (Some i, first_free)
      else find_signal device_id (Suc i) first_free es)"

definition narodmon_find_or_add_signal_entry ::
  "narodmon_signal_entry list \<Rightarrow> nat \<Rightarrow> u32 \<Rightarrow> (narodmon_signal_entry list \<times> nat) option" where
  "narodmon_find_or_add_signal_entry entries current_device_count device_id =
     (case find_signal device_id 0 None entries of
        (Some i, _) \<Rightarrow> Some (entries, i)
      | (None, None) \<Rightarrow> None
      | (None, Some first_free) \<Rightarrow>
          if current_device_count \<ge> NARODMON_MAX_DEVICES then None
          else Some (entries[first_free := \<lparr>ns_in_use = True, ns_device_id = device_id, ns_max_samples = 0\<rparr>], first_free))"

fun metric_prefix :: "measurement_field \<Rightarrow> string option" where
  "metric_prefix MEASUREMENT_FIELD_TEMPERATURE = Some ''TEMP''"
| "metric_prefix MEASUREMENT_FIELD_1WIRE_TEMPERATURE = Some ''TEMP''"
| "metric_prefix MEASUREMENT_FIELD_HUMIDITY = Some ''RH''"
| "metric_prefix MEASUREMENT_FIELD_BATTERY = Some ''MB2BAT''"
| "metric_prefix MEASUREMENT_FIELD_NONE = None"

definition narodmon_metric_line :: "string \<Rightarrow> measurement_view_entry \<Rightarrow> string" where
  "narodmon_metric_line prefix v =
     ''#'' @ prefix @ show_pad 6 (measurement_device_id_to_display (mv_device_id v)) @ ''#'' @
     show_fixed 2 (mv_average_value v) @ [CHR 0x0A]"

definition narodmon_signal_line :: "narodmon_signal_entry \<Rightarrow> string" where
  "narodmon_signal_line e =
     ''#SIGNAL'' @ show_pad 6 (measurement_device_id_to_display (ns_device_id e)) @ ''#'' @
     show_nat (ns_max_samples e) @ [CHR 0x0A]"

text \<open>The loop over the view; \<^verbatim>\<open>break\<close> on a line that does not fit.\<close>

fun narodmon_metrics_loop ::
  "nat \<Rightarrow> string \<Rightarrow> narodmon_signal_entry list \<Rightarrow> nat \<Rightarrow> bool \<Rightarrow> measurement_view_entry list
   \<Rightarrow> string \<times> narodmon_signal_entry list \<times> bool" where
  "narodmon_metrics_loop insert_len out entries exported has_metrics [] = (out, entries, has_metrics)"
| "narodmon_metrics_loop insert_len out entries exported has_metrics (v # vs) =
     (if \<not> mv_in_use v then narodmon_metrics_loop insert_len out entries exported has_metrics vs else
      case narodmon_find_or_add_signal_entry entries exported (mv_device_id v) of
        None \<Rightarrow> narodmon_metrics_loop insert_len out entries exported has_metrics vs
      | Some (entries1, i) \<Rightarrow>
          let exported1 = (if ns_max_samples (entries1 ! i) = 0 then Suc exported else exported) in
          (case metric_prefix (mv_field_type v) of
             None \<Rightarrow> narodmon_metrics_loop insert_len out entries1 exported1 has_metrics vs
           | Some prefix \<Rightarrow>
               (case append_fits insert_len out (narodmon_metric_line prefix v) of
                  None \<Rightarrow> (out, entries1, has_metrics)
                | Some out1 \<Rightarrow>
                    let entries2 = (if mv_sample_count v > ns_max_samples (entries1 ! i)
                                    then entries1[i := (entries1 ! i)\<lparr>ns_max_samples := mv_sample_count v\<rparr>]
                                    else entries1)
                    in narodmon_metrics_loop insert_len out1 entries2 exported1 True vs)))"

fun narodmon_signals_loop :: "nat \<Rightarrow> string \<Rightarrow> narodmon_signal_entry list \<Rightarrow> string" where
  "narodmon_signals_loop insert_len out [] = out"
| "narodmon_signals_loop insert_len out (e # es) =
     (if \<not> ns_in_use e then narodmon_signals_loop insert_len out es
      else case append_fits insert_len out (narodmon_signal_line e) of
             None \<Rightarrow> out
           | Some out' \<Rightarrow> narodmon_signals_loop insert_len out' es)"

definition measurement_store_build_narodmon_payload :: "nat \<Rightarrow> nat \<Rightarrow> measurement_store \<Rightarrow> string" where
  "measurement_store_build_narodmon_payload insert_len uptime_seconds s =
     (case append_fits insert_len '''' (''#UPTIME#'' @ show_nat uptime_seconds @ [CHR 0x0A]) of
        None \<Rightarrow> ''''
      | Some out \<Rightarrow>
          (case narodmon_metrics_loop insert_len out
                  (replicate MEASUREMENT_STORE_VIEW_SIZE \<lparr>ns_in_use = False, ns_device_id = 0, ns_max_samples = 0\<rparr>)
                  0 False (ms_view s) of
             (out1, entries, has_sensor_metrics) \<Rightarrow>
               if \<not> has_sensor_metrics then '''' else narodmon_signals_loop insert_len out1 entries))"


subsection \<open>Ageing and eviction\<close>

definition expired :: "u32 \<Rightarrow> u32 \<Rightarrow> measurement_entry \<Rightarrow> bool" where
  "expired now_ms retention_ms e = (live e \<and> age_ms now_ms (me_timestamp_ms e) > retention_ms)"

lemma not_live_freed [simp]: "\<not> live (freed e)"
  by (simp add: live_def freed_def)

lemma prune_map:
  "measurement_table_prune now ret es =
     (List.map (\<lambda>e. if expired now ret e then freed e else e) es,
      count_if (\<lambda>e. \<not> live e) (List.map (\<lambda>e. if expired now ret e then freed e else e) es))"
  by (induction es) (auto simp: expired_def)

lemma enforce_limit_spec:
  assumes "f \<noteq> MEASUREMENT_FIELD_NONE" "0 < m"
  shows "length (enforce_limit_loop now d f m t) = length t \<and>
    count_if (in_series d f) (enforce_limit_loop now d f m t) < m \<and>
    (\<forall>i<length t. enforce_limit_loop now d f m t ! i = t ! i \<or>
       in_series d f (t ! i) \<and> enforce_limit_loop now d f m t ! i = freed (t ! i) \<and>
       m \<le> count_if (in_series d f) t \<and>
       (\<forall>j<length t. in_series d f (enforce_limit_loop now d f m t ! j) \<longrightarrow>
          age_ms now (me_timestamp_ms (enforce_limit_loop now d f m t ! j)) \<le> age_ms now (me_timestamp_ms (t ! i))))"
  using assms
proof (induction now d f m t rule: enforce_limit_loop.induct)
  case (1 now d f m t)
  show ?case
  proof (cases "count_if (in_series d f) t < m")
    case True
    then show ?thesis by (subst (1 2 3 4 5 6) enforce_limit_loop.simps) simp
  next
    case full: False
    have live: "in_series d f e \<Longrightarrow> live e" for e using "1.prems"(1) by (auto simp: in_series_def live_def)
    have "\<exists>e\<in>set t. in_series d f e" using full "1.prems"(2) count_if_eq_0_iff [of "in_series d f" t] by auto
    then have "measurement_find_oldest now d f True t \<noteq> None"
      using live by (auto simp: measurement_find_oldest_def scan_oldest_None in_series_def)
    then obtain k where k: "measurement_find_oldest now d f True t = Some k" by blast
    have kp: "k < length t" "in_series d f (t ! k)"
      "\<forall>x\<in>set t. in_series d f x \<longrightarrow> age_ms now (me_timestamp_ms x) \<le> age_ms now (me_timestamp_ms (t ! k))"
      using scan_oldest_Some [OF k [unfolded measurement_find_oldest_def]] live
      by (auto simp: in_series_def)
    let ?t = "t[k := freed (t ! k)]"
    let ?r = "enforce_limit_loop now d f m ?t"
    have eq: "enforce_limit_loop now d f m t = ?r"
      using full k by (subst enforce_limit_loop.simps) simp
    note IH = "1.IH" [OF full k "1.prems"]
    have nf: "\<not> in_series d f (freed e)" for e using "1.prems"(1) by (simp add: in_series_def freed_def)
    have old: "age_ms now (me_timestamp_ms (?r ! j)) \<le> age_ms now (me_timestamp_ms (t ! k))"
      if "j < length t" "in_series d f (?r ! j)" for j
    proof -
      have "?r ! j = ?t ! j" using IH that nf by fastforce
      then have "?r ! j = t ! j" using that nf by (metis nth_list_update_eq nth_list_update_neq)
      then show ?thesis using kp(3) that by auto
    qed
    have "?r ! i = t ! i \<or> in_series d f (t ! i) \<and> ?r ! i = freed (t ! i) \<and> m \<le> count_if (in_series d f) t \<and>
       (\<forall>j<length t. in_series d f (?r ! j) \<longrightarrow>
          age_ms now (me_timestamp_ms (?r ! j)) \<le> age_ms now (me_timestamp_ms (t ! i)))"
      if i: "i < length t" for i
    proof (cases "i = k")
      case True
      have "?r ! k = freed (t ! k)"
        using IH kp(1) nf by (metis length_list_update nth_list_update_eq)
      then show ?thesis using True kp(2) full old by auto
    next
      case False
      then have "?t ! i = t ! i" by simp
      then show ?thesis using IH i full by (metis length_list_update not_le)
    qed
    then show ?thesis using IH eq by simp
  qed
qed

text \<open>Why an entry may disappear when a measurement of the series \<open>(d, f)\<close> is added at time \<open>now\<close>.\<close>

definition over_limit :: "measurement_store \<Rightarrow> u32 \<Rightarrow> u32 \<Rightarrow> measurement_field \<Rightarrow> measurement_entry \<Rightarrow> bool" where
  "over_limit s now d f e =
     (ms_max_count s \<noteq> 0 \<and> in_series d f e \<and>
      ms_max_count s \<le> count_if (\<lambda>x. in_series d f x \<and> \<not> expired now (ms_retention_ms s) x) (ms_table s))"

definition full_of_newer :: "measurement_store \<Rightarrow> u32 \<Rightarrow> measurement_entry \<Rightarrow> bool" where
  "full_of_newer s now e =
     (\<forall>x\<in>set (ms_table s). live x \<and> \<not> expired now (ms_retention_ms s) x \<and>
        age_ms now (me_timestamp_ms x) \<le> age_ms now (me_timestamp_ms e))"

text \<open>The table after ageing and the series limit, before the new entry is stored.\<close>

definition trimmed_table :: "measurement_store \<Rightarrow> u32 \<Rightarrow> u32 \<Rightarrow> measurement_field \<Rightarrow> measurement_entry list" where
  "trimmed_table s now d f =
     measurement_enforce_series_limit now d f (ms_max_count s)
       (fst (measurement_table_prune now (ms_retention_ms s) (ms_table s)))"

lemma trimmed_table_spec:
  assumes "f \<noteq> MEASUREMENT_FIELD_NONE"
  shows "length (trimmed_table s now d f) = length (ms_table s)"
    "i < length (ms_table s) \<Longrightarrow> trimmed_table s now d f ! i = ms_table s ! i \<or>
      \<not> live (trimmed_table s now d f ! i) \<and>
      (expired now (ms_retention_ms s) (ms_table s ! i) \<or> over_limit s now d f (ms_table s ! i))"
    "ms_max_count s \<noteq> 0 \<Longrightarrow> count_if (in_series d f) (trimmed_table s now d f) < ms_max_count s"
proof -
  let ?ex = "expired now (ms_retention_ms s)"
  let ?p = "List.map (\<lambda>e. if ?ex e then freed e else e) (ms_table s)"
  have "(in_series d f \<circ> (\<lambda>e. if ?ex e then freed e else e)) = (\<lambda>x. in_series d f x \<and> \<not> ?ex x)"
    using assms by (auto simp: fun_eq_iff in_series_def freed_def)
  then have cnt: "count_if (in_series d f) ?p = count_if (\<lambda>x. in_series d f x \<and> \<not> ?ex x) (ms_table s)"
    by (simp add: count_if_map)
  have tt: "trimmed_table s now d f = (if ms_max_count s = 0 then ?p else enforce_limit_loop now d f (ms_max_count s) ?p)"
    by (simp add: trimmed_table_def prune_map measurement_enforce_series_limit_def)
  have el: "ms_max_count s \<noteq> 0 \<Longrightarrow> length (enforce_limit_loop now d f (ms_max_count s) ?p) = length ?p \<and>
      count_if (in_series d f) (enforce_limit_loop now d f (ms_max_count s) ?p) < ms_max_count s \<and>
      (\<forall>i<length ?p. enforce_limit_loop now d f (ms_max_count s) ?p ! i = ?p ! i \<or>
         in_series d f (?p ! i) \<and> enforce_limit_loop now d f (ms_max_count s) ?p ! i = freed (?p ! i) \<and>
         ms_max_count s \<le> count_if (in_series d f) ?p)"
    using enforce_limit_spec [OF assms, of "ms_max_count s" now d ?p] by blast
  show "length (trimmed_table s now d f) = length (ms_table s)"
    using el tt by (cases "ms_max_count s = 0") simp_all
  show "ms_max_count s \<noteq> 0 \<Longrightarrow> count_if (in_series d f) (trimmed_table s now d f) < ms_max_count s"
    using el tt by simp
  show "i < length (ms_table s) \<Longrightarrow> trimmed_table s now d f ! i = ms_table s ! i \<or>
      \<not> live (trimmed_table s now d f ! i) \<and>
      (expired now (ms_retention_ms s) (ms_table s ! i) \<or> over_limit s now d f (ms_table s ! i))"
  proof -
    assume i: "i < length (ms_table s)"
    then have pi: "?p ! i = (if ?ex (ms_table s ! i) then freed (ms_table s ! i) else ms_table s ! i)" by simp
    show ?thesis
    proof (cases "ms_max_count s = 0")
      case True
      then show ?thesis using tt pi by simp
    next
      case False
      have "i < length ?p" using i by simp
      then consider "trimmed_table s now d f ! i = ?p ! i"
        | "in_series d f (?p ! i)" "trimmed_table s now d f ! i = freed (?p ! i)"
          "ms_max_count s \<le> count_if (in_series d f) ?p"
        using el [OF False] tt False by (metis (no_types, lifting))
      then show ?thesis
      proof cases
        case 1
        then show ?thesis using pi by simp
      next
        case 2
        have "\<not> ?ex (ms_table s ! i)" using 2(1) pi assms by (auto simp: in_series_def freed_def)
        then show ?thesis using 2 pi cnt False by (simp add: over_limit_def)
      qed
    qed
  qed
qed

lemma store_add_spec:
  assumes "f \<noteq> MEASUREMENT_FIELD_NONE" "ms_table s \<noteq> []" "measurement_store_add d f v now s = (s', ok)"
  shows "ok \<and> s' = s\<lparr>ms_table := ms_table s'\<rparr> \<and> length (ms_table s') = length (ms_table s) \<and>
    (\<exists>i<length (ms_table s).
       ms_table s' ! i = \<lparr>me_device_id = d, me_field_type = f, me_value = v, me_timestamp_ms = now\<rparr> \<and>
       (live (ms_table s ! i) \<longrightarrow> expired now (ms_retention_ms s) (ms_table s ! i) \<or>
          over_limit s now d f (ms_table s ! i) \<or> full_of_newer s now (ms_table s ! i)) \<and>
       (\<forall>j<length (ms_table s). j \<noteq> i \<longrightarrow> ms_table s' ! j = ms_table s ! j \<or>
          \<not> live (ms_table s' ! j) \<and>
          (expired now (ms_retention_ms s) (ms_table s ! j) \<or> over_limit s now d f (ms_table s ! j)))) \<and>
    (ms_max_count s \<noteq> 0 \<longrightarrow> count_if (in_series d f) (ms_table s') \<le> ms_max_count s)"
proof -
  let ?t = "ms_table s" and ?t2 = "trimmed_table s now d f"
  let ?e = "\<lparr>me_device_id = d, me_field_type = f, me_value = v, me_timestamp_ms = now\<rparr>"
  note tt = trimmed_table_spec [OF assms(1), where s = s and now = now and d = d]
  have add: "measurement_store_add d f v now s =
     (case measurement_find_free_slot ?t2 of
        Some i \<Rightarrow> (s\<lparr>ms_table := ?t2[i := ?e]\<rparr>, True)
      | None \<Rightarrow> (case measurement_find_oldest now 0 MEASUREMENT_FIELD_NONE False ?t2 of
          None \<Rightarrow> (s\<lparr>ms_table := ?t2\<rparr>, False) | Some i \<Rightarrow> (s\<lparr>ms_table := ?t2[i := ?e]\<rparr>, True)))"
    using assms(1) by (simp only: measurement_store_add_def trimmed_table_def Let_def if_False)
  obtain i where i: "i < length ?t" and s': "s' = s\<lparr>ms_table := ?t2[i := ?e]\<rparr>" "ok"
    and why: "live (?t ! i) \<longrightarrow> expired now (ms_retention_ms s) (?t ! i) \<or> over_limit s now d f (?t ! i) \<or>
        full_of_newer s now (?t ! i)"
  proof (cases "measurement_find_free_slot ?t2")
    case (Some i)
    then have "i < length ?t2" "\<not> live (?t2 ! i)" by (auto simp: measurement_find_free_slot_def)
    then show ?thesis using that [of i] assms(3) add Some tt(1) tt(2) [where i = i] by auto
  next
    case None
    then have all: "\<forall>x\<in>set ?t2. live x" by (simp add: measurement_find_free_slot_def find_index_None_iff)
    have "?t2 = ?t"
    proof (rule nth_equalityI)
      show "length ?t2 = length ?t" by (rule tt(1))
      show "\<And>j. j < length ?t2 \<Longrightarrow> ?t2 ! j = ?t ! j" using tt(1,2) all by (metis nth_mem)
    qed
    moreover have ne: "\<forall>x\<in>set ?t. \<not> expired now (ms_retention_ms s) x"
    proof
      fix x assume "x \<in> set ?t"
      then obtain j where j: "j < length ?t" "?t ! j = x" by (auto simp: in_set_conv_nth)
      show "\<not> expired now (ms_retention_ms s) x"
      proof
        assume ex: "expired now (ms_retention_ms s) x"
        let ?p = "List.map (\<lambda>e. if expired now (ms_retention_ms s) e then freed e else e) ?t"
        have "?p ! j = freed x" using j ex by simp
        moreover have "?t2 ! j = ?p ! j \<or> ?t2 ! j = freed (?p ! j)"
        proof (cases "ms_max_count s = 0")
          case False
          then show ?thesis using enforce_limit_spec [OF assms(1), of "ms_max_count s" now d ?p] j
            by (auto simp: trimmed_table_def prune_map measurement_enforce_series_limit_def)
        qed (simp add: trimmed_table_def prune_map measurement_enforce_series_limit_def)
        ultimately have "\<not> live (?t2 ! j)" by auto
        then show False using all j tt(1) by simp
      qed
    qed
    moreover have "measurement_find_oldest now 0 MEASUREMENT_FIELD_NONE False ?t2 \<noteq> None"
    proof
      assume "measurement_find_oldest now 0 MEASUREMENT_FIELD_NONE False ?t2 = None"
      then have "\<forall>x\<in>set ?t2. \<not> live x" by (simp add: measurement_find_oldest_def scan_oldest_None)
      then show False using all assms(2) \<open>?t2 = ?t\<close> by (metis last_in_set)
    qed
    then obtain k where k: "measurement_find_oldest now 0 MEASUREMENT_FIELD_NONE False ?t2 = Some k" by blast
    ultimately have "k < length ?t" "full_of_newer s now (?t ! k)"
      using scan_oldest_Some [OF k [unfolded measurement_find_oldest_def]] all
      by (auto simp: full_of_newer_def)
    then show ?thesis using that [of k] assms(3) add None k by auto
  qed
  have "ms_max_count s \<noteq> 0 \<longrightarrow> count_if (in_series d f) (?t2[i := ?e]) \<le> ms_max_count s"
    using count_if_update [of i ?t2 "in_series d f" ?e] tt(1,3) i by (auto split: if_splits)
  then show ?thesis using i s' why tt(1) tt(2) by (auto simp: nth_list_update)
qed

subsection \<open>The view\<close>

definition row_of :: "u32 \<Rightarrow> measurement_field \<Rightarrow> measurement_view_entry \<Rightarrow> bool" where
  "row_of d f v = (mv_in_use v \<and> mv_field_type v = f \<and> mv_device_id v = d)"

lemma plus_Suc_fun: "(+) (Suc j) = (\<lambda>x. Suc (j + x))"
  by (simp add: fun_eq_iff)

lemma view_slot_eq:
  "view_slot d f j slot vs =
     (case find_index (row_of d f) vs of
        Some k \<Rightarrow> Some (j + k)
      | None \<Rightarrow> (case slot of Some x \<Rightarrow> Some x | None \<Rightarrow> map_option ((+) j) (find_index (\<lambda>v. \<not> mv_in_use v) vs)))"
  by (induction vs arbitrary: j slot) (auto simp: row_of_def option.map_comp comp_def plus_Suc_fun split: option.split)

definition series_values :: "u32 \<Rightarrow> measurement_field \<Rightarrow> measurement_entry list \<Rightarrow> f32 list" where
  "series_values d f es = List.map me_value (filter (in_series d f) es)"

definition series_sum :: "f32 list \<Rightarrow> f32" where
  "series_sum vs = foldl f32_add 0 vs"

lemma series_values_append [simp]:
  "series_values d f (es @ [e]) = (if in_series d f e then series_values d f es @ [me_value e] else series_values d f es)"
  by (simp add: series_values_def)

definition view_inv :: "measurement_entry list \<Rightarrow> measurement_view_entry list \<Rightarrow> measurement_accumulator list \<Rightarrow> bool" where
  "view_inv es view acc =
     (length acc = length view \<and>
      (\<forall>i<length view.
         if mv_in_use (view ! i)
         then mv_field_type (view ! i) \<noteq> MEASUREMENT_FIELD_NONE \<and>
           series_values (mv_device_id (view ! i)) (mv_field_type (view ! i)) es \<noteq> [] \<and>
           acc ! i = \<lparr>ac_sum_value = series_sum (series_values (mv_device_id (view ! i)) (mv_field_type (view ! i)) es),
                      ac_sample_count = length (series_values (mv_device_id (view ! i)) (mv_field_type (view ! i)) es)\<rparr>
         else acc ! i = \<lparr>ac_sum_value = 0, ac_sample_count = 0\<rparr>) \<and>
      (\<forall>i<length view. \<forall>j<length view. mv_in_use (view ! i) \<longrightarrow>
         row_of (mv_device_id (view ! i)) (mv_field_type (view ! i)) (view ! j) \<longrightarrow> i = j) \<and>
      (\<forall>e\<in>set es. live e \<longrightarrow> (\<exists>v\<in>set view. row_of (me_device_id e) (me_field_type e) v) \<or> (\<forall>v\<in>set view. mv_in_use v)))"

lemma in_series_self: "in_series (me_device_id e) (me_field_type e) e"
  by (simp add: in_series_def)

lemma view_add_entry_inv:
  assumes inv: "view_inv es view acc" and step: "view_add_entry e (view, acc) = (view', acc')"
  shows "view_inv (es @ [e]) view' acc' \<and> length view' = length view"
proof (cases "live e")
  case False
  then have "\<not> in_series d f e" if "f \<noteq> MEASUREMENT_FIELD_NONE" for d f
    using that by (auto simp: live_def in_series_def)
  then show ?thesis using assms False by (auto simp: view_inv_def)
next
  case live: True
  let ?d = "me_device_id e" and ?f = "me_field_type e"
  have len: "length acc = length view" using inv by (simp add: view_inv_def)
  show ?thesis
  proof (cases "find_index (row_of ?d ?f) view")
    case (Some k)
    then have k: "k < length view" "row_of ?d ?f (view ! k)" by auto
    have res: "view' = view" "acc' = acc[k := \<lparr>ac_sum_value = f32_add (ac_sum_value (acc ! k)) (me_value e),
          ac_sample_count = Suc (ac_sample_count (acc ! k))\<rparr>]"
      using step live Some k by (auto simp: view_slot_eq row_of_def Let_def)
    have other: "\<not> in_series (mv_device_id (view ! i)) (mv_field_type (view ! i)) e"
      if "i < length view" "mv_in_use (view ! i)" "i \<noteq> k" for i
    proof
      assume "in_series (mv_device_id (view ! i)) (mv_field_type (view ! i)) e"
      then have "row_of (mv_device_id (view ! i)) (mv_field_type (view ! i)) (view ! k)"
        using k(2) by (simp add: in_series_def row_of_def)
      then show False using inv that k(1) unfolding view_inv_def by blast
    qed
    have "in_series (mv_device_id (view ! k)) (mv_field_type (view ! k)) e"
      using k(2) by (simp add: in_series_def row_of_def)
    moreover have "\<exists>v\<in>set view. row_of ?d ?f v" using k by auto
    ultimately show ?thesis using inv other k len unfolding view_inv_def res
      by (auto simp: nth_list_update row_of_def series_sum_def)
  next
    case None
    then have nomatch: "\<forall>v\<in>set view. \<not> row_of ?d ?f v" by (simp add: find_index_None_iff)
    then have other: "\<not> in_series (mv_device_id (view ! i)) (mv_field_type (view ! i)) e"
      if "i < length view" "mv_in_use (view ! i)" for i
      using that nth_mem [OF that(1)] by (auto simp: in_series_def row_of_def)
    show ?thesis
    proof (cases "find_index (\<lambda>v. \<not> mv_in_use v) view")
      case none: None
      then have "\<forall>v\<in>set view. mv_in_use v" by (simp add: find_index_None_iff)
      moreover have "view' = view" "acc' = acc" using step live None none by (auto simp: view_slot_eq)
      ultimately show ?thesis using inv other unfolding view_inv_def by auto
    next
      case (Some k)
      then have k: "k < length view" "\<not> mv_in_use (view ! k)" by auto
      let ?row = "(view ! k)\<lparr>mv_in_use := True, mv_device_id := ?d, mv_field_type := ?f\<rparr>"
      have acck: "acc ! k = \<lparr>ac_sum_value = 0, ac_sample_count = 0\<rparr>" using inv k unfolding view_inv_def by auto
      have res: "view' = view[k := ?row]" "acc' = acc[k := \<lparr>ac_sum_value = f32_add 0 (me_value e), ac_sample_count = 1\<rparr>]"
        using step live None Some k acck by (auto simp: view_slot_eq Let_def)
      have "filter (in_series ?d ?f) es = []"
      proof (rule ccontr)
        assume "filter (in_series ?d ?f) es \<noteq> []"
        then obtain x where "x \<in> set es" "in_series ?d ?f x" by (auto simp: filter_empty_conv)
        moreover from this have "live x" using live by (auto simp: live_def in_series_def)
        ultimately have "(\<exists>v\<in>set view. row_of ?d ?f v) \<or> (\<forall>v\<in>set view. mv_in_use v)"
          using inv unfolding view_inv_def by (auto simp: in_series_def)
        then show False using nomatch k nth_mem [OF k(1)] by auto
      qed
      then have sv: "series_values ?d ?f es = []" by (simp add: series_values_def)
      have f: "?f \<noteq> MEASUREMENT_FIELD_NONE" using live by (simp add: live_def)
      have row: "row_of ?d ?f ?row" by (simp add: row_of_def)
      have nomatch': "\<not> row_of ?d ?f (view ! i)" if "i < length view" for i
        using nomatch that by simp
      have c1: "\<forall>i<length view.
         if mv_in_use (view' ! i)
         then mv_field_type (view' ! i) \<noteq> MEASUREMENT_FIELD_NONE \<and>
           series_values (mv_device_id (view' ! i)) (mv_field_type (view' ! i)) (es @ [e]) \<noteq> [] \<and>
           acc' ! i = \<lparr>ac_sum_value = series_sum (series_values (mv_device_id (view' ! i)) (mv_field_type (view' ! i)) (es @ [e])),
                      ac_sample_count = length (series_values (mv_device_id (view' ! i)) (mv_field_type (view' ! i)) (es @ [e]))\<rparr>
         else acc' ! i = \<lparr>ac_sum_value = 0, ac_sample_count = 0\<rparr>"
      proof (intro allI impI)
        fix i assume i: "i < length view"
        show "if mv_in_use (view' ! i)
         then mv_field_type (view' ! i) \<noteq> MEASUREMENT_FIELD_NONE \<and>
           series_values (mv_device_id (view' ! i)) (mv_field_type (view' ! i)) (es @ [e]) \<noteq> [] \<and>
           acc' ! i = \<lparr>ac_sum_value = series_sum (series_values (mv_device_id (view' ! i)) (mv_field_type (view' ! i)) (es @ [e])),
                      ac_sample_count = length (series_values (mv_device_id (view' ! i)) (mv_field_type (view' ! i)) (es @ [e]))\<rparr>
         else acc' ! i = \<lparr>ac_sum_value = 0, ac_sample_count = 0\<rparr>"
        proof (cases "i = k")
          case True
          then show ?thesis using i k len sv f in_series_self [of e] by (simp add: res series_sum_def)
        next
          case False
          then have "view' ! i = view ! i" "acc' ! i = acc ! i" by (simp_all add: res)
          then show ?thesis using inv i other [OF i] unfolding view_inv_def by auto
        qed
      qed
      have c2: "\<forall>i<length view. \<forall>j<length view. mv_in_use (view' ! i) \<longrightarrow>
         row_of (mv_device_id (view' ! i)) (mv_field_type (view' ! i)) (view' ! j) \<longrightarrow> i = j"
      proof (intro allI impI)
        fix i j assume ij: "i < length view" "j < length view" "mv_in_use (view' ! i)"
          "row_of (mv_device_id (view' ! i)) (mv_field_type (view' ! i)) (view' ! j)"
        show "i = j"
        proof (cases "i = k"; cases "j = k")
          assume "i = k" "j \<noteq> k"
          then show ?thesis using ij k nomatch' [of j] by (simp add: res)
        next
          assume "i \<noteq> k" "j = k"
          then have "mv_in_use (view ! i)" "mv_device_id (view ! i) = ?d" "mv_field_type (view ! i) = ?f"
            using ij k by (auto simp: res row_of_def)
          then show ?thesis using nomatch' [of i] ij by (simp add: row_of_def)
        next
          assume "i \<noteq> k" "j \<noteq> k"
          then show ?thesis using ij inv unfolding view_inv_def res by auto
        qed simp
      qed
      have "\<exists>v\<in>set view'. row_of ?d ?f v" using row k by (auto simp: res set_update_memI)
      moreover have "v \<in> set view \<Longrightarrow> mv_in_use v \<Longrightarrow> v \<in> set view'" for v
      proof -
        assume "v \<in> set view" "mv_in_use v"
        then obtain i where "i < length view" "view ! i = v" by (auto simp: in_set_conv_nth)
        then have "i \<noteq> k" using k \<open>mv_in_use v\<close> by auto
        then have "view' ! i = v" "i < length view'" using \<open>i < length view\<close> \<open>view ! i = v\<close> by (simp_all add: res)
        then show "v \<in> set view'" by (metis nth_mem)
      qed
      moreover have "\<not> (\<forall>v\<in>set view. mv_in_use v)" using k by auto
      ultimately have c3: "\<forall>x\<in>set (es @ [e]). live x \<longrightarrow>
          (\<exists>v\<in>set view'. row_of (me_device_id x) (me_field_type x) v) \<or> (\<forall>v\<in>set view'. mv_in_use v)"
        using inv unfolding view_inv_def by (auto simp: row_of_def)
      have lv: "length view' = length view" "length acc' = length view" by (simp_all add: res len)
      show ?thesis using c1 c2 c3 unfolding view_inv_def lv by blast
    qed
  qed
qed

lemma view_fold_inv:
  "length va = n \<Longrightarrow>
   foldl (\<lambda>va e. view_add_entry e va)
     (replicate n empty_view_entry, replicate n \<lparr>ac_sum_value = 0, ac_sample_count = 0\<rparr>) es = (view, acc) \<Longrightarrow>
   view_inv es view acc \<and> length view = n"
proof (induction es arbitrary: view acc rule: rev_induct)
  case Nil
  then have "view = replicate n empty_view_entry" "acc = replicate n \<lparr>ac_sum_value = 0, ac_sample_count = 0\<rparr>" by simp_all
  then show ?case by (simp add: view_inv_def empty_view_entry_def)
next
  case (snoc e es)
  obtain view1 acc1 where f: "foldl (\<lambda>va e. view_add_entry e va)
      (replicate n empty_view_entry, replicate n \<lparr>ac_sum_value = 0, ac_sample_count = 0\<rparr>) es = (view1, acc1)"
    by (cases "foldl (\<lambda>va e. view_add_entry e va)
      (replicate n empty_view_entry, replicate n \<lparr>ac_sum_value = 0, ac_sample_count = 0\<rparr>) es")
  have "view_add_entry e (view1, acc1) = (view, acc)" using snoc.prems(2) f by simp
  then show ?case using snoc.IH [OF snoc.prems(1) f] view_add_entry_inv by auto
qed

text \<open>What a row of the view shows, and which series have a row.\<close>

definition row_shows :: "measurement_entry list \<Rightarrow> measurement_view_entry \<Rightarrow> bool" where
  "row_shows es v =
     (let vals = series_values (mv_device_id v) (mv_field_type v) es
      in mv_field_type v \<noteq> MEASUREMENT_FIELD_NONE \<and> vals \<noteq> [] \<and> mv_sample_count v = length vals mod 2 ^ 16 \<and>
         mv_average_value v = f32_div (series_sum vals) (f32_of_int (int (length vals))))"

definition view_of :: "measurement_entry list \<Rightarrow> measurement_view_entry list \<Rightarrow> bool" where
  "view_of es view =
     ((\<forall>v\<in>set view. mv_in_use v \<longrightarrow> row_shows es v) \<and>
      (\<forall>i<length view. \<forall>j<length view. mv_in_use (view ! i) \<longrightarrow>
         row_of (mv_device_id (view ! i)) (mv_field_type (view ! i)) (view ! j) \<longrightarrow> i = j) \<and>
      ((\<forall>e\<in>set es. live e \<longrightarrow> (\<exists>v\<in>set view. row_of (me_device_id e) (me_field_type e) v)) \<or> (\<forall>v\<in>set view. mv_in_use v)))"

lemma view_finish_key [simp]:
  "mv_device_id (view_finish v a) = mv_device_id v" "mv_field_type (view_finish v a) = mv_field_type v"
  by (simp_all add: view_finish_def)

lemma view_rebuild_spec:
  "length (ms_view (measurement_view_rebuild s)) = 150 \<and> view_of (ms_table s) (ms_view (measurement_view_rebuild s)) \<and>
   measurement_view_rebuild s = s\<lparr>ms_view := ms_view (measurement_view_rebuild s)\<rparr>"
proof -
  let ?n = MEASUREMENT_STORE_VIEW_SIZE and ?t = "ms_table s"
  obtain view acc where f: "foldl (\<lambda>va e. view_add_entry e va)
      (replicate ?n empty_view_entry, replicate ?n \<lparr>ac_sum_value = 0, ac_sample_count = 0\<rparr>) ?t = (view, acc)"
    by (cases "foldl (\<lambda>va e. view_add_entry e va)
      (replicate ?n empty_view_entry, replicate ?n \<lparr>ac_sum_value = 0, ac_sample_count = 0\<rparr>) ?t")
  have inv: "view_inv ?t view acc" "length view = ?n"
    using view_fold_inv [OF length_replicate f] by auto
  have len: "length acc = length view" using inv(1) by (simp add: view_inv_def)
  let ?w = "List.map (\<lambda>(v, a). view_finish v a) (zip view acc)"
  have w: "ms_view (measurement_view_rebuild s) = ?w"
    "measurement_view_rebuild s = s\<lparr>ms_view := ?w\<rparr>" by (simp_all add: measurement_view_rebuild_def f)
  have use: "mv_in_use (view_finish (view ! i) (acc ! i)) = mv_in_use (view ! i)" if "i < length view" for i
    using inv(1) that unfolding view_inv_def by (auto simp: view_finish_def)
  have wi: "?w ! i = view_finish (view ! i) (acc ! i)" if "i < length view" for i using that len by simp
  have lw: "length ?w = length view" using len by simp
  have "row_shows ?t (?w ! i)" if "i < length view" "mv_in_use (?w ! i)" for i
    using inv(1) that use [OF that(1)] unfolding view_inv_def wi [OF that(1)]
    by (auto simp: row_shows_def Let_def view_finish_def)
  then have "\<forall>v\<in>set ?w. mv_in_use v \<longrightarrow> row_shows ?t v" by (metis in_set_conv_nth lw)
  moreover have "\<forall>i<length ?w. \<forall>j<length ?w. mv_in_use (?w ! i) \<longrightarrow>
      row_of (mv_device_id (?w ! i)) (mv_field_type (?w ! i)) (?w ! j) \<longrightarrow> i = j"
    using inv(1) use unfolding view_inv_def lw by (auto simp: wi row_of_def)
  moreover have "(\<forall>e\<in>set ?t. live e \<longrightarrow> (\<exists>v\<in>set ?w. row_of (me_device_id e) (me_field_type e) v)) \<or> (\<forall>v\<in>set ?w. mv_in_use v)"
  proof (cases "\<forall>v\<in>set view. mv_in_use v")
    case True
    then have "mv_in_use (?w ! i)" if "i < length view" for i using that use wi by simp
    then show ?thesis by (metis in_set_conv_nth lw)
  next
    case False
    have "\<exists>v\<in>set ?w. row_of (me_device_id e) (me_field_type e) v" if e: "e \<in> set ?t" "live e" for e
    proof -
      obtain i where "i < length view" "row_of (me_device_id e) (me_field_type e) (view ! i)"
        using inv(1) False e unfolding view_inv_def by (metis in_set_conv_nth)
      then have "row_of (me_device_id e) (me_field_type e) (?w ! i)" "i < length ?w"
        using use wi lw by (simp_all add: row_of_def)
      then show ?thesis by (meson nth_mem)
    qed
    then show ?thesis by blast
  qed
  ultimately show ?thesis using inv(2) len w unfolding view_of_def
    by (simp add: MEASUREMENT_STORE_VIEW_SIZE_def)
qed

subsection \<open>Exact averages of small integers\<close>

lemma series_sum_nat:
  "foldl f32_add (of_nat k) (List.map of_nat ns) = (of_nat (k + sum_list ns) :: f32)" if "k + sum_list ns < 2 ^ 24"
  using that
proof (induction ns arbitrary: k)
  case Nil
  then show ?case by simp
next
  case (Cons n ns)
  then have "f32_add (of_nat k) (of_nat n) = of_nat (k + n)" by (intro f32_add_nat) simp
  then show ?case using Cons.IH [of "k + n"] Cons.prems by (simp add: add.assoc)
qed

lemma sum_list_bound: "\<forall>n\<in>set ns. n \<le> b \<Longrightarrow> sum_list ns \<le> length ns * b"
  by (induction ns) auto

lemma integer_average:
  assumes "vals = List.map of_nat ns" "\<forall>n\<in>set ns. n \<le> 255" "length ns \<le> 2048"
  shows "f32_div (series_sum vals) (f32_of_int (int (length vals))) = f32_round (of_nat (sum_list ns) / of_nat (length ns))"
proof -
  have "sum_list ns \<le> length ns * 255" using assms(2) by (rule sum_list_bound)
  also have "\<dots> \<le> 2048 * 255" using assms(3) by simp
  finally have b: "0 + sum_list ns < 2 ^ 24" by simp
  have "series_sum vals = of_nat (sum_list ns)"
    using series_sum_nat [OF b] assms(1) by (simp add: series_sum_def)
  moreover have "f32_of_int (int (length vals)) = of_nat (length ns)"
    using f32_round_nat [of "length ns"] assms(1,3) by (simp add: f32_of_int_def)
  ultimately show ?thesis by (simp add: f32_div_def)
qed


subsection \<open>The narodmon report as a whole\<close>

definition unused_signal :: narodmon_signal_entry where
  "unused_signal = \<lparr>ns_in_use = False, ns_device_id = 0, ns_max_samples = 0\<rparr>"

definition signal_of :: "(u32 \<Rightarrow> nat) \<Rightarrow> u32 \<Rightarrow> narodmon_signal_entry" where
  "signal_of mx d = \<lparr>ns_in_use = True, ns_device_id = d, ns_max_samples = mx d\<rparr>"

definition signals :: "u32 list \<Rightarrow> (u32 \<Rightarrow> nat) \<Rightarrow> nat \<Rightarrow> narodmon_signal_entry list" where
  "signals ds mx k = List.map (signal_of mx) ds @ replicate k unused_signal"

lemma find_signal_signals:
  "find_signal d i ff (signals ds mx k) =
     (case find_index (\<lambda>x. x = d) ds of
        Some j \<Rightarrow> (Some (i + j), ff)
      | None \<Rightarrow> (None, if ff = None \<and> 0 < k then Some (i + length ds) else ff))"
proof (induction ds arbitrary: i)
  case Nil
  have "find_signal d i ff (replicate k unused_signal) = (None, if ff = None \<and> 0 < k then Some i else ff)"
    by (induction k arbitrary: i ff) (auto simp: unused_signal_def)
  then show ?case by (simp add: signals_def)
next
  case (Cons x ds)
  then show ?case by (auto simp: signals_def signal_of_def split: option.split)
qed

lemma NARODMON_MAX_DEVICES_eq: "NARODMON_MAX_DEVICES = 51"
  by (simp add: NARODMON_MAX_DEVICES_def APP_NARODMON_PAYLOAD_MAX_LEN_def NARODMON_HEADER_AND_TRAILER_MAX_LEN_def
      NARODMON_LINE_UPTIME_MAX_LEN_def NARODMON_LINE_TEMP_MAX_LEN_def NARODMON_LINE_RH_MAX_LEN_def
      NARODMON_LINE_BATTERY_MAX_LEN_def NARODMON_LINE_SIGNAL_MAX_LEN_def)

text \<open>The devices that are reported, in the order in which they first appear; 51 at most.\<close>

fun add_device :: "u32 list \<Rightarrow> u32 \<Rightarrow> u32 list" where
  "add_device ds d = (if d \<in> set ds \<or> 51 \<le> length ds then ds else ds @ [d])"

definition devices_of :: "u32 list \<Rightarrow> measurement_view_entry list \<Rightarrow> u32 list" where
  "devices_of ds rows = foldl add_device ds (List.map mv_device_id rows)"

definition rows_in_use :: "measurement_view_entry list \<Rightarrow> measurement_view_entry list" where
  "rows_in_use view = filter mv_in_use view"

definition row_line :: "measurement_view_entry \<Rightarrow> string" where
  "row_line v = (case metric_prefix (mv_field_type v) of None \<Rightarrow> '''' | Some p \<Rightarrow> narodmon_metric_line p v)"

definition max_samples :: "measurement_view_entry list \<Rightarrow> u32 \<Rightarrow> nat" where
  "max_samples rows d = foldl max 0 (List.map mv_sample_count (filter (\<lambda>v. mv_device_id v = d) rows))"

definition reported :: "u32 list \<Rightarrow> measurement_view_entry list \<Rightarrow> measurement_view_entry list" where
  "reported ds rows = filter (\<lambda>v. mv_device_id v \<in> set ds) rows"

lemma devices_mono: "set ds \<subseteq> set (devices_of ds rows)"
proof (induction rows arbitrary: ds)
  case Nil
  then show ?case by (simp add: devices_of_def)
next
  case (Cons v rows)
  have "set ds \<subseteq> set (add_device ds (mv_device_id v))" by auto
  then show ?case using Cons.IH [of "add_device ds (mv_device_id v)"] by (simp add: devices_of_def del: add_device.simps)
qed

lemma devices_Cons: "devices_of ds (v # rows) = devices_of (add_device ds (mv_device_id v)) rows"
  by (simp add: devices_of_def)

lemma devices_full: "51 \<le> length ds \<Longrightarrow> devices_of ds rows = ds"
  by (induction rows) (simp_all add: devices_of_def)

lemma devices_distinct: "distinct ds \<Longrightarrow> length ds \<le> 51 \<Longrightarrow> distinct (devices_of ds rows) \<and> length (devices_of ds rows) \<le> 51"
proof (induction rows arbitrary: ds)
  case (Cons v rows)
  then show ?case by (simp add: devices_Cons)
qed (simp add: devices_of_def)

text \<open>The loop over the view, with the slots of the signal table abstracted to a list of devices.\<close>

lemma metrics_loop_eq:
  assumes "length ds + k = 150" "length ds \<le> 51" "distinct ds" "\<forall>d. 0 < mx d \<longleftrightarrow> d \<in> set ds"
    "\<forall>v\<in>set view. mv_in_use v \<longrightarrow> mv_field_type v \<noteq> MEASUREMENT_FIELD_NONE \<and> 0 < mv_sample_count v"
    "length (out @ concat (List.map row_line (reported (devices_of ds (rows_in_use view)) (rows_in_use view)))) < n"
  shows "\<exists>mx'. narodmon_metrics_loop n out (signals ds mx k) (length ds) hm view =
     (out @ concat (List.map row_line (reported (devices_of ds (rows_in_use view)) (rows_in_use view))),
      signals (devices_of ds (rows_in_use view)) mx' (150 - length (devices_of ds (rows_in_use view))),
      hm \<or> reported (devices_of ds (rows_in_use view)) (rows_in_use view) \<noteq> []) \<and>
    (\<forall>d\<in>set (devices_of ds (rows_in_use view)). mx' d =
       foldl max (mx d) (List.map mv_sample_count (filter (\<lambda>v. mv_device_id v = d) (rows_in_use view))))"
  using assms
proof (induction view arbitrary: out ds mx k hm)
  case Nil
  then have "150 - length ds = k" by simp
  then show ?case by (simp add: rows_in_use_def devices_of_def reported_def) blast
next
  case (Cons v vs)
  show ?case
  proof (cases "mv_in_use v")
    case False
    then show ?thesis using Cons.IH [of ds k mx out hm] Cons.prems by (simp add: rows_in_use_def)
  next
    case use: True
    let ?d = "mv_device_id v" and ?R = "rows_in_use vs"
    have R: "rows_in_use (v # vs) = v # ?R" using use by (simp add: rows_in_use_def)
    have f: "mv_field_type v \<noteq> MEASUREMENT_FIELD_NONE" "0 < mv_sample_count v" using Cons.prems(5) use by auto
    then obtain p where p: "metric_prefix (mv_field_type v) = Some p" by (cases "mv_field_type v") auto
    show ?thesis
    proof (cases "?d \<notin> set ds \<and> 51 \<le> length ds")
      case True
      then have no: "narodmon_find_or_add_signal_entry (signals ds mx k) (length ds) ?d = None"
      proof -
        have "find_index (\<lambda>x. x = ?d) ds = None" using True by (auto simp: find_index_None_iff)
        then show ?thesis using True
          by (simp add: narodmon_find_or_add_signal_entry_def find_signal_signals NARODMON_MAX_DEVICES_eq)
      qed
      have D: "devices_of ds (v # ?R) = devices_of ds ?R" "?d \<notin> set (devices_of ds ?R)"
        using True by (simp_all add: devices_Cons devices_full)
      then have rep: "reported (devices_of ds (v # ?R)) (v # ?R) = reported (devices_of ds ?R) ?R"
        by (simp add: reported_def)
      show ?thesis using Cons.IH [of ds k mx out hm] Cons.prems use no D rep unfolding R
        by auto
    next
      case in_dev: False
      define ds' where "ds' = add_device ds ?d"
      define mx' where "mx' = (if ?d \<in> set ds then mx else mx(?d := 0))"
      define mx2 where "mx2 = mx'(?d := max (mx' ?d) (mv_sample_count v))"
      define k' where "k' = 150 - length ds'"
      have mx0: "mx' = mx" using Cons.prems(4) by (auto simp: mx'_def fun_eq_iff)
      obtain i where i: "i < length ds'" "ds' ! i = ?d"
        and fa: "narodmon_find_or_add_signal_entry (signals ds mx k) (length ds) ?d = Some (signals ds' mx' k', i)"
      proof (cases "find_index (\<lambda>x. x = ?d) ds")
        case (Some j)
        then have j: "j < length ds" "ds ! j = ?d" by auto
        then have "?d \<in> set ds" using nth_mem [OF j(1)] by simp
        then have "ds' = ds" "k' = k" using Cons.prems(1) by (simp_all add: ds'_def k'_def)
        then show ?thesis using that [of j] j Some mx0
          by (simp add: narodmon_find_or_add_signal_entry_def find_signal_signals)
      next
        case None
        then have nd: "?d \<notin> set ds" by (auto simp: find_index_None_iff)
        then have lt: "length ds < 51" using in_dev by simp
        then have ds': "ds' = ds @ [?d]" using nd by (simp add: ds'_def)
        obtain k0 where k0: "k = Suc k0" using Cons.prems(1) lt by (cases k) auto
        have k': "k' = k0" using Cons.prems(1) k0 by (simp add: k'_def ds')
        have "(signals ds mx k)[length ds := \<lparr>ns_in_use = True, ns_device_id = ?d, ns_max_samples = 0\<rparr>] = signals ds' mx' k'"
        proof -
          have "mx ?d = 0" using nd Cons.prems(4) by (metis not_gr_zero)
          then show ?thesis by (simp add: signals_def ds' k0 k' signal_of_def mx0 list_update_append)
        qed
        then show ?thesis using that [of "length ds"] None lt k0
          by (simp add: narodmon_find_or_add_signal_entry_def find_signal_signals NARODMON_MAX_DEVICES_eq ds')
      qed
      have si: "signals ds' mx' k' ! i = signal_of mx' ?d" using i by (simp add: signals_def nth_append)
      have dd: "distinct ds'" "length ds' \<le> 51" "length ds' + k' = 150"
        using Cons.prems(2,3) in_dev by (auto simp: ds'_def k'_def)
      have ex: "(if ns_max_samples (signals ds' mx' k' ! i) = 0 then Suc (length ds) else length ds) = length ds'"
      proof -
        have "ns_max_samples (signals ds' mx' k' ! i) = mx ?d" using si mx0 by (simp add: signal_of_def)
        moreover have "(mx ?d = 0) = (?d \<notin> set ds)" using Cons.prems(4) by (metis not_gr_zero)
        moreover have "length ds' = (if ?d \<in> set ds then length ds else Suc (length ds))"
          using in_dev by (auto simp: ds'_def)
        ultimately show ?thesis by simp
      qed
      have upd: "(if mv_sample_count v > ns_max_samples (signals ds' mx' k' ! i)
           then (signals ds' mx' k')[i := (signals ds' mx' k' ! i)\<lparr>ns_max_samples := mv_sample_count v\<rparr>]
           else signals ds' mx' k') = signals ds' mx2 k'"
      proof -
        have "List.map (signal_of mx2) ds' = (List.map (signal_of mx') ds')[i := signal_of mx2 ?d]"
        proof (rule nth_equalityI)
          fix q assume "q < length (List.map (signal_of mx2) ds')"
          then have q: "q < length ds'" by simp
          show "List.map (signal_of mx2) ds' ! q = (List.map (signal_of mx') ds')[i := signal_of mx2 ?d] ! q"
          proof (cases "q = i")
            case False
            then have "ds' ! q \<noteq> ?d" using i q dd(1) by (metis nth_eq_iff_index_eq)
            then show ?thesis using False q by (simp add: signal_of_def mx2_def)
          qed (simp add: i)
        qed simp
        then have s2: "signals ds' mx2 k' = (signals ds' mx' k')[i := signal_of mx2 ?d]"
          using i(1) by (simp add: signals_def list_update_append)
        have nm: "ns_max_samples (signals ds' mx' k' ! i) = mx' ?d" by (simp add: si) (simp add: signal_of_def)
        show ?thesis
        proof (cases "mv_sample_count v > mx' ?d")
          case True
          then have "(signals ds' mx' k' ! i)\<lparr>ns_max_samples := mv_sample_count v\<rparr> = signal_of mx2 ?d"
            by (simp add: si) (simp add: signal_of_def mx2_def max_def)
          then show ?thesis using True nm s2 by simp
        next
          case False
          then have "mx2 = mx'" by (simp add: mx2_def max_def fun_upd_idem)
          then show ?thesis using False nm by simp
        qed
      qed
      have D: "devices_of ds (v # ?R) = devices_of ds' ?R" by (simp add: devices_Cons ds'_def)
      have "?d \<in> set ds'" using nth_mem [OF i(1)] i(2) by simp
      then have inD: "?d \<in> set (devices_of ds' ?R)" using devices_mono by blast
      let ?line = "narodmon_metric_line p v"
      have rl: "row_line v = ?line" by (simp add: row_line_def p)
      have rep: "reported (devices_of ds (v # ?R)) (v # ?R) = v # reported (devices_of ds' ?R) ?R"
        using inD by (simp add: reported_def D)
      have fits: "append_fits n out ?line = Some (out @ ?line)"
        using Cons.prems(6) unfolding R rep by (simp add: append_fits_def rl)
      have pos: "\<forall>d. 0 < mx2 d \<longleftrightarrow> d \<in> set ds'"
        using Cons.prems(4) f(2) mx0 \<open>?d \<in> set ds'\<close> in_dev by (auto simp: mx2_def ds'_def)
      obtain mxf where IH: "narodmon_metrics_loop n (out @ ?line) (signals ds' mx2 k') (length ds') True vs =
         ((out @ ?line) @ concat (List.map row_line (reported (devices_of ds' ?R) ?R)),
          signals (devices_of ds' ?R) mxf (150 - length (devices_of ds' ?R)), True \<or> reported (devices_of ds' ?R) ?R \<noteq> [])"
        "\<forall>d\<in>set (devices_of ds' ?R). mxf d = foldl max (mx2 d) (List.map mv_sample_count (filter (\<lambda>v. mv_device_id v = d) ?R))"
        using Cons.IH [OF dd(3,2,1) pos, of "out @ ?line" True] Cons.prems(5,6) unfolding R rep by (auto simp: rl)
      have "narodmon_metrics_loop n out (signals ds mx k) (length ds) hm (v # vs) =
          narodmon_metrics_loop n (out @ ?line) (signals ds' mx2 k') (length ds') True vs"
        by (simp only: narodmon_metrics_loop.simps use not_True_eq_False if_False fa option.case prod.case
            Let_def ex p fits upd)
      then show ?thesis using IH mx0 rep unfolding R D
        by (intro exI [of _ mxf]) (auto simp: rl mx2_def simp del: narodmon_metrics_loop.simps)
    qed
  qed
qed
lemma signals_loop_eq:
  assumes "length (out @ concat (List.map (\<lambda>d. narodmon_signal_line (signal_of mx d)) ds)) < n"
  shows "narodmon_signals_loop n out (signals ds mx k) =
    out @ concat (List.map (\<lambda>d. narodmon_signal_line (signal_of mx d)) ds)"
  using assms
proof (induction ds arbitrary: out)
  case Nil
  have "narodmon_signals_loop n out (replicate k unused_signal) = out"
    by (induction k) (auto simp: unused_signal_def)
  then show ?case by (simp add: signals_def)
next
  case (Cons d ds)
  have "append_fits n out (narodmon_signal_line (signal_of mx d)) = Some (out @ narodmon_signal_line (signal_of mx d))"
    using Cons.prems by (simp add: append_fits_def)
  moreover have "ns_in_use (signal_of mx d)" by (simp add: signal_of_def)
  moreover have "signals (d # ds) mx k = signal_of mx d # signals ds mx k" by (simp add: signals_def)
  ultimately show ?case using Cons.IH [of "out @ narodmon_signal_line (signal_of mx d)"] Cons.prems by simp
qed

text \<open>
  The report as the protocol wants it: the uptime, a line for every row of a reported device, and a
  line with the largest sample count of each reported device.
\<close>

definition uptime_line :: "nat \<Rightarrow> string" where
  "uptime_line uptime_seconds = ''#UPTIME#'' @ show_nat uptime_seconds @ [CHR 0x0A]"

definition narodmon_report :: "nat \<Rightarrow> measurement_view_entry list \<Rightarrow> string" where
  "narodmon_report uptime_seconds rows =
     (let ds = devices_of [] rows in
      uptime_line uptime_seconds @ concat (List.map row_line (reported ds rows)) @
      concat (List.map (\<lambda>d. narodmon_signal_line (signal_of (max_samples rows) d)) ds))"

lemma payload_eq_report:
  assumes "\<forall>v\<in>set (rows_in_use (ms_view s)). mv_field_type v \<noteq> MEASUREMENT_FIELD_NONE \<and> 0 < mv_sample_count v"
    "rows_in_use (ms_view s) \<noteq> []" "length (narodmon_report up (rows_in_use (ms_view s))) < n"
  shows "measurement_store_build_narodmon_payload n up s = narodmon_report up (rows_in_use (ms_view s))"
proof -
  let ?R = "rows_in_use (ms_view s)"
  let ?D = "devices_of [] ?R"
  let ?out = "uptime_line up"
  have len: "length ?out < n" "length (?out @ concat (List.map row_line (reported ?D ?R))) < n"
    using assms(3) by (simp_all add: narodmon_report_def Let_def)
  have rne: "reported ?D ?R \<noteq> []"
  proof -
    obtain v R' where R: "?R = v # R'" using assms(2) by (cases ?R) auto
    have "mv_device_id v \<in> set (devices_of [mv_device_id v] R')" using devices_mono [of "[mv_device_id v]" R'] by simp
    then show ?thesis by (simp add: R reported_def devices_Cons)
  qed
  have view_ok: "\<forall>v\<in>set (ms_view s). mv_in_use v \<longrightarrow> mv_field_type v \<noteq> MEASUREMENT_FIELD_NONE \<and> 0 < mv_sample_count v"
    using assms(1) by (simp add: rows_in_use_def)
  obtain mx where loop: "narodmon_metrics_loop n ?out (signals [] (\<lambda>d. 0) 150) 0 False (ms_view s) =
     (?out @ concat (List.map row_line (reported ?D ?R)), signals ?D mx (150 - length ?D), True)"
    and mx: "\<forall>d\<in>set ?D. mx d = foldl max 0 (List.map mv_sample_count (filter (\<lambda>v. mv_device_id v = d) ?R))"
    using metrics_loop_eq [of "[]" 150 "\<lambda>d. 0" "ms_view s" ?out n False] view_ok len(2) rne by auto
  have ms: "List.map (\<lambda>d. narodmon_signal_line (signal_of mx d)) ?D
      = List.map (\<lambda>d. narodmon_signal_line (signal_of (max_samples ?R) d)) ?D"
    using mx by (simp add: max_samples_def signal_of_def)
  have "signals [] (\<lambda>d. 0) 150 = replicate MEASUREMENT_STORE_VIEW_SIZE \<lparr>ns_in_use = False, ns_device_id = 0, ns_max_samples = 0\<rparr>"
    by (simp add: signals_def unused_signal_def MEASUREMENT_STORE_VIEW_SIZE_def)
  then have "measurement_store_build_narodmon_payload n up s =
      narodmon_signals_loop n (?out @ concat (List.map row_line (reported ?D ?R))) (signals ?D mx (150 - length ?D))"
    using loop len(1)
    by (simp add: measurement_store_build_narodmon_payload_def append_fits_def uptime_line_def)
  also have "\<dots> = (?out @ concat (List.map row_line (reported ?D ?R))) @
      concat (List.map (\<lambda>d. narodmon_signal_line (signal_of mx d)) ?D)"
    using assms(3) unfolding narodmon_report_def Let_def ms [symmetric] by (intro signals_loop_eq) simp
  finally show ?thesis by (simp only: narodmon_report_def Let_def ms append_assoc)
qed

subsection \<open>The length of the report\<close>

text \<open>Which of the three kinds of line a field gives, and the longest line of that kind.\<close>

fun line_class :: "measurement_field \<Rightarrow> nat" where
  "line_class MEASUREMENT_FIELD_HUMIDITY = 1"
| "line_class MEASUREMENT_FIELD_BATTERY = 2"
| "line_class _ = 0"

definition class_width :: "nat \<Rightarrow> nat" where
  "class_width c = (if c = 0 then 20 else if c = 1 then 17 else 21)"

definition value_ok :: "measurement_view_entry \<Rightarrow> bool" where
  "value_ok v = (\<bar>mv_average_value v\<bar> \<le> 999 \<and> (line_class (mv_field_type v) \<noteq> 0 \<longrightarrow> 0 \<le> mv_average_value v))"

lemma length_row_line: "value_ok v \<Longrightarrow> length (row_line v) \<le> class_width (line_class (mv_field_type v))"
proof -
  assume v: "value_ok v"
  then have "\<bar>mv_average_value v\<bar> * 10 ^ 2 + 1 / 2 < 10 ^ (2 + 3)" by (simp add: value_ok_def)
  then have sf: "length (show_fixed 2 (mv_average_value v)) \<le> (if mv_average_value v < 0 then 1 else 0) + 6"
    using length_show_fixed [of "mv_average_value v" 2 3] by simp
  have "length (show_pad 6 (measurement_device_id_to_display (mv_device_id v))) = 6"
    by (rule length_show_pad) (simp_all add: measurement_device_id_to_display_def)
  then show ?thesis using sf v
    by (cases "mv_field_type v") (auto simp: row_line_def narodmon_metric_line_def class_width_def value_ok_def
        split: if_splits)
qed

lemma length_signal_line: "ns_max_samples e < 10 ^ 5 \<Longrightarrow> length (narodmon_signal_line e) \<le> 20"
proof -
  assume "ns_max_samples e < 10 ^ 5"
  then have "length (show_nat (ns_max_samples e)) \<le> 5" by (rule length_show_nat_le) simp
  moreover have "length (show_pad 6 (measurement_device_id_to_display (ns_device_id e))) = 6"
    by (rule length_show_pad) (simp_all add: measurement_device_id_to_display_def)
  ultimately show ?thesis by (simp add: narodmon_signal_line_def)
qed

lemma length_rows:
  assumes "distinct (List.map (\<lambda>v. (mv_device_id v, line_class (mv_field_type v))) rows)"
    "\<forall>v\<in>set rows. value_ok v \<and> mv_device_id v \<in> set ds" "distinct ds"
  shows "length (concat (List.map row_line rows)) \<le> 58 * length ds"
proof -
  let ?key = "\<lambda>v. (mv_device_id v, line_class (mv_field_type v))"
  have "line_class f \<in> {0, 1, 2}" for f by (cases f) simp_all
  then have sub: "set (List.map ?key rows) \<subseteq> set ds \<times> {0, 1, 2}" using assms(2) by force
  have "length (concat (List.map row_line rows)) = sum_list (List.map (\<lambda>v. length (row_line v)) rows)"
    by (simp add: length_concat comp_def)
  also have "\<dots> \<le> sum_list (List.map (\<lambda>v. class_width (snd (?key v))) rows)"
    using assms(2) length_row_line by (intro sum_list_mono) auto
  also have "\<dots> = sum_list (List.map (\<lambda>k. class_width (snd k)) (List.map ?key rows))" by (simp add: comp_def)
  also have "\<dots> = (\<Sum>k\<in>set (List.map ?key rows). class_width (snd k))"
    using assms(1) by (rule sum_list_distinct_conv_sum_set)
  also have "\<dots> \<le> (\<Sum>k\<in>set ds \<times> {0, 1, 2}. class_width (snd k))"
    using sub by (intro sum_mono2) auto
  also have "\<dots> = (\<Sum>d\<in>set ds. \<Sum>c\<in>{0, 1, 2}. class_width c)"
    by (subst sum.cartesian_product) (simp add: case_prod_beta)
  also have "\<dots> = 58 * length ds" using assms(3) by (simp add: class_width_def distinct_card)
  finally show ?thesis .
qed

lemma max_samples_bound: "\<forall>v\<in>set rows. mv_sample_count v < b \<Longrightarrow> 0 < b \<Longrightarrow> max_samples rows d < b"
proof -
  have "foldl max x ns < b" if "x < b" "\<forall>n\<in>set ns. n < b" for x and ns :: "nat list"
    using that by (induction ns arbitrary: x) auto
  then show "\<forall>v\<in>set rows. mv_sample_count v < b \<Longrightarrow> 0 < b \<Longrightarrow> max_samples rows d < b"
    by (simp add: max_samples_def)
qed

lemma length_report:
  assumes "distinct (List.map (\<lambda>v. (mv_device_id v, line_class (mv_field_type v))) rows)"
    "\<forall>v\<in>set rows. value_ok v \<and> mv_sample_count v < 2 ^ 16" "up < 2 ^ 32"
  shows "length (narodmon_report up rows) \<le> 3997"
proof -
  let ?D = "devices_of [] rows"
  have D: "distinct ?D" "length ?D \<le> 51" using devices_distinct [of "[]" rows] by simp_all
  have "distinct (List.map (\<lambda>v. (mv_device_id v, line_class (mv_field_type v))) (reported ?D rows))"
    using assms(1) unfolding reported_def by (rule distinct_map_filter)
  then have a: "length (concat (List.map row_line (reported ?D rows))) \<le> 58 * length ?D"
    using assms(2) D(1) by (intro length_rows) (auto simp: reported_def)
  have "max_samples rows d < 10 ^ 5" for d
    using max_samples_bound [of rows "2 ^ 16" d] assms(2) by auto
  then have "length (narodmon_signal_line (signal_of (max_samples rows) d)) \<le> 20" for d
    by (intro length_signal_line) (simp add: signal_of_def)
  then have "sum_list (List.map (\<lambda>d. length (narodmon_signal_line (signal_of (max_samples rows) d))) ?D)
      \<le> sum_list (List.map (\<lambda>d. 20) ?D)" by (intro sum_list_mono)
  then have "sum_list (List.map (\<lambda>d. length (narodmon_signal_line (signal_of (max_samples rows) d))) ?D) \<le> length ?D * 20"
    by (simp add: sum_list_triv)
  then have b: "length (concat (List.map (\<lambda>d. narodmon_signal_line (signal_of (max_samples rows) d)) ?D)) \<le> 20 * length ?D"
    by (simp add: length_concat comp_def mult.commute)
  have "length (show_nat up) \<le> 10" using assms(3) by (intro length_show_nat_le) simp_all
  then have c: "length (uptime_line up) \<le> 19" by (simp add: uptime_line_def)
  have "length (narodmon_report up rows) \<le> 19 + (58 * length ?D + 20 * length ?D)"
    using a b c unfolding narodmon_report_def Let_def length_append by linarith
  then show ?thesis using D(2) by linarith
qed

lemma distinct_map_filterI:
  "(\<And>i j. i < length xs \<Longrightarrow> j < length xs \<Longrightarrow> P (xs ! i) \<Longrightarrow> P (xs ! j) \<Longrightarrow> k (xs ! i) = k (xs ! j) \<Longrightarrow> i = j) \<Longrightarrow>
   distinct (List.map k (filter P xs))"
proof (induction xs)
  case Nil
  then show ?case by simp
next
  case (Cons x xs)
  have "distinct (List.map k (filter P xs))"
    using Cons.prems [of "Suc _" "Suc _"] by (intro Cons.IH) simp
  moreover have "k x \<notin> k ` set (filter P xs)" if "P x"
  proof
    assume "k x \<in> k ` set (filter P xs)"
    then obtain j where "j < length xs" "P (xs ! j)" "k x = k (xs ! j)" by (auto simp: in_set_conv_nth)
    then show False using Cons.prems [of 0 "Suc j"] that by simp
  qed
  ultimately show ?case by simp
qed

lemma revision_spec:
  "ms_table (measurement_revision now s) = List.map (\<lambda>e. if expired now (ms_retention_ms s) e then freed e else e) (ms_table s)"
  "length (ms_view (measurement_revision now s)) = 150"
  "view_of (ms_table (measurement_revision now s)) (ms_view (measurement_revision now s))"
proof -
  let ?s = "s\<lparr>ms_table := List.map (\<lambda>e. if expired now (ms_retention_ms s) e then freed e else e) (ms_table s)\<rparr>"
  have eq: "measurement_revision now s = (measurement_view_rebuild ?s)\<lparr>ms_last_revision_ms := now\<rparr>"
    by (simp add: measurement_revision_def prune_map Let_def)
  have "ms_table (measurement_view_rebuild ?s) = ms_table ?s"
    by (simp add: measurement_view_rebuild_def split: prod.split)
  then show "ms_table (measurement_revision now s) = List.map (\<lambda>e. if expired now (ms_retention_ms s) e then freed e else e) (ms_table s)"
    "length (ms_view (measurement_revision now s)) = 150"
    "view_of (ms_table (measurement_revision now s)) (ms_view (measurement_revision now s))"
    using view_rebuild_spec [of ?s] by (simp_all add: eq)
qed

text \<open>A store with one battery reading of 87 %, for the examples.\<close>

definition sample_store :: measurement_store where
  "sample_store = fst (measurement_store_add 11 MEASUREMENT_FIELD_BATTERY 87 1000 (measurement_store_init 0))"

lemma not_live_empty [simp]: "\<not> live empty_entry"
  by (simp add: live_def empty_entry_def)

lemma sample_table:
  "ms_table sample_store = \<lparr>me_device_id = 11, me_field_type = MEASUREMENT_FIELD_BATTERY, me_value = 87, me_timestamp_ms = 1000\<rparr>
     # replicate 2047 empty_entry"
  "ms_retention_ms sample_store = 300000"
proof -
  have p: "measurement_table_prune now r (replicate n empty_entry) = (replicate n empty_entry, n)" for now r n
    by (induction n) (simp_all add: live_def empty_entry_def)
  have r: "replicate (2048 :: nat) empty_entry = empty_entry # replicate 2047 empty_entry"
  proof -
    have "(2048 :: nat) = Suc 2047" by simp
    then show ?thesis by (simp only: replicate_Suc)
  qed
  have "measurement_find_free_slot (replicate 2048 empty_entry) = Some 0"
    unfolding r by (simp add: measurement_find_free_slot_def live_def empty_entry_def)
  then show "ms_table sample_store = \<lparr>me_device_id = 11, me_field_type = MEASUREMENT_FIELD_BATTERY, me_value = 87, me_timestamp_ms = 1000\<rparr>
     # replicate 2047 empty_entry" "ms_retention_ms sample_store = 300000"
    by (simp_all add: sample_store_def measurement_store_add_def measurement_store_init_def MEASUREMENT_STORE_TABLE_SIZE_def p
        measurement_enforce_series_limit_def config_limits MEASUREMENT_STORE_RETENTION_DEFAULT_MS_def Let_def r)
qed

subsection \<open>The properties of the store\<close>

text \<open>
  C9: adding a measurement always succeeds and stores it in exactly one slot; an entry disappears only
  because it expired, because its series is at its configured limit, or, when all 2048 slots hold fresh
  entries, because it is the oldest of them; and the series limit holds afterwards.
\<close>

theorem measurement_add:
  assumes "f \<noteq> MEASUREMENT_FIELD_NONE" and "ms_table s \<noteq> []" and "measurement_store_add d f v now s = (s', ok)"
  shows "ok \<and> length (ms_table s') = length (ms_table s) \<and>
    (\<exists>i<length (ms_table s).
       ms_table s' ! i = \<lparr>me_device_id = d, me_field_type = f, me_value = v, me_timestamp_ms = now\<rparr> \<and>
       (live (ms_table s ! i) \<longrightarrow> expired now (ms_retention_ms s) (ms_table s ! i) \<or>
          over_limit s now d f (ms_table s ! i) \<or> full_of_newer s now (ms_table s ! i)) \<and>
       (\<forall>j<length (ms_table s). j \<noteq> i \<longrightarrow> ms_table s' ! j = ms_table s ! j \<or>
          \<not> live (ms_table s' ! j) \<and>
          (expired now (ms_retention_ms s) (ms_table s ! j) \<or> over_limit s now d f (ms_table s ! j)))) \<and>
    (ms_max_count s \<noteq> 0 \<longrightarrow> count_if (in_series d f) (ms_table s') \<le> ms_max_count s)"
  using store_add_spec [OF assms] by blast

theorem measurement_add_witness:
  "\<exists>i<2048. ms_table (fst (measurement_store_add 5 MEASUREMENT_FIELD_HUMIDITY 40 2000 sample_store)) ! i =
     \<lparr>me_device_id = 5, me_field_type = MEASUREMENT_FIELD_HUMIDITY, me_value = 40, me_timestamp_ms = 2000\<rparr>"
  using measurement_add [of MEASUREMENT_FIELD_HUMIDITY sample_store 5 40 2000]
  by (cases "measurement_store_add 5 MEASUREMENT_FIELD_HUMIDITY 40 2000 sample_store") (auto simp: sample_table)

text \<open>
  C10: after a revision the view is what the table says: no entry is past its retention, every row shows
  one series with the number of its entries and the quotient of their sum and that number, no series has
  two rows, and every series has its row unless all 150 rows are taken.
\<close>

theorem measurement_revision_view:
  "length (ms_view (measurement_revision now s)) = 150 \<and>
   view_of (ms_table (measurement_revision now s)) (ms_view (measurement_revision now s)) \<and>
   (\<forall>e\<in>set (ms_table (measurement_revision now s)). \<not> expired now (ms_retention_ms s) e)"
  using revision_spec [of now s] by (auto simp: expired_def)

theorem measurement_revision_view_witness:
  "length (ms_view (measurement_revision 2000 sample_store)) = 150 \<and>
   view_of (ms_table (measurement_revision 2000 sample_store)) (ms_view (measurement_revision 2000 sample_store))"
  using measurement_revision_view [of 2000 sample_store] by blast

text \<open>
  The average shown for a battery series is the exact mean of the readings (whole percents),
  rounded once to single precision: the running sum of up to 2048 readings loses nothing.
\<close>

theorem battery_average_exact:
  assumes "length (ms_table s) \<le> 2048"
    and "\<forall>e\<in>set (ms_table s). me_field_type e = MEASUREMENT_FIELD_BATTERY \<longrightarrow> (\<exists>n\<le>255. me_value e = of_nat n)"
    and "v \<in> set (ms_view (measurement_revision now s))" and "mv_in_use v" and "mv_field_type v = MEASUREMENT_FIELD_BATTERY"
  shows "\<exists>ns. series_values (mv_device_id v) MEASUREMENT_FIELD_BATTERY (ms_table (measurement_revision now s)) = List.map of_nat ns \<and>
    ns \<noteq> [] \<and> mv_sample_count v = length ns \<and>
    mv_average_value v = f32_round (of_nat (sum_list ns) / of_nat (length ns))"
proof -
  let ?t = "ms_table (measurement_revision now s)"
  let ?vals = "series_values (mv_device_id v) MEASUREMENT_FIELD_BATTERY ?t"
  have "\<forall>x\<in>set ?vals. \<exists>n. x = of_nat n \<and> n \<le> 255"
    using assms(2) by (fastforce simp: series_values_def revision_spec(1) in_series_def freed_def split: if_splits)
  then obtain g where g: "\<forall>x\<in>set ?vals. x = of_nat (g x) \<and> g x \<le> 255" by metis
  define ns where "ns = List.map g ?vals"
  have vals: "?vals = List.map of_nat ns" using g by (simp add: ns_def map_idI)
  have "length ?vals \<le> length ?t" by (simp add: series_values_def)
  then have len: "length ns \<le> 2048" using assms(1) by (simp add: ns_def revision_spec(1))
  have "row_shows ?t v" using revision_spec(3) [of now s] assms(3,4) by (simp add: view_of_def)
  then have r: "?vals \<noteq> []" "mv_sample_count v = length ?vals mod 2 ^ 16"
    "mv_average_value v = f32_div (series_sum ?vals) (f32_of_int (int (length ?vals)))"
    using assms(5) by (simp_all add: row_shows_def Let_def)
  have "\<forall>n\<in>set ns. n \<le> 255" using g by (simp add: ns_def)
  then have "mv_average_value v = f32_round (of_nat (sum_list ns) / of_nat (length ns))"
    using integer_average [OF vals _ len] r(3) by simp
  moreover have "length ?vals = length ns" by (simp add: ns_def)
  moreover have "ns \<noteq> []" using r(1) by (simp add: ns_def)
  ultimately show ?thesis using vals r(2) len by (intro exI [of _ ns]) simp
qed

lemma sample_view:
  "ms_view (measurement_revision 1000 sample_store) =
     \<lparr>mv_in_use = True, mv_device_id = 11, mv_field_type = MEASUREMENT_FIELD_BATTERY, mv_average_value = 87, mv_sample_count = 1\<rparr>
     # replicate 149 empty_view_entry"
proof -
  have skip: "foldl (\<lambda>va e. view_add_entry e va) va (replicate n empty_entry) = va" for va n
    by (induction n) (cases va; simp)+
  have r: "replicate (150 :: nat) x = x # replicate 149 x" for x :: 'a
  proof -
    have "(150 :: nat) = Suc 149" by simp
    then show ?thesis by (simp only: replicate_Suc)
  qed
  have f: "f32_add 0 87 = 87" "f32_of_int 1 = 1" "f32_div 87 1 = 87"
    using f32_round_nat [of 87] f32_round_nat [of 1] by (simp_all add: f32_add_def f32_of_int_def f32_div_def)
  have e: "\<not> expired 1000 300000 empty_entry" by (simp add: expired_def)
  have z: "zip (replicate n a) (replicate n b) = replicate n (a, b)" for n and a :: 'a and b :: 'b
    by (induction n) simp_all
  have vs: "view_slot d g j (Some x) (replicate n empty_view_entry) = Some x" for d g j x n
    by (induction n arbitrary: j) (simp_all add: empty_view_entry_def)
  let ?e = "\<lparr>me_device_id = 11, me_field_type = MEASUREMENT_FIELD_BATTERY, me_value = 87, me_timestamp_ms = 1000\<rparr>"
  let ?z = "\<lparr>ac_sum_value = 0, ac_sample_count = 0\<rparr>"
  let ?v = "empty_view_entry\<lparr>mv_in_use := True, mv_device_id := 11, mv_field_type := MEASUREMENT_FIELD_BATTERY\<rparr>"
  have "\<not> mv_in_use empty_view_entry" by (simp add: empty_view_entry_def)
  then have step: "view_add_entry ?e (empty_view_entry # replicate 149 empty_view_entry, ?z # replicate 149 ?z)
      = (?v # replicate 149 empty_view_entry, \<lparr>ac_sum_value = 87, ac_sample_count = 1\<rparr> # replicate 149 ?z)"
    by (simp add: live_def vs f(1) Let_def)
  have pr: "List.map (\<lambda>e. if expired 1000 300000 e then freed e else e) (ms_table sample_store) = ms_table sample_store"
    by (simp add: sample_table e) (simp add: expired_def)
  have "foldl (\<lambda>va e. view_add_entry e va)
     (replicate MEASUREMENT_STORE_VIEW_SIZE empty_view_entry, replicate MEASUREMENT_STORE_VIEW_SIZE ?z) (ms_table sample_store)
      = (?v # replicate 149 empty_view_entry, \<lparr>ac_sum_value = 87, ac_sample_count = 1\<rparr> # replicate 149 ?z)"
    by (simp only: MEASUREMENT_STORE_VIEW_SIZE_def r sample_table(1) foldl.simps step skip)
  then have "ms_view (measurement_revision 1000 sample_store) =
      view_finish ?v \<lparr>ac_sum_value = 87, ac_sample_count = 1\<rparr> # replicate 149 (view_finish empty_view_entry ?z)"
    by (simp add: measurement_revision_def prune_map Let_def measurement_view_rebuild_def sample_table(2) pr z)
  then show ?thesis by (simp add: view_finish_def empty_view_entry_def f)
qed

theorem battery_average_exact_witness:
  "\<exists>ns. series_values 11 MEASUREMENT_FIELD_BATTERY (ms_table (measurement_revision 1000 sample_store)) = List.map of_nat ns \<and>
     f32_round (of_nat (sum_list ns) / of_nat (length ns)) = 87"
proof -
  let ?v = "\<lparr>mv_in_use = True, mv_device_id = 11, mv_field_type = MEASUREMENT_FIELD_BATTERY, mv_average_value = 87, mv_sample_count = 1\<rparr>"
  have "me_value e = of_nat 87" if "e \<in> set (ms_table sample_store)" "me_field_type e = MEASUREMENT_FIELD_BATTERY" for e
    using that by (auto simp: sample_table empty_entry_def)
  then have "\<forall>e\<in>set (ms_table sample_store). me_field_type e = MEASUREMENT_FIELD_BATTERY \<longrightarrow> (\<exists>n\<le>255. me_value e = of_nat n)"
    by (intro ballI impI exI [of _ 87]) simp
  then obtain ns where "series_values 11 MEASUREMENT_FIELD_BATTERY (ms_table (measurement_revision 1000 sample_store)) = List.map of_nat ns"
    "mv_average_value ?v = f32_round (of_nat (sum_list ns) / of_nat (length ns))"
    using battery_average_exact [of sample_store ?v 1000] sample_view by (auto simp: sample_table)
  then show ?thesis by auto
qed

text \<open>
  The report for narodmon.ru is complete: with sensor values in their physical range and no device
  that has both kinds of temperature, the 51 devices the code admits fit, so no line is cut off in the
  4096-byte buffer, whatever the number of measurements.
\<close>

theorem narodmon_payload_complete:
  assumes "length (ms_table s) \<le> 2048" and "up < 2 ^ 32"
    and "rows = rows_in_use (ms_view (measurement_revision now s))" and "rows \<noteq> []"
    and "\<forall>v\<in>set rows. value_ok v"
    and "\<forall>v\<in>set rows. \<forall>w\<in>set rows. mv_device_id v = mv_device_id w \<longrightarrow>
      \<not> (mv_field_type v = MEASUREMENT_FIELD_TEMPERATURE \<and> mv_field_type w = MEASUREMENT_FIELD_1WIRE_TEMPERATURE)"
  shows "measurement_store_build_narodmon_payload APP_NARODMON_PAYLOAD_MAX_LEN up (measurement_revision now s)
      = narodmon_report up rows \<and> length (narodmon_report up rows) \<le> 3997"
proof -
  let ?s = "measurement_revision now s"
  have vo: "view_of (ms_table ?s) (ms_view ?s)" by (rule revision_spec(3))
  have sh: "row_shows (ms_table ?s) v" if "v \<in> set rows" for v
    using vo that assms(3) by (simp add: view_of_def rows_in_use_def)
  have fld: "mv_field_type v \<noteq> MEASUREMENT_FIELD_NONE \<and> 0 < mv_sample_count v \<and> mv_sample_count v < 2 ^ 16"
    if v: "v \<in> set rows" for v
  proof -
    let ?vals = "series_values (mv_device_id v) (mv_field_type v) (ms_table ?s)"
    have "length ?vals \<le> length (ms_table ?s)" by (simp add: series_values_def)
    then have "length ?vals \<le> 2048" using assms(1) by (simp add: revision_spec(1))
    then show ?thesis using sh [OF v] by (simp add: row_shows_def Let_def)
  qed
  have "distinct (List.map (\<lambda>v. (mv_device_id v, line_class (mv_field_type v))) rows)"
    unfolding assms(3) rows_in_use_def
  proof (rule distinct_map_filterI)
    fix i j assume ij: "i < length (ms_view ?s)" "j < length (ms_view ?s)" "mv_in_use (ms_view ?s ! i)" "mv_in_use (ms_view ?s ! j)"
      "(mv_device_id (ms_view ?s ! i), line_class (mv_field_type (ms_view ?s ! i))) =
       (mv_device_id (ms_view ?s ! j), line_class (mv_field_type (ms_view ?s ! j)))"
    then have mem: "ms_view ?s ! i \<in> set rows" "ms_view ?s ! j \<in> set rows" using assms(3) by (auto simp: rows_in_use_def)
    have "mv_field_type (ms_view ?s ! i) = mv_field_type (ms_view ?s ! j)"
      using ij(5) fld [OF mem(1)] fld [OF mem(2)] assms(6) mem
      by (cases "mv_field_type (ms_view ?s ! i)"; cases "mv_field_type (ms_view ?s ! j)") auto
    then have "row_of (mv_device_id (ms_view ?s ! i)) (mv_field_type (ms_view ?s ! i)) (ms_view ?s ! j)"
      using ij by (simp add: row_of_def)
    then show "i = j" using vo ij unfolding view_of_def by blast
  qed
  then have len: "length (narodmon_report up rows) \<le> 3997"
    using fld assms(2,5) by (intro length_report) auto
  have "measurement_store_build_narodmon_payload APP_NARODMON_PAYLOAD_MAX_LEN up ?s = narodmon_report up (rows_in_use (ms_view ?s))"
    using fld assms(3,4) len by (intro payload_eq_report) (auto simp: APP_NARODMON_PAYLOAD_MAX_LEN_def)
  then show ?thesis using len assms(3) by simp
qed

theorem narodmon_payload_complete_witness:
  "measurement_store_build_narodmon_payload 4096 60 (measurement_revision 1000 sample_store) =
     narodmon_report 60 [\<lparr>mv_in_use = True, mv_device_id = 11, mv_field_type = MEASUREMENT_FIELD_BATTERY,
       mv_average_value = 87, mv_sample_count = 1\<rparr>]"
proof -
  let ?v = "\<lparr>mv_in_use = True, mv_device_id = 11, mv_field_type = MEASUREMENT_FIELD_BATTERY, mv_average_value = 87, mv_sample_count = 1\<rparr>"
  have rows: "rows_in_use (ms_view (measurement_revision 1000 sample_store)) = [?v]"
    by (simp add: rows_in_use_def sample_view empty_view_entry_def)
  have "measurement_store_build_narodmon_payload APP_NARODMON_PAYLOAD_MAX_LEN 60 (measurement_revision 1000 sample_store)
      = narodmon_report 60 [?v]"
    using narodmon_payload_complete [of sample_store 60 "[?v]" 1000] rows by (simp add: sample_table value_ok_def)
  then show ?thesis by (simp add: APP_NARODMON_PAYLOAD_MAX_LEN_def)
qed

text \<open>
  Time stamps are compared without regard to the wrap of the 32-bit millisecond clock: an entry
  stamped before the wrap has age 0 afterwards, so a revision keeps it, however old it is, until the
  clock reaches its stamp again.
\<close>

theorem stale_entry_survives_wrap:
  assumes "e \<in> set (ms_table s)" and "live e" and "now < me_timestamp_ms e"
  shows "e \<in> set (ms_table (measurement_revision now s))"
proof -
  have "age_ms now (me_timestamp_ms e) = 0" using assms(3) by (simp add: age_ms_def not_le [symmetric])
  then have "\<not> expired now (ms_retention_ms s) e" by (simp add: expired_def)
  then show ?thesis using assms(1) by (force simp: revision_spec(1))
qed

theorem stale_entry_survives_wrap_witness:
  "\<lparr>me_device_id = 11, me_field_type = MEASUREMENT_FIELD_BATTERY, me_value = 87, me_timestamp_ms = 1000\<rparr>
     \<in> set (ms_table (measurement_revision 999 sample_store))"
  by (rule stale_entry_survives_wrap) (simp_all add: sample_table live_def)

end
