(* ===== verification/Ble_Scanner.thy ===== *)
theory Ble_Scanner
  imports Measurement_Store
begin

text \<open>
  \<^verbatim>\<open>ble_scanner.c\<close>: the parser of BTHome v2 advertisements, the table of seen devices, the selection of
  devices by the configured MAC addresses, and the JSON rows of the web interface.  The events that
  BTstack delivers are values of \<open>ble_event\<close> with the fields its accessors return; a read outside the
  advertising data is the result \<open>None\<close>.
\<close>

unbundle bit_operations_syntax

subsection \<open>Data\<close>

definition BLE_DEVICE_TABLE_SIZE :: nat where "BLE_DEVICE_TABLE_SIZE = 128"
definition BLE_DEVICE_EXPIRY_MS :: u32 where "BLE_DEVICE_EXPIRY_MS = 60000"
definition BLE_DEVICE_BTHOME_DATA_MAX_LEN :: nat where "BLE_DEVICE_BTHOME_DATA_MAX_LEN = 128"

type_synonym bd_addr = "u8 list"

record ble_device_entry =
  bd_in_use :: bool
  bd_selected :: bool
  bd_address :: bd_addr
  bd_device_id :: u32
  bd_address_type :: u8
  bd_rssi :: u8
  bd_bthome_data :: string
  bd_last_seen_ms :: u32

record ble_parse_context =
  pc_has_measurements :: bool
  pc_parsed_any :: bool
  pc_allow_measurements :: bool

record ble_scanner =
  bl_device_table :: "ble_device_entry list"
  bl_allowed_macs :: "string list"

definition zero_entry :: ble_device_entry where
  "zero_entry = \<lparr>bd_in_use = False, bd_selected = False, bd_address = replicate 6 0, bd_device_id = 0,
     bd_address_type = 0, bd_rssi = 0, bd_bthome_data = '''', bd_last_seen_ms = 0\<rparr>"

subsection \<open>Addresses\<close>

definition ble_address_to_normalized_mac :: "bd_addr \<Rightarrow> string" where
  "ble_address_to_normalized_mac address =
     show_hex2 (address ! 0) @ show_hex2 (address ! 1) @ show_hex2 (address ! 2) @
     show_hex2 (address ! 3) @ show_hex2 (address ! 4) @ show_hex2 (address ! 5)"

definition ble_address_to_device_id :: "bd_addr \<Rightarrow> u32" where
  "ble_address_to_device_id address =
     push_bit 24 (ucast (address ! 2)) OR push_bit 16 (ucast (address ! 3)) OR
     push_bit 8 (ucast (address ! 4)) OR ucast (address ! 5)"

definition ble_device_id_to_display :: "u32 \<Rightarrow> nat" where
  "ble_device_id_to_display device_id = unat device_id mod 1000000"

text \<open>\<^verbatim>\<open>sscanf(text, "%2x%2x...")\<close> on pairs of hexadecimal digits, which is what the caller passes.\<close>

fun scan_hex_bytes :: "nat \<Rightarrow> string \<Rightarrow> u8 list option" where
  "scan_hex_bytes 0 s = Some []"
| "scan_hex_bytes (Suc n) (h # l # s) =
     (if isxdigit h \<and> isxdigit l
      then map_option ((#) (of_int (16 * app_text_hex_value h + app_text_hex_value l))) (scan_hex_bytes n s)
      else None)"
| "scan_hex_bytes (Suc n) s = None"

definition ble_normalized_mac_to_address :: "string \<Rightarrow> bd_addr option" where
  "ble_normalized_mac_to_address normalized_mac = scan_hex_bytes 6 normalized_mac"

definition ble_mac_is_allowed :: "string list \<Rightarrow> bd_addr \<Rightarrow> bool" where
  "ble_mac_is_allowed allowed_macs address =
     (find_index (\<lambda>mac. mac = ble_address_to_normalized_mac address) allowed_macs \<noteq> None)"

definition format_ble_address :: "bd_addr \<Rightarrow> string" where
  "format_ble_address address =
     show_hex2 (address ! 0) @ '':'' @ show_hex2 (address ! 1) @ '':'' @ show_hex2 (address ! 2) @ '':'' @
     show_hex2 (address ! 3) @ '':'' @ show_hex2 (address ! 4) @ '':'' @ show_hex2 (address ! 5)"

subsection \<open>The device table\<close>

definition same_device :: "bd_addr \<Rightarrow> u8 \<Rightarrow> ble_device_entry \<Rightarrow> bool" where
  "same_device address address_type e =
     (bd_in_use e \<and> bd_address_type e = address_type \<and> bd_address e = address)"

definition ble_device_table_find :: "bd_addr \<Rightarrow> u8 \<Rightarrow> ble_device_entry list \<Rightarrow> nat option" where
  "ble_device_table_find address address_type table = find_index (same_device address address_type) table"

definition ble_device_table_find_by_mac_string :: "string \<Rightarrow> ble_device_entry list \<Rightarrow> nat option" where
  "ble_device_table_find_by_mac_string normalized_mac table =
     find_index (\<lambda>e. bd_in_use e \<and> ble_address_to_normalized_mac (bd_address e) = normalized_mac) table"

text \<open>
  The loop of \<^verbatim>\<open>ble_device_table_update\<close> from index \<open>i\<close>: the entry of the device (\<open>Inl\<close>), or the slot to
  use (\<open>Inr\<close>): the first unused one, or else the one seen longest ago.
\<close>

fun update_scan :: "bd_addr \<Rightarrow> u8 \<Rightarrow> ble_device_entry list \<Rightarrow> nat \<Rightarrow> nat option \<Rightarrow> nat \<Rightarrow> ble_device_entry list \<Rightarrow> nat + nat" where
  "update_scan address address_type table i free_index oldest_index [] =
     Inr (case free_index of Some f \<Rightarrow> f | None \<Rightarrow> oldest_index)"
| "update_scan address address_type table i free_index oldest_index (e # es) =
     (if bd_in_use e then
        (if bd_address_type e = address_type \<and> bd_address e = address then Inl i
         else update_scan address address_type table (Suc i) free_index
                (if bd_last_seen_ms e < bd_last_seen_ms (table ! oldest_index) then i else oldest_index) es)
      else update_scan address address_type table (Suc i) (if free_index = None then Some i else free_index) oldest_index es)"

definition ble_device_table_update :: "bd_addr \<Rightarrow> u8 \<Rightarrow> u8 \<Rightarrow> u32 \<Rightarrow> ble_scanner \<Rightarrow> ble_scanner" where
  "ble_device_table_update address address_type rssi last_seen_ms s =
     (let table = bl_device_table s; selected = ble_mac_is_allowed (bl_allowed_macs s) address
      in case update_scan address address_type table 0 None 0 table of
           Inl i \<Rightarrow> s\<lparr>bl_device_table := table[i := (table ! i)\<lparr>bd_device_id := ble_address_to_device_id address,
                       bd_rssi := rssi, bd_last_seen_ms := last_seen_ms, bd_selected := selected\<rparr>]\<rparr>
         | Inr i \<Rightarrow> s\<lparr>bl_device_table := table[i := \<lparr>bd_in_use = True, bd_selected = selected, bd_address = address,
                       bd_device_id = ble_address_to_device_id address, bd_address_type = address_type,
                       bd_rssi = rssi, bd_bthome_data = '''', bd_last_seen_ms = last_seen_ms\<rparr>]\<rparr>)"

text \<open>The pass of \<^verbatim>\<open>ble_scanner_periodic\<close>: the entries it keeps move to the front.\<close>

fun periodic_keep :: "u32 \<Rightarrow> ble_device_entry list \<Rightarrow> ble_device_entry list" where
  "periodic_keep now_ms [] = []"
| "periodic_keep now_ms (e # es) =
     (if \<not> bd_in_use e then periodic_keep now_ms es
      else if bd_selected e \<or> age_ms now_ms (bd_last_seen_ms e) \<le> BLE_DEVICE_EXPIRY_MS
      then e # periodic_keep now_ms es
      else periodic_keep now_ms es)"

definition ble_scanner_periodic :: "u32 \<Rightarrow> ble_scanner \<Rightarrow> ble_scanner" where
  "ble_scanner_periodic now_ms s =
     (let kept = periodic_keep now_ms (bl_device_table s)
      in s\<lparr>bl_device_table := kept @ replicate (length (bl_device_table s) - length kept) zero_entry\<rparr>)"

definition ble_scanner_device_count :: "ble_scanner \<Rightarrow> nat" where
  "ble_scanner_device_count s = count_if bd_in_use (bl_device_table s)"

text \<open>The loop over the configured addresses: select the device, or reserve a row for it.\<close>

fun reserve_rows :: "string list \<Rightarrow> ble_device_entry list \<Rightarrow> ble_device_entry list" where
  "reserve_rows [] table = table"
| "reserve_rows (mac # macs) table =
     reserve_rows macs
       (case ble_device_table_find_by_mac_string mac table of
          Some i \<Rightarrow> table[i := (table ! i)\<lparr>bd_selected := True\<rparr>]
        | None \<Rightarrow>
            (case find_index (\<lambda>e. \<not> bd_in_use e) table of
               None \<Rightarrow> table
             | Some slot \<Rightarrow>
                 let address = (case ble_normalized_mac_to_address mac of Some a \<Rightarrow> a | None \<Rightarrow> replicate 6 0)
                 in table[slot := zero_entry\<lparr>bd_in_use := True, bd_selected := True, bd_address := address,
                                             bd_device_id := ble_address_to_device_id address\<rparr>]))"

definition ble_scanner_apply_config :: "app_config \<Rightarrow> ble_scanner \<Rightarrow> ble_scanner" where
  "ble_scanner_apply_config config s =
     (let macs = List.map (bounded_copy APP_CONFIG_ALLOWED_MAC_LEN)
                   (take APP_CONFIG_ALLOWED_MAC_MAX_COUNT (cf_allowed_macs config));
          table = List.map (\<lambda>e. if bd_in_use e then e\<lparr>bd_selected := ble_mac_is_allowed macs (bd_address e)\<rparr> else e)
                    (bl_device_table s)
      in s\<lparr>bl_allowed_macs := macs, bl_device_table := reserve_rows macs table\<rparr>)"

definition ble_scanner_init :: ble_scanner where
  "ble_scanner_init = \<lparr>bl_device_table = replicate BLE_DEVICE_TABLE_SIZE zero_entry, bl_allowed_macs = []\<rparr>"

subsection \<open>The text of the measurements\<close>

definition ble_device_append_bthome_value :: "string \<Rightarrow> string \<Rightarrow> ble_device_entry \<Rightarrow> ble_device_entry" where
  "ble_device_append_bthome_value label val entry =
     (let current = bd_bthome_data entry in
      if length current \<ge> BLE_DEVICE_BTHOME_DATA_MAX_LEN - 1 then entry
      else entry\<lparr>bd_bthome_data :=
        current @ bounded_copy (BLE_DEVICE_BTHOME_DATA_MAX_LEN - length current)
          ((if length current = 0 then '''' else '', '') @ label @ ''='' @ val)\<rparr>)"

definition show_whole :: "f32 \<Rightarrow> string" where
  "show_whole x = (if x < 0 then ''-'' else '''') @ show_nat (nat (round_even \<bar>x\<bar>))"

fun ble_measurement_append_string :: "measurement_field \<Rightarrow> f32 \<Rightarrow> ble_device_entry \<Rightarrow> ble_device_entry" where
  "ble_measurement_append_string MEASUREMENT_FIELD_BATTERY val entry =
     ble_device_append_bthome_value ''bat'' (bounded_copy 24 (show_whole val @ '' %'')) entry"
| "ble_measurement_append_string MEASUREMENT_FIELD_TEMPERATURE val entry =
     ble_device_append_bthome_value ''T'' (bounded_copy 24 (show_fixed 2 val @ '' C'')) entry"
| "ble_measurement_append_string MEASUREMENT_FIELD_HUMIDITY val entry =
     ble_device_append_bthome_value ''H'' (bounded_copy 24 (show_fixed 2 val @ '' %'')) entry"
| "ble_measurement_append_string _ val entry = entry"

subsection \<open>The BTHome parser\<close>

text \<open>What the parser works on: its context, the scratch entry and the measurement store.\<close>

type_synonym parse_state = "ble_parse_context \<times> ble_device_entry \<times> measurement_store"

definition ble_bthome_store_measurement :: "measurement_field \<Rightarrow> f32 \<Rightarrow> u32 \<Rightarrow> parse_state \<Rightarrow> parse_state \<times> bool" where
  "ble_bthome_store_measurement field_type val timestamp_ms ps =
     (case ps of (context, entry, store) \<Rightarrow>
        let entry1 = ble_measurement_append_string field_type val entry;
            context1 = context\<lparr>pc_parsed_any := True\<rparr>
        in if \<not> pc_allow_measurements context then ((context1, entry1, store), True)
           else case measurement_store_add (bd_device_id entry1) field_type val timestamp_ms store of
                  (store1, False) \<Rightarrow> ((context1, entry1, store1), False)
                | (store1, True) \<Rightarrow> ((context1\<lparr>pc_has_measurements := True\<rparr>, entry1, store1), True))"

text \<open>A read of the field data; \<open>None\<close> is a read past its end.\<close>

definition read8 :: "u8 list \<Rightarrow> nat \<Rightarrow> u8 option" where
  "read8 data i = (if i < length data then Some (data ! i) else None)"

definition little_endian_read_16 :: "u8 list \<Rightarrow> nat \<Rightarrow> u16 option" where
  "little_endian_read_16 data i =
     (case read8 data i of None \<Rightarrow> None | Some lo \<Rightarrow> map_option (\<lambda>hi. le16 lo hi) (read8 data (i + 1)))"

definition add8 :: "nat \<Rightarrow> nat \<Rightarrow> nat" where
  "add8 a b = (a + b) mod 2 ^ 8"

definition f32_hundredths :: "int \<Rightarrow> f32" where
  "f32_hundredths i = f32_div (f32_of_int i) 100"

text \<open>
  The loop over the objects: \<open>fuel\<close> bounds the number of rounds (each advances \<open>offset\<close>, so the length of
  the data is enough), and running out of it is \<open>None\<close> as well.
\<close>

fun bthome_objects :: "nat \<Rightarrow> u8 list \<Rightarrow> nat \<Rightarrow> u32 \<Rightarrow> parse_state \<Rightarrow> parse_state option" where
  "bthome_objects 0 field_data offset timestamp_ms ps = None"
| "bthome_objects (Suc fuel) field_data offset timestamp_ms ps =
     (if \<not> offset < length field_data then Some ps else
      case read8 field_data offset of
        None \<Rightarrow> None
      | Some object_id \<Rightarrow>
          let offset = add8 offset 1 in
          (if object_id = 0x00 then
             (if offset + 1 > length field_data then Some ps
              else bthome_objects fuel field_data (add8 offset 1) timestamp_ms ps)
           else if object_id = 0x01 then
             (if offset + 1 > length field_data then Some ps
              else case read8 field_data offset of
                     None \<Rightarrow> None
                   | Some b \<Rightarrow>
                       (case ble_bthome_store_measurement MEASUREMENT_FIELD_BATTERY (f32_of_int (uint b)) timestamp_ms ps of
                          (ps1, False) \<Rightarrow> Some ps1
                        | (ps1, True) \<Rightarrow> bthome_objects fuel field_data (add8 offset 1) timestamp_ms ps1))
           else if object_id = 0x02 then
             (if offset + 2 > length field_data then Some ps
              else case little_endian_read_16 field_data offset of
                     None \<Rightarrow> None
                   | Some w \<Rightarrow>
                       (case ble_bthome_store_measurement MEASUREMENT_FIELD_TEMPERATURE (f32_hundredths (sint w)) timestamp_ms ps of
                          (ps1, False) \<Rightarrow> Some ps1
                        | (ps1, True) \<Rightarrow> bthome_objects fuel field_data (add8 offset 2) timestamp_ms ps1))
           else if object_id = 0x03 then
             (if offset + 2 > length field_data then Some ps
              else case little_endian_read_16 field_data offset of
                     None \<Rightarrow> None
                   | Some w \<Rightarrow>
                       (case ble_bthome_store_measurement MEASUREMENT_FIELD_HUMIDITY (f32_hundredths (uint w)) timestamp_ms ps of
                          (ps1, False) \<Rightarrow> Some ps1
                        | (ps1, True) \<Rightarrow> bthome_objects fuel field_data (add8 offset 2) timestamp_ms ps1))
           else Some ps))"

text \<open>\<open>Some (ps, r)\<close>: the parser returned \<open>r\<close> and left the state \<open>ps\<close>.\<close>

definition ble_parse_bthome_v2 :: "u8 list \<Rightarrow> u32 \<Rightarrow> parse_state \<Rightarrow> (parse_state \<times> bool) option" where
  "ble_parse_bthome_v2 field_data timestamp_ms ps =
     (if length field_data < 3 then Some (ps, False) else
      case read8 field_data 2 of
        None \<Rightarrow> None
      | Some info \<Rightarrow>
          if info AND 0xE0 \<noteq> 0x40 then Some (ps, False)
          else if info AND 0x01 \<noteq> 0 then Some (ps, False)
          else (case ps of (context, entry, store) \<Rightarrow>
            map_option (\<lambda>ps1. (ps1, pc_parsed_any (fst ps1)))
              (bthome_objects (Suc (length field_data)) field_data 3 timestamp_ms
                 (context, entry\<lparr>bd_bthome_data := ''''\<rparr>, store))))"

definition BLUETOOTH_DATA_TYPE_SERVICE_DATA :: u8 where "BLUETOOTH_DATA_TYPE_SERVICE_DATA = 0x16"

text \<open>The loop over the advertising structures, with fuel as above.\<close>

fun advertising_fields :: "nat \<Rightarrow> u8 list \<Rightarrow> nat \<Rightarrow> bd_addr \<Rightarrow> u32 \<Rightarrow> parse_state \<Rightarrow> (parse_state \<times> bool) option" where
  "advertising_fields 0 data offset address timestamp_ms ps = None"
| "advertising_fields (Suc fuel) data offset address timestamp_ms ps =
     (if \<not> offset < length data then Some (ps, False) else
      case read8 data offset of
        None \<Rightarrow> None
      | Some field_len \<Rightarrow>
          if field_len = 0 then Some (ps, False)
          else if offset + 1 + unat field_len > length data then Some (ps, False)
          else case read8 data (offset + 1) of
            None \<Rightarrow> None
          | Some field_type \<Rightarrow>
              let field_data_len = unat field_len - 1;
                  field_data = take field_data_len (drop (offset + 2) data)
              in if field_type = BLUETOOTH_DATA_TYPE_SERVICE_DATA \<and> field_data_len \<ge> 2 then
                   (case little_endian_read_16 field_data 0 of
                      None \<Rightarrow> None
                    | Some uuid16 \<Rightarrow>
                        if uuid16 = 0xFCD2 then
                          (case ps of (context, entry, store) \<Rightarrow>
                             ble_parse_bthome_v2 field_data timestamp_ms
                               (context, entry\<lparr>bd_device_id := ble_address_to_device_id address\<rparr>, store))
                        else advertising_fields fuel data (add8 (offset + unat field_len) 1) address timestamp_ms ps)
                 else advertising_fields fuel data (add8 (offset + unat field_len) 1) address timestamp_ms ps)"

definition ble_parse_bthome_advertising_data ::
  "string list \<Rightarrow> bd_addr \<Rightarrow> u8 list \<Rightarrow> u32 \<Rightarrow> ble_device_entry \<Rightarrow> measurement_store
   \<Rightarrow> (ble_device_entry \<times> measurement_store \<times> bool) option" where
  "ble_parse_bthome_advertising_data allowed_macs address data timestamp_ms entry store =
     (let context = \<lparr>pc_has_measurements = False, pc_parsed_any = False,
                     pc_allow_measurements = ble_mac_is_allowed allowed_macs address\<rparr>
      in map_option (\<lambda>((c, e, st), r). (e, st, r))
           (advertising_fields (Suc (length data)) data 0 address timestamp_ms
              (context, entry\<lparr>bd_bthome_data := ''''\<rparr>, store)))"

subsection \<open>Events\<close>

datatype ble_event =
    Ble_stack_working
  | Ble_advertising_report bd_addr u8 u8 "u8 list"
  | Ble_other_event

datatype ble_command = Ble_log string | Gap_set_scan_parameters nat nat nat | Gap_start_scan

definition ble_packet_handler ::
  "ble_event \<Rightarrow> u32 \<Rightarrow> ble_scanner \<times> measurement_store
   \<Rightarrow> ((ble_scanner \<times> measurement_store) \<times> ble_command list) option" where
  "ble_packet_handler ev now_ms st =
     (case st of (s, store) \<Rightarrow>
        case ev of
          Ble_stack_working \<Rightarrow>
            Some (st, [Ble_log ''BLE scanner is ready, starting passive scan'',
                       Gap_set_scan_parameters 0 0x30 0x30, Gap_start_scan])
        | Ble_advertising_report address address_type rssi data \<Rightarrow>
            (case ble_parse_bthome_advertising_data (bl_allowed_macs s) address data now_ms zero_entry store of
               None \<Rightarrow> None
             | Some (scratch, store1, False) \<Rightarrow> Some ((s, store1), [])
             | Some (scratch, store1, True) \<Rightarrow>
                 let s1 = ble_device_table_update address address_type rssi now_ms s in
                 (case ble_device_table_find address address_type (bl_device_table s1) of
                    None \<Rightarrow> Some ((s1, store1), [])
                  | Some i \<Rightarrow>
                      Some ((s1\<lparr>bl_device_table := (bl_device_table s1)[i := (bl_device_table s1 ! i)\<lparr>bd_bthome_data :=
                               bounded_copy BLE_DEVICE_BTHOME_DATA_MAX_LEN (bd_bthome_data scratch)\<rparr>]\<rparr>, store1), [])))
        | Ble_other_event \<Rightarrow> Some (st, []))"

subsection \<open>JSON\<close>

definition ble_json_row :: "runtime_config \<Rightarrow> u32 \<Rightarrow> bool \<Rightarrow> ble_device_entry \<Rightarrow> string" where
  "ble_json_row rc now_ms first e =
     (if first then '''' else '','') @ ''{\"id\":\"'' @ show_pad 6 (ble_device_id_to_display (bd_device_id e)) @
     ''\",\"device_id\":'' @ show_nat (unat (bd_device_id e)) @ '',\"name\":\"'' @
     app_text_json_escape (APP_CONFIG_DEVICE_NAME_LEN * 2) (Some (app_runtime_config_get_sensor_name rc (bd_device_id e))) @
     ''\",\"mac\":\"'' @ format_ble_address (bd_address e) @ ''\",\"bthome_data\":\"'' @
     app_text_json_escape (BLE_DEVICE_BTHOME_DATA_MAX_LEN * 2) (Some (bd_bthome_data e)) @
     ''\",\"rssi\":'' @ show_int (sint (bd_rssi e)) @ '',\"age_ms\":'' @
     show_nat (unat (age_ms now_ms (bd_last_seen_ms e))) @ '',\"selected\":'' @
     (if bd_selected e then ''true'' else ''false'') @ ''}''"

fun ble_json_loop :: "runtime_config \<Rightarrow> u32 \<Rightarrow> nat \<Rightarrow> bool \<Rightarrow> string \<Rightarrow> ble_device_entry list \<Rightarrow> string" where
  "ble_json_loop rc now_ms insert_len first out [] = out"
| "ble_json_loop rc now_ms insert_len first out (e # es) =
     (if \<not> bd_in_use e then ble_json_loop rc now_ms insert_len first out es
      else case append_fits insert_len out (ble_json_row rc now_ms first e) of
             None \<Rightarrow> out
           | Some out' \<Rightarrow> ble_json_loop rc now_ms insert_len False out' es)"

definition ble_scanner_write_devices_json :: "runtime_config \<Rightarrow> u32 \<Rightarrow> nat \<Rightarrow> ble_scanner \<Rightarrow> string" where
  "ble_scanner_write_devices_json rc now_ms insert_len s = ble_json_loop rc now_ms insert_len True '''' (bl_device_table s)"

definition ble_scanner_write_measurements_json :: "runtime_config \<Rightarrow> nat \<Rightarrow> measurement_store \<Rightarrow> string" where
  "ble_scanner_write_measurements_json rc insert_len store = measurement_store_write_json rc insert_len store"

definition ble_scanner_device_table_used :: "ble_scanner \<Rightarrow> nat" where
  "ble_scanner_device_table_used s = ble_scanner_device_count s"

definition ble_scanner_device_table_capacity :: nat where
  "ble_scanner_device_table_capacity = BLE_DEVICE_TABLE_SIZE"

definition ble_scanner_measurement_table_used :: "measurement_store \<Rightarrow> nat" where
  "ble_scanner_measurement_table_used store = measurement_store_table_used store"

definition ble_scanner_measurement_view_used :: "measurement_store \<Rightarrow> nat" where
  "ble_scanner_measurement_view_used store = measurement_store_view_used store"

end
