(* ===== verification/Bthome.thy ===== *)
theory Bthome
  imports Ble_Scanner
begin

text \<open>
  The BTHome parser of \<^verbatim>\<open>ble_scanner.c\<close>: it reads only inside the advertising data and returns whatever
  the data are, it changes the measurements only for accepted devices, and it stores exactly the readings
  that a well-formed advertisement carries.
\<close>

subsection \<open>What a parser step keeps\<close>

definition parse_frame :: "parse_state \<Rightarrow> parse_state \<Rightarrow> bool" where
  "parse_frame ps ps' =
     (case (ps, ps') of ((c, e, st), (c', e', st')) \<Rightarrow>
        pc_allow_measurements c' = pc_allow_measurements c \<and>
        (\<not> pc_allow_measurements c \<longrightarrow> st' = st) \<and>
        (length (bd_bthome_data e) < 128 \<longrightarrow> length (bd_bthome_data e') < 128))"

lemma parse_frame_refl [simp]: "parse_frame ps ps"
  by (simp add: parse_frame_def split: prod.split)

lemma parse_frame_trans: "parse_frame ps ps1 \<Longrightarrow> parse_frame ps1 ps2 \<Longrightarrow> parse_frame ps ps2"
  by (auto simp: parse_frame_def split: prod.splits)

lemma length_append_value:
  "length (bd_bthome_data e) < 128 \<Longrightarrow> length (bd_bthome_data (ble_device_append_bthome_value l v e)) < 128"
  by (auto simp: ble_device_append_bthome_value_def Let_def BLE_DEVICE_BTHOME_DATA_MAX_LEN_def bounded_copy_def)

lemma length_append_string:
  "length (bd_bthome_data e) < 128 \<Longrightarrow> length (bd_bthome_data (ble_measurement_append_string f v e)) < 128"
  by (cases f) (simp_all add: length_append_value)

lemma append_string_device_id [simp]: "bd_device_id (ble_measurement_append_string f v e) = bd_device_id e"
  by (cases f) (simp_all add: ble_device_append_bthome_value_def Let_def)

lemma store_measurement_frame: "parse_frame ps (fst (ble_bthome_store_measurement f v now ps))"
  by (cases ps) (auto simp: ble_bthome_store_measurement_def parse_frame_def Let_def length_append_string
      split: prod.split bool.split)

subsection \<open>The parser stays inside its input\<close>

lemma add8_id: "a + b < 256 \<Longrightarrow> add8 a b = a + b"
  by (simp add: add8_def)

lemma read8_Some: "i < length d \<Longrightarrow> read8 d i = Some (d ! i)"
  by (simp add: read8_def)

lemma read16_Some: "i + 1 < length d \<Longrightarrow> little_endian_read_16 d i = Some (le16 (d ! i) (d ! (i + 1)))"
  by (simp add: little_endian_read_16_def read8_def)

text \<open>
  The parser without cursors: the next object of a list of bytes with its reading, the objects up to the
  first that is incomplete or unknown, and the first service data of BTHome in a list of advertising
  structures.
\<close>

fun next_object :: "u8 list \<Rightarrow> ((measurement_field \<times> f32) option \<times> u8 list) option" where
  "next_object (i # b # ds) =
     (if i = 0x00 then Some (None, ds)
      else if i = 0x01 then Some (Some (MEASUREMENT_FIELD_BATTERY, f32_of_int (uint b)), ds)
      else case ds of
             [] \<Rightarrow> None
           | b2 # ds' \<Rightarrow>
               if i = 0x02 then Some (Some (MEASUREMENT_FIELD_TEMPERATURE, f32_hundredths (sint (le16 b b2))), ds')
               else if i = 0x03 then Some (Some (MEASUREMENT_FIELD_HUMIDITY, f32_hundredths (uint (le16 b b2))), ds')
               else None)"
| "next_object _ = None"

lemma next_object_length: "next_object ds = Some (r, ds') \<Longrightarrow> length ds' < length ds"
  by (induction ds rule: next_object.induct) (auto split: if_splits list.splits)

lemma next_object_append: "next_object ds = Some (r, ds') \<Longrightarrow> \<exists>p. ds = p @ ds'"
proof (induction ds rule: next_object.induct)
  case (1 i b ds)
  have "\<exists>p. i # b # ds = p @ ds" "\<exists>p. i # b # x # xs = p @ xs" for x xs
    by (intro exI [of _ "[i, b]"], simp) (intro exI [of _ "[i, b, x]"], simp)
  with 1 show ?case by (auto split: if_splits list.splits)
qed simp_all

lemma next_object_suffix:
  assumes "next_object (drop off d) = Some (r, ds')"
  shows "drop (length d - length ds') d = ds'"
proof -
  obtain p where "drop off d = p @ ds'" using next_object_append [OF assms] by blast
  then have "d = (take off d @ p) @ ds'" by (metis append.assoc append_take_drop_id)
  then show ?thesis by (metis append_eq_conv_conj diff_add_inverse2 length_append)
qed

function parse_objects :: "u32 \<Rightarrow> u8 list \<Rightarrow> parse_state \<Rightarrow> parse_state" where
  "parse_objects now ds ps =
     (case next_object ds of
        None \<Rightarrow> ps
      | Some (None, ds') \<Rightarrow> parse_objects now ds' ps
      | Some (Some (f, v), ds') \<Rightarrow>
          (case ble_bthome_store_measurement f v now ps of
             (ps1, False) \<Rightarrow> ps1 | (ps1, True) \<Rightarrow> parse_objects now ds' ps1))"
  by pat_completeness auto
termination
  by (relation "measure (\<lambda>(now, ds, ps). length ds)") (auto simp: next_object_length)

declare parse_objects.simps [simp del]

lemma objects_step:
  assumes "off \<le> length d" "length d \<le> 255"
  shows "bthome_objects (Suc fuel) d off now ps =
    (case next_object (drop off d) of
       None \<Rightarrow> Some ps
     | Some (None, ds') \<Rightarrow> bthome_objects fuel d (length d - length ds') now ps
     | Some (Some (f, v), ds') \<Rightarrow>
         (case ble_bthome_store_measurement f v now ps of
            (ps1, False) \<Rightarrow> Some ps1 | (ps1, True) \<Rightarrow> bthome_objects fuel d (length d - length ds') now ps1))"
proof (cases "off < length d")
  case False
  then show ?thesis using assms by simp
next
  case True
  let ?i = "d ! off"
  have ds: "drop off d = ?i # drop (off + 1) d" using True by (simp add: Cons_nth_drop_Suc)
  have r: "read8 d off = Some ?i" "add8 off 1 = off + 1" using True assms by (simp_all add: read8_Some add8_id)
  show ?thesis
  proof (cases "off + 1 < length d")
    case False
    then have "length d = off + 1" using True by simp
    then show ?thesis using True ds by (simp add: r Let_def del: One_nat_def)
  next
    case b1: True
    let ?b = "d ! (off + 1)"
    have ds1: "drop (off + 1) d = ?b # drop (off + 2) d" using b1 by (simp add: Cons_nth_drop_Suc)
    have r1: "read8 d (off + 1) = Some ?b" "add8 (off + 1) 1 = off + 2"
      using b1 assms by (simp_all add: read8_Some add8_id)
    have bk: "length d - (length d - (off + 2)) = off + 2" using b1 by simp
    show ?thesis
    proof (cases "off + 2 < length d")
      case False
      then have len: "length d = off + 2" using b1 by simp
      then show ?thesis using True by (simp add: ds [unfolded ds1] r r1 Let_def del: One_nat_def)
    next
      case b2: True
      let ?b2 = "d ! (off + 2)"
      have ds2: "drop (off + 2) d = ?b2 # drop (off + 3) d" using b2 by (simp add: Cons_nth_drop_Suc eval_nat_numeral)
      have r2: "little_endian_read_16 d (off + 1) = Some (le16 ?b ?b2)" "add8 (off + 1) 2 = off + 3"
        using b2 assms by (simp_all add: read16_Some add8_id)
      have bk2: "length d - (length d - (off + 3)) = off + 3" using b2 by simp
      show ?thesis using True b1 b2
        by (simp add: ds [unfolded ds1 ds2] r r1 r2 bk bk2 Let_def del: One_nat_def)
    qed
  qed
qed

declare bthome_objects.simps(2) [simp del]

lemma bthome_objects_eq:
  "off \<le> length d \<Longrightarrow> length d \<le> 255 \<Longrightarrow> length d - off < fuel \<Longrightarrow>
   bthome_objects fuel d off now ps = Some (parse_objects now (drop off d) ps)"
proof (induction fuel arbitrary: off ps)
  case 0
  then show ?case by simp
next
  case (Suc fuel)
  have IH: "bthome_objects fuel d (length d - length ds') now ps1 = Some (parse_objects now ds' ps1)"
    if n: "next_object (drop off d) = Some (r, ds')" for r ds' ps1
  proof -
    have l: "length ds' < length d - off" using next_object_length [OF n] by simp
    have "drop (length d - length ds') d = ds'"
      using next_object_suffix [OF n] by simp
    moreover have "bthome_objects fuel d (length d - length ds') now ps1 =
        Some (parse_objects now (drop (length d - length ds') d) ps1)"
      using l Suc.prems by (intro Suc.IH) simp_all
    ultimately show ?thesis by simp
  qed
  show ?case
    by (subst objects_step [OF Suc.prems(1,2)], subst parse_objects.simps)
      (auto simp: IH split: option.split prod.split bool.split)
qed

subsection \<open>The advertising structures\<close>

fun next_field :: "u8 list \<Rightarrow> (u8 \<times> u8 list \<times> u8 list) option" where
  "next_field (n # t # ds) =
     (if n = 0 \<or> length ds < unat n - 1 then None
      else Some (t, take (unat n - 1) ds, drop (unat n - 1) ds))"
| "next_field _ = None"

definition is_bthome :: "u8 \<Rightarrow> u8 list \<Rightarrow> bool" where
  "is_bthome t p = (t = 0x16 \<and> 2 \<le> length p \<and> le16 (p ! 0) (p ! 1) = 0xFCD2)"

lemma next_field_length: "next_field ds = Some (t, p, ds') \<Longrightarrow> length ds' < length ds \<and> length p + 2 \<le> length ds"
  by (induction ds rule: next_field.induct) (auto split: if_splits)

function bthome_service :: "u8 list \<Rightarrow> u8 list option" where
  "bthome_service ds =
     (case next_field ds of
        None \<Rightarrow> None
      | Some (t, p, ds') \<Rightarrow> if is_bthome t p then Some p else bthome_service ds')"
  by pat_completeness auto
termination
  by (relation "measure length") (auto simp: next_field_length)

declare bthome_service.simps [simp del]

lemma bthome_service_length: "bthome_service ds = Some p \<Longrightarrow> length p + 2 \<le> length ds"
proof (induction ds rule: bthome_service.induct)
  case (1 ds)
  show ?case
  proof (cases "next_field ds")
    case None
    then show ?thesis using "1.prems" by (subst (asm) bthome_service.simps) simp
  next
    case (Some x)
    then obtain t q ds' where n: "next_field ds = Some (t, q, ds')" by (cases x) auto
    show ?thesis
    proof (cases "is_bthome t q")
      case True
      then have "p = q" using "1.prems" n by (subst (asm) bthome_service.simps) simp
      then show ?thesis using next_field_length [OF n] by simp
    next
      case False
      then have "bthome_service ds' = Some p" using "1.prems" n by (subst (asm) bthome_service.simps) simp
      then have "length p + 2 \<le> length ds'" by (intro "1.IH" [OF n refl refl False])
      then show ?thesis using next_field_length [OF n] by linarith
    qed
  qed
qed

text \<open>What the loop does with the service data it finds.\<close>

definition parse_service :: "bd_addr \<Rightarrow> u32 \<Rightarrow> parse_state \<Rightarrow> u8 list \<Rightarrow> (parse_state \<times> bool) option" where
  "parse_service address now ps p =
     (case ps of (c, e, st) \<Rightarrow>
        ble_parse_bthome_v2 p now (c, e\<lparr>bd_device_id := ble_address_to_device_id address\<rparr>, st))"

lemma fields_step:
  assumes "off \<le> length d" "length d \<le> 255"
  shows "advertising_fields (Suc fuel) d off address now ps =
    (case next_field (drop off d) of
       None \<Rightarrow> Some (ps, False)
     | Some (t, p, ds') \<Rightarrow> if is_bthome t p then parse_service address now ps p
         else advertising_fields fuel d (length d - length ds') address now ps)"
proof (cases "off < length d \<and> d ! off \<noteq> 0 \<and> off + 1 + unat (d ! off) \<le> length d")
  case True
  let ?n = "unat (d ! off)"
  have n: "0 < ?n" using True by (simp add: unat_gt_0)
  let ?p = "take (?n - 1) (drop (off + 2) d)"
  have fit: "?n - 1 \<le> length d - (off + 2)" using True by linarith
  then have len: "length ?p = ?n - 1" by (simp only: length_take length_drop min_absorb2)
  have ds: "drop off d = d ! off # d ! (off + 1) # drop (off + 2) d"
    using True n Cons_nth_drop_Suc [of off d] Cons_nth_drop_Suc [of "off + 1" d] by simp
  have "?n - 1 + (off + 2) = off + ?n + 1" using n by simp
  then have rest: "length d - length (drop (?n - 1) (drop (off + 2) d)) = off + ?n + 1" using True by simp
  have fld: "next_field (drop off d) = Some (d ! (off + 1), ?p, drop (?n - 1) (drop (off + 2) d))"
    unfolding ds using True fit by simp
  have a: "add8 (off + ?n) 1 = off + ?n + 1" using True assms by (intro add8_id) simp
  have r: "read8 d off = Some (d ! off)" "read8 d (off + 1) = Some (d ! (off + 1))"
    using True n by (simp_all add: read8_Some)
  have w: "little_endian_read_16 ?p 0 = Some (le16 (?p ! 0) (?p ! 1))" if "2 \<le> ?n - 1"
    using that len by (subst read16_Some) simp_all
  have l: "(2 \<le> ?n - 1) = (2 \<le> length ?p)" using len by simp
  show ?thesis
    unfolding fld option.case prod.case rest
    by (simp only: advertising_fields.simps r option.case Let_def a is_bthome_def BLUETOOTH_DATA_TYPE_SERVICE_DATA_def
        parse_service_def l [symmetric] if_False if_True HOL.simp_thms)
      (use True w in \<open>auto simp del: take_eq_Nil drop_drop\<close>)
next
  case False
  have "next_field (drop off d) = None"
  proof (cases "off + 1 < length d")
    case two: True
    then have ds: "drop off d = d ! off # d ! (off + 1) # drop (off + 2) d"
      using Cons_nth_drop_Suc [of off d] Cons_nth_drop_Suc [of "off + 1" d] by simp
    have "d ! off = 0 \<or> length d - (off + 2) < unat (d ! off) - 1"
    proof (cases "d ! off = 0")
      case False
      then have "length d < off + 1 + unat (d ! off)"
        using two \<open>\<not> (off < length d \<and> d ! off \<noteq> 0 \<and> off + 1 + unat (d ! off) \<le> length d)\<close> by simp
      then show ?thesis using two by linarith
    qed simp
    then show ?thesis unfolding ds next_field.simps(1) length_drop by simp
  next
    case one: False
    show ?thesis
    proof (cases "off < length d")
      case True
      then have "drop off d = [d ! off]" using one Cons_nth_drop_Suc [of off d] by simp
      then show ?thesis by simp
    qed simp
  qed
  moreover have "advertising_fields (Suc fuel) d off address now ps = Some (ps, False)"
    using False by (auto simp: read8_def)
  ultimately show ?thesis by simp
qed

declare advertising_fields.simps(2) [simp del]

lemma next_field_suffix:
  assumes "next_field (drop off d) = Some (t, p, ds')"
  shows "drop (length d - length ds') d = ds'"
proof -
  obtain n where n: "drop off d = n # t # (p @ ds')"
    using assms by (cases "drop off d" rule: next_field.cases) (auto split: if_splits)
  then have "d = (take off d @ [n, t] @ p) @ ds'" by (metis append.assoc append_Cons append_Nil append_take_drop_id)
  then show ?thesis by (metis append_eq_conv_conj diff_add_inverse2 length_append)
qed

lemma advertising_fields_eq:
  "off \<le> length d \<Longrightarrow> length d \<le> 255 \<Longrightarrow> length d - off < fuel \<Longrightarrow>
   advertising_fields fuel d off address now ps =
     (case bthome_service (drop off d) of None \<Rightarrow> Some (ps, False) | Some p \<Rightarrow> parse_service address now ps p)"
proof (induction fuel arbitrary: off)
  case 0
  then show ?case by simp
next
  case (Suc fuel)
  have IH: "advertising_fields fuel d (length d - length ds') address now ps =
      (case bthome_service ds' of None \<Rightarrow> Some (ps, False) | Some p \<Rightarrow> parse_service address now ps p)"
    if n: "next_field (drop off d) = Some (t, q, ds')" for t q ds'
  proof -
    have "length ds' < length d - off" using next_field_length [OF n] by simp
    then have "advertising_fields fuel d (length d - length ds') address now ps =
      (case bthome_service (drop (length d - length ds') d) of None \<Rightarrow> Some (ps, False)
       | Some p \<Rightarrow> parse_service address now ps p)"
      using Suc.prems by (intro Suc.IH) simp_all
    then show ?thesis by (simp only: next_field_suffix [OF n])
  qed
  show ?case
    by (subst fields_step [OF Suc.prems(1,2)], subst bthome_service.simps)
      (auto simp: IH split: option.split prod.split)
qed

subsection \<open>What an advertisement says\<close>

text \<open>The readings of the service data, and whether the parser accepts its device information byte.\<close>

function readings :: "u8 list \<Rightarrow> (measurement_field \<times> f32) list" where
  "readings ds =
     (case next_object ds of
        None \<Rightarrow> [] | Some (None, ds') \<Rightarrow> readings ds' | Some (Some r, ds') \<Rightarrow> r # readings ds')"
  by pat_completeness auto
termination
  by (relation "measure length") (auto simp: next_object_length)

declare readings.simps [simp del]

definition bthome_v2 :: "u8 list \<Rightarrow> bool" where
  "bthome_v2 p = (3 \<le> length p \<and> p ! 2 AND 0xE0 = 0x40 \<and> p ! 2 AND 0x01 = 0)"

definition show_readings :: "(measurement_field \<times> f32) list \<Rightarrow> ble_device_entry \<Rightarrow> ble_device_entry" where
  "show_readings rs e = fold (\<lambda>(f, v). ble_measurement_append_string f v) rs e"

definition store_readings :: "u32 \<Rightarrow> u32 \<Rightarrow> (measurement_field \<times> f32) list \<Rightarrow> measurement_store \<Rightarrow> measurement_store" where
  "store_readings dev now rs st = fold (\<lambda>(f, v) st. fst (measurement_store_add dev f v now st)) rs st"

lemma next_object_field: "next_object ds = Some (Some (f, v), ds') \<Longrightarrow> f \<noteq> MEASUREMENT_FIELD_NONE"
  by (induction ds rule: next_object.induct) (auto split: if_splits list.splits)

lemma store_add_table:
  assumes "f \<noteq> MEASUREMENT_FIELD_NONE" "ms_table s \<noteq> []"
  shows "snd (measurement_store_add d f v now s) \<and> ms_table (fst (measurement_store_add d f v now s)) \<noteq> []"
proof -
  obtain s' ok where r: "measurement_store_add d f v now s = (s', ok)" by (cases "measurement_store_add d f v now s")
  have "ok" "length (ms_table s') = length (ms_table s)" using store_add_spec [OF assms r] by blast+
  then show ?thesis using assms(2) r by (metis fst_conv length_0_conv snd_conv)
qed

definition seen :: "bool \<Rightarrow> bool \<Rightarrow> ble_parse_context \<Rightarrow> ble_parse_context" where
  "seen any stored c = c\<lparr>pc_parsed_any := pc_parsed_any c \<or> any, pc_has_measurements := pc_has_measurements c \<or> stored\<rparr>"

lemma parse_objects_readings:
  "ms_table st \<noteq> [] \<Longrightarrow>
   parse_objects now ds (c, e, st) =
     (seen (readings ds \<noteq> []) (pc_allow_measurements c \<and> readings ds \<noteq> []) c, show_readings (readings ds) e,
      if pc_allow_measurements c then store_readings (bd_device_id e) now (readings ds) st else st)"
proof (induction ds arbitrary: c e st rule: readings.induct)
  case (1 ds)
  show ?case
  proof (cases "next_object ds")
    case None
    then show ?thesis
      by (subst parse_objects.simps, subst (1 2 3 4) readings.simps)
        (simp add: seen_def show_readings_def store_readings_def)
  next
    case (Some x)
    then obtain r ds' where n: "next_object ds = Some (r, ds')" by (cases x) auto
    show ?thesis
    proof (cases r)
      case None
      with n have n: "next_object ds = Some (None, ds')" by simp
      then have "readings ds = readings ds'" by (subst readings.simps) simp
      then show ?thesis using "1.IH"(1) [OF n refl refl "1.prems"] n
        by (subst parse_objects.simps) simp
    next
      case (Some fv)
      with n obtain f v where n: "next_object ds = Some (Some (f, v), ds')" by (cases fv) auto
      then have rd: "readings ds = (f, v) # readings ds'" by (subst readings.simps) simp
      note add = store_add_table [OF next_object_field [OF n] "1.prems"]
      have IH: "ms_table st1 \<noteq> [] \<Longrightarrow> parse_objects now ds' (c1, e1, st1) =
         (seen (readings ds' \<noteq> []) (pc_allow_measurements c1 \<and> readings ds' \<noteq> []) c1, show_readings (readings ds') e1,
          if pc_allow_measurements c1 then store_readings (bd_device_id e1) now (readings ds') st1 else st1)" for c1 e1 st1
        using "1.IH"(2) [OF n refl refl] by simp
      show ?thesis
      proof (cases "pc_allow_measurements c")
        case True
        obtain st1 where st1: "measurement_store_add (bd_device_id e) f v now st = (st1, True)" "ms_table st1 \<noteq> []"
          using add [of "bd_device_id e" v now] by (cases "measurement_store_add (bd_device_id e) f v now st") auto
        then show ?thesis using n True
          by (subst parse_objects.simps)
            (simp add: ble_bthome_store_measurement_def Let_def IH rd seen_def show_readings_def store_readings_def)
      next
        case False
        then show ?thesis using n "1.prems"
          by (subst parse_objects.simps)
            (simp add: ble_bthome_store_measurement_def Let_def IH rd seen_def show_readings_def)
      qed
    qed
  qed
qed

lemma parse_bthome_eq:
  assumes "length p \<le> 255"
  shows "ble_parse_bthome_v2 p now (c, e, st) =
    Some (if bthome_v2 p
          then let ps = parse_objects now (drop 3 p) (c, e\<lparr>bd_bthome_data := ''''\<rparr>, st) in (ps, pc_parsed_any (fst ps))
          else ((c, e, st), False))"
  using assms
  by (auto simp: ble_parse_bthome_v2_def bthome_v2_def read8_Some bthome_objects_eq Let_def)

definition advertisement_result ::
  "bool \<Rightarrow> bd_addr \<Rightarrow> u8 list \<Rightarrow> u32 \<Rightarrow> ble_device_entry \<Rightarrow> measurement_store \<Rightarrow> ble_device_entry \<times> measurement_store \<times> bool" where
  "advertisement_result allowed address data now e st =
     (let e0 = e\<lparr>bd_bthome_data := ''''\<rparr>; dev = ble_address_to_device_id address
      in case bthome_service data of
           None \<Rightarrow> (e0, st, False)
         | Some p \<Rightarrow>
             let e1 = e0\<lparr>bd_device_id := dev\<rparr>; rs = readings (drop 3 p)
             in if bthome_v2 p
                then (show_readings rs e1, if allowed then store_readings dev now rs st else st, rs \<noteq> [])
                else (e1, st, False))"

lemma parse_advertising_eq:
  assumes "length data \<le> 255" "ms_table st \<noteq> []"
  shows "ble_parse_bthome_advertising_data macs address data now e st =
    Some (advertisement_result (ble_mac_is_allowed macs address) address data now e st)"
proof -
  have "length p \<le> 255" if "bthome_service data = Some p" for p
    using bthome_service_length [OF that] assms(1) by simp
  then show ?thesis
    by (cases e; cases "bthome_service data")
      (simp_all add: ble_parse_bthome_advertising_data_def advertising_fields_eq parse_service_def assms(1)
        parse_bthome_eq parse_objects_readings [OF assms(2)] advertisement_result_def seen_def Let_def)
qed

lemma length_show_readings:
  "length (bd_bthome_data e) < 128 \<Longrightarrow> length (bd_bthome_data (show_readings rs e)) < 128"
  by (induction rs arbitrary: e) (auto simp: show_readings_def length_append_string)

subsection \<open>Advertisements as a sensor sends them\<close>

datatype bthome_object = Packet_id u8 | Battery u8 | Temperature u16 | Humidity u16

fun encode_object :: "bthome_object \<Rightarrow> u8 list" where
  "encode_object (Packet_id n) = [0x00, n]"
| "encode_object (Battery b) = [0x01, b]"
| "encode_object (Temperature w) = [0x02, ucast w, ucast (drop_bit 8 w)]"
| "encode_object (Humidity w) = [0x03, ucast w, ucast (drop_bit 8 w)]"

fun reading_of :: "bthome_object \<Rightarrow> (measurement_field \<times> f32) list" where
  "reading_of (Packet_id n) = []"
| "reading_of (Battery b) = [(MEASUREMENT_FIELD_BATTERY, f32_of_int (uint b))]"
| "reading_of (Temperature w) = [(MEASUREMENT_FIELD_TEMPERATURE, f32_hundredths (sint w))]"
| "reading_of (Humidity w) = [(MEASUREMENT_FIELD_HUMIDITY, f32_hundredths (uint w))]"

definition ad_structure :: "u8 \<Rightarrow> u8 list \<Rightarrow> u8 list" where
  "ad_structure t p = of_nat (length p + 1) # t # p"

definition bthome_payload :: "u8 \<Rightarrow> bthome_object list \<Rightarrow> u8 list" where
  "bthome_payload info objs = 0xD2 # 0xFC # info # concat (List.map encode_object objs)"

definition advertisement :: "(u8 \<times> u8 list) list \<Rightarrow> u8 \<Rightarrow> bthome_object list \<Rightarrow> u8 list \<Rightarrow> u8 list" where
  "advertisement before info objs after =
     concat (List.map (\<lambda>(t, p). ad_structure t p) before) @ ad_structure 0x16 (bthome_payload info objs) @ after"

lemma le16_split: "le16 (ucast w) (ucast (drop_bit 8 w)) = (w :: u16)"
proof -
  define n where "n = unat w"
  have n: "n < 65536" using unsigned_less [of w] by (simp add: n_def)
  have u: "unat (ucast w :: u8) = n mod 256" by (simp add: n_def unsigned_ucast_eq take_bit_eq_mod)
  have "unat (ucast (drop_bit 8 w) :: u8) = take_bit 8 (drop_bit 8 n)"
    by (simp only: unsigned_ucast_eq unat_drop_bit_eq n_def) simp
  moreover have "n div 256 < 256" using n by (simp add: less_mult_imp_div_less)
  ultimately have u1: "unat (ucast (drop_bit 8 w) :: u8) = n div 256"
    by (simp add: take_bit_eq_mod drop_bit_eq_div)
  have le: "le16 b0 b1 = word_of_nat (unat b0 + 256 * unat b1)" for b0 b1
  proof -
    have "unat b < 256" for b :: u8 using unsigned_less [of b] by simp
    then have "(ucast b :: u16) = word_of_nat (unat b)" for b :: u8
      by (intro word_unat_eq_iff [THEN iffD2]) (simp add: unsigned_ucast_eq unsigned_of_nat take_bit_nat_eq_self less_trans)
    then show ?thesis by (simp add: le16_def)
  qed
  have "n mod 256 + 256 * (n div 256) = n" by simp
  then have "le16 (ucast w) (ucast (drop_bit 8 w)) = word_of_nat n" by (simp only: le u u1)
  then show ?thesis by (simp add: n_def)
qed

lemma readings_encode: "readings (concat (List.map encode_object objs)) = concat (List.map reading_of objs)"
proof (induction objs)
  case Nil
  then show ?case by (subst readings.simps) simp
next
  case (Cons ob objs)
  then show ?case by (cases ob) (subst readings.simps, simp add: le16_split)+
qed

lemma next_field_ad: "length p \<le> 254 \<Longrightarrow> next_field (ad_structure t p @ rest) = Some (t, p, rest)"
proof -
  assume l: "length p \<le> 254"
  then have "unat (of_nat (length p + 1) :: u8) = length p + 1"
    by (simp only: unsigned_of_nat) (simp add: take_bit_nat_eq_self)
  then show ?thesis
    unfolding ad_structure_def append_Cons next_field.simps(1)
    by (simp only: unat_eq_0 [symmetric]) simp
qed

lemma service_advertisement:
  assumes "length (advertisement before info objs after) \<le> 255" "\<forall>(t, p)\<in>set before. \<not> is_bthome t p"
  shows "bthome_service (advertisement before info objs after) = Some (bthome_payload info objs)"
  using assms
proof (induction before)
  case Nil
  have "is_bthome 0x16 (bthome_payload info objs)"
    by (simp add: is_bthome_def bthome_payload_def le16_def)
  moreover have "length (bthome_payload info objs) \<le> 254" using Nil by (simp add: advertisement_def ad_structure_def)
  ultimately show ?case
    by (subst bthome_service.simps) (simp add: advertisement_def next_field_ad)
next
  case (Cons tp before)
  obtain t p where tp: "tp = (t, p)" by (cases tp)
  have "length p \<le> 254" using Cons.prems by (simp add: advertisement_def ad_structure_def tp)
  then have "next_field (advertisement (tp # before) info objs after) = Some (t, p, advertisement before info objs after)"
    by (simp add: advertisement_def tp next_field_ad)
  moreover have "\<not> is_bthome t p" using Cons.prems by (simp add: tp)
  moreover have "bthome_service (advertisement before info objs after) = Some (bthome_payload info objs)"
    using Cons.prems by (intro Cons.IH) (simp_all add: advertisement_def tp ad_structure_def)
  ultimately show ?case by (subst bthome_service.simps) simp
qed

subsection \<open>Properties\<close>

text \<open>
  C12: the parser of advertisements is total and stays inside its input: for every advertising data (at
  most 255 bytes) each read lies inside the data, the loops end, and the result is that of the parser
  without cursors.  The text it makes fits its buffer, and a device that is not accepted leaves the
  measurements as they were.
\<close>

theorem ble_advertisement_parsed:
  assumes "length data \<le> 255" and "ms_table st \<noteq> []" and "length (bd_bthome_data e) < 128"
  shows "\<exists>e' st' r. ble_parse_bthome_advertising_data macs address data now e st = Some (e', st', r) \<and>
    (e', st', r) = advertisement_result (ble_mac_is_allowed macs address) address data now e st \<and>
    length (bd_bthome_data e') < 128 \<and> (\<not> ble_mac_is_allowed macs address \<longrightarrow> st' = st)"
proof -
  obtain e' st' r where res: "advertisement_result (ble_mac_is_allowed macs address) address data now e st = (e', st', r)"
    by (metis prod_cases3)
  then have "length (bd_bthome_data e') < 128 \<and> (\<not> ble_mac_is_allowed macs address \<longrightarrow> st' = st)"
    using length_show_readings by (auto simp: advertisement_result_def Let_def split: option.splits if_splits)
  then show ?thesis using parse_advertising_eq [OF assms(1,2)] res by metis
qed

theorem ble_advertisement_parsed_witness:
  "ble_parse_bthome_advertising_data [] (replicate 6 0) [5, 0x16, 0xD2, 0xFC, 0x40] 5 zero_entry (measurement_store_init 0)
     = Some (zero_entry, measurement_store_init 0, False)"
proof -
  have "bthome_service [5, 0x16, 0xD2, 0xFC, 0x40] = None" by (subst bthome_service.simps) simp
  then show ?thesis
    using ble_advertisement_parsed [of "[5, 0x16, 0xD2, 0xFC, 0x40]" "measurement_store_init 0" zero_entry "[]" "replicate 6 0" 5]
    by (auto simp: advertisement_result_def zero_entry_def measurement_store_init_def MEASUREMENT_STORE_TABLE_SIZE_def)
qed

text \<open>
  C13: decoding inverts encoding: from an unencrypted BTHome v2 advertisement with any list of battery,
  temperature, humidity and packet-id objects, after any other advertising structures, exactly the
  readings of the objects are parsed, in their order, and stored for an accepted device.
\<close>

theorem bthome_roundtrip:
  assumes "length (advertisement before info objs after) \<le> 255"
    and "\<forall>(t, p)\<in>set before. \<not> is_bthome t p" and "info AND 0xE0 = 0x40" and "info AND 0x01 = 0"
    and "ms_table st \<noteq> []"
  shows "\<exists>e'. ble_parse_bthome_advertising_data macs address (advertisement before info objs after) now e st =
    Some (e',
      if ble_mac_is_allowed macs address
      then store_readings (ble_address_to_device_id address) now (concat (List.map reading_of objs)) st else st,
      concat (List.map reading_of objs) \<noteq> [])"
proof -
  have "bthome_v2 (bthome_payload info objs)" using assms(3,4) by (simp add: bthome_v2_def bthome_payload_def)
  moreover have "drop 3 (bthome_payload info objs) = concat (List.map encode_object objs)" by (simp add: bthome_payload_def)
  ultimately show ?thesis
    by (simp add: parse_advertising_eq [OF assms(1,5)] advertisement_result_def service_advertisement [OF assms(1,2)]
        readings_encode Let_def)
qed

theorem bthome_roundtrip_witness:
  "\<exists>e'. ble_parse_bthome_advertising_data [''A4C138112233''] [0xA4, 0xC1, 0x38, 0x11, 0x22, 0x33]
      [2, 0x01, 0x06, 11, 0x16, 0xD2, 0xFC, 0x40, 0x00, 7, 0x01, 93, 0x02, 0x66, 0x08] 5000 zero_entry (measurement_store_init 0) =
    Some (e', fst (measurement_store_add 0x38112233 MEASUREMENT_FIELD_TEMPERATURE (f32_hundredths 2150) 5000
      (fst (measurement_store_add 0x38112233 MEASUREMENT_FIELD_BATTERY (f32_of_int 93) 5000 (measurement_store_init 0)))), True)"
proof -
  let ?objs = "[Packet_id 7, Battery 93, Temperature 0x0866]"
  have d: "advertisement [(0x01, [0x06])] 0x40 ?objs [] =
      [2, 0x01, 0x06, 11, 0x16, 0xD2, 0xFC, 0x40, 0x00, 7, 0x01, 93, 0x02, 0x66, 0x08]"
    by (simp add: advertisement_def ad_structure_def bthome_payload_def)
  have a: "ble_mac_is_allowed [''A4C138112233''] [0xA4, 0xC1, 0x38, 0x11, 0x22, 0x33]"
    by code_simp
  have i: "ble_address_to_device_id [0xA4, 0xC1, 0x38, 0x11, 0x22, 0x33] = 0x38112233"
    by (simp add: ble_address_to_device_id_def)
  show ?thesis
    using bthome_roundtrip [of "[(0x01, [0x06])]" "0x40" ?objs "[]" "measurement_store_init 0" "[''A4C138112233'']"
        "[0xA4, 0xC1, 0x38, 0x11, 0x22, 0x33]" 5000 zero_entry] a
    by (simp add: d i is_bthome_def store_readings_def measurement_store_init_def MEASUREMENT_STORE_TABLE_SIZE_def)
qed

end
