(* ===== verification/Ble_Devices.thy ===== *)
theory Ble_Devices
  imports Bthome
begin

text \<open>
  The device table of \<^verbatim>\<open>ble_scanner.c\<close>: the text form of the addresses, the row a report goes to, the
  rows reserved for the configured devices, and the invariant of every reachable state.
\<close>

subsection \<open>Addresses and their text\<close>

lemma hex_char_digit:
  "d < 16 \<Longrightarrow> isxdigit (hex_char d) \<and> toupper (hex_char d) = hex_char d \<and> app_text_hex_value (hex_char d) = int d"
proof -
  assume d: "d < 16"
  have "code (hex_char d) = (if d < 10 then 48 + d else 55 + d)" using d by (simp add: hex_char_def)
  with d show ?thesis
    by (auto simp: isxdigit_def isdigit_def app_text_hex_value_def code_eq_iff [of "toupper (hex_char d)"] code_toupper)
qed

lemma hex_char_of_digit:
  assumes "isxdigit c" "toupper c = c"
  shows "\<exists>d<16. app_text_hex_value c = int d \<and> hex_char d = c"
proof -
  have "code (toupper c) = code c" using assms(2) by simp
  then have "\<not> (97 \<le> code c \<and> code c \<le> 122)" by (simp add: code_toupper split: if_splits)
  then have "48 \<le> code c \<and> code c \<le> 57 \<or> 65 \<le> code c \<and> code c \<le> 70"
    using assms(1) by (auto simp: isxdigit_def isdigit_def)
  then show ?thesis
  proof
    assume c: "48 \<le> code c \<and> code c \<le> 57"
    then have "code c - 48 < 10" by linarith
    then have "hex_char (code c - 48) = c" using c by (simp add: hex_char_def)
    moreover have "code c - 48 < 16" using \<open>code c - 48 < 10\<close> by linarith
    ultimately show ?thesis using c by (intro exI [of _ "code c - 48"]) (simp add: app_text_hex_value_def of_nat_diff)
  next
    assume c: "65 \<le> code c \<and> code c \<le> 70"
    then have d: "\<not> code c - 55 < 10" "code c - 55 < 16" by linarith+
    then have "hex_char (code c - 55) = c" using c by (simp add: hex_char_def)
    then show ?thesis using c d by (intro exI [of _ "code c - 55"]) (simp add: app_text_hex_value_def of_nat_diff)
  qed
qed

lemma scan_show_hex2: "scan_hex_bytes (Suc n) (show_hex2 b @ s) = map_option ((#) b) (scan_hex_bytes n s)"
proof -
  have "unat b < 256" using unsigned_less [of b] by simp
  then have d: "unat b div 16 < 16" "unat b mod 16 < 16" by (simp_all add: less_mult_imp_div_less)
  have "16 * int (unat b div 16) + int (unat b mod 16) = int (unat b)"
    by (metis mult_div_mod_eq of_nat_add of_nat_mult of_nat_numeral)
  then have "(of_int (16 * int (unat b div 16) + int (unat b mod 16)) :: u8) = b" by simp
  then show ?thesis
    using hex_char_digit [OF d(1)] hex_char_digit [OF d(2)] by (simp add: show_hex2_def)
qed

lemma show_scan_hex2:
  assumes "isxdigit h" "toupper h = h" "isxdigit l" "toupper l = l"
  shows "show_hex2 (of_int (16 * app_text_hex_value h + app_text_hex_value l)) = [h, l]"
proof -
  obtain i j where d: "i < 16" "app_text_hex_value h = int i" "hex_char i = h"
    "j < 16" "app_text_hex_value l = int j" "hex_char j = l"
    using hex_char_of_digit [OF assms(1,2)] hex_char_of_digit [OF assms(3,4)] by blast
  have "16 * app_text_hex_value h + app_text_hex_value l = int (16 * i + j)" by (simp add: d)
  moreover have "unat (word_of_nat (16 * i + j) :: u8) = 16 * i + j"
    by (simp only: unsigned_of_nat) (use d in \<open>simp add: take_bit_nat_eq_self\<close>)
  ultimately have "unat (of_int (16 * app_text_hex_value h + app_text_hex_value l) :: u8) = 16 * i + j"
    by (simp only: of_int_of_nat_eq)
  then show ?thesis using d by (simp add: show_hex2_def)
qed

lemma six_bytes: "length a = 6 \<Longrightarrow> a = [a ! 0, a ! 1, a ! 2, a ! 3, a ! 4, a ! 5]"
  by (rule nth_equalityI) (auto simp: less_Suc_eq eval_nat_numeral)

lemma mac_address: "length a = 6 \<Longrightarrow> ble_normalized_mac_to_address (ble_address_to_normalized_mac a) = Some a"
proof -
  assume l: "length a = 6"
  have "scan_hex_bytes 6 (ble_address_to_normalized_mac a) = Some [a ! 0, a ! 1, a ! 2, a ! 3, a ! 4, a ! 5]"
    using scan_show_hex2 [of 0 _ "[]"]
    by (simp add: ble_address_to_normalized_mac_def scan_show_hex2 eval_nat_numeral)
  then show ?thesis using six_bytes [OF l] by (simp add: ble_normalized_mac_to_address_def)
qed

lemma mac_inj: "length a = 6 \<Longrightarrow> length b = 6 \<Longrightarrow> ble_address_to_normalized_mac a = ble_address_to_normalized_mac b \<longleftrightarrow> a = b"
  by (metis mac_address option.inject)

lemma address_mac:
  assumes "canonical_mac m"
  shows "\<exists>a. ble_normalized_mac_to_address m = Some a \<and> length a = 6 \<and> ble_address_to_normalized_mac a = m"
proof -
  obtain c0 c1 c2 c3 c4 c5 c6 c7 c8 c9 c10 c11 where m: "m = [c0, c1, c2, c3, c4, c5, c6, c7, c8, c9, c10, c11]"
    using assms by (auto simp: canonical_mac_def length_Suc_conv eval_nat_numeral)
  let ?b = "\<lambda>h l. of_int (16 * app_text_hex_value h + app_text_hex_value l) :: u8"
  let ?a = "[?b c0 c1, ?b c2 c3, ?b c4 c5, ?b c6 c7, ?b c8 c9, ?b c10 c11]"
  have x: "isxdigit c" "toupper c = c" if "c \<in> set m" for c using assms that by (auto simp: canonical_mac_def)
  have "ble_normalized_mac_to_address m = Some ?a"
    using x by (simp add: m ble_normalized_mac_to_address_def eval_nat_numeral)
  moreover have "ble_address_to_normalized_mac ?a = m"
    using x by (simp add: m ble_address_to_normalized_mac_def show_scan_hex2 [simplified])
  ultimately show ?thesis by auto
qed

subsection \<open>The row of a report\<close>

definition dev_key :: "ble_device_entry \<Rightarrow> bd_addr \<times> u8" where
  "dev_key e = (bd_address e, bd_address_type e)"

definition unique_rows :: "ble_device_entry list \<Rightarrow> bool" where
  "unique_rows table = (\<forall>i<length table. \<forall>j<length table. bd_in_use (table ! i) \<longrightarrow> bd_in_use (table ! j) \<longrightarrow>
     dev_key (table ! i) = dev_key (table ! j) \<longrightarrow> i = j)"

text \<open>A slot that the update may overwrite: an unused one, or the one seen longest ago in a full table.\<close>

definition evictable :: "ble_device_entry list \<Rightarrow> nat \<Rightarrow> bool" where
  "evictable table i = (\<not> bd_in_use (table ! i) \<or>
     (\<forall>e\<in>set table. bd_in_use e \<and> bd_last_seen_ms (table ! i) \<le> bd_last_seen_ms e))"

lemma update_scan_spec:
  assumes "table = before @ rest" "\<forall>e\<in>set before. \<not> same_device a t e"
    and "case free of None \<Rightarrow> (\<forall>e\<in>set before. bd_in_use e) | Some f \<Rightarrow> f < length before \<and> \<not> bd_in_use (table ! f)"
    and "oldest < length table" "\<forall>e\<in>set before. bd_in_use e \<longrightarrow> bd_last_seen_ms (table ! oldest) \<le> bd_last_seen_ms e"
  shows "case update_scan a t table (length before) free oldest rest of
      Inl i \<Rightarrow> i < length table \<and> same_device a t (table ! i)
    | Inr i \<Rightarrow> i < length table \<and> (\<forall>e\<in>set table. \<not> same_device a t e) \<and> evictable table i"
  using assms
proof (induction rest arbitrary: before free oldest)
  case Nil
  then show ?case by (auto simp: evictable_def split: option.split)
next
  case (Cons e rest)
  have e: "table ! length before = e" using Cons.prems(1) by simp
  show ?case
  proof (cases "bd_in_use e")
    case False
    then have "case update_scan a t table (length (before @ [e])) (if free = None then Some (length before) else free) oldest rest of
        Inl i \<Rightarrow> i < length table \<and> same_device a t (table ! i)
      | Inr i \<Rightarrow> i < length table \<and> (\<forall>e\<in>set table. \<not> same_device a t e) \<and> evictable table i"
      using Cons.prems e by (intro Cons.IH) (auto simp: same_device_def split: option.splits)
    with False show ?thesis by simp
  next
    case use: True
    show ?thesis
    proof (cases "same_device a t e")
      case True
      then show ?thesis using use Cons.prems(1) e by (simp add: same_device_def)
    next
      case False
      let ?old = "if bd_last_seen_ms e < bd_last_seen_ms (table ! oldest) then length before else oldest"
      have "case update_scan a t table (length (before @ [e])) free ?old rest of
          Inl i \<Rightarrow> i < length table \<and> same_device a t (table ! i)
        | Inr i \<Rightarrow> i < length table \<and> (\<forall>e\<in>set table. \<not> same_device a t e) \<and> evictable table i"
        using Cons.prems e use False by (intro Cons.IH) (auto split: option.splits)
      moreover have "(bd_address_type e = t \<and> bd_address e = a) = False" using False use by (auto simp: same_device_def)
      ultimately show ?thesis using use by (simp only: update_scan.simps if_True if_False length_append_singleton)
    qed
  qed
qed

lemma update_scan_table:
  "table \<noteq> [] \<Longrightarrow> case update_scan a t table 0 None 0 table of
      Inl i \<Rightarrow> i < length table \<and> same_device a t (table ! i)
    | Inr i \<Rightarrow> i < length table \<and> (\<forall>e\<in>set table. \<not> same_device a t e) \<and> evictable table i"
  using update_scan_spec [of table "[]" table a t None 0] by simp

lemma unique_rows_update:
  assumes "unique_rows table" "i < length table"
    and "\<forall>j<length table. j \<noteq> i \<longrightarrow> bd_in_use (table ! j) \<longrightarrow> dev_key (table ! j) \<noteq> dev_key e"
  shows "unique_rows (table[i := e])"
  unfolding unique_rows_def
proof (intro allI impI)
  fix j k
  assume "j < length (table[i := e])" "k < length (table[i := e])" "bd_in_use (table[i := e] ! j)"
    "bd_in_use (table[i := e] ! k)" "dev_key (table[i := e] ! j) = dev_key (table[i := e] ! k)"
  then show "j = k"
    using assms unfolding unique_rows_def by (cases "j = i"; cases "k = i") (simp_all, metis+)
qed

lemma unique_rows_elsewhere:
  "unique_rows (table[i := e]) \<Longrightarrow> i < length table \<Longrightarrow> bd_in_use e \<Longrightarrow> j < length table \<Longrightarrow> j \<noteq> i \<Longrightarrow>
   bd_in_use (table ! j) \<Longrightarrow> dev_key (table ! j) \<noteq> dev_key e"
  unfolding unique_rows_def by (metis length_list_update nth_list_update_eq nth_list_update_neq)

lemma unique_rows_find:
  assumes "unique_rows table" "i < length table" "same_device a t (table ! i)"
  shows "ble_device_table_find a t table = Some i"
  unfolding ble_device_table_find_def
proof (rule find_index_eqI [OF assms(2)])
  fix j
  assume "j < i"
  show "\<not> same_device a t (table ! j)"
  proof
    assume "same_device a t (table ! j)"
    then have "dev_key (table ! i) = dev_key (table ! j)" "bd_in_use (table ! i)" "bd_in_use (table ! j)"
      using assms(3) by (auto simp: same_device_def dev_key_def)
    then have "i = j" using assms \<open>j < i\<close> unfolding unique_rows_def by (meson less_trans)
    then show False using \<open>j < i\<close> by simp
  qed
qed (fact assms(3))

text \<open>The invariant: a row per device, and the selected rows are those of the accepted addresses.\<close>

definition row_ok :: "string list \<Rightarrow> ble_device_entry \<Rightarrow> bool" where
  "row_ok macs e = (bd_in_use e \<longrightarrow> length (bd_address e) = 6 \<and> bd_selected e = ble_mac_is_allowed macs (bd_address e) \<and>
     bd_device_id e = ble_address_to_device_id (bd_address e) \<and> length (bd_bthome_data e) < 128)"

definition scanner_inv :: "ble_scanner \<Rightarrow> bool" where
  "scanner_inv s = (length (bl_device_table s) = 128 \<and> unique_rows (bl_device_table s) \<and>
     (\<forall>m\<in>set (bl_allowed_macs s). canonical_mac m) \<and> (\<forall>e\<in>set (bl_device_table s). row_ok (bl_allowed_macs s) e))"

lemma scanner_inv_update:
  assumes "scanner_inv s" "i < 128" "row_ok (bl_allowed_macs s) e"
    and "\<forall>j<128. j \<noteq> i \<longrightarrow> bd_in_use (bl_device_table s ! j) \<longrightarrow> dev_key (bl_device_table s ! j) \<noteq> dev_key e"
  shows "scanner_inv (s\<lparr>bl_device_table := (bl_device_table s)[i := e]\<rparr>)"
  using assms unique_rows_update [of "bl_device_table s" i e]
  by (auto simp: scanner_inv_def dest!: subsetD [OF set_update_subset_insert])

lemma table_update_spec:
  assumes "scanner_inv s" "length a = 6"
  shows "\<exists>i e. i < 128 \<and> ble_device_table_update a t rssi now s = s\<lparr>bl_device_table := (bl_device_table s)[i := e]\<rparr> \<and>
    (same_device a t (bl_device_table s ! i) \<or>
       (\<forall>e\<in>set (bl_device_table s). \<not> same_device a t e) \<and> evictable (bl_device_table s) i) \<and>
    same_device a t e \<and> bd_rssi e = rssi \<and> bd_last_seen_ms e = now \<and>
    bd_bthome_data e = (if same_device a t (bl_device_table s ! i) then bd_bthome_data (bl_device_table s ! i) else '''') \<and>
    scanner_inv (ble_device_table_update a t rssi now s)"
proof -
  let ?t = "bl_device_table s"
  have len: "length ?t = 128" and uniq: "unique_rows ?t" using assms(1) by (simp_all add: scanner_inv_def)
  then have "?t \<noteq> []" by auto
  note sc = update_scan_table [OF this, of a t]
  show ?thesis
  proof (cases "update_scan a t ?t 0 None 0 ?t")
    case (Inl i)
    let ?e = "(?t ! i)\<lparr>bd_device_id := ble_address_to_device_id a, bd_rssi := rssi, bd_last_seen_ms := now,
      bd_selected := ble_mac_is_allowed (bl_allowed_macs s) a\<rparr>"
    have i: "i < 128" "same_device a t (?t ! i)" using sc Inl len by auto
    have upd: "ble_device_table_update a t rssi now s = s\<lparr>bl_device_table := ?t[i := ?e]\<rparr>"
      by (simp add: ble_device_table_update_def Inl Let_def)
    have "row_ok (bl_allowed_macs s) (?t ! i)" using assms(1) i len by (simp add: scanner_inv_def)
    then have ok: "row_ok (bl_allowed_macs s) ?e" "same_device a t ?e"
      using i(2) assms(2) by (simp_all add: row_ok_def same_device_def)
    have "\<forall>j<128. j \<noteq> i \<longrightarrow> bd_in_use (?t ! j) \<longrightarrow> dev_key (?t ! j) \<noteq> dev_key ?e"
      using uniq i len unfolding unique_rows_def by (auto simp: dev_key_def same_device_def)
    then have "scanner_inv (s\<lparr>bl_device_table := ?t[i := ?e]\<rparr>)" using assms(1) i(1) ok(1) by (intro scanner_inv_update)
    with upd i ok(2) show ?thesis by (intro exI [of _ i] exI [of _ ?e]) simp
  next
    case (Inr i)
    let ?e = "\<lparr>bd_in_use = True, bd_selected = ble_mac_is_allowed (bl_allowed_macs s) a, bd_address = a,
      bd_device_id = ble_address_to_device_id a, bd_address_type = t, bd_rssi = rssi, bd_bthome_data = '''', bd_last_seen_ms = now\<rparr>"
    have i: "i < 128" "\<forall>e\<in>set ?t. \<not> same_device a t e" "evictable ?t i" using sc Inr len by auto
    have upd: "ble_device_table_update a t rssi now s = s\<lparr>bl_device_table := ?t[i := ?e]\<rparr>"
      by (simp add: ble_device_table_update_def Inr Let_def)
    have "\<forall>j<128. j \<noteq> i \<longrightarrow> bd_in_use (?t ! j) \<longrightarrow> dev_key (?t ! j) \<noteq> dev_key ?e"
      using i(2) len by (auto simp: same_device_def dev_key_def)
    then have "scanner_inv (s\<lparr>bl_device_table := ?t[i := ?e]\<rparr>)"
      using assms i(1) by (intro scanner_inv_update) (simp_all add: row_ok_def)
    moreover have "same_device a t (?t ! i) = False" using i len by simp
    moreover have "same_device a t ?e" by (simp add: same_device_def)
    ultimately show ?thesis using upd i by (intro exI [of _ i] exI [of _ ?e]) simp
  qed
qed

subsection \<open>Reports\<close>

lemma ble_advertisement_parsed_aux:
  "advertisement_result allowed a data now e st = (e', st', r) \<Longrightarrow> length (bd_bthome_data e') < 128"
  by (auto simp: advertisement_result_def Let_def length_show_readings split: option.splits if_splits)

lemma mac_allowed_iff: "ble_mac_is_allowed macs a \<longleftrightarrow> ble_address_to_normalized_mac a \<in> set macs"
  unfolding ble_mac_is_allowed_def by (auto simp: find_index_None_iff simp del: not_None_eq)

lemma find_updated_row:
  assumes "scanner_inv (s\<lparr>bl_device_table := (bl_device_table s)[i := e]\<rparr>)" "i < 128" "same_device a t e"
  shows "ble_device_table_find a t ((bl_device_table s)[i := e]) = Some i"
proof (rule unique_rows_find)
  have "length (bl_device_table s) = 128" using assms(1) by (simp add: scanner_inv_def)
  then show "i < length ((bl_device_table s)[i := e])" "same_device a t ((bl_device_table s)[i := e] ! i)"
    using assms(2,3) by simp_all
qed (use assms(1) in \<open>simp add: scanner_inv_def\<close>)

lemma report_spec:
  assumes "scanner_inv s" "ms_table store \<noteq> []" "length a = 6" "length data \<le> 255"
    and "advertisement_result (ble_mac_is_allowed (bl_allowed_macs s) a) a data now zero_entry store = (scratch, store', r)"
  shows "if r then \<exists>i e. ble_packet_handler (Ble_advertising_report a t rssi data) now (s, store) =
        Some ((s\<lparr>bl_device_table := (bl_device_table s)[i := e]\<rparr>, store'), []) \<and> i < 128 \<and>
      (same_device a t (bl_device_table s ! i) \<or>
         (\<forall>e\<in>set (bl_device_table s). \<not> same_device a t e) \<and> evictable (bl_device_table s) i) \<and>
      same_device a t e \<and> bd_rssi e = rssi \<and> bd_last_seen_ms e = now \<and> bd_bthome_data e = bd_bthome_data scratch \<and>
      scanner_inv (s\<lparr>bl_device_table := (bl_device_table s)[i := e]\<rparr>)
    else ble_packet_handler (Ble_advertising_report a t rssi data) now (s, store) = Some ((s, store'), [])"
proof -
  let ?t = "bl_device_table s"
  have parsed: "ble_parse_bthome_advertising_data (bl_allowed_macs s) a data now zero_entry store = Some (scratch, store', r)"
    using parse_advertising_eq [OF assms(4,2)] assms(5) by simp
  have len128: "length (bd_bthome_data scratch) < 128"
    using ble_advertisement_parsed_aux [OF assms(5)] by (simp add: zero_entry_def)
  show ?thesis
  proof (cases r)
    case False
    then show ?thesis using parsed by (simp add: ble_packet_handler_def)
  next
    case True
    obtain i e where i: "i < 128" and upd: "ble_device_table_update a t rssi now s = s\<lparr>bl_device_table := ?t[i := e]\<rparr>"
      and row: "same_device a t (?t ! i) \<or> (\<forall>e\<in>set ?t. \<not> same_device a t e) \<and> evictable ?t i"
      and e: "same_device a t e" "bd_rssi e = rssi" "bd_last_seen_ms e = now"
      and inv: "scanner_inv (ble_device_table_update a t rssi now s)"
      using table_update_spec [OF assms(1,3), of t rssi now] by blast
    have inv': "scanner_inv (s\<lparr>bl_device_table := ?t[i := e]\<rparr>)" using inv upd by simp
    let ?e = "e\<lparr>bd_bthome_data := bd_bthome_data scratch\<rparr>"
    have len: "length ?t = 128" using assms(1) by (simp add: scanner_inv_def)
    have copy: "bounded_copy BLE_DEVICE_BTHOME_DATA_MAX_LEN (bd_bthome_data scratch) = bd_bthome_data scratch"
      using len128 by (simp add: BLE_DEVICE_BTHOME_DATA_MAX_LEN_def)
    have handled: "ble_packet_handler (Ble_advertising_report a t rssi data) now (s, store) =
        Some ((s\<lparr>bl_device_table := ?t[i := ?e]\<rparr>, store'), [])"
      using parsed True upd find_updated_row [OF inv' i e(1)] i len
      by (simp add: ble_packet_handler_def Let_def copy)
    have rows: "\<forall>j<128. j \<noteq> i \<longrightarrow> bd_in_use (?t ! j) \<longrightarrow> dev_key (?t ! j) \<noteq> dev_key ?e"
    proof (intro allI impI)
      fix j
      assume j: "j < 128" "j \<noteq> i" "bd_in_use (?t ! j)"
      have "bd_in_use e" using e(1) by (simp add: same_device_def)
      then have "dev_key (?t ! j) \<noteq> dev_key e"
        using inv' j i len unfolding scanner_inv_def by (intro unique_rows_elsewhere [of ?t i e j]) simp_all
      then show "dev_key (?t ! j) \<noteq> dev_key ?e" by (simp add: dev_key_def)
    qed
    have "row_ok (bl_allowed_macs s) e" using inv' i len unfolding scanner_inv_def by (simp add: set_update_memI)
    then have "row_ok (bl_allowed_macs s) ?e" using len128 by (simp add: row_ok_def)
    then have "scanner_inv (s\<lparr>bl_device_table := ?t[i := ?e]\<rparr>)" using assms(1) i rows by (intro scanner_inv_update)
    moreover have "same_device a t ?e" using e(1) by (simp add: same_device_def)
    ultimately have "\<exists>i e. ble_packet_handler (Ble_advertising_report a t rssi data) now (s, store) =
        Some ((s\<lparr>bl_device_table := ?t[i := e]\<rparr>, store'), []) \<and> i < 128 \<and>
      (same_device a t (?t ! i) \<or> (\<forall>e\<in>set ?t. \<not> same_device a t e) \<and> evictable ?t i) \<and>
      same_device a t e \<and> bd_rssi e = rssi \<and> bd_last_seen_ms e = now \<and> bd_bthome_data e = bd_bthome_data scratch \<and>
      scanner_inv (s\<lparr>bl_device_table := ?t[i := e]\<rparr>)"
      using handled i row e by (intro exI [of _ i] exI [of _ ?e]) simp
    then show ?thesis using True by simp
  qed
qed

subsection \<open>Ageing\<close>

definition kept :: "u32 \<Rightarrow> ble_device_entry \<Rightarrow> bool" where
  "kept now e = (bd_in_use e \<and> (bd_selected e \<or> age_ms now (bd_last_seen_ms e) \<le> 60000))"

lemma periodic_keep_filter: "periodic_keep now es = filter (kept now) es"
  by (induction es) (auto simp: kept_def BLE_DEVICE_EXPIRY_MS_def)

lemma distinct_map_filterD:
  "distinct (List.map k (filter P xs)) \<Longrightarrow> i < length xs \<Longrightarrow> j < length xs \<Longrightarrow> P (xs ! i) \<Longrightarrow> P (xs ! j) \<Longrightarrow>
   k (xs ! i) = k (xs ! j) \<Longrightarrow> i = j"
proof (induction xs arbitrary: i j)
  case Nil
  then show ?case by simp
next
  case (Cons x xs)
  have out: "k (xs ! n) \<noteq> k x" if "n < length xs" "P (xs ! n)" "P x" for n
  proof -
    have "k (xs ! n) \<in> k ` set (filter P xs)" using that(1,2) by simp
    then show ?thesis using Cons.prems(1) that(3) by auto
  qed
  show ?case
    using Cons.prems out Cons.IH [of "i - 1" "j - 1"]
    by (cases i; cases j) (auto split: if_splits)
qed

lemma unique_rows_distinct: "unique_rows table \<longleftrightarrow> distinct (List.map dev_key (filter bd_in_use table))"
  unfolding unique_rows_def by (auto intro!: distinct_map_filterI dest: distinct_map_filterD)

lemma not_in_use_zero [simp]: "\<not> bd_in_use zero_entry"
  by (simp add: zero_entry_def)

lemma in_use_periodic:
  "filter bd_in_use (bl_device_table (ble_scanner_periodic now s)) = filter (kept now) (bl_device_table s)"
  by (simp add: ble_scanner_periodic_def Let_def periodic_keep_filter filter_empty_conv kept_def conj_comms
      flip: filter_filter)

lemma scanner_inv_periodic: "scanner_inv s \<Longrightarrow> scanner_inv (ble_scanner_periodic now s)"
proof -
  assume inv: "scanner_inv s"
  have "filter (kept now) (bl_device_table s) = filter (kept now) (filter bd_in_use (bl_device_table s))"
    by (auto simp: kept_def intro: filter_cong)
  then have "unique_rows (bl_device_table (ble_scanner_periodic now s))"
    using inv by (simp only: unique_rows_distinct scanner_inv_def in_use_periodic distinct_map_filter)
  moreover have "length (bl_device_table (ble_scanner_periodic now s)) = length (bl_device_table s)"
    by (simp add: ble_scanner_periodic_def Let_def periodic_keep_filter)
  moreover have "\<forall>e\<in>set (bl_device_table (ble_scanner_periodic now s)). row_ok (bl_allowed_macs s) e"
    using inv by (auto simp: scanner_inv_def ble_scanner_periodic_def Let_def periodic_keep_filter row_ok_def)
  moreover have "bl_allowed_macs (ble_scanner_periodic now s) = bl_allowed_macs s"
    by (simp add: ble_scanner_periodic_def Let_def)
  ultimately show ?thesis using inv by (simp add: scanner_inv_def)
qed

subsection \<open>The rows of the configured devices\<close>

definition in_use_count :: "ble_device_entry list \<Rightarrow> nat" where
  "in_use_count table = count_if bd_in_use table"

text \<open>What a pass over the configured addresses keeps: every row in use stays one, for the same device.\<close>

definition rows_kept :: "ble_device_entry list \<Rightarrow> ble_device_entry list \<Rightarrow> bool" where
  "rows_kept table table' = (length table' = length table \<and>
     (\<forall>i<length table. bd_in_use (table ! i) \<longrightarrow> bd_in_use (table' ! i) \<and> dev_key (table' ! i) = dev_key (table ! i) \<and>
        bd_last_seen_ms (table' ! i) = bd_last_seen_ms (table ! i)))"

lemma rows_kept_refl [simp]: "rows_kept table table"
  by (simp add: rows_kept_def)

lemma rows_kept_trans: "rows_kept t1 t2 \<Longrightarrow> rows_kept t2 t3 \<Longrightarrow> rows_kept t1 t3"
  by (simp add: rows_kept_def)

lemma rows_kept_update:
  "(bd_in_use (table ! i) \<Longrightarrow> bd_in_use e \<and> dev_key e = dev_key (table ! i) \<and> bd_last_seen_ms e = bd_last_seen_ms (table ! i)) \<Longrightarrow>
   rows_kept table (table[i := e])"
  unfolding rows_kept_def by (metis length_list_update nth_list_update_eq nth_list_update_neq)

definition has_row :: "string \<Rightarrow> ble_device_entry list \<Rightarrow> bool" where
  "has_row mac table = (\<exists>e\<in>set table. bd_in_use e \<and> ble_address_to_normalized_mac (bd_address e) = mac)"

lemma has_row_kept: "rows_kept table table' \<Longrightarrow> has_row mac table \<Longrightarrow> has_row mac table'"
proof -
  assume k: "rows_kept table table'" and "has_row mac table"
  then obtain i where "i < length table" "bd_in_use (table ! i)" "ble_address_to_normalized_mac (bd_address (table ! i)) = mac"
    by (auto simp: has_row_def in_set_conv_nth)
  then have "i < length table'" "bd_in_use (table' ! i)" "ble_address_to_normalized_mac (bd_address (table' ! i)) = mac"
    using k by (auto simp: rows_kept_def dev_key_def)
  then show ?thesis unfolding has_row_def by (intro bexI [of _ "table' ! i"]) simp_all
qed

definition table_ok :: "string list \<Rightarrow> ble_device_entry list \<Rightarrow> bool" where
  "table_ok macs table = (length table = 128 \<and> unique_rows table \<and> (\<forall>e\<in>set table. row_ok macs e))"

lemma row_ok_nth: "table_ok macs table \<Longrightarrow> i < 128 \<Longrightarrow> row_ok macs (table ! i)"
  by (simp add: table_ok_def)

lemma reserve_one:
  assumes "table_ok macs table" "canonical_mac mac" "mac \<in> set macs"
  shows "table_ok macs (reserve_rows [mac] table) \<and> rows_kept table (reserve_rows [mac] table) \<and>
    (in_use_count table < 128 \<longrightarrow> has_row mac (reserve_rows [mac] table) \<and>
       in_use_count (reserve_rows [mac] table) \<le> Suc (in_use_count table))"
proof -
  have len: "length table = 128" and uniq: "unique_rows table" using assms(1) by (simp_all add: table_ok_def)
  have upd: "table_ok macs (table[i := e])"
    if "i < 128" "row_ok macs e" "\<forall>j<128. j \<noteq> i \<longrightarrow> bd_in_use (table ! j) \<longrightarrow> dev_key (table ! j) \<noteq> dev_key e" for i e
    using assms(1) that unique_rows_update [of table i e]
    by (auto simp: table_ok_def dest!: subsetD [OF set_update_subset_insert])
  show ?thesis
  proof (cases "ble_device_table_find_by_mac_string mac table")
    case (Some i)
    then have i: "i < 128" "bd_in_use (table ! i)" "ble_address_to_normalized_mac (bd_address (table ! i)) = mac"
      using find_index_SomeD [of _ table i] len by (auto simp: ble_device_table_find_by_mac_string_def)
    let ?e = "(table ! i)\<lparr>bd_selected := True\<rparr>"
    have res: "reserve_rows [mac] table = table[i := ?e]" using Some by simp
    have "row_ok macs ?e" using row_ok_nth [OF assms(1) i(1)] i assms(3) by (simp add: row_ok_def mac_allowed_iff)
    moreover have "\<forall>j<128. j \<noteq> i \<longrightarrow> bd_in_use (table ! j) \<longrightarrow> dev_key (table ! j) \<noteq> dev_key ?e"
      using uniq i len unfolding unique_rows_def by (auto simp: dev_key_def)
    ultimately have "table_ok macs (table[i := ?e])" using i by (intro upd)
    moreover have "rows_kept table (table[i := ?e])" using i(2) by (intro rows_kept_update) (simp add: dev_key_def)
    moreover have "has_row mac (table[i := ?e])"
      using i len unfolding has_row_def by (intro bexI [of _ ?e]) (simp_all add: set_update_memI)
    moreover have "in_use_count (table[i := ?e]) = in_use_count table"
      using count_if_update [of i table bd_in_use ?e] i len by (simp add: in_use_count_def)
    ultimately show ?thesis using res by simp
  next
    case None
    then have new: "\<not> has_row mac table"
      by (auto simp: ble_device_table_find_by_mac_string_def find_index_None_iff has_row_def)
    show ?thesis
    proof (cases "find_index (\<lambda>e. \<not> bd_in_use e) table")
      case full: None
      then have "filter bd_in_use table = table" by (auto simp: find_index_None_iff filter_id_conv)
      then have "in_use_count table = 128" using len by (simp add: in_use_count_def count_if_def)
      then show ?thesis using None full assms(1) by simp
    next
      case (Some i)
      then have i: "i < 128" "\<not> bd_in_use (table ! i)" using find_index_SomeD [OF Some] len by auto
      obtain a where a: "ble_normalized_mac_to_address mac = Some a" "length a = 6" "ble_address_to_normalized_mac a = mac"
        using address_mac [OF assms(2)] by blast
      let ?e = "zero_entry\<lparr>bd_in_use := True, bd_selected := True, bd_address := a, bd_device_id := ble_address_to_device_id a\<rparr>"
      have res: "reserve_rows [mac] table = table[i := ?e]" using None Some a by simp
      have "row_ok macs ?e" using a assms(3) by (simp add: row_ok_def mac_allowed_iff zero_entry_def)
      moreover have "\<forall>j<128. j \<noteq> i \<longrightarrow> bd_in_use (table ! j) \<longrightarrow> dev_key (table ! j) \<noteq> dev_key ?e"
        using new a(3) len by (auto simp: has_row_def dev_key_def)
      ultimately have "table_ok macs (table[i := ?e])" using i by (intro upd)
      moreover have "rows_kept table (table[i := ?e])" using i(2) by (intro rows_kept_update) simp
      moreover have "has_row mac (table[i := ?e])"
        using i a len unfolding has_row_def by (intro bexI [of _ ?e]) (simp_all add: set_update_memI)
      moreover have "in_use_count (table[i := ?e]) = Suc (in_use_count table)"
        using count_if_update [of i table bd_in_use ?e] i len by (simp add: in_use_count_def)
      ultimately show ?thesis using res by simp
    qed
  qed
qed

lemma reserve_rows_spec:
  "table_ok macs table \<Longrightarrow> \<forall>m\<in>set ms. canonical_mac m \<and> m \<in> set macs \<Longrightarrow>
   table_ok macs (reserve_rows ms table) \<and> rows_kept table (reserve_rows ms table) \<and>
   (in_use_count table + length ms \<le> 128 \<longrightarrow> (\<forall>m\<in>set ms. has_row m (reserve_rows ms table)))"
proof (induction ms arbitrary: table)
  case Nil
  then show ?case by simp
next
  case (Cons m ms)
  let ?t1 = "reserve_rows [m] table"
  have one: "table_ok macs ?t1" "rows_kept table ?t1"
    "in_use_count table < 128 \<longrightarrow> has_row m ?t1 \<and> in_use_count ?t1 \<le> Suc (in_use_count table)"
    using reserve_one [of macs table m] Cons.prems by simp_all
  have step: "reserve_rows (m # ms) table = reserve_rows ms ?t1" by simp
  have IH: "table_ok macs (reserve_rows ms ?t1)" "rows_kept ?t1 (reserve_rows ms ?t1)"
    "in_use_count ?t1 + length ms \<le> 128 \<longrightarrow> (\<forall>m\<in>set ms. has_row m (reserve_rows ms ?t1))"
    using Cons.IH [OF one(1)] Cons.prems(2) by simp_all
  have "\<forall>x\<in>set (m # ms). has_row x (reserve_rows ms ?t1)" if "in_use_count table + length (m # ms) \<le> 128"
  proof -
    have "has_row m ?t1" "in_use_count ?t1 + length ms \<le> 128" using one(3) that by auto
    then show ?thesis using IH(2,3) has_row_kept by simp
  qed
  then show ?case unfolding step using IH(1) rows_kept_trans [OF one(2) IH(2)] by blast
qed

lemma unique_rows_map:
  "(\<And>e. bd_in_use (f e) = bd_in_use e \<and> dev_key (f e) = dev_key e) \<Longrightarrow> unique_rows (List.map f table) = unique_rows table"
  by (simp add: unique_rows_def)

lemma apply_config_spec:
  assumes "scanner_inv s" "macs_ok c"
  shows "scanner_inv (ble_scanner_apply_config c s) \<and> bl_allowed_macs (ble_scanner_apply_config c s) = cf_allowed_macs c \<and>
    rows_kept (bl_device_table s) (bl_device_table (ble_scanner_apply_config c s)) \<and>
    (ble_scanner_device_count s + length (cf_allowed_macs c) \<le> 128 \<longrightarrow>
       (\<forall>m\<in>set (cf_allowed_macs c). has_row m (bl_device_table (ble_scanner_apply_config c s))))"
proof -
  let ?macs = "cf_allowed_macs c" and ?t = "bl_device_table s"
  have macs: "length ?macs \<le> 128" "\<forall>m\<in>set ?macs. canonical_mac m"
    using assms(2) by (simp_all add: macs_ok_def APP_CONFIG_ALLOWED_MAC_MAX_COUNT_def)
  have "List.map (bounded_copy APP_CONFIG_ALLOWED_MAC_LEN) ?macs = ?macs"
    using macs(2) by (intro map_idI) (simp add: canonical_mac_def APP_CONFIG_ALLOWED_MAC_LEN_def)
  then have copy: "List.map (bounded_copy APP_CONFIG_ALLOWED_MAC_LEN) (take APP_CONFIG_ALLOWED_MAC_MAX_COUNT ?macs) = ?macs"
    using macs(1) by (simp add: APP_CONFIG_ALLOWED_MAC_MAX_COUNT_def)
  let ?sel = "\<lambda>e. if bd_in_use e then e\<lparr>bd_selected := ble_mac_is_allowed ?macs (bd_address e)\<rparr> else e"
  let ?t1 = "List.map ?sel ?t"
  have ap: "ble_scanner_apply_config c s = s\<lparr>bl_allowed_macs := ?macs, bl_device_table := reserve_rows ?macs ?t1\<rparr>"
    by (simp only: ble_scanner_apply_config_def copy Let_def)
  have same: "bd_in_use (?sel e) = bd_in_use e \<and> dev_key (?sel e) = dev_key e" for e by (simp add: dev_key_def)
  have "table_ok ?macs ?t1"
    using assms(1) unique_rows_map [of ?sel ?t, OF same] by (auto simp: scanner_inv_def table_ok_def row_ok_def)
  moreover have "in_use_count ?t1 = ble_scanner_device_count s"
    unfolding in_use_count_def ble_scanner_device_count_def count_if_map by (rule count_if_cong) (simp add: same)
  moreover have "rows_kept ?t ?t1" by (auto simp: rows_kept_def same dev_key_def)
  ultimately show ?thesis
    using reserve_rows_spec [of ?macs ?t1 ?macs] macs(2) rows_kept_trans [of ?t ?t1]
    unfolding ap by (simp add: scanner_inv_def table_ok_def)
qed

subsection \<open>The states the scanner reaches\<close>

definition event_wf :: "ble_event \<Rightarrow> bool" where
  "event_wf ev = (case ev of Ble_advertising_report a t rssi data \<Rightarrow> length a = 6 \<and> length data \<le> 255 | _ \<Rightarrow> True)"

inductive ble_reachable :: "ble_scanner \<times> measurement_store \<Rightarrow> bool" where
  init: "ble_reachable (ble_scanner_init, measurement_store_init now)"
| packet: "ble_reachable st \<Longrightarrow> event_wf ev \<Longrightarrow> ble_packet_handler ev now st = Some (st', cmds) \<Longrightarrow> ble_reachable st'"
| periodic: "ble_reachable (s, store) \<Longrightarrow>
    ble_reachable (ble_scanner_periodic now s, measurement_store_periodic now store)"
| config: "ble_reachable (s, store) \<Longrightarrow> macs_ok c \<Longrightarrow>
    ble_reachable (ble_scanner_apply_config c s, measurement_store_configure retention maximum store)"

lemma store_add_nonempty: "ms_table s \<noteq> [] \<Longrightarrow> ms_table (fst (measurement_store_add d f v now s)) \<noteq> []"
proof (cases "f = MEASUREMENT_FIELD_NONE")
  case True
  then have "measurement_store_add d f v now s = (s, False)" by (simp only: measurement_store_add_def if_True refl)
  then show "ms_table s \<noteq> [] \<Longrightarrow> ms_table (fst (measurement_store_add d f v now s)) \<noteq> []" by simp
qed (use store_add_table in blast)

lemma store_readings_nonempty: "ms_table st \<noteq> [] \<Longrightarrow> ms_table (store_readings dev now rs st) \<noteq> []"
proof (induction rs arbitrary: st)
  case Nil
  then show ?case by (simp add: store_readings_def)
next
  case (Cons r rs)
  obtain f v where "r = (f, v)" by (cases r)
  then have "store_readings dev now (r # rs) st = store_readings dev now rs (fst (measurement_store_add dev f v now st))"
    by (simp add: store_readings_def)
  then show ?case using Cons.IH [OF store_add_nonempty [OF Cons.prems]] by simp
qed

lemma result_store_nonempty:
  "advertisement_result allowed a data now e st = (e', st', r) \<Longrightarrow> ms_table st \<noteq> [] \<Longrightarrow> ms_table st' \<noteq> []"
  by (auto simp: advertisement_result_def Let_def store_readings_nonempty split: option.splits if_splits)

definition live_state :: "ble_scanner \<times> measurement_store \<Rightarrow> bool" where
  "live_state st = (scanner_inv (fst st) \<and> ms_table (snd st) \<noteq> [])"

lemma packet_live:
  assumes "live_state st" "event_wf ev"
  shows "\<exists>st' cmds. ble_packet_handler ev now st = Some (st', cmds) \<and> live_state st'"
proof (cases ev)
  case (Ble_advertising_report a t rssi data)
  obtain s store where st: "st = (s, store)" by (cases st)
  have pre: "scanner_inv s" "ms_table store \<noteq> []" "length a = 6" "length data \<le> 255"
    using assms by (simp_all add: live_state_def st event_wf_def Ble_advertising_report)
  obtain scratch store' r where res:
    "advertisement_result (ble_mac_is_allowed (bl_allowed_macs s) a) a data now zero_entry store = (scratch, store', r)"
    by (metis prod_cases3)
  show ?thesis
    using report_spec [OF pre res, of t rssi] result_store_nonempty [OF res pre(2)] pre(1)
    by (auto simp: live_state_def st Ble_advertising_report split: if_splits)
qed (use assms in \<open>auto simp: ble_packet_handler_def split: prod.split\<close>)

lemma init_live: "live_state (ble_scanner_init, measurement_store_init now)"
proof -
  have "unique_rows (replicate n zero_entry)" for n by (simp add: unique_rows_def)
  moreover have "row_ok [] zero_entry" by (simp add: row_ok_def)
  ultimately have "scanner_inv ble_scanner_init"
    unfolding scanner_inv_def ble_scanner_init_def BLE_DEVICE_TABLE_SIZE_def by simp
  then show ?thesis
    by (simp add: live_state_def measurement_store_init_def MEASUREMENT_STORE_TABLE_SIZE_def)
qed

lemma prune_length: "length (fst (measurement_table_prune now r t)) = length t"
  by (induction t) (auto split: prod.split)

lemma view_rebuild_table: "ms_table (measurement_view_rebuild s) = ms_table s"
  by (simp add: measurement_view_rebuild_def split: prod.split)

lemma reachable_live: "ble_reachable st \<Longrightarrow> live_state st"
proof (induction rule: ble_reachable.induct)
  case (init now)
  show ?case by (rule init_live)
next
  case (packet st ev now st' cmds)
  then show ?case using packet_live [OF packet.IH packet.hyps(2), of now] by simp
next
  case (periodic s store now)
  have "length (ms_table (measurement_store_periodic now store)) = length (ms_table store)"
    by (simp add: measurement_store_periodic_def measurement_revision_def Let_def view_rebuild_table prune_length)
  then have "ms_table (measurement_store_periodic now store) = [] \<longleftrightarrow> ms_table store = []" by (metis length_0_conv)
  then show ?case using periodic.IH scanner_inv_periodic by (auto simp: live_state_def)
next
  case (config s store c retention maximum)
  then show ?case using apply_config_spec [of s c]
    by (simp add: live_state_def measurement_store_configure_def Let_def)
qed

subsection \<open>Properties\<close>


definition one_mac_config :: app_config where
  "one_mac_config = app_config_defaults\<lparr>cf_allowed_macs := [''A4C138112233'']\<rparr>"

lemma one_mac_ok: "macs_ok one_mac_config"
proof -
  have "canonical_mac ''A4C138112233''" by code_simp
  then show ?thesis by (simp add: macs_ok_def one_mac_config_def APP_CONFIG_ALLOWED_MAC_MAX_COUNT_def)
qed


text \<open>
  C14: a report with readings goes to exactly one row: the row of the device if it has one, otherwise an
  unused row or, in a full table, the one seen longest ago.  The row shows the address, the signal
  strength, the time and the text of the readings, it is found under the address, and no other row
  changes.
\<close>

theorem ble_report_row:
  assumes "scanner_inv s" and "ms_table store \<noteq> []" and "length a = 6" and "length data \<le> 255"
    and "advertisement_result (ble_mac_is_allowed (bl_allowed_macs s) a) a data now zero_entry store = (scratch, store', True)"
  shows "\<exists>i e. ble_packet_handler (Ble_advertising_report a t rssi data) now (s, store) =
      Some ((s\<lparr>bl_device_table := (bl_device_table s)[i := e]\<rparr>, store'), []) \<and>
    (same_device a t (bl_device_table s ! i) \<or>
       (\<forall>e\<in>set (bl_device_table s). \<not> same_device a t e) \<and> evictable (bl_device_table s) i) \<and>
    same_device a t e \<and> bd_rssi e = rssi \<and> bd_last_seen_ms e = now \<and> bd_bthome_data e = bd_bthome_data scratch \<and>
    ble_device_table_find a t ((bl_device_table s)[i := e]) = Some i"
  using report_spec [OF assms, of t rssi] find_updated_row by (simp only: if_True) blast

theorem ble_report_row_witness:
  "\<exists>i e. ble_packet_handler (Ble_advertising_report [1, 2, 3, 4, 5, 6] 1 0xD0 [6, 0x16, 0xD2, 0xFC, 0x40, 0x01, 93]) 77
      (ble_scanner_init, measurement_store_init 0) =
    Some ((ble_scanner_init\<lparr>bl_device_table := (bl_device_table ble_scanner_init)[i := e]\<rparr>, measurement_store_init 0), []) \<and>
    bd_address e = [1, 2, 3, 4, 5, 6] \<and> bd_last_seen_ms e = 77"
proof -
  let ?a = "[1, 2, 3, 4, 5, 6] :: u8 list"
  let ?data = "[6, 0x16, 0xD2, 0xFC, 0x40, 0x01, 93] :: u8 list"
  have svc: "bthome_service ?data = Some [0xD2, 0xFC, 0x40, 0x01, 93]"
    by (subst bthome_service.simps) (simp add: is_bthome_def le16_def)
  have no: "ble_mac_is_allowed (bl_allowed_macs ble_scanner_init) ?a = False"
    by (simp add: mac_allowed_iff ble_scanner_init_def)
  have rd: "readings [0x01, 93] = [(MEASUREMENT_FIELD_BATTERY, f32_of_int 93)]"
    by (subst readings.simps, simp, subst readings.simps, simp)
  obtain scratch where res: "advertisement_result False ?a ?data 77 zero_entry (measurement_store_init 0) =
      (scratch, measurement_store_init 0, True)"
    by (simp add: advertisement_result_def svc bthome_v2_def rd)
  have inv: "scanner_inv ble_scanner_init" "ms_table (measurement_store_init 0) \<noteq> []"
    using init_live [of 0] by (simp_all add: live_state_def)
  show ?thesis
    using ble_report_row [OF inv, of ?a ?data 77 scratch "measurement_store_init 0" 1 "0xD0"] res
    unfolding no by (fastforce simp: same_device_def)
qed

text \<open>
  A new configuration takes over its list of addresses, keeps every row in use, and gives each
  configured device a selected row as long as the table has room for it.
\<close>

theorem ble_apply_config_rows:
  assumes "scanner_inv s" and "macs_ok c"
    and "ble_scanner_device_count s + length (cf_allowed_macs c) \<le> 128" and "m \<in> set (cf_allowed_macs c)"
  shows "let s' = ble_scanner_apply_config c s in
    scanner_inv s' \<and> bl_allowed_macs s' = cf_allowed_macs c \<and> rows_kept (bl_device_table s) (bl_device_table s') \<and>
    (\<exists>e\<in>set (bl_device_table s'). bd_in_use e \<and> bd_selected e \<and> ble_address_to_normalized_mac (bd_address e) = m)"
proof -
  have inv: "scanner_inv (ble_scanner_apply_config c s)"
    and macs: "bl_allowed_macs (ble_scanner_apply_config c s) = cf_allowed_macs c"
    and row: "has_row m (bl_device_table (ble_scanner_apply_config c s))"
    using apply_config_spec [OF assms(1,2)] assms(3,4) by blast+
  then have "\<exists>e\<in>set (bl_device_table (ble_scanner_apply_config c s)).
      bd_in_use e \<and> bd_selected e \<and> ble_address_to_normalized_mac (bd_address e) = m"
    using assms(4) by (auto simp: has_row_def scanner_inv_def row_ok_def mac_allowed_iff)
  then show ?thesis using apply_config_spec [OF assms(1,2)] by (simp add: Let_def)
qed

theorem ble_apply_config_rows_witness:
  "\<exists>e\<in>set (bl_device_table (ble_scanner_apply_config one_mac_config ble_scanner_init)).
     bd_in_use e \<and> bd_selected e \<and> ble_address_to_normalized_mac (bd_address e) = ''A4C138112233''"
proof -
  have "scanner_inv ble_scanner_init" using init_live [of 0] by (simp add: live_state_def)
  moreover have "count_if bd_in_use (replicate n zero_entry) = 0" for n by (simp add: count_if_eq_0_iff)
  then have "ble_scanner_device_count ble_scanner_init = 0"
    by (simp only: ble_scanner_device_count_def ble_scanner_init_def ble_scanner.select_convs)
  ultimately show ?thesis
    using ble_apply_config_rows [of ble_scanner_init one_mac_config "''A4C138112233''"] one_mac_ok
    by (simp add: one_mac_config_def Let_def)
qed

text \<open>
  The periodic pass drops exactly the devices that are neither selected nor seen within the last
  minute, keeps the others in their order, and frees their rows.
\<close>

theorem ble_periodic_filter:
  "filter bd_in_use (bl_device_table (ble_scanner_periodic now s)) =
     filter (\<lambda>e. bd_in_use e \<and> (bd_selected e \<or> age_ms now (bd_last_seen_ms e) \<le> 60000)) (bl_device_table s) \<and>
   length (bl_device_table (ble_scanner_periodic now s)) = length (bl_device_table s)"
  using in_use_periodic [of now s] periodic_keep_filter [of now "bl_device_table s"]
  by (simp add: kept_def [abs_def] ble_scanner_periodic_def Let_def)

text \<open>
  The row reserved for a configured device has the address type 0, and a device is looked up by its
  address and its type: the first report of a device with another type (a random address) gets a second
  row, and the reserved row of the same address stays.
\<close>

theorem ble_reserved_row_duplicated:
  assumes "scanner_inv s" and "ms_table store \<noteq> []" and "length a = 6" and "length data \<le> 255"
    and "advertisement_result (ble_mac_is_allowed (bl_allowed_macs s) a) a data now zero_entry store = (scratch, store', True)"
    and "i < 128" and "same_device a 0 (bl_device_table s ! i)" and "t \<noteq> 0"
    and "\<exists>e\<in>set (bl_device_table s). \<not> bd_in_use e"
  shows "\<exists>s' j. ble_packet_handler (Ble_advertising_report a t rssi data) now (s, store) = Some ((s', store'), []) \<and>
    j \<noteq> i \<and> same_device a 0 (bl_device_table s' ! i) \<and> same_device a t (bl_device_table s' ! j)"
proof -
  let ?t = "bl_device_table s"
  have len: "length ?t = 128" using assms(1) by (simp add: scanner_inv_def)
  obtain j e where h: "ble_packet_handler (Ble_advertising_report a t rssi data) now (s, store) =
      Some ((s\<lparr>bl_device_table := ?t[j := e]\<rparr>, store'), [])" "j < 128"
    and slot: "same_device a t (?t ! j) \<or> (\<forall>e\<in>set ?t. \<not> same_device a t e) \<and> evictable ?t j"
    and e: "same_device a t e"
    using report_spec [OF assms(1-5), of t rssi] by (simp only: if_True) blast
  have "j \<noteq> i" using slot assms(7-9) by (auto simp: same_device_def evictable_def)
  then show ?thesis using h e assms(6,7) len
    by (intro exI [of _ "s\<lparr>bl_device_table := ?t[j := e]\<rparr>"] exI [of _ j]) simp
qed

theorem ble_reserved_row_duplicated_witness:
  "\<exists>s' store' j. ble_packet_handler
      (Ble_advertising_report [0xA4, 0xC1, 0x38, 0x11, 0x22, 0x33] 1 0xD0 [6, 0x16, 0xD2, 0xFC, 0x40, 0x01, 93]) 77
      (ble_scanner_apply_config one_mac_config ble_scanner_init, measurement_store_init 0) = Some ((s', store'), []) \<and>
    j \<noteq> 0 \<and> same_device [0xA4, 0xC1, 0x38, 0x11, 0x22, 0x33] 0 (bl_device_table s' ! 0) \<and>
    same_device [0xA4, 0xC1, 0x38, 0x11, 0x22, 0x33] 1 (bl_device_table s' ! j)"
proof -
  let ?a = "[0xA4, 0xC1, 0x38, 0x11, 0x22, 0x33] :: u8 list"
  let ?data = "[6, 0x16, 0xD2, 0xFC, 0x40, 0x01, 93] :: u8 list"
  let ?s = "ble_scanner_apply_config one_mac_config ble_scanner_init"
  let ?e = "zero_entry\<lparr>bd_in_use := True, bd_selected := True, bd_address := ?a, bd_device_id := ble_address_to_device_id ?a\<rparr>"
  have rep: "replicate (128 :: nat) zero_entry = zero_entry # replicate 127 zero_entry"
  proof -
    have "(128 :: nat) = Suc 127" by simp
    then show ?thesis by (simp only: replicate_Suc)
  qed
  have mac: "ble_normalized_mac_to_address ''A4C138112233'' = Some ?a" by code_simp
  have none: "ble_device_table_find_by_mac_string m (zero_entry # replicate 127 zero_entry) = None" for m
    by (simp add: ble_device_table_find_by_mac_string_def find_index_None_iff)
  have s: "bl_device_table ?s = ?e # replicate 127 zero_entry"
    by (simp add: ble_scanner_apply_config_def ble_scanner_init_def BLE_DEVICE_TABLE_SIZE_def one_mac_config_def rep none
        mac APP_CONFIG_ALLOWED_MAC_LEN_def APP_CONFIG_ALLOWED_MAC_MAX_COUNT_def Let_def)
  have svc: "bthome_service ?data = Some [0xD2, 0xFC, 0x40, 0x01, 93]"
    by (subst bthome_service.simps) (simp add: is_bthome_def le16_def)
  have rd: "readings [0x01, 93] = [(MEASUREMENT_FIELD_BATTERY, f32_of_int 93)]"
    by (subst readings.simps, simp, subst readings.simps, simp)
  obtain scratch store' where res:
    "advertisement_result (ble_mac_is_allowed (bl_allowed_macs ?s) ?a) ?a ?data 77 zero_entry (measurement_store_init 0) =
      (scratch, store', True)"
    by (simp add: advertisement_result_def svc bthome_v2_def rd Let_def)
  have inv: "scanner_inv ?s" "ms_table (measurement_store_init 0) \<noteq> []"
    using init_live [of 0] apply_config_spec [OF _ one_mac_ok, of ble_scanner_init] by (simp_all add: live_state_def)
  have "same_device ?a 0 (bl_device_table ?s ! 0)" by (simp add: s same_device_def zero_entry_def)
  moreover have "\<exists>e\<in>set (bl_device_table ?s). \<not> bd_in_use e" by (simp add: s)
  ultimately show ?thesis
    using ble_reserved_row_duplicated [OF inv, of ?a ?data 77 scratch store' 0 1 "0xD0"] res by (auto simp del: nth_Cons_0)
qed

end
