(* ===== verification/Onewire_Bus.thy ===== *)
theory Onewire_Bus
  imports C_Float
begin

text \<open>
  \<^verbatim>\<open>onewire_bus.c\<close>: the bit-banged 1-Wire master.  The pin, the delays and with them the devices on the
  wire are the parameter \<open>hw\<close>, a record of the functions of the pico SDK that the file calls on a state of
  type \<open>'w\<close>; every function of the file is a function on that state.
\<close>

unbundle bit_operations_syntax

subsection \<open>The pin\<close>

record 'w gpio =
  gpio_init :: "u8 \<Rightarrow> 'w \<Rightarrow> 'w"
  gpio_put :: "u8 \<Rightarrow> bool \<Rightarrow> 'w \<Rightarrow> 'w"
  gpio_set_dir :: "u8 \<Rightarrow> bool \<Rightarrow> 'w \<Rightarrow> 'w"
  gpio_pull_up :: "u8 \<Rightarrow> 'w \<Rightarrow> 'w"
  gpio_get :: "u8 \<Rightarrow> 'w \<Rightarrow> bool"
  sleep_us :: "nat \<Rightarrow> 'w \<Rightarrow> 'w"

definition GPIO_OUT :: bool where "GPIO_OUT = True"
definition GPIO_IN :: bool where "GPIO_IN = False"

definition ONEWIRE_ROM_SIZE :: nat where "ONEWIRE_ROM_SIZE = 8"
definition DS18B20_FAMILY_CODE :: u8 where "DS18B20_FAMILY_CODE = 0x28"
definition DS18B20_CMD_SEARCH_ROM :: u8 where "DS18B20_CMD_SEARCH_ROM = 0xF0"
definition DS18B20_CMD_MATCH_ROM :: u8 where "DS18B20_CMD_MATCH_ROM = 0x55"
definition DS18B20_CMD_SKIP_ROM :: u8 where "DS18B20_CMD_SKIP_ROM = 0xCC"
definition DS18B20_CMD_CONVERT_T :: u8 where "DS18B20_CMD_CONVERT_T = 0x44"
definition DS18B20_CMD_READ_SCRATCHPAD :: u8 where "DS18B20_CMD_READ_SCRATCHPAD = 0xBE"

definition onewire_drive_low :: "'w gpio \<Rightarrow> u8 \<Rightarrow> 'w \<Rightarrow> 'w" where
  "onewire_drive_low hw g w = gpio_set_dir hw g GPIO_OUT (gpio_put hw g False w)"

definition onewire_release :: "'w gpio \<Rightarrow> u8 \<Rightarrow> 'w \<Rightarrow> 'w" where
  "onewire_release hw g w = gpio_set_dir hw g GPIO_IN w"

definition onewire_reset :: "'w gpio \<Rightarrow> u8 \<Rightarrow> 'w \<Rightarrow> 'w \<times> bool" where
  "onewire_reset hw g w =
     (let w1 = sleep_us hw 480 (onewire_drive_low hw g w);
          w2 = sleep_us hw 70 (onewire_release hw g w1);
          present = (\<not> gpio_get hw g w2)
      in (sleep_us hw 410 w2, present))"

definition onewire_write_bit :: "'w gpio \<Rightarrow> u8 \<Rightarrow> bool \<Rightarrow> 'w \<Rightarrow> 'w" where
  "onewire_write_bit hw g b w =
     (let w1 = onewire_drive_low hw g w
      in if b then sleep_us hw 64 (onewire_release hw g (sleep_us hw 6 w1))
         else sleep_us hw 10 (onewire_release hw g (sleep_us hw 60 w1)))"

definition onewire_read_bit :: "'w gpio \<Rightarrow> u8 \<Rightarrow> 'w \<Rightarrow> 'w \<times> bool" where
  "onewire_read_bit hw g w =
     (let w1 = sleep_us hw 6 (onewire_drive_low hw g w);
          w2 = sleep_us hw 9 (onewire_release hw g w1);
          b = gpio_get hw g w2
      in (sleep_us hw 55 w2, b))"

text \<open>The loops over the eight bits of a byte, from bit \<open>i\<close> on.\<close>

function write_bits :: "'w gpio \<Rightarrow> u8 \<Rightarrow> u8 \<Rightarrow> nat \<Rightarrow> 'w \<Rightarrow> 'w" where
  "write_bits hw g val i w =
     (if i < 8 then write_bits hw g val (Suc i) (onewire_write_bit hw g (val AND push_bit i 1 \<noteq> 0) w) else w)"
  by pat_completeness auto
termination
  by (relation "measure (\<lambda>(hw, g, val, i, w). 8 - i)") auto

declare write_bits.simps [simp del]

definition onewire_write_byte :: "'w gpio \<Rightarrow> u8 \<Rightarrow> u8 \<Rightarrow> 'w \<Rightarrow> 'w" where
  "onewire_write_byte hw g val w = write_bits hw g val 0 w"

function read_bits :: "'w gpio \<Rightarrow> u8 \<Rightarrow> nat \<Rightarrow> u8 \<Rightarrow> 'w \<Rightarrow> 'w \<times> u8" where
  "read_bits hw g i val w =
     (if i < 8 then
        (case onewire_read_bit hw g w of
           (w1, b) \<Rightarrow> read_bits hw g (Suc i) (if b then val OR push_bit i 1 else val) w1)
      else (w, val))"
  by pat_completeness auto
termination
  by (relation "measure (\<lambda>(hw, g, i, val, w). 8 - i)") auto

declare read_bits.simps [simp del]

definition onewire_read_byte :: "'w gpio \<Rightarrow> u8 \<Rightarrow> 'w \<Rightarrow> 'w \<times> u8" where
  "onewire_read_byte hw g w = read_bits hw g 0 0 w"

subsection \<open>The checksum\<close>

fun crc8_bits :: "nat \<Rightarrow> u8 \<Rightarrow> u8 \<Rightarrow> u8" where
  "crc8_bits 0 crc inbyte = crc"
| "crc8_bits (Suc n) crc inbyte =
     (let mix = (crc XOR inbyte) AND 0x01;
          crc1 = drop_bit 1 crc;
          crc2 = (if mix \<noteq> 0 then crc1 XOR 0x8C else crc1)
      in crc8_bits n crc2 (drop_bit 1 inbyte))"

definition onewire_crc8 :: "u8 list \<Rightarrow> u8" where
  "onewire_crc8 data = foldl (\<lambda>crc inbyte. crc8_bits 8 crc inbyte) 0 data"

subsection \<open>The search for the devices\<close>

text \<open>
  The loop of \<^verbatim>\<open>onewire_search_next\<close>.  It runs once for each of the 64 bits of a ROM; \<open>fuel\<close> counts the
  rounds and running out of it is \<open>None\<close>.  \<open>Some (w, rom, None)\<close>: no device answered any more.
\<close>

fun search_bits ::
  "'w gpio \<Rightarrow> u8 \<Rightarrow> nat \<Rightarrow> nat \<Rightarrow> nat \<Rightarrow> u8 \<Rightarrow> nat \<Rightarrow> nat \<Rightarrow> u8 list \<Rightarrow> 'w \<Rightarrow> ('w \<times> u8 list \<times> nat option) option" where
  "search_bits hw g last_discrepancy 0 rom_byte_number rom_byte_mask id_bit_number last_zero rom w = None"
| "search_bits hw g last_discrepancy (Suc fuel) rom_byte_number rom_byte_mask id_bit_number last_zero rom w =
     (case onewire_read_bit hw g w of
        (w1, id_bit) \<Rightarrow>
      case onewire_read_bit hw g w1 of
        (w2, cmp_id_bit) \<Rightarrow>
          if id_bit \<and> cmp_id_bit then Some (w2, rom, None)
          else
            let search_direction =
                  (if id_bit \<noteq> cmp_id_bit then id_bit
                   else if id_bit_number < last_discrepancy then rom ! rom_byte_number AND rom_byte_mask \<noteq> 0
                   else id_bit_number = last_discrepancy);
                last_zero1 = (if id_bit = cmp_id_bit \<and> \<not> search_direction then id_bit_number else last_zero);
                rom1 = rom[rom_byte_number :=
                         if search_direction then rom ! rom_byte_number OR rom_byte_mask
                         else rom ! rom_byte_number AND NOT rom_byte_mask];
                w3 = onewire_write_bit hw g search_direction w2;
                mask1 = push_bit 1 rom_byte_mask;
                byte1 = (if mask1 = 0 then Suc rom_byte_number else rom_byte_number);
                mask2 = (if mask1 = 0 then 1 else mask1)
            in if byte1 < ONEWIRE_ROM_SIZE
               then search_bits hw g last_discrepancy fuel byte1 mask2 (Suc id_bit_number) last_zero1 rom1 w3
               else Some (w3, rom1, Some last_zero1))"

record search_state =
  se_rom :: "u8 list"
  se_last_discrepancy :: nat
  se_last_device :: bool

definition onewire_search_next :: "'w gpio \<Rightarrow> u8 \<Rightarrow> search_state \<Rightarrow> 'w \<Rightarrow> ('w \<times> search_state \<times> bool) option" where
  "onewire_search_next hw g s w =
     (if se_last_device s then Some (w, s, False) else
      case onewire_reset hw g w of
        (w1, False) \<Rightarrow> Some (w1, s, False)
      | (w1, True) \<Rightarrow>
          (case search_bits hw g (se_last_discrepancy s) 64 0 1 1 0 (se_rom s)
                  (onewire_write_byte hw g DS18B20_CMD_SEARCH_ROM w1) of
             None \<Rightarrow> None
           | Some (w2, rom, None) \<Rightarrow> Some (w2, s\<lparr>se_rom := rom\<rparr>, False)
           | Some (w2, rom, Some last_zero) \<Rightarrow>
               Some (w2, \<lparr>se_rom = rom, se_last_discrepancy = last_zero, se_last_device = (last_zero = 0)\<rparr>,
                 onewire_crc8 rom = 0 \<and> rom ! 0 = DS18B20_FAMILY_CODE)))"

definition onewire_bus_init :: "'w gpio \<Rightarrow> u8 \<Rightarrow> 'w \<Rightarrow> 'w" where
  "onewire_bus_init hw g w =
     gpio_pull_up hw g (gpio_set_dir hw g GPIO_IN (gpio_put hw g False (gpio_init hw g w)))"

text \<open>The loop of \<^verbatim>\<open>onewire_bus_search\<close> with room for \<open>n\<close> more devices; the ROMs found, in order.\<close>

fun search_loop :: "'w gpio \<Rightarrow> u8 \<Rightarrow> nat \<Rightarrow> search_state \<Rightarrow> 'w \<Rightarrow> ('w \<times> u8 list list) option" where
  "search_loop hw g 0 s w = Some (w, [])"
| "search_loop hw g (Suc n) s w =
     (case onewire_search_next hw g s w of
        None \<Rightarrow> None
      | Some (w1, s1, False) \<Rightarrow> Some (w1, [])
      | Some (w1, s1, True) \<Rightarrow> map_option (\<lambda>(w2, roms). (w2, se_rom s1 # roms)) (search_loop hw g n s1 w1))"

definition onewire_bus_search :: "'w gpio \<Rightarrow> u8 \<Rightarrow> nat \<Rightarrow> 'w \<Rightarrow> ('w \<times> u8 list list) option" where
  "onewire_bus_search hw g capacity w =
     search_loop hw g capacity
       \<lparr>se_rom = replicate ONEWIRE_ROM_SIZE 0, se_last_discrepancy = 0, se_last_device = False\<rparr> w"

subsection \<open>Conversion and reading\<close>

definition onewire_bus_start_conversion :: "'w gpio \<Rightarrow> u8 \<Rightarrow> 'w \<Rightarrow> 'w \<times> bool" where
  "onewire_bus_start_conversion hw g w =
     (case onewire_reset hw g w of
        (w1, False) \<Rightarrow> (w1, False)
      | (w1, True) \<Rightarrow>
          (onewire_write_byte hw g DS18B20_CMD_CONVERT_T (onewire_write_byte hw g DS18B20_CMD_SKIP_ROM w1), True))"

fun read_bytes :: "'w gpio \<Rightarrow> u8 \<Rightarrow> nat \<Rightarrow> 'w \<Rightarrow> 'w \<times> u8 list" where
  "read_bytes hw g 0 w = (w, [])"
| "read_bytes hw g (Suc n) w =
     (case onewire_read_byte hw g w of
        (w1, b) \<Rightarrow> (case read_bytes hw g n w1 of (w2, bs) \<Rightarrow> (w2, b # bs)))"

text \<open>\<open>(w, Some t)\<close>: the function returned \<^verbatim>\<open>true\<close> with the temperature \<open>t\<close>.\<close>

definition onewire_bus_read_temperature :: "'w gpio \<Rightarrow> u8 \<Rightarrow> u8 list \<Rightarrow> 'w \<Rightarrow> 'w \<times> f32 option" where
  "onewire_bus_read_temperature hw g rom w =
     (case onewire_reset hw g w of
        (w1, False) \<Rightarrow> (w1, None)
      | (w1, True) \<Rightarrow>
          let w2 = onewire_write_byte hw g DS18B20_CMD_MATCH_ROM w1;
              w3 = foldl (\<lambda>w b. onewire_write_byte hw g b w) w2 (take ONEWIRE_ROM_SIZE rom);
              w4 = onewire_write_byte hw g DS18B20_CMD_READ_SCRATCHPAD w3
          in case read_bytes hw g 9 w4 of
               (w5, scratchpad) \<Rightarrow>
                 if onewire_crc8 scratchpad \<noteq> 0 then (w5, None)
                 else (w5, Some (f32_div (f32_of_int (sint (le16 (scratchpad ! 0) (scratchpad ! 1)))) 16)))"

definition onewire_bus_device_id :: "u8 list \<Rightarrow> u32" where
  "onewire_bus_device_id rom =
     push_bit 24 (ucast (rom ! 3)) OR push_bit 16 (ucast (rom ! 4)) OR push_bit 8 (ucast (rom ! 5)) OR ucast (rom ! 6)"

end
