(* ===== verification/Onewire_Worker.thy ===== *)
theory Onewire_Worker
  imports Onewire_Bus
begin

text \<open>
  \<^verbatim>\<open>onewire_worker.c\<close>: the two rings between the cores, the worker that runs on core 1 and its answers to
  the two commands.  The rings are modelled twice: as the operations of the file, and as the atomic steps
  in which the two cores interleave.
\<close>

subsection \<open>Data\<close>

definition ONEWIRE_GPIO2 :: u8 where "ONEWIRE_GPIO2 = 2"
definition ONEWIRE_GPIO3 :: u8 where "ONEWIRE_GPIO3 = 3"
definition ONEWIRE_WORKER_DEVICE_LIMIT :: nat where "ONEWIRE_WORKER_DEVICE_LIMIT = 16"
definition ONEWIRE_QUEUE_SLOT_COUNT :: nat where "ONEWIRE_QUEUE_SLOT_COUNT = 4"
definition ONEWIRE_CONVERT_DELAY_MS :: nat where "ONEWIRE_CONVERT_DELAY_MS = 750"

datatype onewire_command_type = ONEWIRE_START | ONEWIRE_READNEXT

datatype onewire_response_type = ONEWIRE_START_OK | ONEWIRE_START_ERROR | ONEWIRE_TEMPERATURE | ONEWIRE_READNEXT_NONE

record onewire_temperature_event =
  ev_gpio :: u8
  ev_rom :: "u8 list"
  ev_device_id :: u32
  ev_timestamp_ms :: u32
  ev_temperature_c :: f32
  ev_valid :: bool

record onewire_response =
  re_type :: onewire_response_type
  re_temperature :: onewire_temperature_event

record onewire_command =
  co_type :: onewire_command_type
  co_gpio :: u8

record 'a onewire_queue =
  q_entries :: "'a list"
  q_read_index :: nat
  q_write_index :: nat

definition zero_event :: onewire_temperature_event where
  "zero_event = \<lparr>ev_gpio = 0, ev_rom = replicate ONEWIRE_ROM_SIZE 0, ev_device_id = 0, ev_timestamp_ms = 0,
     ev_temperature_c = 0, ev_valid = False\<rparr>"

definition zero_response :: onewire_response where
  "zero_response = \<lparr>re_type = ONEWIRE_START_OK, re_temperature = zero_event\<rparr>"

definition zero_command :: onewire_command where
  "zero_command = \<lparr>co_type = ONEWIRE_START, co_gpio = 0\<rparr>"

subsection \<open>The rings\<close>

definition onewire_queue_next_index :: "nat \<Rightarrow> nat" where
  "onewire_queue_next_index index = (index + 1) mod ONEWIRE_QUEUE_SLOT_COUNT"

definition onewire_command_queue_try_add :: "onewire_command \<Rightarrow> onewire_command onewire_queue \<Rightarrow> onewire_command onewire_queue \<times> bool" where
  "onewire_command_queue_try_add command q =
     (let write_index = q_write_index q; next_index = onewire_queue_next_index write_index
      in if next_index = q_read_index q then (q, False)
         else (q\<lparr>q_entries := (q_entries q)[write_index := command], q_write_index := next_index\<rparr>, True))"

definition onewire_command_queue_try_remove :: "onewire_command onewire_queue \<Rightarrow> onewire_command onewire_queue \<times> onewire_command option" where
  "onewire_command_queue_try_remove q =
     (let read_index = q_read_index q
      in if read_index = q_write_index q then (q, None)
         else (q\<lparr>q_read_index := onewire_queue_next_index read_index\<rparr>, Some (q_entries q ! read_index)))"

definition onewire_response_queue_try_add :: "onewire_response \<Rightarrow> onewire_response onewire_queue \<Rightarrow> onewire_response onewire_queue \<times> bool" where
  "onewire_response_queue_try_add response q =
     (let write_index = q_write_index q; next_index = onewire_queue_next_index write_index
      in if next_index = q_read_index q then (q, False)
         else (q\<lparr>q_entries := (q_entries q)[write_index := response], q_write_index := next_index\<rparr>, True))"

definition onewire_worker_try_get_response :: "onewire_response onewire_queue \<Rightarrow> onewire_response onewire_queue \<times> onewire_response option" where
  "onewire_worker_try_get_response q =
     (let read_index = q_read_index q
      in if read_index = q_write_index q then (q, None)
         else (q\<lparr>q_read_index := onewire_queue_next_index read_index\<rparr>, Some (q_entries q ! read_index)))"

definition onewire_worker_send :: "onewire_command_type \<Rightarrow> u8 \<Rightarrow> onewire_command onewire_queue \<Rightarrow> onewire_command onewire_queue \<times> bool" where
  "onewire_worker_send type g q = onewire_command_queue_try_add \<lparr>co_type = type, co_gpio = g\<rparr> q"

definition onewire_worker_send_start :: "u8 \<Rightarrow> onewire_command onewire_queue \<Rightarrow> onewire_command onewire_queue \<times> bool" where
  "onewire_worker_send_start g q = onewire_worker_send ONEWIRE_START g q"

definition onewire_worker_send_readnext :: "onewire_command onewire_queue \<Rightarrow> onewire_command onewire_queue \<times> bool" where
  "onewire_worker_send_readnext q = onewire_worker_send ONEWIRE_READNEXT 0 q"

subsection \<open>The worker\<close>

text \<open>
  The state of core 1; \<open>wk_roms\<close> holds the entries of the ROM array that a search has filled,
  \<open>wk_wire\<close> the state of the pins.
\<close>

record 'w onewire_worker =
  wk_gpio :: u8
  wk_roms :: "u8 list list"
  wk_device_count :: nat
  wk_device_index :: nat
  wk_wire :: 'w

definition onewire_worker_handle_start ::
  "'w gpio \<Rightarrow> onewire_command \<Rightarrow> onewire_response \<Rightarrow> 'w onewire_worker \<Rightarrow> ('w onewire_worker \<times> onewire_response) option" where
  "onewire_worker_handle_start hw command response k =
     (if co_gpio command \<noteq> ONEWIRE_GPIO2 \<and> co_gpio command \<noteq> ONEWIRE_GPIO3
      then Some (k, response\<lparr>re_type := ONEWIRE_START_ERROR\<rparr>)
      else
        let g = co_gpio command; w1 = onewire_bus_init hw g (wk_wire k)
        in case onewire_bus_search hw g ONEWIRE_WORKER_DEVICE_LIMIT w1 of
             None \<Rightarrow> None
           | Some (w2, roms) \<Rightarrow>
               let k1 = k\<lparr>wk_gpio := g, wk_device_index := 0, wk_roms := roms, wk_device_count := length roms, wk_wire := w2\<rparr>
               in if wk_device_count k1 > 0 then
                    (case onewire_bus_start_conversion hw g w2 of
                       (w3, False) \<Rightarrow>
                         Some (k1\<lparr>wk_device_count := 0, wk_wire := w3\<rparr>, response\<lparr>re_type := ONEWIRE_START_ERROR\<rparr>)
                     | (w3, True) \<Rightarrow>
                         Some (k1\<lparr>wk_wire := sleep_us hw (1000 * ONEWIRE_CONVERT_DELAY_MS) w3\<rparr>,
                               response\<lparr>re_type := ONEWIRE_START_OK\<rparr>))
                  else Some (k1, response\<lparr>re_type := ONEWIRE_START_OK\<rparr>))"

definition onewire_worker_handle_readnext ::
  "'w gpio \<Rightarrow> u32 \<Rightarrow> onewire_response \<Rightarrow> 'w onewire_worker \<Rightarrow> 'w onewire_worker \<times> onewire_response" where
  "onewire_worker_handle_readnext hw now_ms response k =
     (if wk_device_index k \<ge> wk_device_count k then (k, response\<lparr>re_type := ONEWIRE_READNEXT_NONE\<rparr>)
      else
        let rom = wk_roms k ! wk_device_index k
        in case onewire_bus_read_temperature hw (wk_gpio k) rom (wk_wire k) of
             (w1, t) \<Rightarrow>
               (k\<lparr>wk_device_index := Suc (wk_device_index k), wk_wire := w1\<rparr>,
                response\<lparr>re_type := ONEWIRE_TEMPERATURE,
                  re_temperature := \<lparr>ev_gpio = wk_gpio k, ev_rom = rom, ev_device_id = onewire_bus_device_id rom,
                    ev_timestamp_ms = now_ms, ev_temperature_c = (case t of None \<Rightarrow> 0 | Some c \<Rightarrow> c),
                    ev_valid = (t \<noteq> None)\<rparr>\<rparr>))"

text \<open>One round of the loop of \<^verbatim>\<open>onewire_worker_main\<close>, from the command it removed to the response it adds.\<close>

definition worker_answer ::
  "'w gpio \<Rightarrow> u32 \<Rightarrow> onewire_command \<Rightarrow> 'w onewire_worker \<Rightarrow> ('w onewire_worker \<times> onewire_response) option" where
  "worker_answer hw now_ms command k =
     (case co_type command of
        ONEWIRE_START \<Rightarrow> onewire_worker_handle_start hw command zero_response k
      | ONEWIRE_READNEXT \<Rightarrow> Some (onewire_worker_handle_readnext hw now_ms zero_response k))"

definition empty_queue :: "'a \<Rightarrow> 'a onewire_queue" where
  "empty_queue zero = \<lparr>q_entries = replicate ONEWIRE_QUEUE_SLOT_COUNT zero, q_read_index = 0, q_write_index = 0\<rparr>"

text \<open>
  The start of core 1: \<open>started\<close> says whether the core reported within a second, \<open>flash_ok\<close> whether
  \<^verbatim>\<open>flash_safe_execute_core_init\<close> succeeded there.
\<close>

definition onewire_worker_init ::
  "bool \<Rightarrow> bool \<Rightarrow> onewire_command onewire_queue \<times> onewire_response onewire_queue \<times> bool" where
  "onewire_worker_init started flash_ok = (empty_queue zero_command, empty_queue zero_response, started \<and> flash_ok)"

end
