(* ===== verification/Onewire_Queue.thy ===== *)
theory Onewire_Queue
  imports Onewire_Worker
begin

text \<open>
  The rings of \<^verbatim>\<open>onewire_worker.c\<close> are bounded queues: the interface \<open>fifo\<close> states it for the operations, and
  \<open>spsc_step\<close> interleaves the single loads and stores of the two cores.  Each \<^verbatim>\<open>__dmb()\<close> orders the copy of an
  entry before the store of the index behind it, so the steps are taken one after the other.
\<close>

subsection \<open>The interface of a bounded queue\<close>

datatype 'a queue_op = Add 'a | Remove

locale fifo =
  fixes add :: "'a \<Rightarrow> 'q \<Rightarrow> 'q \<times> bool"
    and remove :: "'q \<Rightarrow> 'q \<times> 'a option"
    and contents :: "'q \<Rightarrow> 'a list"
    and inv :: "'q \<Rightarrow> bool"
    and capacity :: nat
  assumes add: "inv q \<Longrightarrow> add x q = (q', ok) \<Longrightarrow>
      inv q' \<and> ok = (length (contents q) < capacity) \<and> contents q' = contents q @ (if ok then [x] else [])"
    and remove: "inv q \<Longrightarrow> remove q = (q', r) \<Longrightarrow>
      inv q' \<and> r = (if contents q = [] then None else Some (hd (contents q))) \<and> contents q' = tl (contents q)"
begin

lemma add_ok:
  "inv q \<Longrightarrow> length (contents q) < capacity \<Longrightarrow> \<exists>q'. add x q = (q', True) \<and> inv q' \<and> contents q' = contents q @ [x]"
  using add [of q x] by (cases "add x q") auto

lemma remove_empty: "inv q \<Longrightarrow> contents q = [] \<Longrightarrow> \<exists>q'. remove q = (q', None) \<and> inv q' \<and> contents q' = []"
  using remove [of q] by (cases "remove q") auto

lemma remove_ok:
  "inv q \<Longrightarrow> contents q = x # xs \<Longrightarrow> \<exists>q'. remove q = (q', Some x) \<and> inv q' \<and> contents q' = xs"
  using remove [of q] by (cases "remove q") auto

text \<open>A sequence of operations, with what was accepted and what was handed out.\<close>

fun run_queue :: "'a queue_op list \<Rightarrow> 'q \<Rightarrow> 'q \<times> 'a list \<times> 'a list" where
  "run_queue [] q = (q, [], [])"
| "run_queue (Add x # ops) q =
     (case add x q of (q1, ok) \<Rightarrow>
        (case run_queue ops q1 of (q2, ins, outs) \<Rightarrow> (q2, if ok then x # ins else ins, outs)))"
| "run_queue (Remove # ops) q =
     (case remove q of (q1, r) \<Rightarrow>
        (case run_queue ops q1 of (q2, ins, outs) \<Rightarrow> (q2, ins, case r of None \<Rightarrow> outs | Some x \<Rightarrow> x # outs)))"

lemma run_queue_order:
  "inv q \<Longrightarrow> length (contents q) \<le> capacity \<Longrightarrow> run_queue ops q = (q', ins, outs) \<Longrightarrow>
   inv q' \<and> contents q @ ins = outs @ contents q' \<and> length (contents q') \<le> capacity"
proof (induction ops q arbitrary: q' ins outs rule: run_queue.induct)
  case (1 q)
  then show ?case by simp
next
  case (2 x ops q)
  obtain q1 ok where a: "add x q = (q1, ok)" by fastforce
  obtain q2 ins2 outs2 where r: "run_queue ops q1 = (q2, ins2, outs2)" by (metis prod_cases3)
  note q1 = add [OF "2.prems"(1) a]
  have len: "length (contents q1) \<le> capacity" using q1 "2.prems"(2) by (cases ok) simp_all
  have e: "q' = q2" "ins = (if ok then x # ins2 else ins2)" "outs = outs2" using "2.prems"(3) a r by (simp_all split: if_splits)
  have "inv q2 \<and> contents q1 @ ins2 = outs2 @ contents q2 \<and> length (contents q2) \<le> capacity"
    using "2.IH" [OF a [symmetric] _ len r] q1 by simp
  then show ?case using q1 by (cases ok) (simp_all add: e)
next
  case (3 ops q)
  obtain q1 v where a: "remove q = (q1, v)" by fastforce
  obtain q2 ins2 outs2 where r: "run_queue ops q1 = (q2, ins2, outs2)" by (metis prod_cases3)
  note q1 = remove [OF "3.prems"(1) a]
  have len: "length (contents q1) \<le> capacity" using q1 "3.prems"(2) by simp
  have e: "q' = q2" "ins = ins2" "outs = (case v of None \<Rightarrow> outs2 | Some x \<Rightarrow> x # outs2)"
    using "3.prems"(3) a r by simp_all
  have IH: "inv q2 \<and> contents q1 @ ins2 = outs2 @ contents q2 \<and> length (contents q2) \<le> capacity"
    using "3.IH" [OF a [symmetric] _ len r] q1 by simp
  show ?case
  proof (cases "contents q")
    case Nil
    then show ?thesis using q1 IH by (simp add: e)
  next
    case (Cons y ys)
    then show ?thesis using q1 IH by (simp add: e)
  qed
qed

end

subsection \<open>The contents of a ring\<close>

definition queue_contents :: "'a onewire_queue \<Rightarrow> 'a list" where
  "queue_contents q = List.map (\<lambda>i. q_entries q ! ((q_read_index q + i) mod 4)) [0..<(q_write_index q + 4 - q_read_index q) mod 4]"

definition queue_inv :: "'a onewire_queue \<Rightarrow> bool" where
  "queue_inv q = (length (q_entries q) = 4 \<and> q_read_index q < 4 \<and> q_write_index q < 4)"

lemma less_4: "(n :: nat) < 4 \<longleftrightarrow> n = 0 \<or> n = 1 \<or> n = 2 \<or> n = 3"
  by auto

lemma queue_cases:
  assumes "queue_inv q"
  obtains a b c d r w where "q = \<lparr>q_entries = [a, b, c, d], q_read_index = r, q_write_index = w\<rparr>"
    "r = 0 \<or> r = 1 \<or> r = 2 \<or> r = 3" "w = 0 \<or> w = 1 \<or> w = 2 \<or> w = 3"
proof (cases q)
  case (fields es r w)
  then obtain a b c d where "es = [a, b, c, d]"
    using assms by (auto simp: queue_inv_def length_Suc_conv eval_nat_numeral)
  then show ?thesis using that [of a b c d r w] fields assms by (auto simp: queue_inv_def less_4)
qed

lemmas ring_defs = queue_contents_def queue_inv_def onewire_queue_next_index_def ONEWIRE_QUEUE_SLOT_COUNT_def upt_rec [of _ "numeral n" for n] upt_rec [of _ "1"]

lemma length_contents: "queue_inv q \<Longrightarrow> length (queue_contents q) \<le> 3"
  by (simp add: queue_contents_def)

lemma contents_empty_iff: "queue_inv q \<Longrightarrow> queue_contents q = [] \<longleftrightarrow> q_read_index q = q_write_index q"
  by (erule queue_cases) (elim disjE; simp add: ring_defs)

lemma contents_full_iff:
  "queue_inv q \<Longrightarrow> onewire_queue_next_index (q_write_index q) = q_read_index q \<longleftrightarrow> length (queue_contents q) = 3"
  by (erule queue_cases) (elim disjE; simp add: ring_defs)

text \<open>The three stores of the ring: an entry outside the contents, the write index, the read index.\<close>

lemma store_entry:
  "queue_inv q \<Longrightarrow> length (queue_contents q) < 3 \<Longrightarrow>
   queue_inv (q\<lparr>q_entries := (q_entries q)[q_write_index q := x]\<rparr>) \<and>
   queue_contents (q\<lparr>q_entries := (q_entries q)[q_write_index q := x]\<rparr>) = queue_contents q"
  by (erule queue_cases) (elim disjE; simp add: ring_defs)

lemma publish_entry:
  "queue_inv q \<Longrightarrow> length (queue_contents q) < 3 \<Longrightarrow>
   queue_inv (q\<lparr>q_write_index := onewire_queue_next_index (q_write_index q)\<rparr>) \<and>
   queue_contents (q\<lparr>q_write_index := onewire_queue_next_index (q_write_index q)\<rparr>) =
     queue_contents q @ [q_entries q ! q_write_index q]"
  by (erule queue_cases) (elim disjE; simp add: ring_defs)

lemma release_entry:
  "queue_inv q \<Longrightarrow> queue_contents q \<noteq> [] \<Longrightarrow>
   queue_inv (q\<lparr>q_read_index := onewire_queue_next_index (q_read_index q)\<rparr>) \<and>
   queue_contents (q\<lparr>q_read_index := onewire_queue_next_index (q_read_index q)\<rparr>) = tl (queue_contents q) \<and>
   hd (queue_contents q) = q_entries q ! q_read_index q"
  by (erule queue_cases) (elim disjE; simp add: ring_defs)

interpretation command_queue: fifo onewire_command_queue_try_add onewire_command_queue_try_remove queue_contents queue_inv 3
proof
  fix q q' :: "onewire_command onewire_queue" and x ok
  assume inv: "queue_inv q" and r: "onewire_command_queue_try_add x q = (q', ok)"
  show "queue_inv q' \<and> ok = (length (queue_contents q) < 3) \<and> queue_contents q' = queue_contents q @ (if ok then [x] else [])"
  proof (cases "length (queue_contents q) = 3")
    case True
    then show ?thesis using inv r contents_full_iff [OF inv] by (auto simp: onewire_command_queue_try_add_def Let_def)
  next
    case False
    then have l: "length (queue_contents q) < 3" using length_contents [OF inv] by simp
    note s = store_entry [OF inv l, of x]
    let ?q1 = "q\<lparr>q_entries := (q_entries q)[q_write_index q := x]\<rparr>"
    have "q' = ?q1\<lparr>q_write_index := onewire_queue_next_index (q_write_index ?q1)\<rparr>" "ok"
      using r False contents_full_iff [OF inv] by (auto simp: onewire_command_queue_try_add_def Let_def)
    then show ?thesis using publish_entry [of ?q1] s l inv by (simp add: queue_inv_def)
  qed
next
  fix q q' :: "onewire_command onewire_queue" and r
  assume inv: "queue_inv q" and rm: "onewire_command_queue_try_remove q = (q', r)"
  then show "queue_inv q' \<and> r = (if queue_contents q = [] then None else Some (hd (queue_contents q))) \<and>
      queue_contents q' = tl (queue_contents q)"
    using contents_empty_iff [OF inv] release_entry [OF inv]
    by (auto simp: onewire_command_queue_try_remove_def Let_def split: if_splits)
qed

lemma response_queue_same:
  "onewire_response_queue_try_add x q =
     (if onewire_queue_next_index (q_write_index q) = q_read_index q then (q, False)
      else ((q\<lparr>q_entries := (q_entries q)[q_write_index q := x]\<rparr>)\<lparr>q_write_index := onewire_queue_next_index (q_write_index q)\<rparr>, True))"
  by (simp add: onewire_response_queue_try_add_def Let_def)

interpretation response_queue: fifo onewire_response_queue_try_add onewire_worker_try_get_response queue_contents queue_inv 3
proof
  fix q q' :: "onewire_response onewire_queue" and x ok
  assume inv: "queue_inv q" and r: "onewire_response_queue_try_add x q = (q', ok)"
  show "queue_inv q' \<and> ok = (length (queue_contents q) < 3) \<and> queue_contents q' = queue_contents q @ (if ok then [x] else [])"
  proof (cases "length (queue_contents q) = 3")
    case True
    then show ?thesis using inv r contents_full_iff [OF inv] by (auto simp: response_queue_same)
  next
    case False
    then have l: "length (queue_contents q) < 3" using length_contents [OF inv] by simp
    let ?q1 = "q\<lparr>q_entries := (q_entries q)[q_write_index q := x]\<rparr>"
    have "q' = ?q1\<lparr>q_write_index := onewire_queue_next_index (q_write_index ?q1)\<rparr>" "ok"
      using r False contents_full_iff [OF inv] by (auto simp: response_queue_same)
    then show ?thesis using publish_entry [of ?q1] store_entry [OF inv l, of x] l inv by (simp add: queue_inv_def)
  qed
next
  fix q q' :: "onewire_response onewire_queue" and r
  assume inv: "queue_inv q" and rm: "onewire_worker_try_get_response q = (q', r)"
  then show "queue_inv q' \<and> r = (if queue_contents q = [] then None else Some (hd (queue_contents q))) \<and>
      queue_contents q' = tl (queue_contents q)"
    using contents_empty_iff [OF inv] release_entry [OF inv]
    by (auto simp: onewire_worker_try_get_response_def Let_def split: if_splits)
qed

lemma empty_queue_inv [simp]: "queue_inv (empty_queue z)" "queue_contents (empty_queue z) = []"
  by (simp_all add: queue_inv_def queue_contents_def empty_queue_def ONEWIRE_QUEUE_SLOT_COUNT_def)

subsection \<open>The two cores interleaved\<close>

text \<open>
  The producer loads the read index (its own write index cannot change), stores the entry, and stores the
  write index; the consumer loads the write index, copies the entry, and stores the read index.
  \<open>sp_added\<close> and \<open>sp_removed\<close> record what each side has completed.
\<close>

datatype 'a producer = P_idle | P_store 'a | P_publish

datatype 'a consumer = C_idle | C_copy | C_release 'a

record 'a spsc =
  sp_queue :: "'a onewire_queue"
  sp_producer :: "'a producer"
  sp_consumer :: "'a consumer"
  sp_added :: "'a list"
  sp_removed :: "'a list"

inductive spsc_step :: "'a spsc \<Rightarrow> 'a spsc \<Rightarrow> bool" where
  add_refused: "sp_producer s = P_idle \<Longrightarrow> onewire_queue_next_index (q_write_index (sp_queue s)) = q_read_index (sp_queue s) \<Longrightarrow>
    spsc_step s s"
| add_start: "sp_producer s = P_idle \<Longrightarrow> onewire_queue_next_index (q_write_index (sp_queue s)) \<noteq> q_read_index (sp_queue s) \<Longrightarrow>
    spsc_step s (s\<lparr>sp_producer := P_store x\<rparr>)"
| add_entry: "sp_producer s = P_store x \<Longrightarrow>
    spsc_step s (s\<lparr>sp_producer := P_publish, sp_added := sp_added s @ [x],
      sp_queue := (sp_queue s)\<lparr>q_entries := (q_entries (sp_queue s))[q_write_index (sp_queue s) := x]\<rparr>\<rparr>)"
| add_publish: "sp_producer s = P_publish \<Longrightarrow>
    spsc_step s (s\<lparr>sp_producer := P_idle,
      sp_queue := (sp_queue s)\<lparr>q_write_index := onewire_queue_next_index (q_write_index (sp_queue s))\<rparr>\<rparr>)"
| remove_empty: "sp_consumer s = C_idle \<Longrightarrow> q_read_index (sp_queue s) = q_write_index (sp_queue s) \<Longrightarrow> spsc_step s s"
| remove_start: "sp_consumer s = C_idle \<Longrightarrow> q_read_index (sp_queue s) \<noteq> q_write_index (sp_queue s) \<Longrightarrow>
    spsc_step s (s\<lparr>sp_consumer := C_copy\<rparr>)"
| remove_copy: "sp_consumer s = C_copy \<Longrightarrow>
    spsc_step s (s\<lparr>sp_consumer := C_release (q_entries (sp_queue s) ! q_read_index (sp_queue s))\<rparr>)"
| remove_release: "sp_consumer s = C_release v \<Longrightarrow>
    spsc_step s (s\<lparr>sp_consumer := C_idle, sp_removed := sp_removed s @ [v],
      sp_queue := (sp_queue s)\<lparr>q_read_index := onewire_queue_next_index (q_read_index (sp_queue s))\<rparr>\<rparr>)"

definition spsc_init :: "'a \<Rightarrow> 'a spsc" where
  "spsc_init z = \<lparr>sp_queue = empty_queue z, sp_producer = P_idle, sp_consumer = C_idle, sp_added = [], sp_removed = []\<rparr>"

text \<open>The entry that is stored but not yet published.\<close>

definition pending :: "'a spsc \<Rightarrow> 'a list" where
  "pending s = (if sp_producer s = P_publish then [q_entries (sp_queue s) ! q_write_index (sp_queue s)] else [])"

definition spsc_inv :: "'a spsc \<Rightarrow> bool" where
  "spsc_inv s =
     (queue_inv (sp_queue s) \<and> sp_added s = sp_removed s @ queue_contents (sp_queue s) @ pending s \<and>
      (sp_producer s \<noteq> P_idle \<longrightarrow> length (queue_contents (sp_queue s)) < 3) \<and>
      (sp_consumer s \<noteq> C_idle \<longrightarrow> queue_contents (sp_queue s) \<noteq> []) \<and>
      (\<forall>v. sp_consumer s = C_release v \<longrightarrow> v = hd (queue_contents (sp_queue s))))"

lemma spsc_inv_step: "spsc_step s s' \<Longrightarrow> spsc_inv s \<Longrightarrow> spsc_inv s'"
proof (induction rule: spsc_step.induct)
  case (add_start s x)
  have "length (queue_contents (sp_queue s)) < 3"
    using add_start contents_full_iff [of "sp_queue s"] length_contents [of "sp_queue s"] by (simp add: spsc_inv_def)
  then show ?case using add_start by (simp add: spsc_inv_def pending_def)
next
  case (add_entry s x)
  let ?q = "sp_queue s"
  have q: "queue_inv ?q" "length (queue_contents ?q) < 3" using add_entry by (simp_all add: spsc_inv_def)
  have "q_entries (?q\<lparr>q_entries := (q_entries ?q)[q_write_index ?q := x]\<rparr>) ! q_write_index ?q = x"
    using q by (simp add: queue_inv_def)
  then show ?case using add_entry store_entry [OF q, of x] by (simp add: spsc_inv_def pending_def)
next
  case (add_publish s)
  let ?q = "sp_queue s"
  have q: "queue_inv ?q" "length (queue_contents ?q) < 3" using add_publish by (simp_all add: spsc_inv_def)
  have "queue_contents ?q \<noteq> [] \<Longrightarrow> hd (queue_contents ?q @ ys) = hd (queue_contents ?q)" for ys by simp
  then show ?case using add_publish publish_entry [OF q] by (auto simp: spsc_inv_def pending_def)
next
  case (remove_start s)
  then show ?case using contents_empty_iff [of "sp_queue s"] by (simp add: spsc_inv_def pending_def)
next
  case (remove_copy s)
  then show ?case using release_entry [of "sp_queue s"] by (simp add: spsc_inv_def pending_def)
next
  case (remove_release s v)
  let ?q = "sp_queue s"
  have q: "queue_inv ?q" "queue_contents ?q \<noteq> []" "v = hd (queue_contents ?q)"
    using remove_release by (simp_all add: spsc_inv_def)
  then have "v # tl (queue_contents ?q) = queue_contents ?q" by simp
  then show ?case using remove_release release_entry [OF q(1,2)]
    by (auto simp: spsc_inv_def pending_def)
qed simp_all

lemma spsc_inv_reachable: "spsc_step\<^sup>*\<^sup>* (spsc_init z) s \<Longrightarrow> spsc_inv s"
proof (induction rule: rtranclp_induct)
  case base
  show ?case by (simp add: spsc_inv_def spsc_init_def pending_def)
next
  case (step y s)
  then show ?case using spsc_inv_step by blast
qed

text \<open>Each operation of the file is a run of its core's steps with no step of the other core in between.\<close>

lemma add_as_steps:
  assumes "sp_producer s = P_idle" "onewire_command_queue_try_add x (sp_queue s) = (q', True)"
  shows "spsc_step\<^sup>*\<^sup>* s (s\<lparr>sp_queue := q', sp_added := sp_added s @ [x]\<rparr>)"
proof -
  let ?q = "sp_queue s"
  let ?s1 = "s\<lparr>sp_producer := P_store x\<rparr>"
  let ?s2 = "?s1\<lparr>sp_producer := P_publish, sp_added := sp_added ?s1 @ [x],
    sp_queue := (sp_queue ?s1)\<lparr>q_entries := (q_entries (sp_queue ?s1))[q_write_index (sp_queue ?s1) := x]\<rparr>\<rparr>"
  let ?s3 = "?s2\<lparr>sp_producer := P_idle,
    sp_queue := (sp_queue ?s2)\<lparr>q_write_index := onewire_queue_next_index (q_write_index (sp_queue ?s2))\<rparr>\<rparr>"
  have free: "onewire_queue_next_index (q_write_index ?q) \<noteq> q_read_index ?q"
    and q': "q' = ?q\<lparr>q_entries := (q_entries ?q)[q_write_index ?q := x], q_write_index := onewire_queue_next_index (q_write_index ?q)\<rparr>"
    using assms(2) by (auto simp: onewire_command_queue_try_add_def Let_def split: if_splits)
  have "spsc_step s ?s1" using assms(1) free by (rule spsc_step.add_start)
  moreover have "spsc_step ?s1 ?s2" by (rule spsc_step.add_entry) simp
  moreover have "spsc_step ?s2 ?s3" by (rule spsc_step.add_publish) simp
  ultimately have "spsc_step\<^sup>*\<^sup>* s ?s3" by (meson converse_rtranclp_into_rtranclp rtranclp.rtrancl_refl)
  moreover have "?s3 = s\<lparr>sp_queue := q', sp_added := sp_added s @ [x]\<rparr>" using assms(1) by (cases s) (simp add: q')
  ultimately show ?thesis by simp
qed

lemma remove_as_steps:
  assumes "sp_consumer s = C_idle" "onewire_command_queue_try_remove (sp_queue s) = (q', Some x)"
  shows "spsc_step\<^sup>*\<^sup>* s (s\<lparr>sp_queue := q', sp_removed := sp_removed s @ [x]\<rparr>)"
proof -
  let ?q = "sp_queue s"
  let ?s1 = "s\<lparr>sp_consumer := C_copy\<rparr>"
  let ?s2 = "?s1\<lparr>sp_consumer := C_release (q_entries (sp_queue ?s1) ! q_read_index (sp_queue ?s1))\<rparr>"
  let ?s3 = "?s2\<lparr>sp_consumer := C_idle, sp_removed := sp_removed ?s2 @ [x],
    sp_queue := (sp_queue ?s2)\<lparr>q_read_index := onewire_queue_next_index (q_read_index (sp_queue ?s2))\<rparr>\<rparr>"
  have free: "q_read_index ?q \<noteq> q_write_index ?q" and x: "x = q_entries ?q ! q_read_index ?q"
    and q': "q' = ?q\<lparr>q_read_index := onewire_queue_next_index (q_read_index ?q)\<rparr>"
    using assms(2) by (auto simp: onewire_command_queue_try_remove_def Let_def split: if_splits)
  have "spsc_step s ?s1" using assms(1) free by (rule spsc_step.remove_start)
  moreover have "spsc_step ?s1 ?s2" by (rule spsc_step.remove_copy) simp
  moreover have "spsc_step ?s2 ?s3" by (rule spsc_step.remove_release) (simp add: x)
  ultimately have "spsc_step\<^sup>*\<^sup>* s ?s3" by (meson converse_rtranclp_into_rtranclp rtranclp.rtrancl_refl)
  moreover have "?s3 = s\<lparr>sp_queue := q', sp_removed := sp_removed s @ [x]\<rparr>" using assms(1) by (cases s) (simp add: q')
  ultimately show ?thesis by simp
qed

subsection \<open>Properties\<close>



text \<open>
  Run without interference, the operations of the command queue are exactly those steps: a
  successful add or remove is a run of its core's steps.
\<close>

theorem queue_operations_as_steps:
  assumes "sp_producer s = P_idle" and "sp_consumer s = C_idle"
    and "onewire_command_queue_try_add x (sp_queue s) = (q1, True)" and "onewire_command_queue_try_remove q1 = (q2, Some y)"
  shows "spsc_step\<^sup>*\<^sup>* s (s\<lparr>sp_queue := q2, sp_added := sp_added s @ [x], sp_removed := sp_removed s @ [y]\<rparr>)"
proof -
  let ?s1 = "s\<lparr>sp_queue := q1, sp_added := sp_added s @ [x]\<rparr>"
  have "spsc_step\<^sup>*\<^sup>* s ?s1" by (rule add_as_steps [OF assms(1,3)])
  moreover have "spsc_step\<^sup>*\<^sup>* ?s1 (?s1\<lparr>sp_queue := q2, sp_removed := sp_removed ?s1 @ [y]\<rparr>)"
    by (rule remove_as_steps) (simp_all add: assms)
  moreover have "?s1\<lparr>sp_queue := q2, sp_removed := sp_removed ?s1 @ [y]\<rparr> =
      s\<lparr>sp_queue := q2, sp_added := sp_added s @ [x], sp_removed := sp_removed s @ [y]\<rparr>" by (cases s) simp
  ultimately show ?thesis by (metis rtranclp_trans)
qed

theorem queue_operations_as_steps_witness:
  "\<exists>q2. spsc_step\<^sup>*\<^sup>* (spsc_init zero_command)
     ((spsc_init zero_command)\<lparr>sp_queue := q2, sp_added := [\<lparr>co_type = ONEWIRE_READNEXT, co_gpio = 0\<rparr>],
        sp_removed := [\<lparr>co_type = ONEWIRE_READNEXT, co_gpio = 0\<rparr>]\<rparr>)"
proof -
  let ?c = "\<lparr>co_type = ONEWIRE_READNEXT, co_gpio = 0\<rparr>"
  let ?s = "spsc_init zero_command"
  obtain q1 where q1: "onewire_command_queue_try_add ?c (sp_queue ?s) = (q1, True)" "queue_inv q1" "queue_contents q1 = [?c]"
    using command_queue.add_ok [of "empty_queue zero_command" ?c] by (auto simp: spsc_init_def)
  obtain q2 where q2: "onewire_command_queue_try_remove q1 = (q2, Some ?c)"
    using command_queue.remove_ok [OF q1(2,3)] by auto
  show ?thesis
    using queue_operations_as_steps [OF _ _ q1(1) q2] by (intro exI [of _ q2]) (simp add: spsc_init_def)
qed

end
