(* ===== verification/Onewire_Source.thy ===== *)
theory Onewire_Source
  imports Onewire_Queue Measurement_Store
begin

text \<open>
  \<^verbatim>\<open>onewire_source.c\<close>: the polling of the two 1-Wire buses.  A poll starts each enabled bus with a command
  to the worker, reads its devices one by one, and keeps a table of the devices seen.
\<close>

unbundle bit_operations_syntax

subsection \<open>Data\<close>

definition ONEWIRE_BUS_COUNT :: nat where "ONEWIRE_BUS_COUNT = 2"
definition ONEWIRE_DEVICE_TABLE_SIZE :: nat where "ONEWIRE_DEVICE_TABLE_SIZE = 32"

record onewire_device_entry =
  od_in_use :: bool
  od_present :: bool
  od_valid_temperature :: bool
  od_gpio :: u8
  od_rom :: "u8 list"
  od_device_id :: u32
  od_temperature_c :: f32
  od_last_seen_ms :: u32
  od_error_count :: u32

datatype onewire_source_state = ONEWIRE_SOURCE_IDLE | ONEWIRE_SOURCE_WAIT_START | ONEWIRE_SOURCE_WAIT_READNEXT

record onewire_source =
  os_devices :: "onewire_device_entry list"
  os_bus_enabled :: "bool list"
  os_poll_interval_ms :: u32
  os_next_poll_ms :: u32
  os_current_bus :: nat
  os_state :: onewire_source_state

definition onewire_gpios :: "u8 list" where "onewire_gpios = [2, 3]"

definition zero_device :: onewire_device_entry where
  "zero_device = \<lparr>od_in_use = False, od_present = False, od_valid_temperature = False, od_gpio = 0,
     od_rom = replicate ONEWIRE_ROM_SIZE 0, od_device_id = 0, od_temperature_c = 0, od_last_seen_ms = 0, od_error_count = 0\<rparr>"

definition onewire_format_rom :: "u8 list \<Rightarrow> string" where
  "onewire_format_rom rom =
     show_hex2 (rom ! 7) @ show_hex2 (rom ! 6) @ show_hex2 (rom ! 5) @ show_hex2 (rom ! 4) @
     show_hex2 (rom ! 3) @ show_hex2 (rom ! 2) @ show_hex2 (rom ! 1) @ show_hex2 (rom ! 0)"

subsection \<open>The device table\<close>

definition is_device :: "u8 \<Rightarrow> u8 list \<Rightarrow> onewire_device_entry \<Rightarrow> bool" where
  "is_device g rom e = (od_in_use e \<and> od_gpio e = g \<and> od_rom e = rom)"

text \<open>The loop over the table: the row of the device (\<open>Inl\<close>), or the slot to clear for it (\<open>Inr\<close>).\<close>

fun find_or_alloc :: "onewire_temperature_event \<Rightarrow> onewire_device_entry list \<Rightarrow> nat \<Rightarrow> nat option \<Rightarrow> nat \<Rightarrow> onewire_device_entry list \<Rightarrow> nat + nat" where
  "find_or_alloc event table i free_index oldest_index [] =
     Inr (case free_index of Some f \<Rightarrow> f | None \<Rightarrow> oldest_index)"
| "find_or_alloc event table i free_index oldest_index (e # es) =
     (if od_in_use e \<and> od_gpio e = ev_gpio event \<and> od_rom e = ev_rom event then Inl i
      else if \<not> od_in_use e \<and> free_index = None then find_or_alloc event table (Suc i) (Some i) oldest_index es
      else if od_in_use e \<and> od_last_seen_ms e < od_last_seen_ms (table ! oldest_index)
      then find_or_alloc event table (Suc i) free_index i es
      else find_or_alloc event table (Suc i) free_index oldest_index es)"

text \<open>The table with the row of the event's device in it, and the index of the row.\<close>

definition onewire_find_or_alloc_device ::
  "onewire_temperature_event \<Rightarrow> onewire_device_entry list \<Rightarrow> onewire_device_entry list \<times> nat" where
  "onewire_find_or_alloc_device event table =
     (case find_or_alloc event table 0 None 0 table of
        Inl i \<Rightarrow> (table, i)
      | Inr i \<Rightarrow> (table[i := zero_device\<lparr>od_in_use := True, od_gpio := ev_gpio event, od_rom := ev_rom event,
                                      od_device_id := ev_device_id event\<rparr>], i))"

definition onewire_handle_temperature ::
  "onewire_temperature_event \<Rightarrow> onewire_source \<times> measurement_store \<Rightarrow> onewire_source \<times> measurement_store" where
  "onewire_handle_temperature event st =
     (case st of (s, store) \<Rightarrow>
        case onewire_find_or_alloc_device event (os_devices s) of
          (table, i) \<Rightarrow>
            let e1 = (table ! i)\<lparr>od_present := True, od_last_seen_ms := ev_timestamp_ms event,
                                od_valid_temperature := ev_valid event\<rparr>
            in if ev_valid event then
                 (s\<lparr>os_devices := table[i := e1\<lparr>od_temperature_c := ev_temperature_c event\<rparr>]\<rparr>,
                  fst (measurement_store_add (ev_device_id event) MEASUREMENT_FIELD_1WIRE_TEMPERATURE
                         (ev_temperature_c event) (ev_timestamp_ms event) store))
               else (s\<lparr>os_devices := table[i := e1\<lparr>od_error_count := od_error_count e1 + 1\<rparr>]\<rparr>, store))"

subsection \<open>The poll\<close>

text \<open>What the source works on: its state, the two rings, the measurements.\<close>

record source_world =
  sw_source :: onewire_source
  sw_commands :: "onewire_command onewire_queue"
  sw_responses :: "onewire_response onewire_queue"
  sw_store :: measurement_store

definition onewire_finish_cycle :: "u32 \<Rightarrow> source_world \<Rightarrow> source_world" where
  "onewire_finish_cycle now_ms x =
     x\<lparr>sw_source := (sw_source x)\<lparr>os_state := ONEWIRE_SOURCE_IDLE,
         os_next_poll_ms := now_ms + os_poll_interval_ms (sw_source x)\<rparr>\<rparr>"

text \<open>The loop that skips the disabled buses.\<close>

function skip_disabled :: "bool list \<Rightarrow> nat \<Rightarrow> nat" where
  "skip_disabled enabled bus =
     (if bus < ONEWIRE_BUS_COUNT \<and> \<not> enabled ! bus then skip_disabled enabled (Suc bus) else bus)"
  by pat_completeness auto
termination
  by (relation "measure (\<lambda>(enabled, bus). ONEWIRE_BUS_COUNT - bus)") auto

declare skip_disabled.simps [simp del]

definition onewire_start_next_bus :: "u32 \<Rightarrow> source_world \<Rightarrow> source_world" where
  "onewire_start_next_bus now_ms x =
     (let bus = skip_disabled (os_bus_enabled (sw_source x)) (os_current_bus (sw_source x));
          x1 = x\<lparr>sw_source := (sw_source x)\<lparr>os_current_bus := bus\<rparr>\<rparr>
      in if bus \<ge> ONEWIRE_BUS_COUNT then onewire_finish_cycle now_ms x1
         else (case onewire_worker_send_start (onewire_gpios ! bus) (sw_commands x1) of
                 (q, True) \<Rightarrow> x1\<lparr>sw_commands := q, sw_source := (sw_source x1)\<lparr>os_state := ONEWIRE_SOURCE_WAIT_START\<rparr>\<rparr>
               | (q, False) \<Rightarrow> x1\<lparr>sw_commands := q, sw_source := (sw_source x1)\<lparr>os_state := ONEWIRE_SOURCE_IDLE,
                                                                            os_next_poll_ms := now_ms + 100\<rparr>\<rparr>))"

definition onewire_finish_bus :: "u32 \<Rightarrow> source_world \<Rightarrow> source_world" where
  "onewire_finish_bus now_ms x =
     onewire_start_next_bus now_ms (x\<lparr>sw_source := (sw_source x)\<lparr>os_current_bus := Suc (os_current_bus (sw_source x))\<rparr>\<rparr>)"

definition onewire_handle_response :: "onewire_response \<Rightarrow> u32 \<Rightarrow> source_world \<Rightarrow> source_world" where
  "onewire_handle_response response now_ms x =
     (case os_state (sw_source x) of
        ONEWIRE_SOURCE_WAIT_START \<Rightarrow>
          if re_type response = ONEWIRE_START_OK then
            (case onewire_worker_send_readnext (sw_commands x) of
               (q, True) \<Rightarrow> x\<lparr>sw_commands := q, sw_source := (sw_source x)\<lparr>os_state := ONEWIRE_SOURCE_WAIT_READNEXT\<rparr>\<rparr>
             | (q, False) \<Rightarrow> onewire_finish_bus now_ms (x\<lparr>sw_commands := q\<rparr>))
          else onewire_finish_bus now_ms x
      | ONEWIRE_SOURCE_WAIT_READNEXT \<Rightarrow>
          if re_type response = ONEWIRE_TEMPERATURE then
            (case onewire_handle_temperature (re_temperature response) (sw_source x, sw_store x) of
               (s, store) \<Rightarrow>
                 let x1 = x\<lparr>sw_source := s, sw_store := store\<rparr>
                 in (case onewire_worker_send_readnext (sw_commands x1) of
                       (q, True) \<Rightarrow> x1\<lparr>sw_commands := q\<rparr>
                     | (q, False) \<Rightarrow> onewire_finish_bus now_ms (x1\<lparr>sw_commands := q\<rparr>)))
          else onewire_finish_bus now_ms x
      | ONEWIRE_SOURCE_IDLE \<Rightarrow> x)"

definition onewire_source_init :: "bool \<Rightarrow> bool \<Rightarrow> bool list \<Rightarrow> u32 \<Rightarrow> nat \<Rightarrow> measurement_store \<Rightarrow> source_world \<times> bool" where
  "onewire_source_init started flash_ok enabled interval bus store =
     (case onewire_worker_init started flash_ok of
        (commands, responses, ok) \<Rightarrow>
          (\<lparr>sw_source = \<lparr>os_devices = replicate ONEWIRE_DEVICE_TABLE_SIZE zero_device, os_bus_enabled = enabled,
              os_poll_interval_ms = interval, os_next_poll_ms = 0xFFFFFFFF, os_current_bus = bus, os_state = ONEWIRE_SOURCE_IDLE\<rparr>,
            sw_commands = commands, sw_responses = responses, sw_store = store\<rparr>, ok))"

definition onewire_source_apply_config :: "app_config \<Rightarrow> u32 \<Rightarrow> onewire_source \<Rightarrow> onewire_source" where
  "onewire_source_apply_config config now_ms s =
     (let interval_seconds = clamp APP_CONFIG_ONEWIRE_POLL_INTERVAL_MIN_SECONDS APP_CONFIG_ONEWIRE_POLL_INTERVAL_MAX_SECONDS
            (cf_onewire_poll_interval_seconds config);
          enabled = [cf_onewire_gpio2_enabled config, cf_onewire_gpio3_enabled config]
      in s\<lparr>os_bus_enabled := enabled, os_poll_interval_ms := of_nat interval_seconds * 1000,
           os_next_poll_ms := (if os_state s = ONEWIRE_SOURCE_IDLE then now_ms else os_next_poll_ms s),
           os_devices := List.map
             (\<lambda>e. if od_in_use e \<and> (od_gpio e = onewire_gpios ! 0 \<and> \<not> enabled ! 0 \<or> od_gpio e = onewire_gpios ! 1 \<and> \<not> enabled ! 1)
                  then e\<lparr>od_present := False\<rparr> else e) (os_devices s)\<rparr>)"

text \<open>The loop that handles the responses; \<open>fuel\<close> bounds it, and running out of it is \<open>None\<close>.\<close>

fun handle_responses :: "nat \<Rightarrow> u32 \<Rightarrow> source_world \<Rightarrow> source_world option" where
  "handle_responses 0 now_ms x = None"
| "handle_responses (Suc fuel) now_ms x =
     (case onewire_worker_try_get_response (sw_responses x) of
        (q, None) \<Rightarrow> Some (x\<lparr>sw_responses := q\<rparr>)
      | (q, Some response) \<Rightarrow>
          handle_responses fuel now_ms (onewire_handle_response response now_ms (x\<lparr>sw_responses := q\<rparr>)))"

definition onewire_source_periodic :: "u32 \<Rightarrow> source_world \<Rightarrow> source_world option" where
  "onewire_source_periodic now_ms x0 =
     (case handle_responses 4 now_ms x0 of
        None \<Rightarrow> None
      | Some x \<Rightarrow>
          if os_state (sw_source x) \<noteq> ONEWIRE_SOURCE_IDLE \<or> \<not> time_due now_ms (os_next_poll_ms (sw_source x)) then Some x
          else Some (onewire_start_next_bus now_ms
                 (x\<lparr>sw_source := (sw_source x)\<lparr>
                     os_devices := List.map (\<lambda>e. if od_in_use e then e\<lparr>od_present := False\<rparr> else e) (os_devices (sw_source x)),
                     os_current_bus := 0\<rparr>\<rparr>)))"

subsection \<open>JSON\<close>

definition onewire_json_row :: "runtime_config \<Rightarrow> u32 \<Rightarrow> bool \<Rightarrow> onewire_device_entry \<Rightarrow> string" where
  "onewire_json_row rc now_ms first e =
     (if first then '''' else '','') @ ''{\"id\":\"'' @ show_pad 6 (unat (od_device_id e) mod 1000000) @
     ''\",\"device_id\":'' @ show_nat (unat (od_device_id e)) @ '',\"name\":\"'' @
     app_text_json_escape (APP_CONFIG_DEVICE_NAME_LEN * 2) (Some (app_runtime_config_get_sensor_name rc (od_device_id e))) @
     ''\",\"gpio\":'' @ show_nat (unat (od_gpio e)) @ '',\"rom\":\"'' @ onewire_format_rom (od_rom e) @
     ''\",\"temperature\":'' @ show_fixed 3 (od_temperature_c e) @ '',\"temperature_valid\":'' @
     (if od_valid_temperature e then ''true'' else ''false'') @ '',\"present\":'' @
     (if od_present e then ''true'' else ''false'') @ '',\"age_ms\":'' @
     show_nat (unat (age_ms now_ms (od_last_seen_ms e))) @ '',\"error_count\":'' @ show_nat (unat (od_error_count e)) @ ''}''"

fun onewire_json_loop :: "runtime_config \<Rightarrow> u32 \<Rightarrow> nat \<Rightarrow> bool \<Rightarrow> string \<Rightarrow> onewire_device_entry list \<Rightarrow> string" where
  "onewire_json_loop rc now_ms insert_len first out [] = out"
| "onewire_json_loop rc now_ms insert_len first out (e # es) =
     (if \<not> od_in_use e then onewire_json_loop rc now_ms insert_len first out es
      else case append_fits insert_len out (onewire_json_row rc now_ms first e) of
             None \<Rightarrow> out
           | Some out' \<Rightarrow> onewire_json_loop rc now_ms insert_len False out' es)"

definition onewire_source_write_devices_json :: "runtime_config \<Rightarrow> u32 \<Rightarrow> nat \<Rightarrow> onewire_source \<Rightarrow> string" where
  "onewire_source_write_devices_json rc now_ms insert_len s = onewire_json_loop rc now_ms insert_len True '''' (os_devices s)"

definition onewire_source_device_table_used :: "onewire_source \<Rightarrow> nat" where
  "onewire_source_device_table_used s = count_if od_in_use (os_devices s)"

definition onewire_source_device_table_capacity :: nat where
  "onewire_source_device_table_capacity = ONEWIRE_DEVICE_TABLE_SIZE"

end
