(* ===== verification/Onewire_Search.thy ===== *)
theory Onewire_Search
  imports Onewire_Bus
begin

text \<open>
  The ROM search of \<^verbatim>\<open>onewire_bus.c\<close> visits the tree of the ROMs on the wire in the order of their bits.
  Given what the data sheets promise of the devices (\<open>search_laws\<close>), it finds each of them once.
\<close>

unbundle bit_operations_syntax

subsection \<open>The bits of a ROM\<close>

definition rbit :: "u8 list \<Rightarrow> nat \<Rightarrow> bool" where
  "rbit rom n = bit (rom ! (n div 8)) (n mod 8)"

definition agree :: "u8 list \<Rightarrow> u8 list \<Rightarrow> nat \<Rightarrow> bool" where
  "agree x y n = (\<forall>m<n. rbit x m = rbit y m)"

lemma agree_refl [simp]: "agree x x n"
  by (simp add: agree_def)

lemma agree_sym: "agree x y n \<Longrightarrow> agree y x n"
  by (simp add: agree_def)

lemma agree_trans: "agree x y n \<Longrightarrow> agree y z n \<Longrightarrow> agree x z n"
  by (simp add: agree_def)

lemma agree_le: "agree x y n \<Longrightarrow> m \<le> n \<Longrightarrow> agree x y m"
  by (simp add: agree_def)

lemma agree_Suc: "agree x y (Suc n) \<longleftrightarrow> agree x y n \<and> rbit x n = rbit y n"
  by (auto simp: agree_def less_Suc_eq)

lemma rom_eqI:
  assumes "length x = 8" "length y = 8" "agree x y 64"
  shows "x = y"
proof (rule nth_equalityI)
  fix i
  assume "i < length x"
  then have i: "i < 8" using assms(1) by simp
  show "x ! i = y ! i"
  proof (rule bit_word_eqI)
    fix k
    assume "k < LENGTH(8)"
    then have k: "k < 8" by simp
    have "8 * i + k < 64" using i k by simp
    then have "rbit x (8 * i + k) = rbit y (8 * i + k)" using assms(3) by (simp add: agree_def)
    then show "bit (x ! i) k = bit (y ! i) k" using k by (simp add: rbit_def)
  qed
qed (use assms in simp)

definition bit_mask :: "nat \<Rightarrow> u8" where
  "bit_mask n = push_bit (n mod 8) 1"

lemma mask_test: "(b :: u8) AND push_bit k 1 \<noteq> 0 \<longleftrightarrow> bit b k \<and> k < 8"
proof -
  have "bit (b AND push_bit k 1) m \<longleftrightarrow> bit b k \<and> k < 8 \<and> m = k" for m
    by (auto simp: bit_simps bit_1_iff dest: bit_imp_le_length)
  then show ?thesis by (metis bit_0_eq bit_word_eqI bot_apply bot_bool_def)
qed

lemma rbit_mask: "rom ! (n div 8) AND bit_mask n \<noteq> 0 \<longleftrightarrow> rbit rom n"
  unfolding bit_mask_def mask_test rbit_def by simp

definition set_rbit :: "u8 list \<Rightarrow> nat \<Rightarrow> bool \<Rightarrow> u8 list" where
  "set_rbit rom n d = rom[n div 8 := if d then rom ! (n div 8) OR bit_mask n else rom ! (n div 8) AND NOT (bit_mask n)]"

lemma length_set_rbit [simp]: "length (set_rbit rom n d) = length rom"
  by (simp add: set_rbit_def)

lemma rbit_set_rbit:
  assumes "length rom = 8" "n < 64" "m < 64"
  shows "rbit (set_rbit rom n d) m = (if m = n then d else rbit rom m)"
proof -
  have l: "n div 8 < 8" "m div 8 < 8" using assms by (simp_all add: less_mult_imp_div_less)
  have mn: "m = n \<longleftrightarrow> m div 8 = n div 8 \<and> m mod 8 = n mod 8" by (metis div_mod_decomp)
  have b: "bit (bit_mask n) k \<longleftrightarrow> k = n mod 8" for k
    by (auto simp: bit_mask_def bit_simps bit_1_iff)
  show ?thesis
  proof (cases "m div 8 = n div 8")
    case True
    have "m mod 8 < 8" by simp
    then show ?thesis using True l assms(1) mn by (cases d) (auto simp: rbit_def set_rbit_def bit_simps b)
  next
    case False
    then show ?thesis using l assms(1) by (auto simp: rbit_def set_rbit_def)
  qed
qed

lemma mask_step:
  "push_bit 1 (bit_mask n) = (if Suc n mod 8 = 0 then 0 else bit_mask (Suc n))"
  "bit_mask n \<noteq> 0" "Suc n mod 8 = 0 \<Longrightarrow> bit_mask (Suc n) = 1"
proof -
  have m: "n mod 8 < 8" by simp
  show "push_bit 1 (bit_mask n) = (if Suc n mod 8 = 0 then 0 else bit_mask (Suc n))"
  proof (cases "n mod 8 = 7")
    case True
    then show ?thesis by (simp add: bit_mask_def mod_Suc push_bit_eq_mult)
  next
    case False
    then have "Suc n mod 8 = Suc (n mod 8)" by (simp add: mod_Suc)
    then show ?thesis by (simp add: bit_mask_def)
  qed
  have "bit (bit_mask n) (n mod 8)" using m by (simp add: bit_mask_def bit_simps)
  then show "bit_mask n \<noteq> 0" by (metis bit_0_eq bot_apply bot_bool_def)
  show "Suc n mod 8 = 0 \<Longrightarrow> bit_mask (Suc n) = 1" by (simp add: bit_mask_def)
qed

lemma byte_step: "(if push_bit 1 (bit_mask n) = 0 then Suc (n div 8) else n div 8) = Suc n div 8"
  and next_mask: "(if push_bit 1 (bit_mask n) = 0 then 1 else push_bit 1 (bit_mask n)) = bit_mask (Suc n)"
proof -
  have z: "push_bit 1 (bit_mask n) = 0 \<longleftrightarrow> Suc n mod 8 = 0" using mask_step(1) [of n] mask_step(2) [of "Suc n"] by presburger
  show "(if push_bit 1 (bit_mask n) = 0 then Suc (n div 8) else n div 8) = Suc n div 8"
    unfolding z by (simp add: div_Suc)
  show "(if push_bit 1 (bit_mask n) = 0 then 1 else push_bit 1 (bit_mask n)) = bit_mask (Suc n)"
    using mask_step(1) [of n] mask_step(3) [of n] unfolding z by presburger
qed

subsection \<open>Devices that answer a search\<close>

text \<open>
  What the data sheets say of the devices on the wire: after a reset and the search command all devices
  take part, both reads of a bit give the conjunction of what the remaining ones send, and a written bit
  keeps those that match.  \<open>P w n S\<close>: after \<open>n\<close> bits the devices \<open>S\<close> still take part.
\<close>

definition search_laws :: "'w gpio \<Rightarrow> u8 \<Rightarrow> u8 list set \<Rightarrow> ('w \<Rightarrow> nat \<Rightarrow> u8 list set \<Rightarrow> bool) \<Rightarrow> bool" where
  "search_laws hw g R P =
     ((\<forall>w. snd (onewire_reset hw g w) = (R \<noteq> {}) \<and>
        P (onewire_write_byte hw g DS18B20_CMD_SEARCH_ROM (fst (onewire_reset hw g w))) 0 R) \<and>
      (\<forall>w n S. P w n S \<and> n < 64 \<longrightarrow>
        (case onewire_read_bit hw g w of (w1, b1) \<Rightarrow>
         case onewire_read_bit hw g w1 of (w2, b2) \<Rightarrow>
           b1 = (\<forall>r\<in>S. rbit r n) \<and> b2 = (\<forall>r\<in>S. \<not> rbit r n) \<and>
           (\<forall>d. P (onewire_write_bit hw g d w2) (Suc n) {r \<in> S. rbit r n = d}))))"

definition takes_part :: "u8 list set \<Rightarrow> u8 list \<Rightarrow> nat \<Rightarrow> u8 list set" where
  "takes_part R rom n = {x \<in> R. agree x rom n}"

text \<open>A zero chosen where a device had a one.\<close>

definition zero_at :: "u8 list set \<Rightarrow> u8 list \<Rightarrow> nat \<Rightarrow> bool" where
  "zero_at R rom n = (\<not> rbit rom n \<and> (\<exists>x\<in>R. agree x rom n \<and> rbit x n))"

definition one_at :: "u8 list set \<Rightarrow> u8 list \<Rightarrow> nat \<Rightarrow> bool" where
  "one_at R rom n = (rbit rom n \<and> (\<exists>x\<in>R. agree x rom n \<and> \<not> rbit x n))"

definition last_zero_from :: "u8 list set \<Rightarrow> u8 list \<Rightarrow> nat \<Rightarrow> nat \<Rightarrow> nat \<Rightarrow> bool" where
  "last_zero_from R rom n prev lz =
     ((lz = prev \<and> (\<forall>m. n \<le> m \<and> m < 64 \<longrightarrow> \<not> zero_at R rom m)) \<or>
      (\<exists>m. lz = Suc m \<and> n \<le> m \<and> m < 64 \<and> zero_at R rom m \<and> (\<forall>k. m < k \<and> k < 64 \<longrightarrow> \<not> zero_at R rom k)))"

text \<open>The direction the search takes at a conflict, given the ROM of the prev pass.\<close>

definition follows :: "u8 list set \<Rightarrow> nat \<Rightarrow> u8 list \<Rightarrow> nat \<Rightarrow> u8 list \<Rightarrow> bool" where
  "follows R ld old n rom =
     (\<forall>m. n \<le> m \<and> m < 64 \<and> (zero_at R rom m \<or> one_at R rom m) \<longrightarrow>
        rbit rom m = (if Suc m < ld then rbit old m else Suc m = ld))"

lemma follows_bit:
  "follows R ld old n rom \<Longrightarrow> n \<le> m \<Longrightarrow> m < 64 \<Longrightarrow> zero_at R rom m \<or> one_at R rom m \<Longrightarrow>
   rbit rom m = (if Suc m < ld then rbit old m else Suc m = ld)"
  by (simp add: follows_def)

lemma follows_end: "follows R ld old 64 rom" and last_zero_from_end: "last_zero_from R rom 64 lz lz"
  by (auto simp: follows_def last_zero_from_def)

lemma takes_part_Suc:
  "length rom = 8 \<Longrightarrow> n < 64 \<Longrightarrow>
   {r \<in> takes_part R rom n. rbit r n = d} = takes_part R (set_rbit rom n d) (Suc n)"
  by (auto simp: takes_part_def agree_Suc rbit_set_rbit) (simp_all add: agree_def rbit_set_rbit)

lemma search_bits_spec:
  assumes laws: "search_laws hw g R P" and R: "\<forall>r\<in>R. length r = 8"
  shows "P w n (takes_part R rom n) \<Longrightarrow> takes_part R rom n \<noteq> {} \<Longrightarrow> length rom = 8 \<Longrightarrow> n < 64 \<Longrightarrow> 64 - n \<le> fuel \<Longrightarrow>
    \<exists>w' rom' lz. search_bits hw g ld fuel (n div 8) (bit_mask n) (Suc n) prev rom w = Some (w', rom', Some lz) \<and>
      rom' \<in> R \<and> agree rom' rom n \<and> follows R ld rom n rom' \<and> last_zero_from R rom' n prev lz"
proof (induction fuel arbitrary: n rom w prev)
  case 0
  then show ?case by simp
next
  case (Suc fuel)
  let ?S = "takes_part R rom n"
  obtain w1 b1 w2 b2 where reads: "onewire_read_bit hw g w = (w1, b1)" "onewire_read_bit hw g w1 = (w2, b2)"
    by (metis surj_pair)
  have b: "b1 = (\<forall>r\<in>?S. rbit r n)" "b2 = (\<forall>r\<in>?S. \<not> rbit r n)"
    and P': "P (onewire_write_bit hw g d w2) (Suc n) {r \<in> ?S. rbit r n = d}" for d
    using laws Suc.prems(1,4) reads unfolding search_laws_def by (auto simp: split_def dest!: spec [of _ w])
  obtain r0 where r0: "r0 \<in> ?S" using Suc.prems(2) by blast
  then have not_both: "\<not> (b1 \<and> b2)" using b by auto
  define d where "d = (if b1 \<noteq> b2 then b1 else if Suc n < ld then rbit rom n else Suc n = ld)"
  define rom1 where "rom1 = set_rbit rom n d"
  have rom1: "length rom1 = 8" using Suc.prems(3) by (simp add: rom1_def)
  have P1: "P (onewire_write_bit hw g d w2) (Suc n) (takes_part R rom1 (Suc n))"
    using P' [of d] takes_part_Suc [OF Suc.prems(3,4)] by (simp only: rom1_def)
  have ex: "\<exists>r\<in>?S. rbit r n = d"
  proof (cases "b1 = b2")
    case True
    then show ?thesis using not_both b by (cases d) auto
  next
    case False
    then have "d = b1" by (simp add: d_def)
    then show ?thesis using False b r0 by (cases b1) auto
  qed
  then have ne: "takes_part R rom1 (Suc n) \<noteq> {}"
    using takes_part_Suc [OF Suc.prems(3,4), of R d] by (auto simp: rom1_def)
  have agree1: "agree x rom1 n = agree x rom n" for x
    using Suc.prems(3,4) by (simp add: agree_def rom1_def rbit_set_rbit)
  have later: "rbit rom1 m = rbit rom m" if "Suc n \<le> m" "m < 64" for m
    using that Suc.prems(3,4) by (simp add: rom1_def rbit_set_rbit)
  have bit_n: "rbit rom1 n = d" using Suc.prems(3,4) by (simp add: rom1_def rbit_set_rbit)
  define lz1 where "lz1 = (if b1 = b2 \<and> \<not> d then Suc n else prev)"
  have step: "search_bits hw g ld (Suc fuel) (n div 8) (bit_mask n) (Suc n) prev rom w =
      (if Suc n div 8 < 8
       then search_bits hw g ld fuel (Suc n div 8) (bit_mask (Suc n)) (Suc (Suc n)) lz1 rom1 (onewire_write_bit hw g d w2)
       else Some (onewire_write_bit hw g d w2, rom1, Some lz1))"
    using not_both
    by (simp only: search_bits.simps reads prod.case Let_def rbit_mask d_def [symmetric] lz1_def [symmetric] byte_step
        next_mask set_rbit_def [symmetric] rom1_def [symmetric] if_False ONEWIRE_ROM_SIZE_def)
  have concl: "rom' \<in> R \<and> agree rom' rom n \<and> follows R ld rom n rom' \<and> last_zero_from R rom' n prev lz"
    if t: "rom' \<in> R" "agree rom' rom1 (Suc n)" "follows R ld rom1 (Suc n) rom'" "last_zero_from R rom' (Suc n) lz1 lz" for rom' lz
  proof (intro conjI)
    show "rom' \<in> R" by (rule t(1))
    have a: "agree rom' rom n" "rbit rom' n = d" using t(2) agree1 bit_n by (simp_all add: agree_Suc)
    then show "agree rom' rom n" by simp
    have S: "?S = {x \<in> R. agree x rom' n}"
      using a(1) by (auto simp: takes_part_def intro: agree_trans agree_sym)
    have conf: "zero_at R rom' n \<or> one_at R rom' n \<longleftrightarrow> b1 = b2"
    proof -
      have "\<exists>x\<in>?S. rbit x n = d" by (rule ex)
      then show ?thesis using not_both a(2) b unfolding zero_at_def one_at_def S by (cases d) auto
    qed
    have zero: "zero_at R rom' n \<longleftrightarrow> b1 = b2 \<and> \<not> d"
      using conf a(2) by (auto simp: zero_at_def one_at_def)
    show "follows R ld rom n rom'"
      unfolding follows_def
    proof (intro allI impI)
      fix m
      assume m: "n \<le> m \<and> m < 64 \<and> (zero_at R rom' m \<or> one_at R rom' m)"
      show "rbit rom' m = (if Suc m < ld then rbit rom m else Suc m = ld)"
      proof (cases "m = n")
        case True
        then show ?thesis using m conf a(2) by (simp add: d_def)
      next
        case False
        then have "Suc n \<le> m" using m by simp
        then show ?thesis using t(3) m later [of m] unfolding follows_def by auto
      qed
    qed
    show "last_zero_from R rom' n prev lz"
    proof (cases "zero_at R rom' n")
      case True
      then have "lz1 = Suc n" using zero by (simp add: lz1_def)
      then show ?thesis using t(4) True Suc.prems(4) unfolding last_zero_from_def
        by (metis Suc_leD Suc_leI le_eq_less_or_eq)
    next
      case False
      then have "\<not> (b1 = b2 \<and> \<not> d)" using zero by blast
      then have "lz1 = prev" by (simp only: lz1_def if_False)
      then show ?thesis using t(4) False unfolding last_zero_from_def
        by (metis Suc_leD Suc_leI le_eq_less_or_eq)
    qed
  qed
  show ?case
  proof (cases "Suc n < 64")
    case True
    then have "Suc n div 8 < 8" by (simp add: less_mult_imp_div_less)
    have f: "64 - Suc n \<le> fuel" using Suc.prems(5) True by simp
    obtain w' rom' lz where
      "search_bits hw g ld fuel (Suc n div 8) (bit_mask (Suc n)) (Suc (Suc n)) lz1 rom1 (onewire_write_bit hw g d w2) =
        Some (w', rom', Some lz)"
      "rom' \<in> R" "agree rom' rom1 (Suc n)" "follows R ld rom1 (Suc n) rom'" "last_zero_from R rom' (Suc n) lz1 lz"
      using Suc.IH [OF P1 ne rom1 True f] by blast
    with \<open>Suc n div 8 < 8\<close> show ?thesis unfolding step using concl by (simp only: if_True) blast
  next
    case False
    then have n: "n = 63" using Suc.prems(4) by simp
    obtain r where r: "r \<in> R" "agree r rom1 64" using ne by (auto simp: takes_part_def n)
    then have "rom1 = r" using rom1 R by (metis agree_sym rom_eqI)
    then have "rom1 \<in> R" using r by simp
    then have "rom1 \<in> R \<and> agree rom1 rom n \<and> follows R ld rom n rom1 \<and> last_zero_from R rom1 n prev lz1"
      by (intro concl) (simp_all add: follows_end last_zero_from_end n)
    moreover have "search_bits hw g ld (Suc fuel) (n div 8) (bit_mask n) (Suc n) prev rom w =
        Some (onewire_write_bit hw g d w2, rom1, Some lz1)"
      unfolding step by (simp add: n)
    ultimately show ?thesis by blast
  qed
qed

subsection \<open>The order in which the search visits the devices\<close>

definition after :: "u8 list \<Rightarrow> u8 list \<Rightarrow> bool" where
  "after r x = (\<exists>n<64. agree r x n \<and> \<not> rbit r n \<and> rbit x n)"

definition rest_of :: "u8 list set \<Rightarrow> u8 list \<Rightarrow> u8 list set" where
  "rest_of R r = {x \<in> R. after r x}"

lemma after_irrefl: "\<not> after r r"
  by (simp add: after_def)

lemma after_trans: "after x y \<Longrightarrow> after y z \<Longrightarrow> after x z"
proof -
  assume "after x y" "after y z"
  then obtain n m where n: "n < 64" "agree x y n" "\<not> rbit x n" "rbit y n"
    and m: "m < 64" "agree y z m" "\<not> rbit y m" "rbit z m" by (auto simp: after_def)
  consider "n < m" | "m < n" using n(4) m(3) by (cases "n = m") (auto simp: nat_neq_iff)
  then show "after x z"
  proof cases
    case 1
    then have "agree x z n" using agree_trans [OF n(2) agree_le [OF m(2)]] by simp
    moreover have "rbit z n" using n(4) m(2) 1 by (simp add: agree_def)
    moreover note n
    ultimately show ?thesis by (auto simp: after_def)
  next
    case 2
    then have "agree x z m" using agree_trans [OF agree_le [OF n(2)] m(2)] by simp
    moreover have "\<not> rbit x m" using m(3) n(2) 2 by (simp add: agree_def)
    moreover note m
    ultimately show ?thesis by (auto simp: after_def)
  qed
qed

lemma first_difference:
  "x \<noteq> y \<Longrightarrow> length x = 8 \<Longrightarrow> length y = 8 \<Longrightarrow> \<exists>n<64. agree x y n \<and> rbit x n \<noteq> rbit y n"
proof -
  assume "x \<noteq> y" "length x = 8" "length y = 8"
  then have "\<not> agree x y 64" using rom_eqI by blast
  then have ex: "\<exists>m. m < 64 \<and> rbit x m \<noteq> rbit y m" by (auto simp: agree_def)
  define n where "n = (LEAST m. m < 64 \<and> rbit x m \<noteq> rbit y m)"
  have "n < 64 \<and> rbit x n \<noteq> rbit y n" unfolding n_def by (rule LeastI_ex [OF ex])
  moreover have "agree x y n"
    unfolding agree_def
  proof (intro allI impI)
    fix m
    assume "m < n"
    then have "\<not> (m < 64 \<and> rbit x m \<noteq> rbit y m)" unfolding n_def by (rule not_less_Least)
    then show "rbit x m = rbit y m" using \<open>m < n\<close> \<open>n < 64 \<and> _\<close> by simp
  qed
  ultimately show ?thesis by blast
qed

text \<open>Behind the last chosen discrepancy the search takes the smallest ROM.\<close>

lemma follows_least:
  assumes "follows R ld old n r" "n \<le> ld" "\<forall>x\<in>R. length x = 8" "r \<in> R" "x \<in> R" "x \<noteq> r" "agree x r ld"
  shows "after r x"
proof -
  obtain m where m: "m < 64" "agree x r m" "rbit x m \<noteq> rbit r m"
    using first_difference [OF assms(6)] assms(3-5) by blast
  have "ld \<le> m" using m(3) assms(7) by (meson agree_def not_less)
  moreover have "zero_at R r m \<or> one_at R r m" using m assms(5) by (auto simp: zero_at_def one_at_def)
  ultimately have "\<not> rbit r m" using assms(1,2) m(1) by (auto simp: follows_def)
  then show ?thesis using m by (auto simp: after_def intro: agree_sym)
qed

lemma next_rom:
  assumes R: "\<forall>x\<in>R. length x = 8" and r: "r \<in> R" and ld: "last_zero_from R r 0 0 (Suc k)"
    and r': "r' \<in> R" "follows R (Suc k) r 0 r'"
  shows "rest_of R r' = rest_of R r - {r'}" "r' \<in> rest_of R r"
proof -
  have k: "k < 64" "zero_at R r k" "\<And>m. k < m \<Longrightarrow> m < 64 \<Longrightarrow> \<not> zero_at R r m"
    using ld by (auto simp: last_zero_from_def)
  have agree: "agree r' r m" if "m \<le> k" for m
    using that
  proof (induction m)
    case (Suc m)
    then have a: "agree r' r m" by simp
    have "rbit r' m = rbit r m"
    proof (rule ccontr)
      assume "rbit r' m \<noteq> rbit r m"
      then have "zero_at R r' m \<or> one_at R r' m"
        using a r by (auto simp: zero_at_def one_at_def intro: agree_sym)
      then have "rbit r' m = rbit r m" using r'(2) Suc.prems k(1) by (auto simp: follows_def)
      with \<open>rbit r' m \<noteq> rbit r m\<close> show False by simp
    qed
    then show ?case using a by (simp add: agree_Suc)
  qed (simp add: agree_def)
  have at_k: "\<not> rbit r k" "rbit r' k"
  proof -
    show z: "\<not> rbit r k" using k(2) by (simp add: zero_at_def)
    obtain x where x: "x \<in> R" "agree x r k" "rbit x k" using k(2) by (auto simp: zero_at_def)
    have a: "agree r r' k" using agree [of k] by (rule agree_sym) simp
    have "agree x r' k" by (rule agree_trans [OF x(2) a])
    with a have "zero_at R r' k \<or> one_at R r' k" using x(1,3) z r unfolding zero_at_def one_at_def by blast
    then have "rbit r' k = (if Suc k < Suc k then rbit r k else Suc k = Suc k)"
      using follows_bit [OF r'(2) le0 k(1)] by blast
    then show "rbit r' k" by simp
  qed
  have "agree r r' k" using agree [of k] by (rule agree_sym) simp
  then have "after r r'" using at_k k(1) unfolding after_def by blast
  then show in_rest: "r' \<in> rest_of R r" using r'(1) by (simp add: rest_of_def)
  have "after r' x" if x: "x \<in> R" "after r x" "x \<noteq> r'" for x
  proof -
    obtain m where m: "m < 64" "agree r x m" "\<not> rbit r m" "rbit x m" using x(2) by (auto simp: after_def)
    then have "zero_at R r m" using x(1) by (auto simp: zero_at_def intro: agree_sym)
    then have "m \<le> k" using k(3) m(1) by (meson not_less)
    then have rx: "agree r' x m" using agree [of m] m(2) agree_trans by blast
    show ?thesis
    proof (cases "m = k")
      case False
      then have "\<not> rbit r' m" using \<open>m \<le> k\<close> agree [of "Suc m"] m(3) by (simp add: agree_Suc)
      then show ?thesis using rx m by (auto simp: after_def)
    next
      case True
      then have "agree x r' (Suc k)" using rx m(4) at_k(2) by (simp add: agree_Suc agree_sym)
      then show ?thesis using r' R x by (intro follows_least [of R "Suc k" r 0]) simp_all
    qed
  qed
  then show "rest_of R r' = rest_of R r - {r'}"
    using in_rest after_trans after_irrefl unfolding rest_of_def by blast
qed

lemma no_more: "last_zero_from R r 0 0 0 \<Longrightarrow> rest_of R r = {}"
  by (auto simp: last_zero_from_def rest_of_def after_def zero_at_def intro: agree_sym)

subsection \<open>The whole search\<close>

definition ds18b20_rom :: "u8 list \<Rightarrow> bool" where
  "ds18b20_rom r = (length r = 8 \<and> onewire_crc8 r = 0 \<and> r ! 0 = 0x28)"

lemma search_pass:
  assumes "search_laws hw g R P" "\<forall>r\<in>R. length r = 8" "R \<noteq> {}" "length rom = 8"
  shows "\<exists>w' rom' lz. onewire_search_next hw g \<lparr>se_rom = rom, se_last_discrepancy = ld, se_last_device = False\<rparr> w =
      Some (w', \<lparr>se_rom = rom', se_last_discrepancy = lz, se_last_device = (lz = 0)\<rparr>, ds18b20_rom rom') \<and>
    rom' \<in> R \<and> follows R ld rom 0 rom' \<and> last_zero_from R rom' 0 0 lz"
proof -
  obtain w1 b where e: "onewire_reset hw g w = (w1, b)" by (cases "onewire_reset hw g w")
  have "snd (onewire_reset hw g w) = (R \<noteq> {}) \<and>
      P (onewire_write_byte hw g DS18B20_CMD_SEARCH_ROM (fst (onewire_reset hw g w))) 0 R"
    using assms(1) unfolding search_laws_def by blast
  then have w1: "onewire_reset hw g w = (w1, True)" and P: "P (onewire_write_byte hw g DS18B20_CMD_SEARCH_ROM w1) 0 R"
    using e assms(3) by simp_all
  note R = assms(2)
  have part: "takes_part R rom 0 = R" by (auto simp: takes_part_def agree_def)
  have z: "(0 :: nat) < 64" "64 - 0 \<le> (64 :: nat)" by simp_all
  obtain w' rom' lz where s: "search_bits hw g ld 64 (0 div 8) (bit_mask 0) (Suc 0) 0 rom
      (onewire_write_byte hw g DS18B20_CMD_SEARCH_ROM w1) = Some (w', rom', Some lz)"
    and rom': "rom' \<in> R" "follows R ld rom 0 rom'" "last_zero_from R rom' 0 0 lz"
    using search_bits_spec [OF assms(1) R, of "onewire_write_byte hw g DS18B20_CMD_SEARCH_ROM w1" 0 rom 64 ld 0]
      P assms(3,4) z unfolding part by blast
  have m: "bit_mask 0 = 1" by (simp add: bit_mask_def)
  have "search_bits hw g ld 64 0 1 1 0 rom (onewire_write_byte hw g DS18B20_CMD_SEARCH_ROM w1) = Some (w', rom', Some lz)"
    using s unfolding m by (simp only: div_0 One_nat_def)
  note bits = this
  have found: "(onewire_crc8 rom' = 0 \<and> rom' ! 0 = DS18B20_FAMILY_CODE) = ds18b20_rom rom'"
    using assms(2) rom'(1) by (simp add: ds18b20_rom_def DS18B20_FAMILY_CODE_def)
  have "onewire_search_next hw g \<lparr>se_rom = rom, se_last_discrepancy = ld, se_last_device = False\<rparr> w =
      Some (w', \<lparr>se_rom = rom', se_last_discrepancy = lz, se_last_device = (lz = 0)\<rparr>, ds18b20_rom rom')"
    unfolding onewire_search_next_def search_state.simps w1 prod.case
    by (simp only: if_False bool.case option.case prod.case bits found)
  with rom' show ?thesis by blast
qed

lemma search_loop_rest:
  assumes laws: "search_laws hw g R P" and ok: "\<forall>r\<in>R. ds18b20_rom r" and fin: "finite R"
  shows "r \<in> R \<Longrightarrow> last_zero_from R r 0 0 lz \<Longrightarrow>
    \<exists>w' rs. search_loop hw g n \<lparr>se_rom = r, se_last_discrepancy = lz, se_last_device = (lz = 0)\<rparr> w = Some (w', rs) \<and>
      distinct rs \<and> set rs \<subseteq> rest_of R r \<and> length rs = min n (card (rest_of R r))"
proof (induction n arbitrary: r lz w)
  case 0
  then show ?case by simp
next
  case (Suc n)
  show ?case
  proof (cases lz)
    case 0
    then have "rest_of R r = {}" using Suc.prems(2) no_more by simp
    then show ?thesis using 0 by (simp add: onewire_search_next_def)
  next
    case (Suc k)
    have R: "\<forall>r\<in>R. length r = 8" using ok by (simp add: ds18b20_rom_def)
    have "R \<noteq> {}" "length r = 8" using Suc.prems(1) R by auto
    from search_pass [OF laws R this, of lz w]
    obtain w1 r' lz' where nx: "onewire_search_next hw g \<lparr>se_rom = r, se_last_discrepancy = lz, se_last_device = False\<rparr> w =
        Some (w1, \<lparr>se_rom = r', se_last_discrepancy = lz', se_last_device = (lz' = 0)\<rparr>, ds18b20_rom r')"
      and r': "r' \<in> R" "follows R lz r 0 r'" "last_zero_from R r' 0 0 lz'"
      by blast
    have found: "ds18b20_rom r' = True" using ok r'(1) by simp
    note nx = nx [unfolded found]
    have rest: "rest_of R r' = rest_of R r - {r'}" "r' \<in> rest_of R r"
      using next_rom [OF R Suc.prems(1), of k r'] Suc.prems(2) r'(1,2) unfolding Suc by simp_all
    obtain w2 rs where rs: "search_loop hw g n \<lparr>se_rom = r', se_last_discrepancy = lz', se_last_device = (lz' = 0)\<rparr> w1 = Some (w2, rs)"
      "distinct rs" "set rs \<subseteq> rest_of R r'" "length rs = min n (card (rest_of R r'))"
      using Suc.IH [OF r'(1,3)] by blast
    have finr: "finite (rest_of R r)" using fin by (simp add: rest_of_def)
    have "card (rest_of R r) = Suc (card (rest_of R r'))" unfolding rest(1) by (rule card.remove [OF finr rest(2)])
    then have "distinct (r' # rs) \<and> set (r' # rs) \<subseteq> rest_of R r \<and> length (r' # rs) = min (Suc n) (card (rest_of R r))"
      using rs(2-4) rest by auto
    moreover have "search_loop hw g (Suc n) \<lparr>se_rom = r, se_last_discrepancy = lz, se_last_device = (lz = 0)\<rparr> w = Some (w2, r' # rs)"
      using nx rs(1) Suc by simp
    ultimately show ?thesis by blast
  qed
qed

lemma bus_search_spec:
  assumes laws: "search_laws hw g R P" and ok: "\<forall>r\<in>R. ds18b20_rom r" and fin: "finite R"
  shows "\<exists>w' rs. onewire_bus_search hw g n w = Some (w', rs) \<and> distinct rs \<and> set rs \<subseteq> R \<and> length rs = min n (card R)"
proof (cases n)
  case 0
  then show ?thesis by (simp add: onewire_bus_search_def)
next
  case (Suc k)
  show ?thesis
  proof (cases "R = {}")
    case True
    then have "snd (onewire_reset hw g w) = False" using laws by (simp add: search_laws_def)
    then show ?thesis using True Suc
      by (cases "onewire_reset hw g w") (simp add: onewire_bus_search_def onewire_search_next_def)
  next
    case False
    have R: "\<forall>r\<in>R. length r = 8" using ok by (simp add: ds18b20_rom_def)
    let ?z = "replicate 8 (0 :: u8)"
    obtain w1 r lz where nx: "onewire_search_next hw g \<lparr>se_rom = ?z, se_last_discrepancy = 0, se_last_device = False\<rparr> w =
        Some (w1, \<lparr>se_rom = r, se_last_discrepancy = lz, se_last_device = (lz = 0)\<rparr>, True)"
      and r: "r \<in> R" "follows R 0 ?z 0 r" "last_zero_from R r 0 0 lz"
      using search_pass [OF laws R False, of ?z 0 w] ok by auto
    have "after r x" if "x \<in> R" "x \<noteq> r" for x
      using that r R by (intro follows_least [of R 0 ?z 0]) (simp_all add: agree_def)
    then have rest: "rest_of R r = R - {r}" using after_irrefl unfolding rest_of_def by blast
    obtain w2 rs where rs: "search_loop hw g k \<lparr>se_rom = r, se_last_discrepancy = lz, se_last_device = (lz = 0)\<rparr> w1 = Some (w2, rs)"
      "distinct rs" "set rs \<subseteq> R - {r}" "length rs = min k (card (R - {r}))"
      using search_loop_rest [OF laws ok fin r(1,3)] unfolding rest by blast
    have "card R = Suc (card (R - {r}))" by (rule card.remove [OF fin r(1)])
    then have "distinct (r # rs) \<and> set (r # rs) \<subseteq> R \<and> length (r # rs) = min n (card R)"
      using rs(2-4) r(1) Suc by auto
    moreover have "onewire_bus_search hw g n w = Some (w2, r # rs)"
      using nx rs(1) Suc by (simp add: onewire_bus_search_def ONEWIRE_ROM_SIZE_def)
    ultimately show ?thesis by blast
  qed
qed

subsection \<open>A simulated wire\<close>

text \<open>
  Devices that behave as the data sheet says, driven by the pin alone: a low pulse of 480 microseconds is
  a reset, a shorter one a slot, which writes a one (or lets the devices answer) when it lasts less than
  15 microseconds.  It shows that the laws can hold.
\<close>

datatype phase = Off | Command nat u8 | Search nat "u8 list list" nat

record wire =
  wi_low :: bool
  wi_time :: nat
  wi_level :: bool
  wi_phase :: phase

fun slot :: "u8 list list \<Rightarrow> bool \<Rightarrow> phase \<Rightarrow> phase \<times> bool" where
  "slot R b Off = (Off, b)"
| "slot R b (Command k v) =
     (let v' = (if b then v OR push_bit k 1 else v)
      in (if k = 7 then (if v' = 0xF0 then Search 0 R 0 else Off) else Command (Suc k) v', b))"
| "slot R b (Search n S k) =
     (if k = 0 then (Search n S 1, list_all (\<lambda>r. rbit r n) S)
      else if k = 1 then (Search n S 2, list_all (\<lambda>r. \<not> rbit r n) S)
      else (Search (Suc n) (filter (\<lambda>r. rbit r n = b) S) 0, b))"

definition pin_dir :: "u8 list list \<Rightarrow> bool \<Rightarrow> wire \<Rightarrow> wire" where
  "pin_dir R out w =
     (if out then w\<lparr>wi_low := True, wi_time := 0\<rparr>
      else if \<not> wi_low w then w
      else if 480 \<le> wi_time w then w\<lparr>wi_low := False, wi_phase := Command 0 0, wi_level := (R = [])\<rparr>
      else (case slot R (wi_time w < 15) (wi_phase w) of
              (ph, level) \<Rightarrow> w\<lparr>wi_low := False, wi_phase := ph, wi_level := level\<rparr>))"

definition sim_wire :: "u8 list list \<Rightarrow> wire gpio" where
  "sim_wire R = \<lparr>gpio_init = \<lambda>g w. w, gpio_put = \<lambda>g v w. w, gpio_set_dir = \<lambda>g out w. pin_dir R out w,
     gpio_pull_up = \<lambda>g w. w, gpio_get = \<lambda>g w. wi_level w,
     sleep_us = \<lambda>n w. if wi_low w then w\<lparr>wi_time := wi_time w + n\<rparr> else w\<rparr>"

definition in_search :: "wire \<Rightarrow> nat \<Rightarrow> u8 list set \<Rightarrow> bool" where
  "in_search w n S = (\<exists>xs. wi_phase w = Search n xs 0 \<and> set xs = S)"

lemmas pin_defs = sim_wire_def pin_dir_def onewire_drive_low_def onewire_release_def GPIO_OUT_def GPIO_IN_def Let_def

lemma sim_write_bit:
  "wi_phase (onewire_write_bit (sim_wire R) g b w) = fst (slot R b (wi_phase w))"
  by (simp add: onewire_write_bit_def pin_defs split: prod.split)

lemma sim_read_bit:
  "wi_phase (fst (onewire_read_bit (sim_wire R) g w)) = fst (slot R True (wi_phase w))"
  "snd (onewire_read_bit (sim_wire R) g w) = snd (slot R True (wi_phase w))"
  by (simp_all add: onewire_read_bit_def pin_defs split: prod.split)

lemma sim_reset:
  "wi_phase (fst (onewire_reset (sim_wire R) g w)) = Command 0 0" "snd (onewire_reset (sim_wire R) g w) = (R \<noteq> [])"
  by (simp_all add: onewire_reset_def pin_defs)

lemma sim_search_command:
  "wi_phase w = Command 0 0 \<Longrightarrow> wi_phase (onewire_write_byte (sim_wire R) g 0xF0 w) = Search 0 R 0"
  unfolding onewire_write_byte_def
  by (subst write_bits.simps, simp, subst write_bits.simps, simp, subst write_bits.simps, simp, subst write_bits.simps, simp,
      subst write_bits.simps, simp, subst write_bits.simps, simp, subst write_bits.simps, simp, subst write_bits.simps, simp,
      subst write_bits.simps) (simp add: sim_write_bit Let_def)

lemma sim_laws: "search_laws (sim_wire R) g (set R) in_search"
  unfolding search_laws_def
proof (intro conjI allI impI)
  fix w
  show "snd (onewire_reset (sim_wire R) g w) = (set R \<noteq> {})" by (simp add: sim_reset)
  show "in_search (onewire_write_byte (sim_wire R) g DS18B20_CMD_SEARCH_ROM (fst (onewire_reset (sim_wire R) g w))) 0 (set R)"
    unfolding in_search_def DS18B20_CMD_SEARCH_ROM_def by (intro exI [of _ R]) (simp add: sim_search_command sim_reset)
next
  fix w n S
  assume "in_search w n S \<and> n < 64"
  then obtain xs where xs: "wi_phase w = Search n xs 0" "set xs = S" by (auto simp: in_search_def)
  obtain w1 b1 where r1: "onewire_read_bit (sim_wire R) g w = (w1, b1)" by fastforce
  obtain w2 b2 where r2: "onewire_read_bit (sim_wire R) g w1 = (w2, b2)" by fastforce
  have 1: "wi_phase w1 = Search n xs 1" "b1 = list_all (\<lambda>r. rbit r n) xs"
    using sim_read_bit [of R g w] r1 xs(1) by simp_all
  have 2: "wi_phase w2 = Search n xs 2" "b2 = list_all (\<lambda>r. \<not> rbit r n) xs"
    using sim_read_bit [of R g w1] r2 1 by simp_all
  have "in_search (onewire_write_bit (sim_wire R) g d w2) (Suc n) {r \<in> S. rbit r n = d}" for d
    unfolding in_search_def using 2 xs(2)
    by (intro exI [of _ "filter (\<lambda>r. rbit r n = d) xs"]) (auto simp: sim_write_bit)
  then show "case onewire_read_bit (sim_wire R) g w of (w1, b1) \<Rightarrow> case onewire_read_bit (sim_wire R) g w1 of (w2, b2) \<Rightarrow>
      b1 = (\<forall>r\<in>S. rbit r n) \<and> b2 = (\<forall>r\<in>S. \<not> rbit r n) \<and>
      (\<forall>d. in_search (onewire_write_bit (sim_wire R) g d w2) (Suc n) {r \<in> S. rbit r n = d})"
    using 1 2 xs(2) by (auto simp: r1 r2 list_all_iff)
qed

subsection \<open>Properties\<close>


definition rom_a :: "u8 list" where "rom_a = [0x28, 0x11, 0x22, 0x33, 0x44, 0x55, 0x66, 0x56]"
definition rom_b :: "u8 list" where "rom_b = [0x28, 0x91, 0x22, 0x33, 0x44, 0x55, 0x66, 0xbc]"
definition rom_other :: "u8 list" where "rom_other = [0x10, 0x91, 0x22, 0x33, 0x44, 0x55, 0x66, 0x59]"

lemma sample_roms: "ds18b20_rom rom_a" "ds18b20_rom rom_b" "\<not> ds18b20_rom rom_other"
  unfolding ds18b20_rom_def rom_a_def rom_b_def rom_other_def by (code_simp, code_simp, code_simp)

definition idle_wire :: wire where
  "idle_wire = \<lparr>wi_low = False, wi_time = 0, wi_level = True, wi_phase = Off\<rparr>"


text \<open>
  A device of another family (or with a bad checksum) ends the search: if it is the first one the
  search visits, no device is reported, whatever other sensors are on the wire.
\<close>

theorem onewire_foreign_device_hides_sensors:
  assumes "search_laws hw g R P" and "\<forall>r\<in>R. length r = 8" and "r \<in> R" and "\<forall>x\<in>R - {r}. after r x" and "\<not> ds18b20_rom r"
  shows "\<exists>w'. onewire_bus_search hw g capacity w = Some (w', [])"
proof (cases capacity)
  case 0
  then show ?thesis by (simp add: onewire_bus_search_def)
next
  case (Suc k)
  let ?z = "replicate 8 (0 :: u8)"
  have "R \<noteq> {}" using assms(3) by blast
  then obtain w1 r1 lz where nx: "onewire_search_next hw g \<lparr>se_rom = ?z, se_last_discrepancy = 0, se_last_device = False\<rparr> w =
      Some (w1, \<lparr>se_rom = r1, se_last_discrepancy = lz, se_last_device = (lz = 0)\<rparr>, ds18b20_rom r1)"
    and r1: "r1 \<in> R" "follows R 0 ?z 0 r1"
    using search_pass [OF assms(1,2), of ?z 0 w] by auto
  have "r1 = r"
  proof (rule ccontr)
    assume "r1 \<noteq> r"
    then have "after r1 r" using r1 assms(2,3) by (intro follows_least [of R 0 ?z 0]) (simp_all add: agree_def)
    moreover have "after r r1" using assms(4) r1(1) \<open>r1 \<noteq> r\<close> by blast
    ultimately show False using after_trans after_irrefl by blast
  qed
  then show ?thesis using nx assms(5) Suc by (simp add: onewire_bus_search_def ONEWIRE_ROM_SIZE_def)
qed

theorem onewire_foreign_device_hides_sensors_witness:
  "\<exists>w'. onewire_bus_search (sim_wire [rom_a, rom_other]) 2 16
      idle_wire = Some (w', [])"
proof -
  have "rbit rom_other 0 = rbit rom_a 0" "rbit rom_other 1 = rbit rom_a 1" "rbit rom_other 2 = rbit rom_a 2"
    by (simp_all add: rbit_def rom_other_def rom_a_def)
  then have "agree rom_other rom_a (Suc (Suc (Suc 0)))" by (simp add: agree_Suc numeral_2_eq_2) (simp add: agree_def)
  then have "agree rom_other rom_a 3" by (simp add: numeral_3_eq_3)
  moreover have "\<not> rbit rom_other 3" "rbit rom_a 3" by (simp_all add: rbit_def rom_other_def rom_a_def)
  ultimately have "after rom_other rom_a" unfolding after_def by (intro exI [of _ 3]) simp
  moreover have "length rom_a = 8" "length rom_other = 8" by (simp_all add: rom_a_def rom_other_def)
  ultimately show ?thesis
    using onewire_foreign_device_hides_sensors [OF sim_laws, of "[rom_a, rom_other]" rom_other] sample_roms(3) by auto
qed

end
