(* ===== verification/Onewire_System.thy ===== *)
theory Onewire_System
  imports Onewire_Source Onewire_Search
begin

text \<open>
  The 1-Wire source on core 0, the worker on core 1 and the rings between them as one system: at any time
  at most one message is under way, its kind fits the state of the source, and every poll comes to its end.
\<close>

subsection \<open>The worker always answers\<close>

lemma search_bits_total:
  "n < 64 \<Longrightarrow> 64 - n \<le> fuel \<Longrightarrow> search_bits hw g ld fuel (n div 8) (bit_mask n) idn lz rom w \<noteq> None"
proof (induction fuel arbitrary: n idn lz rom w)
  case 0
  then show ?case by simp
next
  case (Suc fuel)
  obtain w1 b1 where r1: "onewire_read_bit hw g w = (w1, b1)" by fastforce
  obtain w2 b2 where r2: "onewire_read_bit hw g w1 = (w2, b2)" by fastforce
  have IH: "search_bits hw g ld fuel (Suc n div 8) (bit_mask (Suc n)) idn' lz' rom' w' \<noteq> None"
    if "Suc n div 8 < 8" for idn' lz' rom' w'
  proof -
    have "Suc n < 64" using that by simp
    then show ?thesis using Suc.prems by (intro Suc.IH) simp_all
  qed
  have final: "(if c then Some z else if Suc n div 8 < 8 then
      search_bits hw g ld fuel (Suc n div 8) (bit_mask (Suc n)) idn' lz' rom' w' else Some y) \<noteq> None" for c y z idn' lz' rom' w'
    using IH by (cases c; cases "Suc n div 8 < 8") simp_all
  show ?case
    by (simp only: search_bits.simps r1 r2 prod.case Let_def byte_step next_mask ONEWIRE_ROM_SIZE_def final not_False_eq_True)
qed

lemma search_next_total: "onewire_search_next hw g s w \<noteq> None"
proof -
  have m: "bit_mask 0 = 1" by (simp add: bit_mask_def)
  obtain w1 b where r: "onewire_reset hw g w = (w1, b)" by fastforce
  let ?w = "onewire_write_byte hw g DS18B20_CMD_SEARCH_ROM w1"
  have "search_bits hw g (se_last_discrepancy s) 64 (0 div 8) (bit_mask 0) 1 0 (se_rom s) ?w \<noteq> None"
    by (rule search_bits_total) simp_all
  then have "search_bits hw g (se_last_discrepancy s) 64 0 1 1 0 (se_rom s) ?w \<noteq> None" unfolding m by simp
  then obtain w2 rom lz where sb: "search_bits hw g (se_last_discrepancy s) 64 0 1 1 0 (se_rom s) ?w = Some (w2, rom, lz)"
    by (metis option.exhaust prod_cases3)
  show ?thesis
    unfolding onewire_search_next_def r prod.case sb by (cases "se_last_device s"; cases b; cases lz) (simp_all only: if_True if_False bool.case option.case prod.case option.distinct not_False_eq_True)
qed

lemma search_loop_total: "\<exists>w' roms. search_loop hw g n s w = Some (w', roms) \<and> length roms \<le> n"
proof (induction n arbitrary: s w)
  case 0
  then show ?case by simp
next
  case (Suc n)
  obtain w1 s1 b where nx: "onewire_search_next hw g s w = Some (w1, s1, b)"
    using search_next_total [of hw g s w] by (metis option.exhaust prod_cases3)
  obtain w2 roms where "search_loop hw g n s1 w1 = Some (w2, roms)" "length roms \<le> n" using Suc.IH by blast
  then show ?case using nx by (cases b) auto
qed

definition answers :: "onewire_command_type \<Rightarrow> onewire_response_type set" where
  "answers t = (case t of ONEWIRE_START \<Rightarrow> {ONEWIRE_START_OK, ONEWIRE_START_ERROR}
     | ONEWIRE_READNEXT \<Rightarrow> {ONEWIRE_TEMPERATURE, ONEWIRE_READNEXT_NONE})"

lemma worker_start:
  assumes "co_type c = ONEWIRE_START" "co_gpio c = 2 \<or> co_gpio c = 3"
  shows "\<exists>k' r. worker_answer hw now c k = Some (k', r) \<and> re_type r \<in> answers ONEWIRE_START \<and>
    wk_device_index k' = 0 \<and> wk_device_count k' \<le> 16"
proof -
  obtain w2 roms where s: "onewire_bus_search hw (co_gpio c) 16 (onewire_bus_init hw (co_gpio c) (wk_wire k)) = Some (w2, roms)"
    "length roms \<le> 16"
    unfolding onewire_bus_search_def using search_loop_total [of hw "co_gpio c" 16] by blast
  obtain w3 b where "onewire_bus_start_conversion hw (co_gpio c) w2 = (w3, b)" by fastforce
  then show ?thesis using assms s
    by (cases b) (auto simp: worker_answer_def onewire_worker_handle_start_def ONEWIRE_GPIO2_def ONEWIRE_GPIO3_def
      ONEWIRE_WORKER_DEVICE_LIMIT_def Let_def answers_def)
qed

lemma worker_readnext:
  assumes "co_type c = ONEWIRE_READNEXT"
  shows "\<exists>k' r. worker_answer hw now c k = Some (k', r) \<and> wk_device_count k' = wk_device_count k \<and>
    (if wk_device_index k < wk_device_count k
     then re_type r = ONEWIRE_TEMPERATURE \<and> wk_device_index k' = Suc (wk_device_index k)
     else re_type r = ONEWIRE_READNEXT_NONE \<and> k' = k)"
  using assms by (auto simp: worker_answer_def onewire_worker_handle_readnext_def Let_def split: prod.split)

subsection \<open>The system\<close>

record 'w onewire_system =
  sy_world :: source_world
  sy_worker :: "'w onewire_worker"
  sy_reply :: "onewire_response option"

text \<open>
  The steps: a call of the periodic function, a new configuration, and the worker taking a command and
  adding its answer; between the two the answer is \<open>sy_reply\<close>.
\<close>

inductive onewire_step :: "'w gpio \<Rightarrow> 'w onewire_system \<Rightarrow> 'w onewire_system \<Rightarrow> bool" for hw where
  periodic: "onewire_source_periodic now (sy_world y) = Some x \<Longrightarrow> onewire_step hw y (y\<lparr>sy_world := x\<rparr>)"
| config: "onewire_step hw y (y\<lparr>sy_world := (sy_world y)\<lparr>sw_source := onewire_source_apply_config c now (sw_source (sy_world y))\<rparr>\<rparr>)"
| take: "sy_reply y = None \<Longrightarrow> onewire_command_queue_try_remove (sw_commands (sy_world y)) = (q, Some c) \<Longrightarrow>
    worker_answer hw now c (sy_worker y) = Some (k, r) \<Longrightarrow>
    onewire_step hw y (y\<lparr>sy_world := (sy_world y)\<lparr>sw_commands := q\<rparr>, sy_worker := k, sy_reply := Some r\<rparr>)"
| reply: "sy_reply y = Some r \<Longrightarrow> onewire_response_queue_try_add r (sw_responses (sy_world y)) = (q, True) \<Longrightarrow>
    onewire_step hw y (y\<lparr>sy_world := (sy_world y)\<lparr>sw_responses := q\<rparr>, sy_reply := None\<rparr>)"

datatype message = Cmd onewire_command | Rsp onewire_response

definition under_way :: "source_world \<Rightarrow> onewire_response option \<Rightarrow> message list" where
  "under_way x reply = List.map Cmd (queue_contents (sw_commands x)) @ (case reply of None \<Rightarrow> [] | Some r \<Rightarrow> [Rsp r]) @
     List.map Rsp (queue_contents (sw_responses x))"

fun fits :: "onewire_command_type \<Rightarrow> nat \<Rightarrow> message \<Rightarrow> bool" where
  "fits t bus (Cmd c) = (co_type c = t \<and> (t = ONEWIRE_START \<longrightarrow> co_gpio c = onewire_gpios ! bus))"
| "fits t bus (Rsp r) = (re_type r \<in> answers t)"

definition protocol_ok :: "source_world \<Rightarrow> onewire_response option \<Rightarrow> bool" where
  "protocol_ok x reply =
     (queue_inv (sw_commands x) \<and> queue_inv (sw_responses x) \<and>
      (case os_state (sw_source x) of
         ONEWIRE_SOURCE_IDLE \<Rightarrow> under_way x reply = []
       | ONEWIRE_SOURCE_WAIT_START \<Rightarrow> os_current_bus (sw_source x) < 2 \<and>
           (\<exists>m. under_way x reply = [m] \<and> fits ONEWIRE_START (os_current_bus (sw_source x)) m)
       | ONEWIRE_SOURCE_WAIT_READNEXT \<Rightarrow> os_current_bus (sw_source x) < 2 \<and>
           (\<exists>m. under_way x reply = [m] \<and> fits ONEWIRE_READNEXT (os_current_bus (sw_source x)) m)))"

text \<open>The source holds the only token: nothing is in the rings and the worker waits.\<close>

definition quiet :: "source_world \<Rightarrow> bool" where
  "quiet x = (queue_inv (sw_commands x) \<and> queue_inv (sw_responses x) \<and> queue_contents (sw_commands x) = [] \<and>
     queue_contents (sw_responses x) = [])"

lemma quiet_update [simp]: "quiet (x\<lparr>sw_source := s\<rparr>) = quiet x" "quiet (x\<lparr>sw_store := m\<rparr>) = quiet x"
  by (simp_all add: quiet_def)

lemma quiet_under_way: "quiet x \<Longrightarrow> under_way x None = []"
  by (simp add: quiet_def under_way_def)

lemma send_quiet:
  assumes "quiet x"
  shows "\<exists>q. onewire_worker_send t g (sw_commands x) = (q, True) \<and> queue_inv q \<and>
    queue_contents q = [\<lparr>co_type = t, co_gpio = g\<rparr>]"
  using command_queue.add_ok [of "sw_commands x" "\<lparr>co_type = t, co_gpio = g\<rparr>"] assms
  by (simp add: quiet_def onewire_worker_send_def)

lemma skip_disabled_ge: "bus \<le> skip_disabled enabled bus"
proof (induction enabled bus rule: skip_disabled.induct)
  case (1 enabled bus)
  then show ?case by (subst skip_disabled.simps) auto
qed

lemma start_next_bus_ok:
  assumes "quiet x"
  shows "protocol_ok (onewire_start_next_bus now x) None"
proof -
  let ?bus = "skip_disabled (os_bus_enabled (sw_source x)) (os_current_bus (sw_source x))"
  show ?thesis
  proof (cases "2 \<le> ?bus")
    case True
    then have "protocol_ok (onewire_start_next_bus now x) None =
        protocol_ok (onewire_finish_cycle now (x\<lparr>sw_source := (sw_source x)\<lparr>os_current_bus := ?bus\<rparr>\<rparr>)) None"
      by (simp add: onewire_start_next_bus_def Let_def ONEWIRE_BUS_COUNT_def)
    then show ?thesis using assms by (simp add: onewire_finish_cycle_def protocol_ok_def quiet_def under_way_def)
  next
    case False
    obtain q where q: "onewire_worker_send ONEWIRE_START (onewire_gpios ! ?bus) (sw_commands x) = (q, True)" "queue_inv q"
      "queue_contents q = [\<lparr>co_type = ONEWIRE_START, co_gpio = onewire_gpios ! ?bus\<rparr>]"
      using send_quiet [OF assms] by blast
    then have "onewire_start_next_bus now x = x\<lparr>sw_commands := q,
        sw_source := (sw_source x)\<lparr>os_current_bus := ?bus, os_state := ONEWIRE_SOURCE_WAIT_START\<rparr>\<rparr>"
      using False by (cases x) (simp add: onewire_start_next_bus_def Let_def ONEWIRE_BUS_COUNT_def onewire_worker_send_start_def)
    then show ?thesis using False q assms by (simp add: protocol_ok_def quiet_def under_way_def)
  qed
qed

lemma finish_bus_ok: "quiet x \<Longrightarrow> protocol_ok (onewire_finish_bus now x) None"
  by (simp add: onewire_finish_bus_def start_next_bus_ok)


lemma handle_temperature_source [simp]:
  "onewire_handle_temperature ev (s, st) = (s', st') \<Longrightarrow>
     os_state s' = os_state s \<and> os_current_bus s' = os_current_bus s \<and> os_bus_enabled s' = os_bus_enabled s"
  by (auto simp: onewire_handle_temperature_def Let_def split: prod.splits if_splits)

text \<open>A response that fits takes the source to its next state, with the next command under way.\<close>

lemma send_readnext_ok:
  assumes "quiet x" "os_current_bus (sw_source x) < 2" "os_state (sw_source x) = ONEWIRE_SOURCE_WAIT_READNEXT"
    "onewire_worker_send_readnext (sw_commands x) = (q, ok)"
  shows "ok \<and> protocol_ok (x\<lparr>sw_commands := q\<rparr>) None"
  using send_quiet [OF assms(1), of ONEWIRE_READNEXT 0] assms
  by (auto simp: onewire_worker_send_readnext_def protocol_ok_def quiet_def under_way_def)

lemma handle_response_ok:
  assumes q: "quiet x" and bus: "os_current_bus (sw_source x) < 2"
    and st: "os_state (sw_source x) = ONEWIRE_SOURCE_WAIT_START \<or> os_state (sw_source x) = ONEWIRE_SOURCE_WAIT_READNEXT"
  shows "protocol_ok (onewire_handle_response r now x) None"
proof (cases "os_state (sw_source x) = ONEWIRE_SOURCE_WAIT_START")
  case True
  obtain c ok where c: "onewire_worker_send_readnext (sw_commands x) = (c, ok)" by fastforce
  let ?x = "x\<lparr>sw_source := (sw_source x)\<lparr>os_state := ONEWIRE_SOURCE_WAIT_READNEXT\<rparr>\<rparr>"
  have s: "ok \<and> protocol_ok (?x\<lparr>sw_commands := c\<rparr>) None"
    by (rule send_readnext_ok) (use q bus c in simp_all)
  have "x\<lparr>sw_commands := c, sw_source := (sw_source x)\<lparr>os_state := ONEWIRE_SOURCE_WAIT_READNEXT\<rparr>\<rparr> = ?x\<lparr>sw_commands := c\<rparr>"
    by (cases x) simp
  then have "protocol_ok (x\<lparr>sw_commands := c, sw_source := (sw_source x)\<lparr>os_state := ONEWIRE_SOURCE_WAIT_READNEXT\<rparr>\<rparr>) None"
    using s by metis
  then show ?thesis using True s c q by (simp add: onewire_handle_response_def finish_bus_ok)
next
  case False
  then have w: "os_state (sw_source x) = ONEWIRE_SOURCE_WAIT_READNEXT" using st by simp
  obtain s m where t: "onewire_handle_temperature (re_temperature r) (sw_source x, sw_store x) = (s, m)" by fastforce
  let ?x = "x\<lparr>sw_source := s, sw_store := m\<rparr>"
  obtain c ok where c: "onewire_worker_send_readnext (sw_commands ?x) = (c, ok)" by fastforce
  have "ok \<and> protocol_ok (?x\<lparr>sw_commands := c\<rparr>) None"
    by (rule send_readnext_ok) (use q bus c w handle_temperature_source [OF t] in simp_all)
  then show ?thesis using w t c q by (auto simp: onewire_handle_response_def Let_def finish_bus_ok)
qed

text \<open>What the loop over the responses does: nothing when there is none, one round otherwise.\<close>

lemma protocol_responses:
  assumes "protocol_ok x reply"
  shows "queue_contents (sw_responses x) = [] \<or>
    (\<exists>r. queue_contents (sw_responses x) = [r] \<and> queue_contents (sw_commands x) = [] \<and> reply = None \<and>
      os_current_bus (sw_source x) < 2 \<and> os_state (sw_source x) \<noteq> ONEWIRE_SOURCE_IDLE)"
  using assms by (auto simp: protocol_ok_def under_way_def append_eq_Cons_conv split: onewire_source_state.splits option.splits)

lemma handle_responses_empty:
  assumes "queue_inv (sw_responses x)" "queue_contents (sw_responses x) = []"
  shows "\<exists>q. handle_responses (Suc fuel) now x = Some (x\<lparr>sw_responses := q\<rparr>) \<and> queue_inv q \<and> queue_contents q = []"
  using response_queue.remove_empty [OF assms] by (auto split: prod.split)

lemma start_next_bus_responses [simp]: "sw_responses (onewire_start_next_bus now x) = sw_responses x"
  by (simp add: onewire_start_next_bus_def onewire_finish_cycle_def Let_def split: prod.split bool.split)

lemma finish_bus_responses [simp]: "sw_responses (onewire_finish_bus now x) = sw_responses x"
  by (simp add: onewire_finish_bus_def)

lemma handle_response_responses [simp]: "sw_responses (onewire_handle_response r now x) = sw_responses x"
  by (simp add: onewire_handle_response_def Let_def split: prod.split bool.split onewire_source_state.split)

lemma protocol_swap:
  "protocol_ok x reply \<Longrightarrow> queue_inv q \<Longrightarrow> queue_contents q = queue_contents (sw_responses x) \<Longrightarrow>
    protocol_ok (x\<lparr>sw_responses := q\<rparr>) reply"
  by (cases "os_state (sw_source x)") (simp_all add: protocol_ok_def under_way_def)

lemma periodic_ok:
  assumes ok: "protocol_ok x reply"
  shows "\<exists>x'. onewire_source_periodic now x = Some x' \<and> protocol_ok x' reply"
proof -
  have start: "\<exists>x'. onewire_source_periodic now x = Some x' \<and> protocol_ok x' reply"
    if h: "handle_responses 4 now x = Some y" and y: "protocol_ok y reply" for y
  proof (cases "os_state (sw_source y) \<noteq> ONEWIRE_SOURCE_IDLE \<or> \<not> time_due now (os_next_poll_ms (sw_source y))")
    case True
    then show ?thesis using h y by (simp only: onewire_source_periodic_def option.case if_True) blast
  next
    case False
    then have e: "reply = None" "quiet y"
      using y by (auto simp: protocol_ok_def under_way_def quiet_def split: option.splits)
    show ?thesis using h False e
      by (simp only: onewire_source_periodic_def option.case if_False) (simp add: start_next_bus_ok)
  qed
  have inv: "queue_inv (sw_responses x)" "queue_inv (sw_commands x)" using ok by (simp_all add: protocol_ok_def)
  have four: "(4 :: nat) = Suc 3" "(3 :: nat) = Suc 2" by simp_all
  show ?thesis
  proof (cases "queue_contents (sw_responses x) = []")
    case True
    obtain q where "handle_responses (Suc 3) now x = Some (x\<lparr>sw_responses := q\<rparr>)" "queue_inv q" "queue_contents q = []"
      using handle_responses_empty [OF inv(1) True] by blast
    then show ?thesis using True unfolding four(1) [symmetric] by (intro start [OF _ protocol_swap [OF ok]]) simp_all
  next
    case False
    then obtain r where r: "queue_contents (sw_responses x) = [r]" "queue_contents (sw_commands x) = []" "reply = None"
      "os_current_bus (sw_source x) < 2" "os_state (sw_source x) \<noteq> ONEWIRE_SOURCE_IDLE"
      using protocol_responses [OF ok] by blast
    obtain q where q: "onewire_worker_try_get_response (sw_responses x) = (q, Some r)" "queue_inv q" "queue_contents q = []"
      using response_queue.remove_ok [OF inv(1) r(1)] by blast
    let ?y = "onewire_handle_response r now (x\<lparr>sw_responses := q\<rparr>)"
    have st: "os_state (sw_source x) = ONEWIRE_SOURCE_WAIT_START \<or> os_state (sw_source x) = ONEWIRE_SOURCE_WAIT_READNEXT"
      using r(5) by (cases "os_state (sw_source x)") simp_all
    have y: "protocol_ok ?y None"
      by (rule handle_response_ok) (use q r inv st in \<open>simp_all add: quiet_def\<close>)
    have qy: "queue_contents (sw_responses ?y) = []" "queue_inv (sw_responses ?y)"
      using q(2,3) by simp_all
    obtain q' where q': "handle_responses (Suc 2) now ?y = Some (?y\<lparr>sw_responses := q'\<rparr>)" "queue_inv q'" "queue_contents q' = []"
      using handle_responses_empty [OF qy(2,1)] by blast
    have "handle_responses (Suc 3) now x = handle_responses 3 now ?y" by (simp only: handle_responses.simps q(1) prod.case option.case)
    then have h: "handle_responses 4 now x = Some (?y\<lparr>sw_responses := q'\<rparr>)" using q'(1) by (simp only: four)
    show ?thesis
      by (rule start [OF h], unfold r(3), rule protocol_swap [OF y q'(2)]) (simp only: q'(3) qy(1))
  qed
qed

text \<open>The worker's half: it takes the command that is under way and its answer takes the command's place.\<close>

lemma token_cases:
  assumes "under_way x reply = [m]"
  obtains c where "m = Cmd c" "queue_contents (sw_commands x) = [c]" "reply = None" "queue_contents (sw_responses x) = []"
  | r where "m = Rsp r" "queue_contents (sw_commands x) = []" "reply = Some r" "queue_contents (sw_responses x) = []"
  | r where "m = Rsp r" "queue_contents (sw_commands x) = []" "reply = None" "queue_contents (sw_responses x) = [r]"
  using assms by (auto simp: under_way_def append_eq_Cons_conv split: option.splits)

lemma gpio_of_bus: "bus < 2 \<Longrightarrow> onewire_gpios ! bus = 2 \<or> onewire_gpios ! bus = 3"
  by (auto simp: onewire_gpios_def less_2_cases_iff)

definition worker_ok :: "'w onewire_worker \<Rightarrow> bool" where
  "worker_ok k = (wk_device_count k \<le> 16)"

lemma worker_answers:
  assumes "fits t bus (Cmd c)" "bus < 2" "worker_ok k"
  shows "\<exists>k' r. worker_answer hw now c k = Some (k', r) \<and> fits t bus (Rsp r) \<and> worker_ok k'"
proof (cases t)
  case ONEWIRE_START
  then show ?thesis using worker_start [of c hw now k] gpio_of_bus [OF assms(2)] assms(1) by (fastforce simp: worker_ok_def)
next
  case ONEWIRE_READNEXT
  then have "co_type c = ONEWIRE_READNEXT" using assms(1) by simp
  from worker_readnext [OF this, of hw now k] show ?thesis
    using ONEWIRE_READNEXT assms(3) by (auto simp: worker_ok_def answers_def split: if_splits)
qed

lemma take_ok:
  assumes ok: "protocol_ok x None" and k: "worker_ok k"
    and rm: "onewire_command_queue_try_remove (sw_commands x) = (q, Some c)"
  shows "\<exists>k' r. worker_answer hw now c k = Some (k', r) \<and> worker_ok k' \<and> protocol_ok (x\<lparr>sw_commands := q\<rparr>) (Some r)"
proof -
  have inv: "queue_inv (sw_commands x)" using ok by (simp add: protocol_ok_def)
  have q: "queue_inv q" "queue_contents (sw_commands x) = c # queue_contents q"
    using command_queue.remove [OF inv rm] by (auto split: if_splits intro: hd_Cons_tl [symmetric])
  define t where "t = (if os_state (sw_source x) = ONEWIRE_SOURCE_WAIT_START then ONEWIRE_START else ONEWIRE_READNEXT)"
  obtain m where m: "under_way x None = [m]" "fits t (os_current_bus (sw_source x)) m" "os_current_bus (sw_source x) < 2"
    "os_state (sw_source x) \<noteq> ONEWIRE_SOURCE_IDLE"
    using ok q by (cases "os_state (sw_source x)") (auto simp: protocol_ok_def under_way_def t_def)
  have c: "m = Cmd c" "queue_contents q = []" "queue_contents (sw_responses x) = []"
    using m(1) q(2) by (auto simp: under_way_def)
  obtain k' r where kr: "worker_answer hw now c k = Some (k', r)" "fits t (os_current_bus (sw_source x)) (Rsp r)" "worker_ok k'"
    using worker_answers [of t _ c k] m c k by blast
  have "protocol_ok (x\<lparr>sw_commands := q\<rparr>) (Some r)"
    using ok q(1) c(2,3) kr(2) m(3,4)
    by (cases "os_state (sw_source x)") (auto simp: protocol_ok_def under_way_def t_def)
  then show ?thesis using kr by blast
qed

lemma reply_ok:
  assumes ok: "protocol_ok x (Some r)"
  shows "\<exists>q. onewire_response_queue_try_add r (sw_responses x) = (q, True) \<and> protocol_ok (x\<lparr>sw_responses := q\<rparr>) None"
proof -
  obtain m where m: "under_way x (Some r) = [m]"
    using ok by (cases "os_state (sw_source x)") (auto simp: protocol_ok_def under_way_def)
  then have e: "m = Rsp r" "queue_contents (sw_commands x) = []" "queue_contents (sw_responses x) = []"
    by (auto elim: token_cases)
  have inv: "queue_inv (sw_responses x)" using ok by (simp add: protocol_ok_def)
  obtain q where q: "onewire_response_queue_try_add r (sw_responses x) = (q, True)" "queue_inv q" "queue_contents q = [r]"
    using response_queue.add_ok [OF inv, of r] e by auto
  have "protocol_ok (x\<lparr>sw_responses := q\<rparr>) None"
    using ok m e q by (cases "os_state (sw_source x)") (auto simp: protocol_ok_def under_way_def)
  then show ?thesis using q by blast
qed

subsection \<open>Reachable states\<close>

definition onewire_init :: "'w onewire_worker \<Rightarrow> measurement_store \<Rightarrow> 'w onewire_system" where
  "onewire_init k store =
     \<lparr>sy_world = fst (onewire_source_init True True [True, True]
        (of_nat APP_CONFIG_ONEWIRE_POLL_INTERVAL_DEFAULT_SECONDS * 1000) 0 store),
      sy_worker = k\<lparr>wk_device_count := 0, wk_device_index := 0\<rparr>, sy_reply = None\<rparr>"

definition onewire_inv :: "'w onewire_system \<Rightarrow> bool" where
  "onewire_inv y =
     (protocol_ok (sy_world y) (sy_reply y) \<and> worker_ok (sy_worker y) \<and>
      os_poll_interval_ms (sw_source (sy_world y)) \<in> {5000..300000})"

lemma apply_config_source [simp]:
  "os_state (onewire_source_apply_config c now s) = os_state s"
  "os_current_bus (onewire_source_apply_config c now s) = os_current_bus s"
  by (simp_all add: onewire_source_apply_config_def Let_def)

lemma interval_in_range:
  assumes "5 \<le> n" "n \<le> 300"
  shows "of_nat n * 1000 \<in> {5000 .. 300000 :: u32}"
proof -
  have "unat (of_nat n * 1000 :: u32) = n * 1000" using assms by (simp add: unat_mult_lem [THEN iffD1] unat_of_nat)
  then show ?thesis using assms by (simp add: word_le_nat_alt)
qed

lemma apply_config_interval:
  "os_poll_interval_ms (onewire_source_apply_config c now s) \<in> {5000..300000}"
proof -
  let ?n = "clamp APP_CONFIG_ONEWIRE_POLL_INTERVAL_MIN_SECONDS APP_CONFIG_ONEWIRE_POLL_INTERVAL_MAX_SECONDS
    (cf_onewire_poll_interval_seconds c)"
  have "os_poll_interval_ms (onewire_source_apply_config c now s) = of_nat ?n * 1000"
    by (simp add: onewire_source_apply_config_def Let_def)
  moreover have "5 \<le> ?n" "?n \<le> 300"
    by (simp_all add: clamp_def Let_def APP_CONFIG_ONEWIRE_POLL_INTERVAL_MIN_SECONDS_def APP_CONFIG_ONEWIRE_POLL_INTERVAL_MAX_SECONDS_def)
  ultimately show ?thesis using interval_in_range by metis
qed

lemma protocol_source:
  "protocol_ok x reply \<Longrightarrow> os_state s = os_state (sw_source x) \<Longrightarrow> os_current_bus s = os_current_bus (sw_source x) \<Longrightarrow>
    protocol_ok (x\<lparr>sw_source := s\<rparr>) reply"
  by (cases "os_state (sw_source x)") (simp_all add: protocol_ok_def under_way_def)

lemma start_next_bus_interval [simp]:
  "os_poll_interval_ms (sw_source (onewire_start_next_bus now x)) = os_poll_interval_ms (sw_source x)"
  by (simp add: onewire_start_next_bus_def onewire_finish_cycle_def Let_def split: prod.split bool.split)

lemma handle_temperature_interval [simp]:
  "onewire_handle_temperature ev (s, st) = (s', st') \<Longrightarrow> os_poll_interval_ms s' = os_poll_interval_ms s"
  by (auto simp: onewire_handle_temperature_def Let_def split: prod.splits if_splits)

lemma handle_response_interval [simp]:
  "os_poll_interval_ms (sw_source (onewire_handle_response r now x)) = os_poll_interval_ms (sw_source x)"
  by (auto simp: onewire_handle_response_def onewire_finish_bus_def Let_def split: prod.split bool.split onewire_source_state.split)

lemma handle_responses_interval:
  "handle_responses n now x = Some y \<Longrightarrow> os_poll_interval_ms (sw_source y) = os_poll_interval_ms (sw_source x)"
  by (induction n arbitrary: x) (auto split: prod.splits option.splits)

lemma periodic_interval:
  "onewire_source_periodic now x = Some y \<Longrightarrow> os_poll_interval_ms (sw_source y) = os_poll_interval_ms (sw_source x)"
  by (auto simp: onewire_source_periodic_def dest: handle_responses_interval split: option.splits if_splits)

lemma onewire_inv_init: "onewire_inv (onewire_init k store)"
  using interval_in_range [of 30]
  by (simp add: onewire_inv_def onewire_init_def onewire_source_init_def onewire_worker_init_def protocol_ok_def under_way_def worker_ok_def
    APP_CONFIG_ONEWIRE_POLL_INTERVAL_DEFAULT_SECONDS_def)

lemma onewire_inv_step: "onewire_step hw y y' \<Longrightarrow> onewire_inv y \<Longrightarrow> onewire_inv y'"
proof (induction rule: onewire_step.induct)
  case (periodic now y x)
  then show ?case using periodic_ok [of "sy_world y" "sy_reply y" now] periodic_interval [of now "sy_world y" x]
    by (auto simp: onewire_inv_def)
next
  case (config y c now)
  have "protocol_ok ((sy_world y)\<lparr>sw_source := onewire_source_apply_config c now (sw_source (sy_world y))\<rparr>) (sy_reply y)"
    using config by (intro protocol_source) (simp_all add: onewire_inv_def)
  then show ?case using config apply_config_interval by (simp add: onewire_inv_def)
next
  case (take y q c now k r)
  then show ?case using take_ok [of "sy_world y" "sy_worker y" q c hw now] by (auto simp: onewire_inv_def)
next
  case (reply y r q)
  then show ?case using reply_ok [of "sy_world y" r] by (auto simp: onewire_inv_def)
qed

lemma onewire_reachable: "(onewire_step hw)\<^sup>*\<^sup>* (onewire_init k store) y \<Longrightarrow> onewire_inv y"
  by (induction rule: rtranclp_induct) (auto simp: onewire_inv_init dest: onewire_inv_step)

subsection \<open>Every poll ends\<close>

text \<open>
  The rounds left: each bus takes at most one start, sixteen temperatures and the answer that there is no
  more.  \<open>d\<close> is the number of devices the worker has not read yet.
\<close>

definition rounds_left :: "onewire_source \<Rightarrow> nat \<Rightarrow> nat" where
  "rounds_left s d = (case os_state s of ONEWIRE_SOURCE_IDLE \<Rightarrow> 0
     | ONEWIRE_SOURCE_WAIT_START \<Rightarrow> (2 - os_current_bus s) * 18
     | ONEWIRE_SOURCE_WAIT_READNEXT \<Rightarrow> (1 - os_current_bus s) * 18 + d + 1)"

definition unread :: "'w onewire_worker \<Rightarrow> nat" where
  "unread k = wk_device_count k - wk_device_index k"

text \<open>When the cycle is finished, the next poll is one interval away.\<close>

definition waits :: "u32 \<Rightarrow> onewire_source \<Rightarrow> bool" where
  "waits now s = (os_state s = ONEWIRE_SOURCE_IDLE \<longrightarrow> os_next_poll_ms s = now + os_poll_interval_ms s)"

lemma start_next_bus_rounds:
  assumes "quiet x"
  shows "waits now (sw_source (onewire_start_next_bus now x))"
    "rounds_left (sw_source (onewire_start_next_bus now x)) d \<le> (2 - os_current_bus (sw_source x)) * 18"
proof -
  let ?bus = "skip_disabled (os_bus_enabled (sw_source x)) (os_current_bus (sw_source x))"
  obtain q where q: "onewire_worker_send ONEWIRE_START (onewire_gpios ! ?bus) (sw_commands x) = (q, True)"
    using send_quiet [OF assms] by blast
  show "waits now (sw_source (onewire_start_next_bus now x))"
    using q by (simp add: onewire_start_next_bus_def Let_def onewire_worker_send_start_def onewire_finish_cycle_def waits_def)
  have "os_current_bus (sw_source x) \<le> ?bus" by (rule skip_disabled_ge)
  then have "(2 - ?bus) * 18 \<le> (2 - os_current_bus (sw_source x)) * 18" by simp
  then show "rounds_left (sw_source (onewire_start_next_bus now x)) d \<le> (2 - os_current_bus (sw_source x)) * 18"
    using q by (simp add: onewire_start_next_bus_def Let_def onewire_worker_send_start_def onewire_finish_cycle_def
      rounds_left_def)
qed

lemma finish_bus_rounds:
  assumes "quiet x"
  shows "waits now (sw_source (onewire_finish_bus now x))"
    "rounds_left (sw_source (onewire_finish_bus now x)) d \<le> (1 - os_current_bus (sw_source x)) * 18"
  using start_next_bus_rounds [of "x\<lparr>sw_source := (sw_source x)\<lparr>os_current_bus := Suc (os_current_bus (sw_source x))\<rparr>\<rparr>" now] assms
  by (simp_all add: onewire_finish_bus_def)

lemma send_readnext_quiet: "quiet x \<Longrightarrow> \<exists>q. onewire_worker_send_readnext (sw_commands x) = (q, True)"
  using send_quiet [of x ONEWIRE_READNEXT 0] by (auto simp: onewire_worker_send_readnext_def)

text \<open>The answer \<open>r\<close> of the worker, and the devices \<open>d\<close> it has left after giving it.\<close>

fun goes_on :: "onewire_source \<Rightarrow> onewire_response_type \<Rightarrow> bool" where
  "goes_on s t = (os_state s = ONEWIRE_SOURCE_WAIT_START \<and> t = ONEWIRE_START_OK \<or>
     os_state s = ONEWIRE_SOURCE_WAIT_READNEXT \<and> t = ONEWIRE_TEMPERATURE)"

lemma handle_response_rounds:
  assumes q: "quiet x" and st: "os_state (sw_source x) \<noteq> ONEWIRE_SOURCE_IDLE"
  shows "waits now (sw_source (onewire_handle_response r now x))"
    "rounds_left (sw_source (onewire_handle_response r now x)) d \<le>
      (1 - os_current_bus (sw_source x)) * 18 + (if goes_on (sw_source x) (re_type r) then d + 1 else 0)"
proof -
  obtain s m where t: "onewire_handle_temperature (re_temperature r) (sw_source x, sw_store x) = (s, m)" by fastforce
  obtain c1 where c1: "onewire_worker_send_readnext (sw_commands x) = (c1, True)" using send_readnext_quiet [OF q] by blast
  have "waits now (sw_source (onewire_handle_response r now x)) \<and>
    rounds_left (sw_source (onewire_handle_response r now x)) d \<le>
      (1 - os_current_bus (sw_source x)) * 18 + (if goes_on (sw_source x) (re_type r) then d + 1 else 0)"
    using st t c1 finish_bus_rounds [OF q] handle_temperature_source [OF t]
    by (cases "os_state (sw_source x)") (simp_all add: onewire_handle_response_def waits_def rounds_left_def)
  then show "waits now (sw_source (onewire_handle_response r now x))"
    "rounds_left (sw_source (onewire_handle_response r now x)) d \<le>
      (1 - os_current_bus (sw_source x)) * 18 + (if goes_on (sw_source x) (re_type r) then d + 1 else 0)" by blast+
qed

lemma not_due: "i \<in> {5000..300000} \<Longrightarrow> \<not> time_due now (now + i)"
  by (rule due_soon) (simp_all add: word_le_def word_less_def)

definition worker_round :: "'w gpio \<Rightarrow> u32 \<Rightarrow> 'w onewire_system \<Rightarrow> 'w onewire_system option" where
  "worker_round hw now y =
     (let put = (\<lambda>r y. y\<lparr>sy_world := (sy_world y)\<lparr>sw_responses := fst (onewire_response_queue_try_add r (sw_responses (sy_world y)))\<rparr>,
                        sy_reply := None\<rparr>)
      in case sy_reply y of
           Some r \<Rightarrow> Some (put r y)
         | None \<Rightarrow>
             (case onewire_command_queue_try_remove (sw_commands (sy_world y)) of
                (q, None) \<Rightarrow> Some y
              | (q, Some c) \<Rightarrow>
                  (case worker_answer hw now c (sy_worker y) of
                     None \<Rightarrow> None
                   | Some (k, r) \<Rightarrow> Some (put r (y\<lparr>sy_world := (sy_world y)\<lparr>sw_commands := q\<rparr>, sy_worker := k\<rparr>)))))"

definition onewire_round :: "'w gpio \<Rightarrow> u32 \<Rightarrow> 'w onewire_system \<Rightarrow> 'w onewire_system option" where
  "onewire_round hw now y =
     (case worker_round hw now y of
        None \<Rightarrow> None
      | Some y1 \<Rightarrow> map_option (\<lambda>x. y1\<lparr>sy_world := x\<rparr>) (onewire_source_periodic now (sy_world y1)))"

abbreviation idle :: "'w onewire_system \<Rightarrow> bool" where
  "idle y \<equiv> os_state (sw_source (sy_world y)) = ONEWIRE_SOURCE_IDLE"

text \<open>Rounds until the source is idle, at most \<open>n\<close>.\<close>

fun poll_rounds :: "'w gpio \<Rightarrow> (nat \<Rightarrow> u32) \<Rightarrow> nat \<Rightarrow> 'w onewire_system \<Rightarrow> 'w onewire_system option" where
  "poll_rounds hw clock 0 y = Some y"
| "poll_rounds hw clock (Suc n) y =
     (if idle y then Some y
      else case onewire_round hw (clock n) y of None \<Rightarrow> None | Some y' \<Rightarrow> poll_rounds hw clock n y')"

definition settled :: "'w onewire_system \<Rightarrow> bool" where
  "settled y = (sy_reply y = None \<and> queue_contents (sw_responses (sy_world y)) = [])"

text \<open>After the worker's turn there is an answer in the ring; a bus that goes on has one device less to read.\<close>

definition answered :: "'w onewire_system \<Rightarrow> 'w onewire_system \<Rightarrow> bool" where
  "answered y y1 =
     (onewire_inv y1 \<and> sw_source (sy_world y1) = sw_source (sy_world y) \<and> sy_reply y1 = None \<and>
      (\<exists>r. queue_contents (sw_responses (sy_world y1)) = [r] \<and>
        (settled y \<and> goes_on (sw_source (sy_world y)) (re_type r) \<and>
           os_state (sw_source (sy_world y)) = ONEWIRE_SOURCE_WAIT_READNEXT \<longrightarrow>
         unread (sy_worker y1) < unread (sy_worker y))))"

lemma worker_round_reply:
  assumes inv: "onewire_inv y" and r: "sy_reply y = Some r"
  shows "\<exists>y1. worker_round hw now y = Some y1 \<and> answered y y1"
proof -
  have ok: "protocol_ok (sy_world y) (Some r)" using inv r by (simp add: onewire_inv_def)
  obtain q where q: "onewire_response_queue_try_add r (sw_responses (sy_world y)) = (q, True)"
    "protocol_ok ((sy_world y)\<lparr>sw_responses := q\<rparr>) None"
    using reply_ok [OF ok] by blast
  let ?y = "y\<lparr>sy_world := (sy_world y)\<lparr>sw_responses := q\<rparr>, sy_reply := None\<rparr>"
  have i: "onewire_inv ?y" using inv q by (simp add: onewire_inv_def)
  have "queue_contents (sw_responses (sy_world y)) = []"
    using ok by (cases "os_state (sw_source (sy_world y))") (auto simp: protocol_ok_def under_way_def append_eq_Cons_conv)
  then have c: "queue_contents q = [r]"
    using response_queue.add [OF _ q(1)] ok by (simp add: protocol_ok_def)
  have w: "worker_round hw now y = Some ?y" using q r by (simp add: worker_round_def Let_def)
  have "answered y ?y" using i c r by (simp add: answered_def settled_def)
  then show ?thesis using w by blast
qed

lemma worker_round_waiting:
  assumes inv: "onewire_inv y" and r: "sy_reply y = None" "queue_contents (sw_responses (sy_world y)) = [r]"
  shows "\<exists>y1. worker_round hw now y = Some y1 \<and> answered y y1"
proof -
  have ok: "protocol_ok (sy_world y) None" using inv r by (simp add: onewire_inv_def)
  have c: "queue_contents (sw_commands (sy_world y)) = []" using protocol_responses [OF ok] r by auto
  have "queue_inv (sw_commands (sy_world y))" using ok by (simp add: protocol_ok_def)
  then obtain q where "onewire_command_queue_try_remove (sw_commands (sy_world y)) = (q, None)"
    using command_queue.remove_empty c by blast
  then have "worker_round hw now y = Some y" using r by (simp add: worker_round_def)
  moreover have "answered y y" using inv r by (simp add: answered_def settled_def)
  ultimately show ?thesis by blast
qed

lemma worker_round_command:
  assumes inv: "onewire_inv y" and st: "\<not> idle y" and r: "sy_reply y = None" "queue_contents (sw_responses (sy_world y)) = []"
  shows "\<exists>y1. worker_round hw now y = Some y1 \<and> answered y y1"
proof -
  let ?x = "sy_world y"
  have ok: "protocol_ok ?x None" and wk: "worker_ok (sy_worker y)" using inv r by (simp_all add: onewire_inv_def)
  then have qi: "queue_inv (sw_commands ?x)" "queue_inv (sw_responses ?x)" by (simp_all add: protocol_ok_def)
  obtain m where m: "under_way ?x None = [m]" "os_state (sw_source ?x) = ONEWIRE_SOURCE_WAIT_READNEXT \<Longrightarrow> fits ONEWIRE_READNEXT (os_current_bus (sw_source ?x)) m"
    using ok st by (cases "os_state (sw_source ?x)") (auto simp: protocol_ok_def)
  then obtain c where c: "m = Cmd c" "queue_contents (sw_commands ?x) = [c]"
    using r by (auto simp: under_way_def)
  obtain q where q: "onewire_command_queue_try_remove (sw_commands ?x) = (q, Some c)"
    using command_queue.remove_ok [OF qi(1) c(2)] by blast
  obtain k a where ka: "worker_answer hw now c (sy_worker y) = Some (k, a)" "worker_ok k"
    "protocol_ok (?x\<lparr>sw_commands := q\<rparr>) (Some a)"
    using take_ok [OF ok wk q] by blast
  obtain p where p: "onewire_response_queue_try_add a (sw_responses ?x) = (p, True)"
    "protocol_ok (?x\<lparr>sw_commands := q, sw_responses := p\<rparr>) None"
    using reply_ok [OF ka(3)] by auto
  let ?y = "y\<lparr>sy_world := ?x\<lparr>sw_commands := q, sw_responses := p\<rparr>, sy_worker := k, sy_reply := None\<rparr>"
  have w: "worker_round hw now y = Some ?y" using r(1) q ka(1) p(1) by (cases y) (simp add: worker_round_def Let_def)
  have pc: "queue_contents p = [a]" using response_queue.add [OF qi(2) p(1)] r by simp
  have "unread k < unread (sy_worker y)"
    if "os_state (sw_source ?x) = ONEWIRE_SOURCE_WAIT_READNEXT" "re_type a = ONEWIRE_TEMPERATURE"
  proof -
    have "co_type c = ONEWIRE_READNEXT" using m(2) [OF that(1)] c(1) by simp
    from worker_readnext [OF this, of hw now "sy_worker y"] show ?thesis
      using ka(1) that(2) by (auto simp: unread_def split: if_splits)
  qed
  then have "answered y ?y" using inv ka(2) p(2) pc by (auto simp: answered_def onewire_inv_def)
  then show ?thesis using w by blast
qed

lemma worker_round_answers:
  assumes "onewire_inv y" "\<not> idle y"
  shows "\<exists>y1. worker_round hw now y = Some y1 \<and> answered y y1"
proof (cases "sy_reply y")
  case None
  have "protocol_ok (sy_world y) None" using assms None by (simp add: onewire_inv_def)
  then have "queue_contents (sw_responses (sy_world y)) = [] \<or> (\<exists>r. queue_contents (sw_responses (sy_world y)) = [r])"
    using protocol_responses by blast
  then show ?thesis using worker_round_command [OF assms None] worker_round_waiting [OF assms(1) None] by blast
next
  case (Some r)
  then show ?thesis using worker_round_reply assms(1) by blast
qed

text \<open>The source's turn with an answer in the ring.\<close>

lemma periodic_round:
  assumes ok: "protocol_ok x None" and r: "queue_contents (sw_responses x) = [r]"
    and i: "os_poll_interval_ms (sw_source x) \<in> {5000..300000}"
  shows "\<exists>x' q. onewire_source_periodic now x = Some x' \<and> queue_contents (sw_responses x') = [] \<and>
    sw_source x' = sw_source (onewire_handle_response r now (x\<lparr>sw_responses := q\<rparr>)) \<and> quiet (x\<lparr>sw_responses := q\<rparr>)"
proof -
  have inv: "queue_inv (sw_responses x)" "queue_inv (sw_commands x)" using ok by (simp_all add: protocol_ok_def)
  have st: "queue_contents (sw_commands x) = []" "os_state (sw_source x) \<noteq> ONEWIRE_SOURCE_IDLE"
    using protocol_responses [OF ok] r by auto
  obtain q where q: "onewire_worker_try_get_response (sw_responses x) = (q, Some r)" "queue_inv q" "queue_contents q = []"
    using response_queue.remove_ok [OF inv(1) r(1)] by blast
  let ?x = "x\<lparr>sw_responses := q\<rparr>"
  let ?y = "onewire_handle_response r now ?x"
  have quiet: "quiet ?x" using q inv st by (simp add: quiet_def)
  have qy: "queue_inv (sw_responses ?y)" "queue_contents (sw_responses ?y) = []" using q(2,3) by simp_all
  obtain q' where q': "handle_responses (Suc 2) now ?y = Some (?y\<lparr>sw_responses := q'\<rparr>)" "queue_inv q'" "queue_contents q' = []"
    using handle_responses_empty [OF qy] by blast
  have four: "(4 :: nat) = Suc 3" "(3 :: nat) = Suc 2" by simp_all
  have "handle_responses (Suc 3) now x = handle_responses 3 now ?y" by (simp only: handle_responses.simps q(1) prod.case option.case)
  then have h: "handle_responses 4 now x = Some (?y\<lparr>sw_responses := q'\<rparr>)" using q'(1) by (simp only: four)
  have "waits now (sw_source ?y)" using handle_response_rounds(1) [OF quiet] st by simp
  then have "os_state (sw_source ?y) \<noteq> ONEWIRE_SOURCE_IDLE \<or> \<not> time_due now (os_next_poll_ms (sw_source ?y))"
    using not_due [OF i] by (auto simp: waits_def)
  then have "onewire_source_periodic now x = Some (?y\<lparr>sw_responses := q'\<rparr>)"
    unfolding onewire_source_periodic_def h by simp
  then show ?thesis using q' quiet by (intro exI [of _ "?y\<lparr>sw_responses := q'\<rparr>"] exI [of _ q]) simp
qed

lemma round_ok:
  assumes inv: "onewire_inv y" and st: "\<not> idle y"
  shows "\<exists>y'. onewire_round hw now y = Some y' \<and> onewire_inv y' \<and> settled y' \<and>
    rounds_left (sw_source (sy_world y')) (unread (sy_worker y')) \<le> 35 \<and>
    (settled y \<longrightarrow> rounds_left (sw_source (sy_world y')) (unread (sy_worker y')) <
                  rounds_left (sw_source (sy_world y)) (unread (sy_worker y)))"
proof -
  obtain y1 where y1: "worker_round hw now y = Some y1" "answered y y1" using worker_round_answers [OF assms] by blast
  let ?x = "sy_world y1"
  obtain r where r: "onewire_inv y1" "sw_source ?x = sw_source (sy_world y)" "sy_reply y1 = None" "queue_contents (sw_responses ?x) = [r]"
    "settled y \<and> goes_on (sw_source (sy_world y)) (re_type r) \<and>
       os_state (sw_source (sy_world y)) = ONEWIRE_SOURCE_WAIT_READNEXT \<Longrightarrow> unread (sy_worker y1) < unread (sy_worker y)"
    using y1(2) unfolding answered_def by blast
  have ok: "protocol_ok ?x None" and i: "os_poll_interval_ms (sw_source ?x) \<in> {5000..300000}" and wk: "worker_ok (sy_worker y1)"
    using r by (simp_all add: onewire_inv_def)
  obtain x' q where x': "onewire_source_periodic now ?x = Some x'" "queue_contents (sw_responses x') = []"
    "sw_source x' = sw_source (onewire_handle_response r now (?x\<lparr>sw_responses := q\<rparr>))" "quiet (?x\<lparr>sw_responses := q\<rparr>)"
    using periodic_round [OF ok r(4) i] by blast
  let ?y' = "y1\<lparr>sy_world := x'\<rparr>"
  have "onewire_step hw y1 ?y'" by (rule onewire_step.periodic [OF x'(1)])
  then have inv': "onewire_inv ?y'" using onewire_inv_step r(1) by blast
  have st1: "os_state (sw_source (?x\<lparr>sw_responses := q\<rparr>)) \<noteq> ONEWIRE_SOURCE_IDLE" using st r(2) by simp
  let ?s = "sw_source (sy_world y)" and ?u = "unread (sy_worker y1)"
  have b: "rounds_left (sw_source x') ?u \<le> (1 - os_current_bus ?s) * 18 + (if goes_on ?s (re_type r) then ?u + 1 else 0)"
    using handle_response_rounds(2) [OF x'(4) st1, of r now ?u] x'(3) r(2) by simp
  have u: "?u \<le> 16" using wk by (simp add: worker_ok_def unread_def)
  have bus: "os_current_bus ?s < 2" using ok r protocol_responses [OF ok] by auto
  have "rounds_left (sw_source x') ?u \<le> 18 + 17" using b u bus by (simp split: if_splits)
  moreover have "rounds_left (sw_source x') ?u < rounds_left ?s (unread (sy_worker y))" if "settled y"
    using b u bus r(5) that st by (cases "os_state ?s") (auto simp: rounds_left_def split: if_splits)
  moreover have "onewire_round hw now y = Some ?y'" using y1(1) x'(1) by (simp add: onewire_round_def)
  moreover have "settled ?y'" using x'(2) r(3) by (simp add: settled_def)
  ultimately show ?thesis using inv' by (intro exI [of _ ?y']) simp
qed

lemma poll_rounds_settled:
  assumes "onewire_inv y" "settled y" "rounds_left (sw_source (sy_world y)) (unread (sy_worker y)) \<le> n"
  shows "\<exists>y'. poll_rounds hw clock n y = Some y' \<and> idle y'"
  using assms
proof (induction n arbitrary: y)
  case 0
  have "protocol_ok (sy_world y) (sy_reply y)" using 0 by (simp add: onewire_inv_def)
  then have "idle y" using 0 by (cases "os_state (sw_source (sy_world y))") (simp_all add: rounds_left_def protocol_ok_def)
  then show ?case by simp
next
  case (Suc n)
  show ?case
  proof (cases "idle y")
    case False
    obtain y' where y': "onewire_round hw (clock n) y = Some y'" "onewire_inv y'" "settled y'"
      "rounds_left (sw_source (sy_world y')) (unread (sy_worker y')) < rounds_left (sw_source (sy_world y)) (unread (sy_worker y))"
      using round_ok [OF Suc.prems(1) False] Suc.prems(2) by blast
    then have "rounds_left (sw_source (sy_world y')) (unread (sy_worker y')) \<le> n" using Suc.prems(3) by simp
    then show ?thesis using Suc.IH [OF y'(2,3)] y'(1) False by simp
  qed simp
qed

lemma poll_rounds_end:
  assumes "onewire_inv y"
  shows "\<exists>y'. poll_rounds hw clock 36 y = Some y' \<and> idle y'"
proof (cases "idle y")
  case True
  have "poll_rounds hw clock (Suc 35) y = Some y" by (simp only: poll_rounds.simps True if_True simp_thms)
  then show ?thesis using True by simp
next
  case False
  obtain y' where y': "onewire_round hw (clock 35) y = Some y'" "onewire_inv y'" "settled y'"
    "rounds_left (sw_source (sy_world y')) (unread (sy_worker y')) \<le> 35"
    using round_ok [OF assms False] by blast
  have e: "\<exists>z. poll_rounds hw clock 35 y' = Some z \<and> idle z" by (rule poll_rounds_settled) (use y' in simp_all)
  have "poll_rounds hw clock (Suc 35) y = poll_rounds hw clock 35 y'"
    by (simp only: poll_rounds.simps False if_False y'(1) option.case)
  then show ?thesis using e by simp
qed

definition awaited :: "onewire_source_state \<Rightarrow> onewire_response_type set" where
  "awaited st = (case st of ONEWIRE_SOURCE_IDLE \<Rightarrow> {}
     | ONEWIRE_SOURCE_WAIT_START \<Rightarrow> {ONEWIRE_START_OK, ONEWIRE_START_ERROR}
     | ONEWIRE_SOURCE_WAIT_READNEXT \<Rightarrow> {ONEWIRE_TEMPERATURE, ONEWIRE_READNEXT_NONE})"

lemma take_awaited:
  assumes "protocol_ok x None" "worker_ok k" "onewire_command_queue_try_remove (sw_commands x) = (q, Some c)"
  shows "\<exists>k' r. worker_answer hw now c k = Some (k', r) \<and> re_type r \<in> awaited (os_state (sw_source x))"
proof -
  obtain k' r where kr: "worker_answer hw now c k = Some (k', r)" "protocol_ok (x\<lparr>sw_commands := q\<rparr>) (Some r)"
    using take_ok [OF assms] by blast
  have "re_type r \<in> awaited (os_state (sw_source x))"
    using kr(2) by (cases "os_state (sw_source x)")
      (auto simp: protocol_ok_def under_way_def answers_def awaited_def append_eq_Cons_conv)
  then show ?thesis using kr(1) by blast
qed

subsection \<open>Properties\<close>


definition onewire_sample :: "nat onewire_system" where
  "onewire_sample = onewire_init \<lparr>wk_gpio = 2, wk_roms = [], wk_device_count = 0, wk_device_index = 0, wk_wire = 0\<rparr>
     (measurement_store_init 64)"

text \<open>A wire with no device on it.\<close>

definition open_wire :: "nat gpio" where
  "open_wire = \<lparr>gpio_init = (\<lambda>g w. w), gpio_put = (\<lambda>g v w. w), gpio_set_dir = (\<lambda>g d w. w), gpio_pull_up = (\<lambda>g w. w),
     gpio_get = (\<lambda>g w. True), sleep_us = (\<lambda>n w. w + n)\<rparr>"

definition onewire_started :: "nat onewire_system" where
  "onewire_started = onewire_sample\<lparr>sy_world := the (onewire_source_periodic 0xFFFFFFFF (sy_world onewire_sample))\<rparr>"

lemma sample_periodic:
  "\<exists>x. onewire_source_periodic 0xFFFFFFFF (sy_world onewire_sample) = Some x \<and> os_state (sw_source x) = ONEWIRE_SOURCE_WAIT_START"
proof -
  have s: "skip_disabled [True, True] 0 = 0" by (subst skip_disabled.simps) simp
  have "handle_responses 4 0xFFFFFFFF (sy_world onewire_sample) = Some (sy_world onewire_sample)"
    by (simp add: onewire_sample_def onewire_init_def onewire_source_init_def onewire_worker_init_def eval_nat_numeral
      onewire_worker_try_get_response_def empty_queue_def)
  then show ?thesis
    by (simp add: onewire_source_periodic_def onewire_sample_def onewire_init_def onewire_source_init_def onewire_worker_init_def s
      onewire_start_next_bus_def onewire_worker_send_start_def onewire_worker_send_def onewire_command_queue_try_add_def
      empty_queue_def onewire_queue_next_index_def ONEWIRE_QUEUE_SLOT_COUNT_def ONEWIRE_BUS_COUNT_def)
qed

lemma sample_reachable: "(onewire_step hw)\<^sup>*\<^sup>* onewire_sample onewire_started"
  "os_state (sw_source (sy_world onewire_started)) = ONEWIRE_SOURCE_WAIT_START"
proof -
  obtain x where x: "onewire_source_periodic 0xFFFFFFFF (sy_world onewire_sample) = Some x"
    "os_state (sw_source x) = ONEWIRE_SOURCE_WAIT_START" using sample_periodic by blast
  then have s: "onewire_started = onewire_sample\<lparr>sy_world := x\<rparr>" by (simp add: onewire_started_def)
  show "(onewire_step hw)\<^sup>*\<^sup>* onewire_sample onewire_started"
    unfolding s by (rule r_into_rtranclp, rule onewire_step.periodic [OF x(1)])
  show "os_state (sw_source (sy_world onewire_started)) = ONEWIRE_SOURCE_WAIT_START" unfolding s using x(2) by simp
qed


text \<open>
  C17: every poll ends.  From any state the two cores can reach, at most 36 rounds, in which the worker
  answers and the source handles the answer, bring the source back to idle: each round leaves fewer
  devices or buses to read, whatever the devices on the wires answer.
\<close>

theorem onewire_poll_ends:
  assumes "(onewire_step hw)\<^sup>*\<^sup>* (onewire_init k store) y"
  shows "\<exists>y'. poll_rounds hw clock 36 y = Some y' \<and> os_state (sw_source (sy_world y')) = ONEWIRE_SOURCE_IDLE"
  by (rule poll_rounds_end [OF onewire_reachable [OF assms]])

theorem onewire_poll_ends_witness:
  "os_state (sw_source (sy_world onewire_started)) = ONEWIRE_SOURCE_WAIT_START \<and>
   (\<exists>y'. poll_rounds open_wire (\<lambda>n. of_nat n) 36 onewire_started = Some y' \<and>
      os_state (sw_source (sy_world y')) = ONEWIRE_SOURCE_IDLE)"
  using onewire_poll_ends [OF sample_reachable(1) [of open_wire, unfolded onewire_sample_def]] sample_reachable(2) by blast

end
