(* ===== verification/Mqtt_Client.thy ===== *)
theory Mqtt_Client
  imports Measurement_Store
begin

text \<open>
  \<^verbatim>\<open>app_mqtt.c\<close>: the MQTT publisher.  The functions of lwIP and of the Wi-Fi driver that it calls are the
  parameter \<open>net\<close>, a record of functions on a state of type \<open>'w\<close>; the three callbacks are operations of
  their own, which may run between any two polls.
\<close>

subsection \<open>Data\<close>

definition MQTT_CONNECT_TIMEOUT_MS :: u32 where "MQTT_CONNECT_TIMEOUT_MS = 15000"
definition MQTT_PUBLISH_TIMEOUT_MS :: u32 where "MQTT_PUBLISH_TIMEOUT_MS = 35000"
definition MQTT_RETRY_MIN_MS :: u32 where "MQTT_RETRY_MIN_MS = 5000"
definition MQTT_RETRY_MAX_MS :: u32 where "MQTT_RETRY_MAX_MS = 60000"

text \<open>The codes of lwIP that the file names.\<close>

definition ERR_OK :: int where "ERR_OK = 0"
definition ERR_MEM :: int where "ERR_MEM = -1"
definition ERR_TIMEOUT :: int where "ERR_TIMEOUT = -3"
definition ERR_INPROGRESS :: int where "ERR_INPROGRESS = -5"
definition ERR_VAL :: int where "ERR_VAL = -6"
definition ERR_IF :: int where "ERR_IF = -12"
definition MQTT_CONNECT_ACCEPTED :: int where "MQTT_CONNECT_ACCEPTED = 0"

datatype app_mqtt_state = MQTT_DISABLED | MQTT_WAITING | MQTT_RESOLVING | MQTT_CONNECTING | MQTT_CONNECTED

type_synonym ip_addr = u32

text \<open>\<open>connect\<close> gets the address, the port, the client id, the user and the password; the keep-alive time is 60.\<close>

record 'w mqtt_net =
  mqtt_client_new :: "'w \<Rightarrow> 'w \<times> bool"
  wifi_get_mac :: "'w \<Rightarrow> 'w \<times> u8 list option"
  dns_gethostbyname :: "string \<Rightarrow> u32 \<Rightarrow> 'w \<Rightarrow> 'w \<times> int \<times> ip_addr"
  mqtt_client_connect :: "ip_addr \<Rightarrow> nat \<Rightarrow> string \<Rightarrow> string option \<Rightarrow> string option \<Rightarrow> 'w \<Rightarrow> 'w \<times> int"
  mqtt_publish :: "string \<Rightarrow> string \<Rightarrow> 'w \<Rightarrow> 'w \<times> int"
  mqtt_disconnect :: "'w \<Rightarrow> 'w"
  net_log :: "string \<Rightarrow> 'w \<Rightarrow> 'w"

record 'w mqtt =
  mt_config :: app_mqtt_config
  mt_config_changed :: bool
  mt_client :: bool
  mt_state :: app_mqtt_state
  mt_client_id :: string
  mt_bridge_mac :: string
  mt_last_error :: string
  mt_last_send_seconds :: u32
  mt_deadline_ms :: u32
  mt_next_connect_ms :: u32
  mt_next_send_ms :: u32
  mt_retry_ms :: u32
  mt_dns_generation :: u32
  mt_broker_address :: ip_addr
  mt_dns_done :: bool
  mt_dns_valid :: bool
  mt_connection_changed :: bool
  mt_connection_result :: int
  mt_publish_pending :: bool
  mt_publish_done :: bool
  mt_publish_result :: int
  mt_samples :: "measurement_sample list"
  mt_sample_count :: nat
  mt_sample_index :: nat
  mt_store :: measurement_store
  mt_net :: 'w

subsection \<open>Disconnecting and trying again\<close>

definition disconnect_client :: "'w mqtt_net \<Rightarrow> 'w mqtt \<Rightarrow> 'w mqtt" where
  "disconnect_client net m =
     m\<lparr>mt_net := (if mt_client m then mqtt_disconnect net (mt_net m) else mt_net m),
       mt_dns_generation := mt_dns_generation m + 1, mt_dns_done := False, mt_connection_changed := False,
       mt_publish_pending := False, mt_publish_done := False, mt_sample_count := 0, mt_sample_index := 0\<rparr>"

definition retry_later :: "'w mqtt_net \<Rightarrow> u32 \<Rightarrow> string \<Rightarrow> int \<Rightarrow> 'w mqtt \<Rightarrow> 'w mqtt" where
  "retry_later net now_ms message result m =
     (let m1 = disconnect_client net m;
          m2 = m1\<lparr>mt_last_error := bounded_copy 64 (message @ '' ('' @ show_int result @ '')'')\<rparr>;
          m3 = m2\<lparr>mt_net := net_log net (''MQTT: '' @ mt_last_error m2 @ ''; retry in '' @
                     show_nat (unat (mt_retry_ms m2) div 1000) @ '' s'') (mt_net m2)\<rparr>;
          m4 = m3\<lparr>mt_state := MQTT_WAITING, mt_next_connect_ms := now_ms + mt_retry_ms m3\<rparr>
      in if mt_retry_ms m4 < MQTT_RETRY_MAX_MS then
           m4\<lparr>mt_retry_ms := (if mt_retry_ms m4 * 2 > MQTT_RETRY_MAX_MS then MQTT_RETRY_MAX_MS else mt_retry_ms m4 * 2)\<rparr>
         else m4)"

subsection \<open>Callbacks\<close>

definition dns_found :: "ip_addr option \<Rightarrow> u32 \<Rightarrow> 'w mqtt \<Rightarrow> 'w mqtt" where
  "dns_found address arg m =
     (if mt_state m \<noteq> MQTT_RESOLVING \<or> arg \<noteq> mt_dns_generation m then m
      else (case address of
              None \<Rightarrow> m\<lparr>mt_dns_valid := False, mt_dns_done := True\<rparr>
            | Some a \<Rightarrow> m\<lparr>mt_dns_valid := True, mt_broker_address := a, mt_dns_done := True\<rparr>))"

definition connection_callback :: "int \<Rightarrow> 'w mqtt \<Rightarrow> 'w mqtt" where
  "connection_callback result m = m\<lparr>mt_connection_result := result, mt_connection_changed := True\<rparr>"

definition publish_callback :: "int \<Rightarrow> 'w mqtt \<Rightarrow> 'w mqtt" where
  "publish_callback result m = m\<lparr>mt_publish_result := result, mt_publish_done := True\<rparr>"

definition app_mqtt_apply_config :: "app_mqtt_config \<Rightarrow> 'w mqtt \<Rightarrow> 'w mqtt" where
  "app_mqtt_apply_config config m =
     (if mq_enabled (mt_config m) \<noteq> mq_enabled config \<or> mq_port (mt_config m) \<noteq> mq_port config \<or>
         mq_interval_seconds (mt_config m) \<noteq> mq_interval_seconds config \<or> mq_host (mt_config m) \<noteq> mq_host config \<or>
         mq_username (mt_config m) \<noteq> mq_username config \<or> mq_password (mt_config m) \<noteq> mq_password config
      then m\<lparr>mt_config := config, mt_config_changed := True\<rparr> else m)"

fun mqtt_status_text :: "app_mqtt_state \<Rightarrow> string" where
  "mqtt_status_text MQTT_WAITING = ''Waiting to connect''"
| "mqtt_status_text MQTT_RESOLVING = ''Resolving host''"
| "mqtt_status_text MQTT_CONNECTING = ''Connecting''"
| "mqtt_status_text MQTT_CONNECTED = ''Connected''"
| "mqtt_status_text MQTT_DISABLED = ''Disabled''"

definition app_mqtt_status :: "'w mqtt \<Rightarrow> string" where
  "app_mqtt_status m = mqtt_status_text (mt_state m)"

subsection \<open>The poll\<close>

text \<open>The poll is a sequence of stages; \<open>Inl\<close>: it returned, \<open>Inr\<close>: it goes on to the next stage.\<close>

definition poll_config :: "'w mqtt_net \<Rightarrow> u32 \<Rightarrow> 'w mqtt \<Rightarrow> 'w mqtt" where
  "poll_config net now_ms m =
     (if \<not> mt_config_changed m then m else
      let c = mt_config m;
          m1 = (disconnect_client net m)\<lparr>mt_config_changed := False, mt_retry_ms := MQTT_RETRY_MIN_MS, mt_next_connect_ms := now_ms,
                 mt_last_send_seconds := 0, mt_last_error := '''', mt_state := (if mq_enabled c then MQTT_WAITING else MQTT_DISABLED)\<rparr>;
          m2 = (if mq_enabled c \<and> (mq_host c = '''' \<or> mq_password c \<noteq> '''' \<and> mq_username c = '''')
                then m1\<lparr>mt_last_error := ''Invalid MQTT settings'', mt_state := MQTT_DISABLED\<rparr> else m1)
      in m2\<lparr>mt_net := net_log net (''MQTT: '' @ (if mt_last_error m2 \<noteq> '''' then mt_last_error m2 else app_mqtt_status m2)) (mt_net m2)\<rparr>)"

definition poll_connection :: "'w mqtt_net \<Rightarrow> u32 \<Rightarrow> 'w mqtt \<Rightarrow> 'w mqtt + 'w mqtt" where
  "poll_connection net now_ms m =
     (if \<not> mt_connection_changed m then Inr m else
      let m1 = m\<lparr>mt_connection_changed := False\<rparr>
      in if mt_connection_result m1 \<noteq> MQTT_CONNECT_ACCEPTED
         then Inl (retry_later net now_ms ''Connection failed'' (mt_connection_result m1) m1)
         else Inr (m1\<lparr>mt_state := MQTT_CONNECTED, mt_next_send_ms := now_ms, mt_retry_ms := MQTT_RETRY_MIN_MS,
                      mt_net := net_log net ''MQTT connected'' (mt_net m1)\<rparr>))"

definition format_mac :: "u8 list \<Rightarrow> string" where
  "format_mac mac = concat (List.map show_hex2 mac)"

text \<open>The start of a lookup, once the client and the MAC address are there.\<close>

definition start_lookup :: "'w mqtt_net \<Rightarrow> u32 \<Rightarrow> u8 list \<Rightarrow> 'w mqtt \<Rightarrow> 'w mqtt + 'w mqtt" where
  "start_lookup net now_ms mac m =
     (let mac_text = bounded_copy 13 (format_mac mac);
          generation = mt_dns_generation m + 1;
          m1 = m\<lparr>mt_bridge_mac := mac_text, mt_client_id := bounded_copy 24 (''BLEB'' @ mac_text),
                  mt_state := MQTT_RESOLVING, mt_deadline_ms := now_ms + MQTT_CONNECT_TIMEOUT_MS,
                  mt_dns_done := False, mt_dns_generation := generation\<rparr>
      in case dns_gethostbyname net (mq_host (mt_config m1)) generation (mt_net m1) of
           (w, err, address) \<Rightarrow>
             let m2 = m1\<lparr>mt_net := w\<rparr>
             in if err = ERR_OK then Inr (m2\<lparr>mt_broker_address := address, mt_dns_valid := True, mt_dns_done := True\<rparr>)
                else if err \<noteq> ERR_INPROGRESS then Inl (retry_later net now_ms ''DNS lookup failed'' err m2)
                else Inr m2)"

definition poll_waiting :: "'w mqtt_net \<Rightarrow> u32 \<Rightarrow> 'w mqtt \<Rightarrow> 'w mqtt + 'w mqtt" where
  "poll_waiting net now_ms m =
     (if mt_state m \<noteq> MQTT_WAITING then Inr m
      else if \<not> time_due now_ms (mt_next_connect_ms m) then Inl m
      else case (if mt_client m then (mt_net m, True) else mqtt_client_new net (mt_net m)) of
             (w1, False) \<Rightarrow> Inl (retry_later net now_ms ''Client allocation failed'' ERR_MEM (m\<lparr>mt_net := w1\<rparr>))
           | (w1, True) \<Rightarrow>
               (case wifi_get_mac net w1 of
                  (w2, None) \<Rightarrow> Inl (retry_later net now_ms ''MAC unavailable'' ERR_IF (m\<lparr>mt_client := True, mt_net := w2\<rparr>))
                | (w2, Some mac) \<Rightarrow> start_lookup net now_ms mac (m\<lparr>mt_client := True, mt_net := w2\<rparr>)))"

definition text_or_null :: "string \<Rightarrow> string option" where
  "text_or_null s = (if s \<noteq> '''' then Some s else None)"

definition poll_resolving :: "'w mqtt_net \<Rightarrow> u32 \<Rightarrow> 'w mqtt \<Rightarrow> 'w mqtt + 'w mqtt" where
  "poll_resolving net now_ms m =
     (if \<not> (mt_state m = MQTT_RESOLVING \<and> mt_dns_done m) then Inr m else
      let m1 = m\<lparr>mt_dns_done := False\<rparr>
      in if \<not> mt_dns_valid m1 then Inl (retry_later net now_ms ''DNS lookup failed'' ERR_VAL m1)
         else
           let m2 = m1\<lparr>mt_state := MQTT_CONNECTING, mt_deadline_ms := now_ms + MQTT_CONNECT_TIMEOUT_MS\<rparr>
           in case mqtt_client_connect net (mt_broker_address m2) (mq_port (mt_config m2)) (mt_client_id m2)
                     (text_or_null (mq_username (mt_config m2))) (text_or_null (mq_password (mt_config m2))) (mt_net m2) of
                (w, err) \<Rightarrow>
                  let m3 = m2\<lparr>mt_net := w\<rparr>
                  in if err \<noteq> ERR_OK then Inl (retry_later net now_ms ''Connect failed'' err m3) else Inr m3)"

definition poll_timeout :: "'w mqtt_net \<Rightarrow> u32 \<Rightarrow> 'w mqtt \<Rightarrow> 'w mqtt + 'w mqtt" where
  "poll_timeout net now_ms m =
     (if mt_state m = MQTT_RESOLVING \<or> mt_state m = MQTT_CONNECTING then
        Inl (if time_due now_ms (mt_deadline_ms m) then retry_later net now_ms ''Connect timeout'' ERR_TIMEOUT m else m)
      else if mt_state m \<noteq> MQTT_CONNECTED then Inl m else Inr m)"

definition poll_published :: "'w mqtt_net \<Rightarrow> u32 \<Rightarrow> 'w mqtt \<Rightarrow> 'w mqtt + 'w mqtt" where
  "poll_published net now_ms m =
     (if \<not> mt_publish_done m then Inr m else
      let m1 = m\<lparr>mt_publish_done := False, mt_publish_pending := False\<rparr>
      in if mt_publish_result m1 \<noteq> ERR_OK then Inl (retry_later net now_ms ''Publish failed'' (mt_publish_result m1) m1)
         else
           let m2 = m1\<lparr>mt_sample_index := Suc (mt_sample_index m1), mt_deadline_ms := now_ms + MQTT_PUBLISH_TIMEOUT_MS\<rparr>
           in Inr (if mt_sample_index m2 = mt_sample_count m2 then
                     m2\<lparr>mt_last_send_seconds := now_ms div 1000, mt_last_error := '''',
                        mt_net := net_log net (''MQTT sent '' @ show_nat (mt_sample_count m2) @ '' values'') (mt_net m2),
                        mt_sample_count := 0\<rparr>
                   else m2))"

definition poll_snapshot :: "u32 \<Rightarrow> 'w mqtt \<Rightarrow> 'w mqtt + 'w mqtt" where
  "poll_snapshot now_ms m =
     (if mt_sample_count m \<noteq> 0 then Inr m
      else if \<not> time_due now_ms (mt_next_send_ms m) then Inl m
      else case measurement_store_snapshot MEASUREMENT_STORE_VIEW_SIZE now_ms (mt_store m) of
             (store, rows) \<Rightarrow>
               let m1 = m\<lparr>mt_store := store, mt_samples := rows, mt_sample_count := length rows, mt_sample_index := 0,
                          mt_next_send_ms := now_ms + of_nat (mq_interval_seconds (mt_config m)) * 1000,
                          mt_deadline_ms := now_ms + MQTT_PUBLISH_TIMEOUT_MS\<rparr>
               in if mt_sample_count m1 = 0 then Inl m1 else Inr m1)"

text \<open>The topic and the text of a sample.\<close>

definition sample_topic :: "string \<Rightarrow> measurement_sample \<Rightarrow> string" where
  "sample_topic mac sample =
     (case sample of (device_id, field, val) \<Rightarrow>
        bounded_copy 80 (''blebridge/'' @ mac @ ''/'' @ show_nat (unat device_id) @ ''/'' @ measurement_field_name field))"

definition sample_text :: "measurement_sample \<Rightarrow> string" where
  "sample_text sample = (case sample of (device_id, field, val) \<Rightarrow> show_fixed 3 val)"

definition poll_publish :: "'w mqtt_net \<Rightarrow> u32 \<Rightarrow> 'w mqtt \<Rightarrow> 'w mqtt" where
  "poll_publish net now_ms m =
     (if time_due now_ms (mt_deadline_ms m) then retry_later net now_ms ''Publish timeout'' ERR_TIMEOUT m
      else if mt_publish_pending m then m
      else
        let sample = mt_samples m ! mt_sample_index m
        in if length (sample_text sample) \<ge> 32 then retry_later net now_ms ''Value too long'' ERR_VAL m
           else case mqtt_publish net (sample_topic (mt_bridge_mac m) sample) (sample_text sample) (mt_net m) of
                  (w, err) \<Rightarrow>
                    let m1 = m\<lparr>mt_net := w\<rparr>
                    in if err = ERR_OK then m1\<lparr>mt_publish_pending := True\<rparr>
                       else if err \<noteq> ERR_MEM then retry_later net now_ms ''Publish failed'' err m1 else m1)"

definition andThen :: "'m + 'm \<Rightarrow> ('m \<Rightarrow> 'm + 'm) \<Rightarrow> 'm + 'm" where
  "andThen r f = (case r of Inl m \<Rightarrow> Inl m | Inr m \<Rightarrow> f m)"

definition result_of :: "'m + 'm \<Rightarrow> 'm" where
  "result_of r = (case r of Inl m \<Rightarrow> m | Inr m \<Rightarrow> m)"

definition app_mqtt_poll :: "'w mqtt_net \<Rightarrow> u32 \<Rightarrow> 'w mqtt \<Rightarrow> 'w mqtt" where
  "app_mqtt_poll net now_ms m =
     (let m1 = poll_config net now_ms m
      in if mt_state m1 = MQTT_DISABLED then m1
         else result_of
           (andThen (andThen (andThen (andThen (andThen (andThen (poll_connection net now_ms m1)
              (poll_waiting net now_ms)) (poll_resolving net now_ms)) (poll_timeout net now_ms))
              (poll_published net now_ms)) (poll_snapshot now_ms)) (\<lambda>m. Inr (poll_publish net now_ms m))))"

definition app_mqtt_last_error :: "'w mqtt \<Rightarrow> string" where
  "app_mqtt_last_error m = mt_last_error m"

definition app_mqtt_last_send_seconds :: "'w mqtt \<Rightarrow> u32" where
  "app_mqtt_last_send_seconds m = mt_last_send_seconds m"

end
