(* ===== verification/Mqtt_Session.thy ===== *)
theory Mqtt_Session
  imports Mqtt_Client
begin

text \<open>
  The MQTT publisher over time: an invariant of every reachable state, the way out of every wait, and a whole
  session with a broker.
\<close>

subsection \<open>The invariant\<close>

text \<open>Text that may stand between the quotes of a JSON string as it is.\<close>

definition plain_text :: "string \<Rightarrow> bool" where
  "plain_text s = (\<forall>c\<in>set s. 32 \<le> code c \<and> c \<noteq> CHR ''\"'' \<and> c \<noteq> CHR 0x5C)"

lemma plain_append [simp]: "plain_text (a @ b) = (plain_text a \<and> plain_text b)"
  by (auto simp: plain_text_def)

lemma plain_bounded: "plain_text s \<Longrightarrow> plain_text (bounded_copy n s)"
  by (auto simp: plain_text_def bounded_copy_def dest: in_set_takeD)

lemma plain_digit: "d < 10 \<Longrightarrow> plain_text [digit_char d]"
proof -
  assume "d < 10"
  then have "code (digit_char d) = 48 + d" by (simp add: digit_char_def)
  moreover have "code (CHR ''\"'') = 34" "code (CHR 0x5C) = 92" by code_simp+
  ultimately show ?thesis using \<open>d < 10\<close> by (auto simp: plain_text_def)
qed

lemma plain_show_nat: "plain_text (show_nat n)"
proof (induction n rule: show_nat.induct)
  case (1 n)
  then show ?case using plain_digit [of n] plain_digit [of "n mod 10"] by (subst show_nat.simps) simp
qed

lemma plain_show_int: "plain_text (show_int i)"
proof -
  have "plain_text ''-''" "plain_text ''''" by code_simp+
  then show ?thesis by (simp add: show_int_def plain_show_nat)
qed

definition retry_steps :: "u32 set" where
  "retry_steps = {5000, 10000, 20000, 40000, 60000}"

definition mqtt_inv :: "'w mqtt \<Rightarrow> bool" where
  "mqtt_inv m =
     (mt_retry_ms m \<in> retry_steps \<and> mt_sample_count m \<le> length (mt_samples m) \<and>
      (mt_sample_count m \<noteq> 0 \<longrightarrow> mt_sample_index m < mt_sample_count m \<and> mt_state m = MQTT_CONNECTED) \<and>
      (mt_publish_pending m \<longrightarrow> mt_sample_count m \<noteq> 0) \<and>
      length (mt_samples m) \<le> 150 \<and> length (mt_bridge_mac m) \<le> 12 \<and> length (mt_client_id m) \<le> 16 \<and>
      length (mt_last_error m) < 64 \<and> plain_text (mt_last_error m))"

text \<open>All of it but the state: what holds while a stage is about to set the state.\<close>

lemma retry_step:
  "r \<in> retry_steps \<Longrightarrow>
    (if r < MQTT_RETRY_MAX_MS then if r * 2 > MQTT_RETRY_MAX_MS then MQTT_RETRY_MAX_MS else r * 2 else r) \<in> retry_steps"
  by (auto simp: retry_steps_def MQTT_RETRY_MAX_MS_def)

lemma disconnect_inv: "mqtt_inv m \<Longrightarrow> mqtt_inv (disconnect_client net m)"
  by (simp add: mqtt_inv_def disconnect_client_def)

lemma retry_later_eq:
  "retry_later net now msg i m =
     (disconnect_client net m)\<lparr>mt_last_error := bounded_copy 64 (msg @ '' ('' @ show_int i @ '')''),
       mt_net := net_log net (''MQTT: '' @ bounded_copy 64 (msg @ '' ('' @ show_int i @ '')'') @ ''; retry in '' @
                     show_nat (unat (mt_retry_ms m) div 1000) @ '' s'') (mt_net (disconnect_client net m)),
       mt_state := MQTT_WAITING, mt_next_connect_ms := now + mt_retry_ms m,
       mt_retry_ms := (if mt_retry_ms m < MQTT_RETRY_MAX_MS
          then if mt_retry_ms m * 2 > MQTT_RETRY_MAX_MS then MQTT_RETRY_MAX_MS else mt_retry_ms m * 2 else mt_retry_ms m)\<rparr>"
  by (cases m) (simp add: retry_later_def disconnect_client_def Let_def)

lemma retry_later_inv:
  assumes "mqtt_inv m" "plain_text msg"
  shows "mqtt_inv (retry_later net now msg i m)"
proof -
  have "plain_text '' (''" "plain_text '')''" by code_simp+
  then have "plain_text (bounded_copy 64 (msg @ '' ('' @ show_int i @ '')''))"
    using assms(2) by (intro plain_bounded) (simp only: plain_append plain_show_int simp_thms)
  then show ?thesis
    using assms(1) retry_step [of "mt_retry_ms m"] length_bounded_copy [of 64]
    unfolding retry_later_eq by (simp add: mqtt_inv_def disconnect_client_def)
qed

lemma plain_messages:
  "plain_text ''Connection failed''" "plain_text ''Client allocation failed''" "plain_text ''MAC unavailable''"
  "plain_text ''DNS lookup failed''" "plain_text ''Connect failed''" "plain_text ''Connect timeout''"
  "plain_text ''Publish failed''" "plain_text ''Publish timeout''" "plain_text ''Value too long''"
  "plain_text ''Invalid MQTT settings''"
  by code_simp+

lemmas retry_invs = plain_messages [THEN retry_later_inv [rotated]]

definition good :: "('w mqtt \<Rightarrow> bool) \<Rightarrow> 'w mqtt + 'w mqtt \<Rightarrow> bool" where
  "good P r = (case r of Inl m \<Rightarrow> mqtt_inv m | Inr m \<Rightarrow> mqtt_inv m \<and> P m)"

lemma good_simps [simp]: "good P (Inl m) = mqtt_inv m" "good P (Inr m) = (mqtt_inv m \<and> P m)"
  by (simp_all add: good_def)

lemma good_andThen: "good P r \<Longrightarrow> (\<And>m. mqtt_inv m \<Longrightarrow> P m \<Longrightarrow> good Q (f m)) \<Longrightarrow> good Q (andThen r f)"
  by (cases r) (simp_all add: andThen_def)

lemma good_result: "good P r \<Longrightarrow> mqtt_inv (result_of r)"
  by (cases r) (simp_all add: result_of_def)

lemma plain_empty [simp]: "plain_text ''''"
  by (simp add: plain_text_def)

lemma config_inv: "mqtt_inv m \<Longrightarrow> mqtt_inv (poll_config net now m)"
  using plain_messages(10)
  by (simp add: poll_config_def Let_def mqtt_inv_def disconnect_client_def retry_steps_def MQTT_RETRY_MIN_MS_def)

lemma connection_inv: "mqtt_inv m \<Longrightarrow> good (\<lambda>_. True) (poll_connection net now m)"
  unfolding poll_connection_def Let_def
  using retry_invs(1) [of "m\<lparr>mt_connection_changed := False\<rparr>" net now]
  by (simp add: mqtt_inv_def retry_steps_def MQTT_RETRY_MIN_MS_def)

lemma length_format_mac: "length (bounded_copy 13 (format_mac mac)) \<le> 12"
  by (simp add: bounded_copy_def)

lemma lookup_inv:
  assumes inv: "mqtt_inv m" and "mt_sample_count m = 0"
  shows "good (\<lambda>_. True) (start_lookup net now mac m)"
proof -
  let ?t = "bounded_copy 13 (format_mac mac)"
  have l: "length (bounded_copy 24 (''BLEB'' @ ?t)) \<le> 16"
    using length_format_mac [of mac] by (simp add: bounded_copy_def)
  let ?m = "m\<lparr>mt_bridge_mac := ?t, mt_client_id := bounded_copy 24 (''BLEB'' @ ?t),
    mt_state := MQTT_RESOLVING, mt_deadline_ms := now + MQTT_CONNECT_TIMEOUT_MS,
    mt_dns_done := False, mt_dns_generation := mt_dns_generation m + 1\<rparr>"
  obtain w err a where d: "dns_gethostbyname net (mq_host (mt_config m)) (mt_dns_generation m + 1) (mt_net m) = (w, err, a)"
    using prod_cases3 by blast
  have m: "mqtt_inv (?m\<lparr>mt_net := w\<rparr>)" using assms l length_format_mac [of mac] by (auto simp: mqtt_inv_def)
  then have "mqtt_inv (?m\<lparr>mt_net := w, mt_broker_address := a, mt_dns_valid := True, mt_dns_done := True\<rparr>)"
    by (auto simp: mqtt_inv_def)
  then show ?thesis using retry_invs(4) [OF m] m by (simp add: start_lookup_def Let_def d)
qed

lemma waiting_inv:
  assumes inv: "mqtt_inv m"
  shows "good (\<lambda>_. True) (poll_waiting net now m)"
proof (cases "mt_state m = MQTT_WAITING \<and> time_due now (mt_next_connect_ms m)")
  case True
  have w: "mqtt_inv (m\<lparr>mt_net := w\<rparr>)" "mqtt_inv (m\<lparr>mt_client := c, mt_net := w\<rparr>)" for w c
    using inv by (simp_all add: mqtt_inv_def)
  obtain w1 c where c: "(if mt_client m then (mt_net m, True) else mqtt_client_new net (mt_net m)) = (w1, c)" by fastforce
  obtain w2 a where a: "wifi_get_mac net w1 = (w2, a)" by fastforce
  have "mt_sample_count (m\<lparr>mt_client := True, mt_net := w2\<rparr>) = 0" using inv True by (auto simp: mqtt_inv_def)
  note l = lookup_inv [OF w(2) this]
  show ?thesis unfolding poll_waiting_def c prod.case a
    using True retry_invs(2) [OF w(1)] retry_invs(3) [OF w(2)] l by (cases c; cases a) simp_all
qed (use inv in \<open>auto simp: poll_waiting_def\<close>)

lemma resolving_inv:
  assumes inv: "mqtt_inv m"
  shows "good (\<lambda>_. True) (poll_resolving net now m)"
proof (cases "mt_state m = MQTT_RESOLVING \<and> mt_dns_done m")
  case True
  let ?m = "m\<lparr>mt_dns_done := False, mt_state := MQTT_CONNECTING, mt_deadline_ms := now + MQTT_CONNECT_TIMEOUT_MS\<rparr>"
  obtain w err where c: "mqtt_client_connect net (mt_broker_address m) (mq_port (mt_config m)) (mt_client_id m)
      (text_or_null (mq_username (mt_config m))) (text_or_null (mq_password (mt_config m))) (mt_net m) = (w, err)" by fastforce
  have d: "mqtt_inv (m\<lparr>mt_dns_done := False\<rparr>)" and w: "mqtt_inv (?m\<lparr>mt_net := w\<rparr>)"
    using inv True by (auto simp: mqtt_inv_def)
  show ?thesis using True retry_invs(4) [OF d] retry_invs(5) [OF w] w c by (simp add: poll_resolving_def Let_def)
qed (use inv in \<open>auto simp: poll_resolving_def\<close>)

lemma timeout_inv: "mqtt_inv m \<Longrightarrow> good (\<lambda>m. mt_state m = MQTT_CONNECTED) (poll_timeout net now m)"
  using retry_invs(6) [of m net now] by (simp add: poll_timeout_def)

lemma published_inv:
  assumes inv: "mqtt_inv m" and st: "mt_state m = MQTT_CONNECTED"
  shows "good (\<lambda>m. mt_state m = MQTT_CONNECTED) (poll_published net now m)"
proof -
  have d: "mqtt_inv (m\<lparr>mt_publish_done := False, mt_publish_pending := False\<rparr>)" using inv by (simp add: mqtt_inv_def)
  show ?thesis using retry_invs(7) [OF d] inv st by (auto simp: poll_published_def Let_def mqtt_inv_def)
qed

lemma length_snapshot_rows: "length (snapshot_rows c vs) \<le> c"
  by (induction c vs rule: snapshot_rows.induct) simp_all

lemma snapshot_inv:
  assumes inv: "mqtt_inv m" and st: "mt_state m = MQTT_CONNECTED"
  shows "good (\<lambda>m. mt_state m = MQTT_CONNECTED \<and> mt_sample_count m \<noteq> 0) (poll_snapshot now m)"
proof -
  have "length (snapshot_rows MEASUREMENT_STORE_VIEW_SIZE vs) \<le> 150" for vs
    using length_snapshot_rows [of MEASUREMENT_STORE_VIEW_SIZE vs] by (simp add: MEASUREMENT_STORE_VIEW_SIZE_def)
  then show ?thesis using inv st
    by (auto simp: poll_snapshot_def measurement_store_snapshot_def Let_def mqtt_inv_def)
qed

lemma publish_inv:
  assumes inv: "mqtt_inv m" and st: "mt_state m = MQTT_CONNECTED" "mt_sample_count m \<noteq> 0"
  shows "mqtt_inv (poll_publish net now m)"
proof -
  let ?s = "mt_samples m ! mt_sample_index m"
  obtain w err where p: "mqtt_publish net (sample_topic (mt_bridge_mac m) ?s) (sample_text ?s) (mt_net m) = (w, err)" by fastforce
  have w: "mqtt_inv (m\<lparr>mt_net := w\<rparr>)" "mqtt_inv (m\<lparr>mt_net := w, mt_publish_pending := True\<rparr>)"
    using inv st by (simp_all add: mqtt_inv_def)
  show ?thesis using retry_invs(7) [OF w(1)] retry_invs(8,9) [OF inv] w inv p by (simp add: poll_publish_def Let_def)
qed

lemma poll_inv:
  assumes inv: "mqtt_inv m"
  shows "mqtt_inv (app_mqtt_poll net now m)"
proof -
  have c: "mqtt_inv (poll_config net now m)" by (rule config_inv [OF inv])
  have "good (\<lambda>_. True) (andThen (andThen (andThen (andThen (andThen (andThen (poll_connection net now (poll_config net now m))
      (poll_waiting net now)) (poll_resolving net now)) (poll_timeout net now))
      (poll_published net now)) (poll_snapshot now)) (\<lambda>m. Inr (poll_publish net now m)))"
    apply (rule good_andThen)
     apply (rule good_andThen)
      apply (rule good_andThen)
       apply (rule good_andThen)
        apply (rule good_andThen)
         apply (rule good_andThen)
          apply (rule connection_inv [OF c])
         apply (erule waiting_inv)
        apply (erule resolving_inv)
       apply (erule timeout_inv)
      apply (erule (1) published_inv)
     apply (erule (1) snapshot_inv)
    apply (simp add: publish_inv)
    done
  from good_result [OF this] show ?thesis using c by (simp add: app_mqtt_poll_def Let_def)
qed

subsection \<open>Reachable states\<close>

definition mqtt_boot :: "measurement_store \<Rightarrow> 'w \<Rightarrow> 'w mqtt" where
  "mqtt_boot store w =
     \<lparr>mt_config = \<lparr>mq_enabled = False, mq_host = '''', mq_port = 0, mq_interval_seconds = 0, mq_username = '''', mq_password = ''''\<rparr>,
      mt_config_changed = False, mt_client = False, mt_state = MQTT_DISABLED, mt_client_id = '''', mt_bridge_mac = '''',
      mt_last_error = '''', mt_last_send_seconds = 0, mt_deadline_ms = 0, mt_next_connect_ms = 0, mt_next_send_ms = 0,
      mt_retry_ms = MQTT_RETRY_MIN_MS, mt_dns_generation = 0, mt_broker_address = 0, mt_dns_done = False, mt_dns_valid = False,
      mt_connection_changed = False, mt_connection_result = 0, mt_publish_pending = False, mt_publish_done = False,
      mt_publish_result = 0, mt_samples = [], mt_sample_count = 0, mt_sample_index = 0, mt_store = store, mt_net = w\<rparr>"

text \<open>
  The callbacks may come at any moment and with any arguments; \<open>other\<close> stands for the measurements and the
  network changing on their own.
\<close>

inductive mqtt_reachable :: "'w mqtt_net \<Rightarrow> 'w mqtt \<Rightarrow> bool" for net where
  boot: "mqtt_reachable net (mqtt_boot store w)"
| config: "mqtt_reachable net m \<Longrightarrow> mqtt_reachable net (app_mqtt_apply_config c m)"
| poll: "mqtt_reachable net m \<Longrightarrow> mqtt_reachable net (app_mqtt_poll net now m)"
| dns: "mqtt_reachable net m \<Longrightarrow> mqtt_reachable net (dns_found address generation m)"
| connection: "mqtt_reachable net m \<Longrightarrow> mqtt_reachable net (connection_callback result m)"
| published: "mqtt_reachable net m \<Longrightarrow> mqtt_reachable net (publish_callback result m)"
| other: "mqtt_reachable net m \<Longrightarrow> mqtt_reachable net (m\<lparr>mt_store := store, mt_net := w\<rparr>)"

lemma mqtt_reachable_inv: "mqtt_reachable net m \<Longrightarrow> mqtt_inv m"
proof (induction rule: mqtt_reachable.induct)
  case (boot store w)
  show ?case by (simp add: mqtt_boot_def mqtt_inv_def retry_steps_def MQTT_RETRY_MIN_MS_def)
next
  case (poll m now)
  show ?case by (rule poll_inv [OF poll.IH])
next
  case (dns m address generation)
  then show ?case by (auto simp: dns_found_def mqtt_inv_def split: option.split)
qed (auto simp: app_mqtt_apply_config_def connection_callback_def publish_callback_def mqtt_inv_def)

lemma topic_fits:
  assumes "length mac \<le> 12"
  shows "sample_topic mac (d, f, v) = ''blebridge/'' @ mac @ ''/'' @ show_nat (unat d) @ ''/'' @ measurement_field_name f"
proof -
  have "unat d < 10 ^ 10" using unsigned_less [of d, where ?'a = nat] by simp
  then have "length (show_nat (unat d)) \<le> 10" by (intro length_show_nat_le) simp_all
  moreover have "length (measurement_field_name f) \<le> 17" by (cases f) simp_all
  ultimately show ?thesis using assms by (simp add: sample_topic_def)
qed

subsection \<open>A silent network\<close>

definition doubled :: "u32 \<Rightarrow> u32" where
  "doubled r = min 60000 (2 * r)"

lemma retry_doubled:
  "r \<in> retry_steps \<Longrightarrow>
    (if r < MQTT_RETRY_MAX_MS then if r * 2 > MQTT_RETRY_MAX_MS then MQTT_RETRY_MAX_MS else r * 2 else r) = doubled r"
  by (auto simp: retry_steps_def doubled_def MQTT_RETRY_MAX_MS_def)

definition waits_again :: "u32 \<Rightarrow> 'w mqtt \<Rightarrow> 'w mqtt \<Rightarrow> bool" where
  "waits_again now m m' =
     (mt_state m' = MQTT_WAITING \<and> mt_next_connect_ms m' = now + mt_retry_ms m \<and> mt_retry_ms m' = doubled (mt_retry_ms m) \<and>
      mt_dns_generation m' = mt_dns_generation m + 1 \<and> mt_sample_count m' = 0 \<and> \<not> mt_publish_pending m' \<and> mt_last_error m' \<noteq> '''')"

lemma retry_waits:
  assumes "mt_retry_ms m \<in> retry_steps"
  shows "waits_again now m (retry_later net now msg i m)"
  using retry_doubled [OF assms] unfolding retry_later_eq waits_again_def
  by (simp add: disconnect_client_def bounded_copy_def take_Cons')

text \<open>No callback has come since the last poll.\<close>

definition silent :: "'w mqtt \<Rightarrow> bool" where
  "silent m = (\<not> mt_config_changed m \<and> \<not> mt_connection_changed m \<and> \<not> mt_dns_done m \<and> \<not> mt_publish_done m)"

lemma silent_stages:
  assumes "silent m"
  shows "poll_config net now m = m" "poll_connection net now m = Inr m" "poll_resolving net now m = Inr m"
    "poll_published net now m = Inr m"
  using assms by (simp_all add: silent_def poll_config_def poll_connection_def poll_resolving_def poll_published_def)

lemma andThen_simps [simp]: "andThen (Inl m) f = Inl m" "andThen (Inr m) f = f m" "result_of (Inl m) = m" "result_of (Inr m) = m"
  by (simp_all add: andThen_def result_of_def)

lemma silent_timeout:
  assumes inv: "mqtt_inv m" and s: "silent m"
    and st: "mt_state m = MQTT_RESOLVING \<or> mt_state m = MQTT_CONNECTING \<or> mt_state m = MQTT_CONNECTED \<and> mt_publish_pending m"
    and due: "time_due now (mt_deadline_ms m)"
  shows "waits_again now m (app_mqtt_poll net now m)"
proof -
  have r: "mt_retry_ms m \<in> retry_steps" using inv by (simp add: mqtt_inv_def)
  have w: "poll_waiting net now m = Inr m" using st by (auto simp: poll_waiting_def)
  show ?thesis
  proof (cases "mt_state m = MQTT_CONNECTED")
    case False
    then have "app_mqtt_poll net now m = retry_later net now ''Connect timeout'' ERR_TIMEOUT m"
      using st due by (auto simp: app_mqtt_poll_def silent_stages [OF s] w poll_timeout_def)
    then show ?thesis using retry_waits [OF r] by simp
  next
    case True
    then have "mt_publish_pending m" "mt_sample_count m \<noteq> 0" using st inv by (auto simp: mqtt_inv_def)
    then have "app_mqtt_poll net now m = retry_later net now ''Publish timeout'' ERR_TIMEOUT m"
      using True due by (simp add: app_mqtt_poll_def silent_stages [OF s] w poll_timeout_def poll_snapshot_def poll_publish_def)
    then show ?thesis using retry_waits [OF r] by simp
  qed
qed

subsection \<open>A session with a broker\<close>

text \<open>
  What the network does when it works, and what an observer \<open>trace\<close> of it sees: the values published, in
  order, and nothing of the other calls.
\<close>

definition serves :: "'w mqtt_net \<Rightarrow> u8 list \<Rightarrow> ('w \<Rightarrow> (string \<times> string) list) \<Rightarrow> bool" where
  "serves net mac trace =
     (\<forall>w. (\<exists>w'. mqtt_client_new net w = (w', True) \<and> trace w' = trace w) \<and>
          (\<exists>w'. wifi_get_mac net w = (w', Some mac) \<and> trace w' = trace w) \<and>
          (\<forall>h g. \<exists>w' a. dns_gethostbyname net h g w = (w', ERR_INPROGRESS, a) \<and> trace w' = trace w) \<and>
          (\<forall>a p i u pw. \<exists>w'. mqtt_client_connect net a p i u pw w = (w', ERR_OK) \<and> trace w' = trace w) \<and>
          (\<forall>t v. \<exists>w'. mqtt_publish net t v w = (w', ERR_OK) \<and> trace w' = trace w @ [(t, v)]) \<and>
          trace (mqtt_disconnect net w) = trace w \<and> (\<forall>s. trace (net_log net s w) = trace w))"

lemma servesD:
  assumes "serves net mac trace"
  shows "\<exists>w'. mqtt_client_new net w = (w', True) \<and> trace w' = trace w"
    "\<exists>w'. wifi_get_mac net w = (w', Some mac) \<and> trace w' = trace w"
    "\<exists>w' a. dns_gethostbyname net h g w = (w', ERR_INPROGRESS, a) \<and> trace w' = trace w"
    "\<exists>w'. mqtt_client_connect net a p i u pw w = (w', ERR_OK) \<and> trace w' = trace w"
    "\<exists>w'. mqtt_publish net t v w = (w', ERR_OK) \<and> trace w' = trace w @ [(t, v)]"
    "trace (mqtt_disconnect net w) = trace w" "trace (net_log net s w) = trace w"
  using assms unfolding serves_def by blast+

text \<open>The session: the lookup is answered, the broker accepts, and every value is acknowledged before the next poll.\<close>

fun acknowledged :: "'w mqtt_net \<Rightarrow> (nat \<Rightarrow> u32) \<Rightarrow> nat \<Rightarrow> 'w mqtt \<Rightarrow> 'w mqtt" where
  "acknowledged net clock 0 m = m"
| "acknowledged net clock (Suc n) m = app_mqtt_poll net (clock n) (publish_callback ERR_OK (acknowledged net clock n m))"

definition session_open :: "'w mqtt_net \<Rightarrow> u32 \<Rightarrow> u32 \<Rightarrow> ip_addr \<Rightarrow> 'w mqtt \<Rightarrow> 'w mqtt" where
  "session_open net t0 t1 address m =
     (let m1 = app_mqtt_poll net t0 m;
          m2 = app_mqtt_poll net t1 (dns_found (Some address) (mt_dns_generation m1) m1)
      in connection_callback MQTT_CONNECT_ACCEPTED m2)"

lemma lookup_starts:
  assumes net: "serves net mac trace" and s: "silent m" and st: "mt_state m = MQTT_WAITING" and due: "time_due now (mt_next_connect_ms m)"
  shows "\<exists>w. app_mqtt_poll net now m = m\<lparr>mt_client := True, mt_net := w, mt_bridge_mac := bounded_copy 13 (format_mac mac),
      mt_client_id := bounded_copy 24 (''BLEB'' @ bounded_copy 13 (format_mac mac)), mt_state := MQTT_RESOLVING,
      mt_deadline_ms := now + MQTT_CONNECT_TIMEOUT_MS, mt_dns_done := False, mt_dns_generation := mt_dns_generation m + 1\<rparr> \<and>
    trace w = trace (mt_net m)"
proof -
  obtain w1 where w1: "(if mt_client m then (mt_net m, True) else mqtt_client_new net (mt_net m)) = (w1, True)" "trace w1 = trace (mt_net m)"
    using servesD(1) [OF net, of "mt_net m"] by (cases "mt_client m") auto
  obtain w2 where w2: "wifi_get_mac net w1 = (w2, Some mac)" "trace w2 = trace w1" using servesD(2) [OF net] by blast
  obtain w3 a where w3: "dns_gethostbyname net (mq_host (mt_config m)) (mt_dns_generation m + 1) w2 = (w3, ERR_INPROGRESS, a)"
    "trace w3 = trace w2" using servesD(3) [OF net] by blast
  let ?m = "m\<lparr>mt_client := True, mt_net := w3, mt_bridge_mac := bounded_copy 13 (format_mac mac),
      mt_client_id := bounded_copy 24 (''BLEB'' @ bounded_copy 13 (format_mac mac)), mt_state := MQTT_RESOLVING,
      mt_deadline_ms := now + MQTT_CONNECT_TIMEOUT_MS, mt_dns_done := False, mt_dns_generation := mt_dns_generation m + 1\<rparr>"
  have l: "start_lookup net now mac (m\<lparr>mt_client := True, mt_net := w2\<rparr>) = Inr ?m"
    using w3(1) by (simp add: start_lookup_def Let_def ERR_OK_def ERR_INPROGRESS_def)
  have p: "poll_waiting net now m = Inr ?m"
    using st due l by (simp only: poll_waiting_def w1(1) prod.case bool.case w2(1) option.case simp_thms if_False)
  have r: "poll_resolving net now ?m = Inr ?m" by (simp add: poll_resolving_def)
  have t: "poll_timeout net now ?m = Inl ?m"
    using due_soon [of MQTT_CONNECT_TIMEOUT_MS now] by (simp add: poll_timeout_def MQTT_CONNECT_TIMEOUT_MS_def)
  have "app_mqtt_poll net now m = ?m"
    by (simp only: app_mqtt_poll_def silent_stages(1,2) [OF s] Let_def st app_mqtt_state.distinct if_False andThen_simps p r t)
  moreover have "trace w3 = trace (mt_net m)" using w1(2) w2(2) w3(2) by metis
  ultimately show ?thesis by (intro exI [where x = w3] conjI)
qed

lemma connect_starts:
  assumes net: "serves net mac trace" and c: "\<not> mt_config_changed m" "\<not> mt_connection_changed m"
    and st: "mt_state m = MQTT_RESOLVING" and d: "mt_dns_done m" "mt_dns_valid m"
  shows "\<exists>w. app_mqtt_poll net now m = m\<lparr>mt_dns_done := False, mt_state := MQTT_CONNECTING,
      mt_deadline_ms := now + MQTT_CONNECT_TIMEOUT_MS, mt_net := w\<rparr> \<and> trace w = trace (mt_net m)"
proof -
  obtain w where w: "mqtt_client_connect net (mt_broker_address m) (mq_port (mt_config m)) (mt_client_id m)
      (text_or_null (mq_username (mt_config m))) (text_or_null (mq_password (mt_config m))) (mt_net m) = (w, ERR_OK)"
    "trace w = trace (mt_net m)" using servesD(4) [OF net] by blast
  let ?m = "m\<lparr>mt_dns_done := False, mt_state := MQTT_CONNECTING, mt_deadline_ms := now + MQTT_CONNECT_TIMEOUT_MS, mt_net := w\<rparr>"
  have "poll_resolving net now m = Inr ?m" using st d w(1) by (simp add: poll_resolving_def Let_def)
  moreover have "poll_timeout net now ?m = Inl ?m"
    using due_soon [of MQTT_CONNECT_TIMEOUT_MS now] by (simp add: poll_timeout_def MQTT_CONNECT_TIMEOUT_MS_def)
  moreover have "poll_config net now m = m" "poll_connection net now m = Inr m" "poll_waiting net now m = Inr m"
    using c st by (simp_all add: poll_config_def poll_connection_def poll_waiting_def)
  ultimately have "app_mqtt_poll net now m = ?m" using st by (simp add: app_mqtt_poll_def)
  then show ?thesis using w(2) by (intro exI [where x = w] conjI)
qed

text \<open>\<open>xs\<close> is being sent; the publication of value \<open>i\<close> waits for its acknowledgement.\<close>

definition sending :: "('w \<Rightarrow> (string \<times> string) list) \<Rightarrow> (string \<times> string) list \<Rightarrow> measurement_sample list \<Rightarrow> nat \<Rightarrow> 'w mqtt \<Rightarrow> bool" where
  "sending trace before xs i m =
     (mt_state m = MQTT_CONNECTED \<and> \<not> mt_config_changed m \<and> \<not> mt_connection_changed m \<and> mt_publish_pending m \<and>
      mt_samples m = xs \<and> mt_sample_count m = length xs \<and> mt_sample_index m = i \<and> i < length xs \<and>
      trace (mt_net m) = before @ List.map (\<lambda>s. (sample_topic (mt_bridge_mac m) s, sample_text s)) (take (Suc i) xs))"

lemma publish_next:
  assumes net: "serves net mac trace" and fits: "\<forall>s\<in>set xs. length (sample_text s) < 32"
    and m: "mt_state m = MQTT_CONNECTED" "\<not> mt_config_changed m" "\<not> mt_connection_changed m" "\<not> mt_publish_pending m"
      "mt_samples m = xs" "mt_sample_count m = length xs" "mt_sample_index m = i" "i < length xs"
      "trace (mt_net m) = before @ List.map (\<lambda>s. (sample_topic (mt_bridge_mac m) s, sample_text s)) (take i xs)"
    and d: "\<not> time_due now (mt_deadline_ms m)"
  shows "sending trace before xs i (poll_publish net now m) \<and> mt_bridge_mac (poll_publish net now m) = mt_bridge_mac m \<and>
    mt_next_send_ms (poll_publish net now m) = mt_next_send_ms m"
proof -
  let ?s = "xs ! i"
  have "length (sample_text ?s) < 32" using fits m(8) by simp
  moreover obtain w where w: "mqtt_publish net (sample_topic (mt_bridge_mac m) ?s) (sample_text ?s) (mt_net m) = (w, ERR_OK)"
    "trace w = trace (mt_net m) @ [(sample_topic (mt_bridge_mac m) ?s, sample_text ?s)]"
    using servesD(5) [OF net] by blast
  ultimately have "poll_publish net now m = m\<lparr>mt_net := w, mt_publish_pending := True\<rparr>"
    using d m by (simp add: poll_publish_def Let_def)
  then show ?thesis using m w(2) by (simp add: sending_def take_Suc_conv_app_nth)
qed

definition acked :: "u32 \<Rightarrow> 'w mqtt \<Rightarrow> 'w mqtt" where
  "acked now m = m\<lparr>mt_publish_result := ERR_OK, mt_publish_done := False, mt_publish_pending := False,
     mt_sample_index := Suc (mt_sample_index m), mt_deadline_ms := now + MQTT_PUBLISH_TIMEOUT_MS\<rparr>"

lemma ack_poll:
  assumes net: "serves net mac trace" and fits: "\<forall>s\<in>set xs. length (sample_text s) < 32"
    and m: "sending trace before xs i m" and more: "Suc i < length xs"
  shows "sending trace before xs (Suc i) (app_mqtt_poll net now (publish_callback ERR_OK m)) \<and>
    mt_bridge_mac (app_mqtt_poll net now (publish_callback ERR_OK m)) = mt_bridge_mac m \<and>
    mt_next_send_ms (app_mqtt_poll net now (publish_callback ERR_OK m)) = mt_next_send_ms m"
proof -
  let ?m = "publish_callback ERR_OK m"
  have st: "mt_state m = MQTT_CONNECTED" "\<not> mt_config_changed m" "\<not> mt_connection_changed m"
    "mt_sample_index m = i" "mt_sample_count m = length xs" using m by (simp_all add: sending_def)
  have "poll_published net now ?m = Inr (acked now m)"
    using st more by (simp add: poll_published_def publish_callback_def acked_def Let_def)
  moreover have "poll_snapshot now (acked now m) = Inr (acked now m)"
    using st more by (auto simp: poll_snapshot_def acked_def)
  moreover have "poll_config net now ?m = ?m" "poll_connection net now ?m = Inr ?m" "poll_waiting net now ?m = Inr ?m"
    "poll_resolving net now ?m = Inr ?m" "poll_timeout net now ?m = Inr ?m" "mt_state ?m = MQTT_CONNECTED"
    using st by (simp_all add: publish_callback_def poll_config_def poll_connection_def poll_waiting_def poll_resolving_def poll_timeout_def)
  ultimately have p: "app_mqtt_poll net now ?m = poll_publish net now (acked now m)" by (simp add: app_mqtt_poll_def)
  have "\<not> time_due now (now + MQTT_PUBLISH_TIMEOUT_MS)" by (rule due_soon) (simp_all add: MQTT_PUBLISH_TIMEOUT_MS_def)
  then have "sending trace before xs (Suc i) (poll_publish net now (acked now m)) \<and>
      mt_bridge_mac (poll_publish net now (acked now m)) = mt_bridge_mac (acked now m) \<and>
      mt_next_send_ms (poll_publish net now (acked now m)) = mt_next_send_ms (acked now m)"
    using m more by (intro publish_next [OF net fits]) (simp_all add: sending_def acked_def)
  then show ?thesis unfolding p by (simp add: acked_def)
qed

lemma ack_last:
  assumes net: "serves net mac trace" and m: "sending trace before xs i m" and last: "Suc i = length xs"
    and later: "\<not> time_due now (mt_next_send_ms m)"
  shows "let m' = app_mqtt_poll net now (publish_callback ERR_OK m) in
    mt_state m' = MQTT_CONNECTED \<and> mt_sample_count m' = 0 \<and> mt_last_error m' = '''' \<and> mt_last_send_seconds m' = now div 1000 \<and>
    trace (mt_net m') = before @ List.map (\<lambda>s. (sample_topic (mt_bridge_mac m) s, sample_text s)) xs"
proof -
  let ?m = "publish_callback ERR_OK m"
  have st: "mt_state m = MQTT_CONNECTED" "\<not> mt_config_changed m" "\<not> mt_connection_changed m"
    "mt_sample_index m = i" "mt_sample_count m = length xs" using m by (simp_all add: sending_def)
  let ?f = "(acked now m)\<lparr>mt_last_send_seconds := now div 1000, mt_last_error := '''',
    mt_net := net_log net (''MQTT sent '' @ show_nat (length xs) @ '' values'') (mt_net m), mt_sample_count := 0\<rparr>"
  have "poll_published net now ?m = Inr ?f"
    using st last by (simp add: poll_published_def publish_callback_def acked_def Let_def)
  moreover have "poll_snapshot now ?f = Inl ?f" using later by (simp add: poll_snapshot_def acked_def)
  moreover have "poll_config net now ?m = ?m" "poll_connection net now ?m = Inr ?m" "poll_waiting net now ?m = Inr ?m"
    "poll_resolving net now ?m = Inr ?m" "poll_timeout net now ?m = Inr ?m" "mt_state ?m = MQTT_CONNECTED"
    using st by (simp_all add: publish_callback_def poll_config_def poll_connection_def poll_waiting_def poll_resolving_def poll_timeout_def)
  ultimately have p: "app_mqtt_poll net now ?m = ?f" by (simp add: app_mqtt_poll_def)
  show ?thesis unfolding p Let_def
    using st m last servesD(7) [OF net] by (simp add: sending_def acked_def)
qed

lemma acknowledged_sending:
  assumes net: "serves net mac trace" and fits: "\<forall>s\<in>set xs. length (sample_text s) < 32"
    and m: "sending trace before xs 0 m" and n: "n < length xs"
  shows "sending trace before xs n (acknowledged net clock n m) \<and>
    mt_bridge_mac (acknowledged net clock n m) = mt_bridge_mac m \<and> mt_next_send_ms (acknowledged net clock n m) = mt_next_send_ms m"
  using n
proof (induction n)
  case 0
  then show ?case using m by simp
next
  case (Suc n)
  then show ?case using ack_poll [OF net fits, of before n "acknowledged net clock n m" "clock n"] by simp
qed

lemma first_poll:
  assumes net: "serves net mac trace" and fits: "\<forall>s\<in>set xs. length (sample_text s) < 32" and xs: "xs \<noteq> []"
    and m: "\<not> mt_config_changed m" "mt_connection_changed m" "mt_connection_result m = MQTT_CONNECT_ACCEPTED"
      "\<not> mt_publish_done m" "\<not> mt_publish_pending m" "mt_sample_count m = 0" "mt_state m = MQTT_CONNECTING"
    and rows: "snd (measurement_store_snapshot MEASUREMENT_STORE_VIEW_SIZE now (mt_store m)) = xs"
  shows "sending trace (trace (mt_net m)) xs 0 (app_mqtt_poll net now m) \<and>
    mt_bridge_mac (app_mqtt_poll net now m) = mt_bridge_mac m \<and>
    mt_next_send_ms (app_mqtt_poll net now m) = now + of_nat (mq_interval_seconds (mt_config m)) * 1000"
proof -
  obtain store where snap: "measurement_store_snapshot MEASUREMENT_STORE_VIEW_SIZE now (mt_store m) = (store, xs)"
    using rows by (cases "measurement_store_snapshot MEASUREMENT_STORE_VIEW_SIZE now (mt_store m)") simp
  let ?c = "m\<lparr>mt_connection_changed := False, mt_state := MQTT_CONNECTED, mt_next_send_ms := now, mt_retry_ms := MQTT_RETRY_MIN_MS,
    mt_net := net_log net ''MQTT connected'' (mt_net m)\<rparr>"
  let ?d = "?c\<lparr>mt_store := store, mt_samples := xs, mt_sample_count := length xs, mt_sample_index := 0,
    mt_next_send_ms := now + of_nat (mq_interval_seconds (mt_config m)) * 1000,
    mt_deadline_ms := now + MQTT_PUBLISH_TIMEOUT_MS\<rparr>"
  have c: "poll_config net now m = m" using m by (simp add: poll_config_def)
  have p: "poll_connection net now m = Inr ?c" using m by (simp add: poll_connection_def Let_def)
  have q: "poll_waiting net now ?c = Inr ?c" "poll_resolving net now ?c = Inr ?c" "poll_timeout net now ?c = Inr ?c"
    "poll_published net now ?c = Inr ?c"
    using m by (simp_all add: poll_waiting_def poll_resolving_def poll_timeout_def poll_published_def)
  have s: "poll_snapshot now ?c = Inr ?d" using m xs snap by (simp add: poll_snapshot_def Let_def)
  have e: "app_mqtt_poll net now m = poll_publish net now ?d"
    by (simp only: app_mqtt_poll_def c Let_def m(7) app_mqtt_state.distinct if_False andThen_simps p q s)
  have t: "trace (mt_net ?d) = trace (mt_net m)" using servesD(7) [OF net] by simp
  have "\<not> time_due now (now + MQTT_PUBLISH_TIMEOUT_MS)" by (rule due_soon) (simp_all add: MQTT_PUBLISH_TIMEOUT_MS_def)
  then have "sending trace (trace (mt_net m)) xs 0 (poll_publish net now ?d) \<and>
      mt_bridge_mac (poll_publish net now ?d) = mt_bridge_mac ?d \<and> mt_next_send_ms (poll_publish net now ?d) = mt_next_send_ms ?d"
    using m xs t by (intro publish_next [OF net fits]) simp_all
  then show ?thesis unfolding e by simp
qed

lemma open_spec:
  assumes net: "serves net mac trace" and s: "silent m" and inv: "mqtt_inv m"
    and st: "mt_state m = MQTT_WAITING" and due: "time_due t0 (mt_next_connect_ms m)"
  shows "let c = session_open net t0 t1 a m in
    \<not> mt_config_changed c \<and> mt_connection_changed c \<and> mt_connection_result c = MQTT_CONNECT_ACCEPTED \<and>
    \<not> mt_publish_done c \<and> \<not> mt_publish_pending c \<and> mt_sample_count c = 0 \<and> mt_state c = MQTT_CONNECTING \<and>
    mt_store c = mt_store m \<and> mt_config c = mt_config m \<and> mt_bridge_mac c = bounded_copy 13 (format_mac mac) \<and>
    trace (mt_net c) = trace (mt_net m)"
proof -
  let ?m1 = "app_mqtt_poll net t0 m"
  have z: "mt_sample_count m = 0" "\<not> mt_publish_pending m" using inv st by (auto simp: mqtt_inv_def)
  obtain w1 where m1: "?m1 = m\<lparr>mt_client := True, mt_net := w1, mt_bridge_mac := bounded_copy 13 (format_mac mac),
      mt_client_id := bounded_copy 24 (''BLEB'' @ bounded_copy 13 (format_mac mac)), mt_state := MQTT_RESOLVING,
      mt_deadline_ms := t0 + MQTT_CONNECT_TIMEOUT_MS, mt_dns_done := False, mt_dns_generation := mt_dns_generation m + 1\<rparr>"
    "trace w1 = trace (mt_net m)"
    using lookup_starts [OF net s st due] by (elim exE conjE)
  have f1: "\<not> mt_config_changed ?m1" "\<not> mt_connection_changed ?m1" "\<not> mt_publish_done ?m1" "\<not> mt_publish_pending ?m1"
    "mt_sample_count ?m1 = 0" "mt_state ?m1 = MQTT_RESOLVING" "mt_store ?m1 = mt_store m" "mt_config ?m1 = mt_config m"
    "mt_bridge_mac ?m1 = bounded_copy 13 (format_mac mac)" "trace (mt_net ?m1) = trace (mt_net m)"
    using s z m1(2) unfolding m1(1) silent_def by simp_all
  let ?d = "dns_found (Some a) (mt_dns_generation ?m1) ?m1"
  have d: "?d = ?m1\<lparr>mt_dns_valid := True, mt_broker_address := a, mt_dns_done := True\<rparr>"
    by (simp add: dns_found_def f1)
  have dd: "\<not> mt_config_changed ?d" "\<not> mt_connection_changed ?d" "mt_state ?d = MQTT_RESOLVING" "mt_dns_done ?d" "mt_dns_valid ?d"
    unfolding d using f1 by simp_all
  obtain w2 where m2: "app_mqtt_poll net t1 ?d = ?d\<lparr>mt_dns_done := False, mt_state := MQTT_CONNECTING,
      mt_deadline_ms := t1 + MQTT_CONNECT_TIMEOUT_MS, mt_net := w2\<rparr>" "trace w2 = trace (mt_net ?d)"
    using connect_starts [OF net dd, of t1] by (elim exE conjE)
  have t: "trace w2 = trace (mt_net m)" using m2(2) f1 unfolding d by simp
  show ?thesis
    unfolding session_open_def Let_def m2(1) unfolding d connection_callback_def using f1 t by simp
qed

lemma acknowledged_shift: "acknowledged net clock (Suc n) m = app_mqtt_poll net (clock n) (publish_callback ERR_OK (acknowledged net clock n m))"
  by simp

subsection \<open>Properties\<close>

text \<open>
  Whatever the polls, callbacks and configurations, in any order: the sample that is published next
  exists, values are sent only while connected, the pause before the next attempt is one of five lengths
  up to a minute, the client id is no longer than the protocol allows, the topics are not cut off, and the
  error text can stand in the status JSON as it is.
\<close>

theorem mqtt_invariant:
  assumes "mqtt_reachable net m"
  shows "(mt_sample_count m \<noteq> 0 \<longrightarrow> mt_sample_index m < mt_sample_count m \<and> mt_state m = MQTT_CONNECTED) \<and>
    mt_sample_count m \<le> length (mt_samples m) \<and> (mt_publish_pending m \<longrightarrow> mt_sample_count m \<noteq> 0) \<and>
    mt_retry_ms m \<in> {5000, 10000, 20000, 40000, 60000} \<and> length (mt_client_id m) \<le> 23 \<and>
    sample_topic (mt_bridge_mac m) (d, f, v) =
      ''blebridge/'' @ mt_bridge_mac m @ ''/'' @ show_nat (unat d) @ ''/'' @ measurement_field_name f \<and>
    (\<forall>c\<in>set (app_mqtt_last_error m). 32 \<le> code c \<and> c \<noteq> CHR ''\"'' \<and> c \<noteq> CHR 0x5C)"
proof -
  have inv: "mqtt_inv m" by (rule mqtt_reachable_inv [OF assms])
  then have "length (mt_bridge_mac m) \<le> 12" by (simp add: mqtt_inv_def)
  note topic_fits [OF this, of d f v]
  then show ?thesis using inv by (simp add: mqtt_inv_def retry_steps_def plain_text_def app_mqtt_last_error_def)
qed

text \<open>
  C37: the client is never stuck.  When the network stays silent up to the deadline, in a lookup, while
  connecting or while a value waits for its acknowledgement, the poll gives the attempt up, waits for the
  current pause, doubles it up to a minute, and a late answer to the lookup is ignored.
\<close>

theorem mqtt_recovers:
  assumes "mqtt_reachable net m" and "silent m" and "time_due now (mt_deadline_ms m)"
    and "mt_state m = MQTT_RESOLVING \<or> mt_state m = MQTT_CONNECTING \<or> mt_state m = MQTT_CONNECTED \<and> mt_publish_pending m"
  shows "let m' = app_mqtt_poll net now m in
    mt_state m' = MQTT_WAITING \<and> mt_next_connect_ms m' = now + mt_retry_ms m \<and> mt_retry_ms m' = min 60000 (2 * mt_retry_ms m) \<and>
    app_mqtt_last_error m' \<noteq> '''' \<and> dns_found a (mt_dns_generation m) m' = m'"
  using silent_timeout [OF mqtt_reachable_inv [OF assms(1)] assms(2,4,3), of net]
  by (simp add: Let_def waits_again_def doubled_def app_mqtt_last_error_def dns_found_def)


text \<open>A network that only keeps what was published.\<close>

definition log_net :: "(string \<times> string) list mqtt_net" where
  "log_net = \<lparr>mqtt_client_new = (\<lambda>w. (w, True)), wifi_get_mac = (\<lambda>w. (w, Some [1, 2, 3, 4, 5, 6])),
     dns_gethostbyname = (\<lambda>h g w. (w, ERR_INPROGRESS, 0)), mqtt_client_connect = (\<lambda>a p i u pw w. (w, ERR_OK)),
     mqtt_publish = (\<lambda>t v w. (w @ [(t, v)], ERR_OK)), mqtt_disconnect = (\<lambda>w. w), net_log = (\<lambda>s w. w)\<rparr>"

lemma log_net_serves: "serves log_net [1, 2, 3, 4, 5, 6] (\<lambda>w. w)"
  by (simp add: serves_def log_net_def)

definition mqtt_example_config :: app_mqtt_config where
  "mqtt_example_config = \<lparr>mq_enabled = True, mq_host = ''broker'', mq_port = 1883, mq_interval_seconds = 60,
     mq_username = '''', mq_password = ''''\<rparr>"

text \<open>Configured at boot, in the middle of a lookup, and after the lookup failed.\<close>

definition mqtt_looking_up :: "(string \<times> string) list mqtt" where
  "mqtt_looking_up = app_mqtt_poll log_net (- 4500) (app_mqtt_apply_config mqtt_example_config (mqtt_boot sample_store []))"

definition mqtt_failed :: "(string \<times> string) list mqtt" where
  "mqtt_failed = app_mqtt_poll log_net (- 4500) (dns_found None 2 mqtt_looking_up)"

lemma looking_up_reachable: "mqtt_reachable log_net mqtt_looking_up"
  unfolding mqtt_looking_up_def by (intro mqtt_reachable.poll mqtt_reachable.config mqtt_reachable.boot)

lemma failed_reachable: "mqtt_reachable log_net mqtt_failed"
  unfolding mqtt_failed_def by (intro mqtt_reachable.poll mqtt_reachable.dns looking_up_reachable)

lemmas mqtt_eval = app_mqtt_poll_def poll_config_def poll_connection_def poll_waiting_def start_lookup_def poll_resolving_def
  poll_timeout_def poll_published_def disconnect_client_def Let_def log_net_def ERR_OK_def ERR_INPROGRESS_def
  MQTT_RETRY_MIN_MS_def MQTT_CONNECT_TIMEOUT_MS_def MQTT_RETRY_MAX_MS_def

lemma looking_up:
  "mt_state mqtt_looking_up = MQTT_RESOLVING" "mt_dns_generation mqtt_looking_up = 2" "mt_deadline_ms mqtt_looking_up = 10500"
  "mt_retry_ms mqtt_looking_up = 5000" "silent mqtt_looking_up" "mt_store mqtt_looking_up = sample_store"
  "mt_net mqtt_looking_up = []" "mt_config mqtt_looking_up = mqtt_example_config" "mt_client mqtt_looking_up"
proof -
  have "\<not> time_due (-4500) 10500" by (simp add: time_due_def)
  then show "mt_state mqtt_looking_up = MQTT_RESOLVING" "mt_dns_generation mqtt_looking_up = 2" "mt_deadline_ms mqtt_looking_up = 10500"
  "mt_retry_ms mqtt_looking_up = 5000" "silent mqtt_looking_up" "mt_store mqtt_looking_up = sample_store"
  "mt_net mqtt_looking_up = []" "mt_config mqtt_looking_up = mqtt_example_config" "mt_client mqtt_looking_up"
    by (simp_all add: mqtt_looking_up_def mqtt_eval mqtt_boot_def app_mqtt_apply_config_def mqtt_example_config_def silent_def)
qed

lemma failed_wait:
  "mt_state mqtt_failed = MQTT_WAITING" "mt_next_connect_ms mqtt_failed = 500" "silent mqtt_failed" "mt_store mqtt_failed = sample_store"
  "mt_net mqtt_failed = []" "mt_config mqtt_failed = mqtt_example_config"
proof -
  let ?m = "mqtt_looking_up\<lparr>mt_dns_valid := False, mt_dns_done := True\<rparr>"
  have d: "dns_found None 2 mqtt_looking_up = ?m" by (simp add: dns_found_def looking_up)
  have s: "poll_config log_net (- 4500) ?m = ?m" "poll_connection log_net (- 4500) ?m = Inr ?m" "poll_waiting log_net (- 4500) ?m = Inr ?m"
    using looking_up by (simp_all add: silent_def poll_config_def poll_connection_def poll_waiting_def)
  have e: "mqtt_failed = retry_later log_net (- 4500) ''DNS lookup failed'' ERR_VAL (?m\<lparr>mt_dns_done := False\<rparr>)"
    unfolding mqtt_failed_def d app_mqtt_poll_def s(1,2) Let_def using looking_up by (simp add: s(3) poll_resolving_def Let_def)
  show "mt_state mqtt_failed = MQTT_WAITING" "mt_next_connect_ms mqtt_failed = 500" "silent mqtt_failed"
    "mt_store mqtt_failed = sample_store" "mt_net mqtt_failed = []" "mt_config mqtt_failed = mqtt_example_config"
    unfolding e retry_later_eq using looking_up by (simp_all add: disconnect_client_def silent_def log_net_def)
qed

theorem mqtt_invariant_witness:
  "mt_state mqtt_failed = MQTT_WAITING \<and> mt_retry_ms mqtt_failed \<in> {5000, 10000, 20000, 40000, 60000} \<and>
   length (mt_client_id mqtt_failed) \<le> 23"
  using mqtt_invariant [OF failed_reachable, of 0 MEASUREMENT_FIELD_BATTERY 0] failed_wait(1) by blast

theorem mqtt_recovers_witness:
  "mt_state (app_mqtt_poll log_net 20000 mqtt_looking_up) = MQTT_WAITING \<and>
   mt_next_connect_ms (app_mqtt_poll log_net 20000 mqtt_looking_up) = 25000 \<and>
   mt_retry_ms (app_mqtt_poll log_net 20000 mqtt_looking_up) = 10000"
proof -
  have "time_due 20000 (mt_deadline_ms mqtt_looking_up)" by (simp add: looking_up time_due_def)
  then show ?thesis
    using mqtt_recovers [OF looking_up_reachable looking_up(5), of 20000 None] looking_up by (simp add: Let_def min_def)
qed

lemma sample_snapshot: "snd (measurement_store_snapshot 150 1000 (mt_store mqtt_failed)) = [(11, MEASUREMENT_FIELD_BATTERY, 87)]"
proof -
  have r: "snapshot_rows c (replicate n empty_view_entry) = []" for c n
  proof (induction n arbitrary: c)
    case 0
    show ?case by (cases c) simp_all
  next
    case (Suc n)
    then show ?case by (cases c) (simp_all add: empty_view_entry_def)
  qed
  have n: "(150 :: nat) = Suc 149" by simp
  show ?thesis unfolding measurement_store_snapshot_def failed_wait(4) Let_def snd_conv sample_view n
    by (simp only: snapshot_rows.simps r measurement_view_entry.select_convs if_True)
qed


end
