(* ===== verification/Narodmon.thy ===== *)
theory Narodmon
  imports Mqtt_Client
begin

text \<open>
  \<^verbatim>\<open>app_narodmon.c\<close>: the client that sends the measurements to narodmon.ru.  lwIP, the Wi-Fi driver and the
  log are the parameter \<open>net\<close>; the callbacks are operations of their own.  The buffer of a payload that
  could not be built is not kept, since nothing reads it.
\<close>


subsection \<open>Data\<close>

definition APP_NARODMON_HOST :: string where "APP_NARODMON_HOST = ''narodmon.ru''"
definition APP_NARODMON_PORT :: nat where "APP_NARODMON_PORT = 8283"
definition APP_NARODMON_TIMEOUT_MS :: u32 where "APP_NARODMON_TIMEOUT_MS = 10000"
definition APP_NARODMON_DEVICE_ID_LEN :: nat where "APP_NARODMON_DEVICE_ID_LEN = 17"

definition ERR_ABRT :: int where "ERR_ABRT = -13"
definition ERR_CLSD :: int where "ERR_CLSD = -15"

text \<open>The functions of lwIP, of the Wi-Fi driver and of the log; there is one connection at a time.\<close>

record 'w tcp_net =
  nt_gethostbyname :: "string \<Rightarrow> 'w \<Rightarrow> 'w \<times> int \<times> ip_addr"
  nt_wifi_mac :: "'w \<Rightarrow> 'w \<times> u8 list option"
  tcp_new :: "'w \<Rightarrow> 'w \<times> bool"
  tcp_connect :: "ip_addr \<Rightarrow> nat \<Rightarrow> 'w \<Rightarrow> 'w \<times> int"
  tcp_sndbuf :: "'w \<Rightarrow> nat"
  tcp_write :: "string \<Rightarrow> 'w \<Rightarrow> 'w \<times> int"
  tcp_output :: "'w \<Rightarrow> 'w \<times> int"
  tcp_recved :: "nat \<Rightarrow> 'w \<Rightarrow> 'w"
  tcp_close :: "'w \<Rightarrow> 'w \<times> int"
  tcp_abort :: "'w \<Rightarrow> 'w"
  nt_log :: "string \<Rightarrow> 'w \<Rightarrow> 'w"

datatype app_narodmon_log_event = APP_NARODMON_LOG_NONE | APP_NARODMON_LOG_DNS_ERROR | APP_NARODMON_LOG_CONNECT_ERROR
  | APP_NARODMON_LOG_WRITE_ERROR | APP_NARODMON_LOG_RECV_ERROR | APP_NARODMON_LOG_TCP_ERROR | APP_NARODMON_LOG_SEND_OK

text \<open>\<^verbatim>\<open>app_narodmon_state\<close> and \<^verbatim>\<open>app_narodmon_pending_log\<close>, with the store that is read and the world outside.\<close>

record 'w narodmon =
  nd_pcb :: bool
  nd_busy :: bool
  nd_dns_pending :: bool
  nd_connected :: bool
  nd_payload :: string
  nd_payload_len :: nat
  nd_sent_offset :: nat
  nd_deadline_ms :: u32
  nd_log_event :: app_narodmon_log_event
  nd_log_error :: int
  nd_log_payload_len :: nat
  nd_store :: measurement_store
  nd_net :: 'w

subsection \<open>The deferred log\<close>

definition app_narodmon_defer_log :: "app_narodmon_log_event \<Rightarrow> int \<Rightarrow> nat \<Rightarrow> 'w narodmon \<Rightarrow> 'w narodmon" where
  "app_narodmon_defer_log event error payload_len m =
     m\<lparr>nd_log_event := event, nd_log_error := error, nd_log_payload_len := payload_len\<rparr>"

fun narodmon_log_text :: "app_narodmon_log_event \<Rightarrow> int \<Rightarrow> nat \<Rightarrow> string option" where
  "narodmon_log_text APP_NARODMON_LOG_DNS_ERROR error payload_len = Some ''Narodmon send failed: DNS lookup error''"
| "narodmon_log_text APP_NARODMON_LOG_CONNECT_ERROR error payload_len = Some (''Narodmon send failed: connect error '' @ show_int error)"
| "narodmon_log_text APP_NARODMON_LOG_WRITE_ERROR error payload_len = Some (''Narodmon send failed: tcp_write error '' @ show_int error)"
| "narodmon_log_text APP_NARODMON_LOG_RECV_ERROR error payload_len = Some (''Narodmon send failed: recv error '' @ show_int error)"
| "narodmon_log_text APP_NARODMON_LOG_TCP_ERROR error payload_len = Some (''Narodmon send failed: tcp error '' @ show_int error)"
| "narodmon_log_text APP_NARODMON_LOG_SEND_OK error payload_len = Some (''Narodmon send OK: '' @ show_nat payload_len @ '' bytes'')"
| "narodmon_log_text APP_NARODMON_LOG_NONE error payload_len = None"

definition nd_say :: "'w tcp_net \<Rightarrow> string \<Rightarrow> 'w narodmon \<Rightarrow> 'w narodmon" where
  "nd_say net s m = m\<lparr>nd_net := nt_log net s (nd_net m)\<rparr>"

definition app_narodmon_flush_log :: "'w tcp_net \<Rightarrow> 'w narodmon \<Rightarrow> 'w narodmon" where
  "app_narodmon_flush_log net m =
     (let event = nd_log_event m; error = nd_log_error m; payload_len = nd_log_payload_len m;
          m1 = m\<lparr>nd_log_event := APP_NARODMON_LOG_NONE\<rparr>
      in case narodmon_log_text event error payload_len of None \<Rightarrow> m1 | Some s \<Rightarrow> nd_say net s m1)"

subsection \<open>The connection\<close>

definition app_narodmon_reset_state :: "'w narodmon \<Rightarrow> 'w narodmon" where
  "app_narodmon_reset_state m =
     m\<lparr>nd_pcb := False, nd_busy := False, nd_dns_pending := False, nd_connected := False, nd_payload := '''',
       nd_payload_len := 0, nd_sent_offset := 0, nd_deadline_ms := 0\<rparr>"

definition app_narodmon_err_cb :: "int \<Rightarrow> 'w narodmon \<Rightarrow> 'w narodmon" where
  "app_narodmon_err_cb err m =
     app_narodmon_reset_state (app_narodmon_defer_log APP_NARODMON_LOG_TCP_ERROR err 0 (m\<lparr>nd_pcb := False\<rparr>))"

text \<open>\<^verbatim>\<open>tcp_abort\<close> of a connection whose error callback is set calls it, as lwIP documents.\<close>

definition abort_connection :: "'w tcp_net \<Rightarrow> 'w narodmon \<Rightarrow> 'w narodmon" where
  "abort_connection net m = app_narodmon_err_cb ERR_ABRT (m\<lparr>nd_net := tcp_abort net (nd_net m)\<rparr>)"

text \<open>Closing after the callbacks were taken off.\<close>

definition close_connection :: "'w tcp_net \<Rightarrow> 'w narodmon \<Rightarrow> 'w narodmon" where
  "close_connection net m =
     (case tcp_close net (nd_net m) of
        (w, err) \<Rightarrow> if err \<noteq> ERR_OK then m\<lparr>nd_net := tcp_abort net w\<rparr> else m\<lparr>nd_net := w\<rparr>)"

definition app_narodmon_finish :: "'w tcp_net \<Rightarrow> bool \<Rightarrow> bool \<Rightarrow> 'w narodmon \<Rightarrow> 'w narodmon" where
  "app_narodmon_finish net ok has_message m =
     (let payload_len = nd_payload_len m;
          m1 = (if nd_pcb m then close_connection net m else m);
          m2 = (if has_message \<and> ok then app_narodmon_defer_log APP_NARODMON_LOG_SEND_OK 0 payload_len m1 else m1)
      in app_narodmon_reset_state m2)"

definition app_narodmon_send_next_chunk :: "'w tcp_net \<Rightarrow> 'w narodmon \<Rightarrow> 'w narodmon \<times> int" where
  "app_narodmon_send_next_chunk net m =
     (if \<not> nd_pcb m then (m, ERR_CLSD) else
      let remaining = (nd_payload_len m + 2 ^ 16 - nd_sent_offset m) mod 2 ^ 16
      in if remaining = 0 then (m, ERR_OK) else
         let chunk_len = min (tcp_sndbuf net (nd_net m) mod 2 ^ 16) remaining
         in if chunk_len = 0 then (m, ERR_OK)
            else case tcp_write net (take chunk_len (drop (nd_sent_offset m) (nd_payload m))) (nd_net m) of
                   (w, err) \<Rightarrow>
                     if err \<noteq> ERR_OK then (m\<lparr>nd_net := w\<rparr>, err)
                     else
                       let m1 = m\<lparr>nd_sent_offset := (nd_sent_offset m + chunk_len) mod 2 ^ 16\<rparr>
                       in case tcp_output net w of (w2, err2) \<Rightarrow> (m1\<lparr>nd_net := w2\<rparr>, err2))"

subsection \<open>The payload\<close>

definition app_narodmon_get_device_id :: "'w tcp_net \<Rightarrow> nat \<Rightarrow> 'w \<Rightarrow> 'w \<times> string option" where
  "app_narodmon_get_device_id net buffer_len w =
     (if buffer_len < APP_NARODMON_DEVICE_ID_LEN then (w, None)
      else case nt_wifi_mac net w of
             (w1, None) \<Rightarrow> (w1, None)
           | (w1, Some mac) \<Rightarrow>
               let s = ''BLEB'' @ concat (List.map show_hex2 mac)
               in (w1, if length s = APP_NARODMON_DEVICE_ID_LEN - 1 then Some s else None))"

definition app_narodmon_write_header :: "'w tcp_net \<Rightarrow> nat \<Rightarrow> 'w \<Rightarrow> 'w \<times> string option" where
  "app_narodmon_write_header net payload_size w =
     (case app_narodmon_get_device_id net APP_NARODMON_DEVICE_ID_LEN w of
        (w1, None) \<Rightarrow> (w1, None)
      | (w1, Some device_id) \<Rightarrow>
          let s = ''#'' @ device_id @ [CHR 0x0A] in (w1, if length s \<ge> payload_size then None else Some s))"

text \<open>The bytes in the buffer; \<open>None\<close> for \<open>-1\<close>, the empty text for \<open>0\<close>.\<close>

definition app_narodmon_build_payload :: "'w tcp_net \<Rightarrow> u32 \<Rightarrow> nat \<Rightarrow> 'w narodmon \<Rightarrow> 'w narodmon \<times> string option" where
  "app_narodmon_build_payload net now_ms buffer_len m =
     (let uptime_seconds = unat ((now_ms + 500) div 1000)
      in if buffer_len = 0 then (m, None)
         else case app_narodmon_write_header net buffer_len (nd_net m) of
                (w, None) \<Rightarrow> (m\<lparr>nd_net := w\<rparr>, None)
              | (w, Some header) \<Rightarrow>
                  let m1 = m\<lparr>nd_net := w\<rparr>;
                      metrics = measurement_store_build_narodmon_payload (buffer_len - length header) uptime_seconds (nd_store m1)
                  in if metrics = '''' then (m1, Some '''')
                     else if length header + length metrics + 3 > buffer_len then (m1, None)
                     else (m1, Some (header @ metrics @ ''##'')))"

subsection \<open>Callbacks\<close>

definition app_narodmon_start_connect :: "'w tcp_net \<Rightarrow> ip_addr \<Rightarrow> 'w narodmon \<Rightarrow> 'w narodmon \<times> bool" where
  "app_narodmon_start_connect net ipaddr m =
     (case tcp_new net (nd_net m) of
        (w, False) \<Rightarrow>
          (app_narodmon_reset_state (app_narodmon_defer_log APP_NARODMON_LOG_CONNECT_ERROR ERR_MEM 0 (m\<lparr>nd_pcb := False, nd_net := w\<rparr>)), False)
      | (w, True) \<Rightarrow>
          let m1 = m\<lparr>nd_pcb := True, nd_net := w\<rparr>
          in case tcp_connect net ipaddr APP_NARODMON_PORT (nd_net m1) of
               (w2, err) \<Rightarrow>
                 let m2 = m1\<lparr>nd_net := w2\<rparr>
                 in if err \<noteq> ERR_OK
                    then (app_narodmon_reset_state (abort_connection net (app_narodmon_defer_log APP_NARODMON_LOG_CONNECT_ERROR err 0 m2)), False)
                    else (m2, True))"

definition app_narodmon_dns_found_cb :: "'w tcp_net \<Rightarrow> ip_addr option \<Rightarrow> 'w narodmon \<Rightarrow> 'w narodmon" where
  "app_narodmon_dns_found_cb net ipaddr m =
     (if \<not> nd_busy m then m else
      let m1 = m\<lparr>nd_dns_pending := False\<rparr>
      in case ipaddr of
           None \<Rightarrow> app_narodmon_reset_state (app_narodmon_defer_log APP_NARODMON_LOG_DNS_ERROR 0 0 m1)
         | Some ip \<Rightarrow> fst (app_narodmon_start_connect net ip m1))"

definition app_narodmon_connected_cb :: "'w tcp_net \<Rightarrow> int \<Rightarrow> 'w narodmon \<Rightarrow> 'w narodmon \<times> int" where
  "app_narodmon_connected_cb net err m =
     (if err \<noteq> ERR_OK
      then (app_narodmon_finish net False False (app_narodmon_defer_log APP_NARODMON_LOG_CONNECT_ERROR err 0 m), err)
      else case app_narodmon_send_next_chunk net (m\<lparr>nd_connected := True\<rparr>) of
             (m1, err1) \<Rightarrow>
               if err1 \<noteq> ERR_OK
               then (app_narodmon_finish net False False (app_narodmon_defer_log APP_NARODMON_LOG_WRITE_ERROR err1 0 m1), err1)
               else (m1, err1))"

definition app_narodmon_sent_cb :: "'w tcp_net \<Rightarrow> 'w narodmon \<Rightarrow> 'w narodmon \<times> int" where
  "app_narodmon_sent_cb net m =
     (if nd_sent_offset m \<ge> nd_payload_len m then (app_narodmon_finish net True True m, ERR_OK)
      else case app_narodmon_send_next_chunk net m of
             (m1, err) \<Rightarrow>
               if err \<noteq> ERR_OK
               then (app_narodmon_finish net False False (app_narodmon_defer_log APP_NARODMON_LOG_WRITE_ERROR err 0 m1), err)
               else (m1, err))"

text \<open>\<open>p\<close> is the length of the received data, \<open>None\<close> when the other side closed.\<close>

definition app_narodmon_recv_cb :: "'w tcp_net \<Rightarrow> nat option \<Rightarrow> int \<Rightarrow> 'w narodmon \<Rightarrow> 'w narodmon \<times> int" where
  "app_narodmon_recv_cb net p err m =
     (let m1 = (case p of None \<Rightarrow> m | Some n \<Rightarrow> m\<lparr>nd_net := tcp_recved net n (nd_net m)\<rparr>)
      in if err \<noteq> ERR_OK
         then (app_narodmon_finish net False False (app_narodmon_defer_log APP_NARODMON_LOG_RECV_ERROR err 0 m1), err)
         else (m1, ERR_OK))"

definition app_narodmon_poll_cb :: "'w narodmon \<Rightarrow> 'w narodmon \<times> int" where
  "app_narodmon_poll_cb m = (m, ERR_OK)"

subsection \<open>Starting and polling\<close>

definition app_narodmon_start_send :: "'w tcp_net \<Rightarrow> u32 \<Rightarrow> 'w narodmon \<Rightarrow> 'w narodmon \<times> bool" where
  "app_narodmon_start_send net now_ms m =
     (if nd_busy m then (m, False) else
      case app_narodmon_build_payload net now_ms APP_NARODMON_PAYLOAD_MAX_LEN (nd_say net ''Narodmon payload build started'' m) of
        (m1, None) \<Rightarrow> (nd_say net ''Narodmon send skipped: unable to build payload'' m1, False)
      | (m1, Some payload) \<Rightarrow>
          if payload = '''' then (nd_say net ''Narodmon send skipped: no measurements'' m1, False)
          else
            let m2 = m1\<lparr>nd_payload := payload, nd_busy := True, nd_payload_len := length payload mod 2 ^ 16, nd_sent_offset := 0,
                       nd_deadline_ms := now_ms + APP_NARODMON_TIMEOUT_MS\<rparr>;
                m3 = nd_say net (''Narodmon send started: '' @ show_nat (nd_payload_len m2) @ '' bytes'') m2
            in case nt_gethostbyname net APP_NARODMON_HOST (nd_net m3) of
                 (w, err, resolved_ip) \<Rightarrow>
                   let m4 = m3\<lparr>nd_net := w\<rparr>
                   in if err = ERR_OK then app_narodmon_start_connect net resolved_ip m4
                      else if err = ERR_INPROGRESS then (m4\<lparr>nd_dns_pending := True\<rparr>, True)
                      else (app_narodmon_reset_state (nd_say net (''Narodmon send failed: DNS lookup error '' @ show_int err) m4), False))"

definition app_narodmon_poll :: "'w tcp_net \<Rightarrow> u32 \<Rightarrow> 'w narodmon \<Rightarrow> 'w narodmon" where
  "app_narodmon_poll net now_ms m =
     (let m1 = app_narodmon_flush_log net m
      in if \<not> nd_busy m1 then m1
         else if time_due now_ms (nd_deadline_ms m1) then
           let m2 = nd_say net ''Narodmon send failed: timeout'' m1;
               m3 = (if nd_pcb m2 then (abort_connection net m2)\<lparr>nd_pcb := False\<rparr> else m2)
           in app_narodmon_reset_state m3
         else m1)"

text \<open>The state at the start of the program.\<close>

definition narodmon_init :: "measurement_store \<Rightarrow> 'w \<Rightarrow> 'w narodmon" where
  "narodmon_init store w =
     \<lparr>nd_pcb = False, nd_busy = False, nd_dns_pending = False, nd_connected = False, nd_payload = '''', nd_payload_len = 0,
      nd_sent_offset = 0, nd_deadline_ms = 0, nd_log_event = APP_NARODMON_LOG_NONE, nd_log_error = 0, nd_log_payload_len = 0,
      nd_store = store, nd_net = w\<rparr>"

subsection \<open>What is promised of the connection\<close>

text \<open>\<open>sent w\<close> is what the open connection accepted so far; only \<^verbatim>\<open>tcp_write\<close> adds to it.\<close>

definition tcp_laws :: "'w tcp_net \<Rightarrow> ('w \<Rightarrow> string) \<Rightarrow> bool" where
  "tcp_laws net sent =
     ((\<forall>s w. sent (fst (tcp_write net s w)) = sent w @ (if snd (tcp_write net s w) = ERR_OK then s else '''')) \<and>
      (\<forall>w. snd (tcp_new net w) \<longrightarrow> sent (fst (tcp_new net w)) = '''') \<and>
      (\<forall>a p w. sent (fst (tcp_connect net a p w)) = sent w) \<and> (\<forall>w. sent (fst (tcp_output net w)) = sent w) \<and>
      (\<forall>n w. sent (tcp_recved net n w) = sent w) \<and> (\<forall>w. sent (fst (tcp_close net w)) = sent w) \<and>
      (\<forall>w. sent (tcp_abort net w) = sent w) \<and> (\<forall>s w. sent (nt_log net s w) = sent w))"

definition narodmon_inv :: "('w \<Rightarrow> string) \<Rightarrow> 'w narodmon \<Rightarrow> bool" where
  "narodmon_inv sent m =
     (if nd_busy m
      then nd_payload_len m = length (nd_payload m) \<and> 0 < length (nd_payload m) \<and> length (nd_payload m) < 4096 \<and>
        nd_sent_offset m \<le> nd_payload_len m \<and>
        (if nd_pcb m then \<not> nd_dns_pending m \<and> sent (nd_net m) = take (nd_sent_offset m) (nd_payload m)
         else nd_dns_pending m \<and> nd_sent_offset m = 0)
      else \<not> nd_pcb m \<and> \<not> nd_dns_pending m \<and> nd_payload m = '''' \<and> nd_payload_len m = 0 \<and> nd_sent_offset m = 0)"

lemma reset_simps [simp]:
  "nd_net (app_narodmon_reset_state m) = nd_net m" "nd_busy (app_narodmon_reset_state m) = False"
  "nd_log_event (app_narodmon_reset_state m) = nd_log_event m" "nd_log_payload_len (app_narodmon_reset_state m) = nd_log_payload_len m"
  "narodmon_inv sent (app_narodmon_reset_state m)"
  by (simp_all add: app_narodmon_reset_state_def narodmon_inv_def)

lemma defer_simps [simp]:
  "nd_net (app_narodmon_defer_log e r n m) = nd_net m" "nd_log_event (app_narodmon_defer_log e r n m) = e"
  "nd_log_payload_len (app_narodmon_defer_log e r n m) = n"
  by (simp_all add: app_narodmon_defer_log_def)

lemma narodmon_finish_idle [simp]: "nd_busy (app_narodmon_finish net ok msg m) = False" "narodmon_inv sent (app_narodmon_finish net ok msg m)"
  by (simp_all add: app_narodmon_finish_def Let_def)

lemma err_idle [simp]: "narodmon_inv sent (app_narodmon_err_cb err m)" "narodmon_inv sent (abort_connection net m)"
  by (simp_all add: abort_connection_def app_narodmon_err_cb_def)

lemma laws_keep:
  assumes "tcp_laws net sent"
  shows "sent (nt_log net s w) = sent w" "sent (fst (tcp_connect net a p w)) = sent w" "sent (tcp_recved net n w) = sent w"
    "sent (fst (tcp_close net w)) = sent w" "sent (tcp_abort net w) = sent w" "sent (fst (tcp_output net w)) = sent w"
    "snd (tcp_new net w) \<Longrightarrow> sent (fst (tcp_new net w)) = ''''"
    "sent (fst (tcp_write net s w)) = sent w @ (if snd (tcp_write net s w) = ERR_OK then s else '''')"
  using assms unfolding tcp_laws_def by blast+

lemma send_next_chunk_inv:
  assumes "tcp_laws net sent" "narodmon_inv sent m" "nd_busy m" "nd_pcb m" "app_narodmon_send_next_chunk net m = (m1, ERR_OK)"
  shows "narodmon_inv sent m1 \<and> nd_busy m1 \<and> nd_pcb m1 \<and> nd_payload m1 = nd_payload m \<and>
    nd_sent_offset m1 = nd_sent_offset m + min (tcp_sndbuf net (nd_net m) mod 2 ^ 16) (length (nd_payload m) - nd_sent_offset m)"
proof -
  have i: "nd_payload_len m = length (nd_payload m)" "length (nd_payload m) < 4096" "nd_sent_offset m \<le> length (nd_payload m)"
    "sent (nd_net m) = take (nd_sent_offset m) (nd_payload m)"
    using assms(2,3,4) by (auto simp: narodmon_inv_def)
  have "(nd_payload_len m + 2 ^ 16 - nd_sent_offset m) mod 2 ^ 16 = (length (nd_payload m) - nd_sent_offset m + 2 ^ 16) mod 2 ^ 16"
    using i by simp
  then have r: "(nd_payload_len m + 2 ^ 16 - nd_sent_offset m) mod 2 ^ 16 = length (nd_payload m) - nd_sent_offset m"
    using i(2) by (simp only: mod_add_self2) simp
  let ?n = "min (tcp_sndbuf net (nd_net m) mod 2 ^ 16) (length (nd_payload m) - nd_sent_offset m)"
  show ?thesis
  proof (cases "?n = 0")
    case True
    then have "m1 = m" using assms(4,5) unfolding app_narodmon_send_next_chunk_def r Let_def by (auto split: if_splits)
    then show ?thesis using assms(2,3,4) True by simp
  next
    case False
    let ?c = "take ?n (drop (nd_sent_offset m) (nd_payload m))"
    obtain w err where w: "tcp_write net ?c (nd_net m) = (w, err)" by fastforce
    obtain w2 err2 where w2: "tcp_output net w = (w2, err2)" by fastforce
    have f: "(length (nd_payload m) - nd_sent_offset m = 0) = False" "(?n = 0) = False" "(\<not> nd_pcb m) = False"
      using False assms(4) by simp_all
    have "app_narodmon_send_next_chunk net m = (if err \<noteq> ERR_OK then (m\<lparr>nd_net := w\<rparr>, err)
        else (m\<lparr>nd_sent_offset := (nd_sent_offset m + ?n) mod 2 ^ 16, nd_net := w2\<rparr>, err2))"
      unfolding app_narodmon_send_next_chunk_def Let_def r f if_False w prod.case w2 by (rule refl)
    then have m1: "err = ERR_OK" "m1 = m\<lparr>nd_sent_offset := (nd_sent_offset m + ?n) mod 2 ^ 16, nd_net := w2\<rparr>"
      using assms(5) by (cases "err = ERR_OK"; simp)+
    have "sent (fst (tcp_output net w)) = sent w" "sent (fst (tcp_write net ?c (nd_net m))) = sent (nd_net m) @ ?c"
      using laws_keep(6) [OF assms(1), of w] laws_keep(8) [OF assms(1), of ?c "nd_net m"] unfolding w m1(1) snd_conv by simp_all
    then have "sent w2 = take (nd_sent_offset m + ?n) (nd_payload m)" using i(4) by (simp only: w w2 fst_conv take_add)
    moreover have "(nd_sent_offset m + ?n) mod 2 ^ 16 = nd_sent_offset m + ?n" "nd_sent_offset m + ?n \<le> length (nd_payload m)"
      using i by simp_all
    ultimately have "narodmon_inv sent m1" using assms(2,3,4) unfolding m1(2) narodmon_inv_def by simp
    then show ?thesis using assms(3,4) \<open>(nd_sent_offset m + ?n) mod 2 ^ 16 = nd_sent_offset m + ?n\<close> unfolding m1(2) by simp
  qed
qed

text \<open>The events, in any order.  A callback of the connection needs a connection, the one of the resolver a query.\<close>

inductive narodmon_reachable :: "'w tcp_net \<Rightarrow> ('w \<Rightarrow> string) \<Rightarrow> 'w narodmon \<Rightarrow> bool" for net sent where
  init: "narodmon_reachable net sent (narodmon_init store w)"
| start: "narodmon_reachable net sent m \<Longrightarrow> narodmon_reachable net sent (fst (app_narodmon_start_send net now m))"
| poll: "narodmon_reachable net sent m \<Longrightarrow> narodmon_reachable net sent (app_narodmon_poll net now m)"
| dns: "narodmon_reachable net sent m \<Longrightarrow> nd_dns_pending m \<Longrightarrow> narodmon_reachable net sent (app_narodmon_dns_found_cb net a m)"
| connected: "narodmon_reachable net sent m \<Longrightarrow> nd_pcb m \<Longrightarrow> narodmon_reachable net sent (fst (app_narodmon_connected_cb net err m))"
| acked: "narodmon_reachable net sent m \<Longrightarrow> nd_pcb m \<Longrightarrow> narodmon_reachable net sent (fst (app_narodmon_sent_cb net m))"
| received: "narodmon_reachable net sent m \<Longrightarrow> nd_pcb m \<Longrightarrow> narodmon_reachable net sent (fst (app_narodmon_recv_cb net p err m))"
| failed: "narodmon_reachable net sent m \<Longrightarrow> nd_pcb m \<Longrightarrow> narodmon_reachable net sent (app_narodmon_err_cb err m)"
| outside: "narodmon_reachable net sent m \<Longrightarrow> sent w = sent (nd_net m) \<Longrightarrow>
    narodmon_reachable net sent (m\<lparr>nd_net := w, nd_store := store\<rparr>)"

lemma flush_inv:
  assumes "tcp_laws net sent" "narodmon_inv sent m"
  shows "narodmon_inv sent (app_narodmon_flush_log net m)"
  using assms(2)
  by (cases "nd_busy m"; cases "nd_pcb m")
    (simp_all add: app_narodmon_flush_log_def nd_say_def narodmon_inv_def Let_def laws_keep [OF assms(1)] split: option.split)

lemma start_connect_inv:
  assumes "tcp_laws net sent" "nd_busy m" "nd_payload_len m = length (nd_payload m)" "0 < length (nd_payload m)"
    "length (nd_payload m) < 4096" "nd_sent_offset m = 0" "\<not> nd_dns_pending m"
  shows "narodmon_inv sent (fst (app_narodmon_start_connect net ip m))"
proof -
  obtain w ok where w: "tcp_new net (nd_net m) = (w, ok)" by fastforce
  obtain w2 err where w2: "tcp_connect net ip APP_NARODMON_PORT w = (w2, err)" by fastforce
  show ?thesis
  proof (cases ok)
    case False
    then show ?thesis using w by (simp add: app_narodmon_start_connect_def)
  next
    case True
    then have "sent w = ''''" using laws_keep(7) [OF assms(1), of "nd_net m"] w by simp
    then have "sent w2 = ''''" using laws_keep(2) [OF assms(1), of ip APP_NARODMON_PORT w] w2 by simp
    then have "narodmon_inv sent (m\<lparr>nd_pcb := True, nd_net := w2\<rparr>)" using assms(2-7) by (simp add: narodmon_inv_def)
    then show ?thesis using True w w2 by (simp add: app_narodmon_start_connect_def Let_def)
  qed
qed

lemma build_payload_bounds:
  assumes "app_narodmon_build_payload net now 4096 m = (m1, Some payload)"
  shows "length payload < 4096 \<and> (\<exists>w. m1 = m\<lparr>nd_net := w\<rparr>)"
  using assms by (auto simp: app_narodmon_build_payload_def Let_def split: prod.splits option.splits if_splits)

lemma build_payload_net: "\<exists>w. fst (app_narodmon_build_payload net now n m) = m\<lparr>nd_net := w\<rparr>"
proof (cases "n = 0")
  case True
  then show ?thesis by (intro exI [of _ "nd_net m"]) (simp add: app_narodmon_build_payload_def)
next
  case False
  obtain w h where h: "app_narodmon_write_header net n (nd_net m) = (w, h)" by fastforce
  show ?thesis using False h by (intro exI [of _ w]) (cases h; simp add: app_narodmon_build_payload_def Let_def)
qed

lemma start_send_inv:
  assumes "tcp_laws net sent" "narodmon_inv sent m"
  shows "narodmon_inv sent (fst (app_narodmon_start_send net now m))"
proof (cases "nd_busy m")
  case True
  then show ?thesis using assms(2) by (simp add: app_narodmon_start_send_def)
next
  case False
  let ?m0 = "nd_say net ''Narodmon payload build started'' m"
  obtain m1 out where b: "app_narodmon_build_payload net now APP_NARODMON_PAYLOAD_MAX_LEN ?m0 = (m1, out)" by fastforce
  obtain w where "m1 = ?m0\<lparr>nd_net := w\<rparr>" using build_payload_net [of net now APP_NARODMON_PAYLOAD_MAX_LEN ?m0] b by auto
  then have m1: "m1 = m\<lparr>nd_net := w\<rparr>" by (simp add: nd_say_def)
  have idle: "narodmon_inv sent (m\<lparr>nd_net := v\<rparr>)" for v using assms(2) False by (simp add: narodmon_inv_def)
  show ?thesis
  proof (cases out)
    case None
    then show ?thesis using False b m1 idle by (simp add: app_narodmon_start_send_def nd_say_def [of _ _ m1] del: One_nat_def) (simp add: nd_say_def)
  next
    case (Some payload)
    show ?thesis
    proof (cases "payload = ''''")
      case True
      then show ?thesis using False b m1 idle Some by (simp add: app_narodmon_start_send_def) (simp add: nd_say_def)
    next
      case f: False
      have l: "length payload < 4096" using build_payload_bounds [of net now ?m0 m1 payload] b Some by (simp add: APP_NARODMON_PAYLOAD_MAX_LEN_def)
      let ?m2 = "m1\<lparr>nd_payload := payload, nd_busy := True, nd_payload_len := length payload mod 2 ^ 16, nd_sent_offset := 0,
                       nd_deadline_ms := now + APP_NARODMON_TIMEOUT_MS\<rparr>"
      let ?m3 = "nd_say net (''Narodmon send started: '' @ show_nat (nd_payload_len ?m2) @ '' bytes'') ?m2"
      obtain v err ip where v: "nt_gethostbyname net APP_NARODMON_HOST (nd_net ?m3) = (v, err, ip)" by (metis prod_cases3)
      have e: "app_narodmon_start_send net now m =
          (if err = ERR_OK then app_narodmon_start_connect net ip (?m3\<lparr>nd_net := v\<rparr>)
           else if err = ERR_INPROGRESS then (?m3\<lparr>nd_net := v, nd_dns_pending := True\<rparr>, True)
           else (app_narodmon_reset_state (nd_say net (''Narodmon send failed: DNS lookup error '' @ show_int err) (?m3\<lparr>nd_net := v\<rparr>)), False))"
        using False b Some f v by (simp add: app_narodmon_start_send_def Let_def)
      have "narodmon_inv sent (fst (app_narodmon_start_connect net ip (?m3\<lparr>nd_net := v\<rparr>)))"
        by (rule start_connect_inv [OF assms(1)]) (use l f False assms(2) m1 in \<open>simp_all add: nd_say_def narodmon_inv_def\<close>)
      moreover have "narodmon_inv sent (?m3\<lparr>nd_net := v, nd_dns_pending := True\<rparr>)"
        using l f False assms(2) m1 by (simp add: nd_say_def narodmon_inv_def)
      ultimately show ?thesis unfolding e by simp
    qed
  qed
qed

lemma connected_inv:
  assumes "tcp_laws net sent" "narodmon_inv sent m" "nd_pcb m"
  shows "narodmon_inv sent (fst (app_narodmon_connected_cb net err m))"
proof -
  have m: "narodmon_inv sent (m\<lparr>nd_connected := True\<rparr>)" "nd_busy m"
    using assms(2,3) by (auto simp: narodmon_inv_def split: if_splits)
  obtain m1 err1 where r: "app_narodmon_send_next_chunk net (m\<lparr>nd_connected := True\<rparr>) = (m1, err1)" by fastforce
  have "narodmon_inv sent m1" if "err1 = ERR_OK"
    using send_next_chunk_inv [OF assms(1) m(1)] m(2) assms(3) r that by simp
  then show ?thesis using r by (simp add: app_narodmon_connected_cb_def)
qed

lemma sent_cb_more:
  assumes "tcp_laws net sent" "narodmon_inv sent m" "nd_pcb m" "nd_sent_offset m < nd_payload_len m"
  shows "narodmon_inv sent (fst (app_narodmon_sent_cb net m))"
proof -
  obtain m1 err1 where r: "app_narodmon_send_next_chunk net m = (m1, err1)" by fastforce
  have "nd_busy m" using assms(2,3) by (auto simp: narodmon_inv_def split: if_splits)
  then have "narodmon_inv sent m1" if "err1 = ERR_OK"
    using send_next_chunk_inv [OF assms(1,2)] assms(3) r that by simp
  then show ?thesis using r assms(4) by (simp add: app_narodmon_sent_cb_def)
qed

text \<open>The acknowledgement after the last byte was accepted.\<close>

lemma sent_cb_last:
  assumes "tcp_laws net sent" "narodmon_inv sent m" "nd_pcb m" "nd_payload_len m \<le> nd_sent_offset m"
  shows "nd_log_event (fst (app_narodmon_sent_cb net m)) = APP_NARODMON_LOG_SEND_OK \<and>
    nd_log_payload_len (fst (app_narodmon_sent_cb net m)) = length (nd_payload m) \<and>
    sent (nd_net (fst (app_narodmon_sent_cb net m))) = nd_payload m \<and> \<not> nd_busy (fst (app_narodmon_sent_cb net m))"
proof -
  have i: "sent (nd_net m) = nd_payload m" "nd_payload_len m = length (nd_payload m)"
    using assms(2,3,4) by (auto simp: narodmon_inv_def split: if_splits)
  obtain w err where w: "tcp_close net (nd_net m) = (w, err)" by fastforce
  have "sent w = sent (nd_net m)" using laws_keep(4) [OF assms(1), of "nd_net m"] unfolding w by simp
  then have "sent (nd_net (close_connection net m)) = nd_payload m"
    using i(1) laws_keep(5) [OF assms(1), of w] w by (simp add: close_connection_def)
  then show ?thesis using assms(3,4) i(2) by (simp add: app_narodmon_sent_cb_def app_narodmon_finish_def Let_def)
qed

lemma chunk_log: "nd_log_event (fst (app_narodmon_send_next_chunk net m)) = nd_log_event m"
  by (simp add: app_narodmon_send_next_chunk_def Let_def split_beta)

lemma narodmon_reachable_inv:
  assumes "tcp_laws net sent" "narodmon_reachable net sent m"
  shows "narodmon_inv sent m"
  using assms(2)
proof induction
  case (init store w)
  then show ?case by (simp add: narodmon_inv_def narodmon_init_def)
next
  case (start m now)
  then show ?case using start_send_inv [OF assms(1)] by blast
next
  case (poll m now)
  then show ?case using flush_inv [OF assms(1)] by (simp add: app_narodmon_poll_def Let_def)
next
  case (dns m a)
  show ?case
  proof (cases "nd_busy m")
    case True
    have "narodmon_inv sent (fst (app_narodmon_start_connect net ip (m\<lparr>nd_dns_pending := False\<rparr>)))" for ip
      by (rule start_connect_inv [OF assms(1)]) (use dns True in \<open>simp_all add: narodmon_inv_def split: if_splits\<close>)
    then show ?thesis using True by (simp add: app_narodmon_dns_found_cb_def Let_def split: option.split)
  next
    case False
    then show ?thesis using dns by (simp add: app_narodmon_dns_found_cb_def)
  qed
next
  case (connected m err)
  then show ?case using connected_inv [OF assms(1)] by blast
next
  case (acked m)
  show ?case
  proof (cases "nd_sent_offset m < nd_payload_len m")
    case True
    then show ?thesis using sent_cb_more [OF assms(1)] acked by blast
  next
    case False
    then show ?thesis by (simp add: app_narodmon_sent_cb_def)
  qed
next
  case (received m p err)
  have "narodmon_inv sent (m\<lparr>nd_net := tcp_recved net n (nd_net m)\<rparr>)" for n
    using received.IH laws_keep(3) [OF assms(1)] by (cases "nd_busy m"; cases "nd_pcb m") (simp_all add: narodmon_inv_def)
  then show ?case using received.IH by (simp add: app_narodmon_recv_cb_def Let_def split: option.split)
next
  case (failed m err)
  then show ?case by simp
next
  case (outside m w store)
  then show ?case by (cases "nd_busy m"; cases "nd_pcb m") (simp_all add: narodmon_inv_def)
qed

subsection \<open>The transfer\<close>


text \<open>A connection that takes what it is given.\<close>

definition willing :: "'w tcp_net \<Rightarrow> bool" where
  "willing net = (\<forall>s w. snd (tcp_write net s w) = ERR_OK \<and> snd (tcp_output net w) = ERR_OK \<and> tcp_sndbuf net w mod 2 ^ 16 \<ge> 1)"

lemma willing_step:
  assumes "tcp_laws net sent" "willing net" "narodmon_inv sent m" "nd_pcb m" "nd_sent_offset m < nd_payload_len m"
  shows "narodmon_inv sent (fst (app_narodmon_sent_cb net m)) \<and> nd_pcb (fst (app_narodmon_sent_cb net m)) \<and>
    nd_payload (fst (app_narodmon_sent_cb net m)) = nd_payload m \<and> nd_sent_offset m < nd_sent_offset (fst (app_narodmon_sent_cb net m))"
proof -
  obtain m1 err where r: "app_narodmon_send_next_chunk net m = (m1, err)" by fastforce
  have b: "nd_busy m" "nd_payload_len m = length (nd_payload m)" using assms(3,4) by (auto simp: narodmon_inv_def split: if_splits)
  have "err = ERR_OK" using r assms(2) by (auto simp: app_narodmon_send_next_chunk_def willing_def Let_def assms(4) split_beta split: if_splits)
  then show ?thesis
    using send_next_chunk_inv [OF assms(1,3) b(1) assms(4)] r assms(2,5) b(2) by (simp add: app_narodmon_sent_cb_def willing_def Suc_le_eq)
qed

lemma willing_delivers:
  assumes "tcp_laws net sent" "willing net"
  shows "narodmon_inv sent m \<Longrightarrow> nd_pcb m \<Longrightarrow> \<exists>k \<le> Suc (nd_payload_len m - nd_sent_offset m).
    let m' = ((\<lambda>m. fst (app_narodmon_sent_cb net m)) ^^ k) m
    in \<not> nd_busy m' \<and> nd_log_event m' = APP_NARODMON_LOG_SEND_OK \<and> sent (nd_net m') = nd_payload m"
proof (induction "nd_payload_len m - nd_sent_offset m" arbitrary: m rule: less_induct)
  case less
  let ?m1 = "fst (app_narodmon_sent_cb net m)"
  show ?case
  proof (cases "nd_sent_offset m < nd_payload_len m")
    case True
    note s = willing_step [OF assms less.prems True]
    then have l: "nd_payload_len ?m1 = nd_payload_len m" using less.prems by (auto simp: narodmon_inv_def split: if_splits)
    then have "nd_payload_len ?m1 - nd_sent_offset ?m1 < nd_payload_len m - nd_sent_offset m" using s True by linarith
    from less.hyps [OF this] obtain k where k: "k \<le> Suc (nd_payload_len ?m1 - nd_sent_offset ?m1)"
      "let m' = ((\<lambda>m. fst (app_narodmon_sent_cb net m)) ^^ k) ?m1
       in \<not> nd_busy m' \<and> nd_log_event m' = APP_NARODMON_LOG_SEND_OK \<and> sent (nd_net m') = nd_payload ?m1"
      using s by blast
    have "k \<le> nd_payload_len m - nd_sent_offset m" using k(1) l s True by linarith
    then show ?thesis using s k(2) by (intro exI [of _ "Suc k"]) (simp add: Let_def funpow_Suc_right del: funpow.simps)
  next
    case False
    then show ?thesis using sent_cb_last [OF assms(1) less.prems] by (intro exI [of _ 1]) simp
  qed
qed


text \<open>A connection that keeps what it gets, and a transfer over it.\<close>

definition pipe_net :: "string tcp_net" where
  "pipe_net = \<lparr>nt_gethostbyname = \<lambda>h w. (w, ERR_OK, 1), nt_wifi_mac = \<lambda>w. (w, Some [40, 205, 193, 0, 17, 34]),
     tcp_new = \<lambda>w. ('''', True), tcp_connect = \<lambda>a p w. (w, ERR_OK), tcp_sndbuf = \<lambda>w. 20,
     tcp_write = \<lambda>s w. (w @ s, ERR_OK), tcp_output = \<lambda>w. (w, ERR_OK), tcp_recved = \<lambda>n w. w,
     tcp_close = \<lambda>w. (w, ERR_OK), tcp_abort = \<lambda>w. w, nt_log = \<lambda>s w. w\<rparr>"

definition sending_state :: "string narodmon" where
  "sending_state = fst (app_narodmon_start_send pipe_net 60000 (narodmon_init (measurement_revision 1000 sample_store) ''''))"

lemma pipe_laws: "tcp_laws pipe_net (\<lambda>w. w)" "willing pipe_net"
  by (simp_all add: tcp_laws_def willing_def pipe_net_def)

lemma pipe_simps: "nd_say pipe_net t m = m" "nt_gethostbyname pipe_net h w = (w, ERR_OK, 1)" "tcp_new pipe_net w = ('''', True)"
  "tcp_connect pipe_net a p w = (w, ERR_OK)"
  by (simp_all add: nd_say_def pipe_net_def)

lemma sending_state: "narodmon_reachable pipe_net (\<lambda>w. w) sending_state" "nd_pcb sending_state"
  "nd_log_event sending_state = APP_NARODMON_LOG_NONE"
proof -
  show "narodmon_reachable pipe_net (\<lambda>w. w) sending_state"
    unfolding sending_state_def by (intro narodmon_reachable.intros)
  let ?v = "\<lparr>mv_in_use = True, mv_device_id = 11, mv_field_type = MEASUREMENT_FIELD_BATTERY, mv_average_value = 87, mv_sample_count = 1\<rparr>"
  let ?s = "measurement_revision 1000 sample_store"
  have rows: "rows_in_use (ms_view ?s) = [?v]" by (simp add: rows_in_use_def sample_view empty_view_entry_def)
  obtain R where R: "R = narodmon_report 60 [?v]" by blast
  have l: "length R \<le> 3997" unfolding R by (rule length_report) (simp_all add: value_ok_def)
  have m: "measurement_store_build_narodmon_payload 4078 60 ?s = R"
    using payload_eq_report [of ?s 60 4078] l unfolding rows R by simp
  have ne: "R \<noteq> ''''" by (simp add: R narodmon_report_def uptime_line_def Let_def)
  have h: "app_narodmon_write_header pipe_net 4096 '''' = ('''', Some (''#BLEB28CDC1001122'' @ [CHR 0x0A]))"
    by code_simp
  have u: "unat ((60000 + 500 :: u32) div 1000) = 60" by code_simp
  let ?i = "narodmon_init ?s ''''"
  have i: "nd_net ?i = ''''" "nd_store ?i = ?s" "?i\<lparr>nd_net := ''''\<rparr> = ?i" "\<not> nd_busy ?i"
    by (simp_all add: narodmon_init_def)
  have b: "app_narodmon_build_payload pipe_net 60000 4096 ?i = (?i, Some (''#BLEB28CDC1001122'' @ [CHR 0x0A] @ R @ ''##''))"
    unfolding app_narodmon_build_payload_def u Let_def i(1) h prod.case option.case i(3) i(2) using m ne l by simp
  show "nd_pcb sending_state" "nd_log_event sending_state = APP_NARODMON_LOG_NONE"
    using b i(4) by (simp_all add: sending_state_def app_narodmon_start_send_def app_narodmon_start_connect_def pipe_simps
        APP_NARODMON_PAYLOAD_MAX_LEN_def Let_def narodmon_init_def)
qed



text \<open>
  A failure to connect is never reported as such: the connection is aborted with its error callback set,
  which replaces the deferred message.
\<close>

lemma connect_error_overwritten:
  assumes "tcp_new net (nd_net m) = (w, True)" and "snd (tcp_connect net ip APP_NARODMON_PORT w) \<noteq> ERR_OK"
  shows "nd_log_event (fst (app_narodmon_start_connect net ip m)) = APP_NARODMON_LOG_TCP_ERROR \<and>
    nd_log_error (fst (app_narodmon_start_connect net ip m)) = ERR_ABRT"
  using assms by (simp add: app_narodmon_start_connect_def abort_connection_def app_narodmon_err_cb_def
      app_narodmon_defer_log_def app_narodmon_reset_state_def Let_def split_beta)

end
