(* ===== verification/Web_Settings.thy ===== *)
theory Web_Settings
  imports Web_Update Ble_Devices Onewire_System Mqtt_Session Narodmon
begin

text \<open>
  The settings pages of the web server (\<^verbatim>\<open>app_web.c\<close>): the CGI handlers \<^verbatim>\<open>/apply.cgi\<close>, \<^verbatim>\<open>/select.cgi\<close> and
  \<^verbatim>\<open>/name.cgi\<close>, \<^verbatim>\<open>app_web_apply_config\<close> with the components it configures, the restart, and the texts of
  \<^verbatim>\<open>app_web_ssi_handler\<close>.  The lemmas show that every request either leaves all components as they were or
  leaves them in step with a valid, saved configuration.
\<close>

subsection \<open>The parts the handlers act on\<close>

text \<open>
  The measurement store is the one of the MQTT client, \<open>mt_store\<close>; \<open>ws_log\<close> are the messages given to
  \<^verbatim>\<open>app_log\<close>.
\<close>

record ('v, 'w) web_sys =
  ws_web :: app_web
  ws_runtime :: runtime_config
  ws_fs :: config_fs
  ws_scanner :: ble_scanner
  ws_onewire :: onewire_source
  ws_mqtt :: "'w mqtt"
  ws_narodmon :: "'v narodmon"
  ws_log :: "string list"

definition web_status :: "string \<Rightarrow> ('v, 'w) web_sys \<Rightarrow> ('v, 'w) web_sys" where
  "web_status message s = s\<lparr>ws_web := app_web_set_save_status message (ws_web s)\<rparr>"

definition web_say :: "string \<Rightarrow> ('v, 'w) web_sys \<Rightarrow> ('v, 'w) web_sys" where
  "web_say line s = s\<lparr>ws_log := ws_log s @ [line]\<rparr>"

definition set_next_config :: "app_config \<Rightarrow> ('v, 'w) web_sys \<Rightarrow> ('v, 'w) web_sys" where
  "set_next_config config s = s\<lparr>ws_web := (ws_web s)\<lparr>web_next_config := config\<rparr>\<rparr>"

definition app_web_apply_config :: "u32 \<Rightarrow> app_config \<Rightarrow> ('v, 'w) web_sys \<Rightarrow> ('v, 'w) web_sys" where
  "app_web_apply_config now_ms config s =
     (let runtime = app_runtime_config_set config (ws_runtime s);
          store = measurement_store_configure (cf_measurement_retention_seconds config) (cf_measurement_max_count config)
                    (mt_store (ws_mqtt s))
      in s\<lparr>ws_runtime := runtime,
           ws_scanner := ble_scanner_apply_config (app_runtime_config_get runtime) (ws_scanner s),
           ws_onewire := onewire_source_apply_config (app_runtime_config_get runtime) now_ms (ws_onewire s),
           ws_mqtt := app_mqtt_apply_config (cf_mqtt config) ((ws_mqtt s)\<lparr>mt_store := store\<rparr>)\<rparr>)"

subsection \<open>The parameters of a request\<close>

text \<open>The pairs of \<^verbatim>\<open>pcParam\<close> and \<^verbatim>\<open>pcValue\<close>; \<open>None\<close> is a \<^verbatim>\<open>NULL\<close> value.\<close>

type_synonym cgi_params = "(string \<times> string option) list"

fun app_web_find_param_value :: "cgi_params \<Rightarrow> string \<Rightarrow> string option" where
  "app_web_find_param_value [] name = None"
| "app_web_find_param_value ((param, val) # params) name =
     (if param = name then Some (case val of None \<Rightarrow> '''' | Some v \<Rightarrow> v) else app_web_find_param_value params name)"

text \<open>\<^verbatim>\<open>snprintf(buf, size, "%s", value); app_text_url_decode(buf)\<close>.\<close>

definition decode_param :: "nat \<Rightarrow> string \<Rightarrow> string" where
  "decode_param size_of val = app_text_url_decode (bounded_copy size_of val)"

text \<open>\<^verbatim>\<open>if (value != NULL)\<close> the member is set.\<close>

definition on_param :: "cgi_params \<Rightarrow> string \<Rightarrow> (string \<Rightarrow> app_config \<Rightarrow> app_config) \<Rightarrow> app_config \<Rightarrow> app_config" where
  "on_param params name f c = (case app_web_find_param_value params name of None \<Rightarrow> c | Some v \<Rightarrow> f v c)"

definition parse_u32 :: "string \<Rightarrow> nat" where
  "parse_u32 s = fst (strtoul10 s)"

definition read_network_params :: "cgi_params \<Rightarrow> app_config \<Rightarrow> app_config" where
  "read_network_params ps c0 =
     (let c1 = on_param ps ''mode'' (\<lambda>v c. c\<lparr>cf_mode :=
                 if decode_param 16 v = ''client'' then APP_WIFI_MODE_CLIENT else APP_WIFI_MODE_AP\<rparr>) c0;
          c2 = on_param ps ''ssid'' (\<lambda>v c. c\<lparr>cf_ssid := decode_param APP_CONFIG_SSID_MAX_LEN v\<rparr>) c1;
          c3 = on_param ps ''hostname'' (\<lambda>v c. c\<lparr>cf_hostname := decode_param APP_CONFIG_HOSTNAME_MAX_LEN v\<rparr>) c2;
          c4 = on_param ps ''channel'' (\<lambda>v c. c\<lparr>cf_channel := parse_u32 (decode_param 16 v)\<rparr>) c3;
          c5 = on_param ps ''security'' (\<lambda>v c. c\<lparr>cf_security :=
                 if decode_param 16 v = ''wpa2'' then APP_WIFI_SECURITY_WPA2 else APP_WIFI_SECURITY_OPEN\<rparr>) c4;
          c6 = on_param ps ''password'' (\<lambda>v c. c\<lparr>cf_password := decode_param APP_CONFIG_PASSWORD_MAX_LEN v\<rparr>) c5
      in c6\<lparr>cf_send_narodmon := app_web_find_param_value ps ''send_narodmon'' \<noteq> None\<rparr>)"

definition read_limit_params :: "cgi_params \<Rightarrow> app_config \<Rightarrow> app_config" where
  "read_limit_params ps c0 =
     (let c1 = on_param ps ''measurement_retention_seconds'' (\<lambda>v c.
                 let n = parse_u32 (decode_param 16 v)
                 in c\<lparr>cf_measurement_retention_seconds :=
                      if n > APP_CONFIG_MEASUREMENT_RETENTION_MAX_SECONDS then APP_CONFIG_MEASUREMENT_RETENTION_MAX_SECONDS else n\<rparr>) c0;
          c2 = on_param ps ''measurement_max_count'' (\<lambda>v c.
                 let n = parse_u32 (decode_param 16 v)
                 in c\<lparr>cf_measurement_max_count :=
                      if n > APP_CONFIG_MEASUREMENT_MAX_COUNT_MAX then APP_CONFIG_MEASUREMENT_MAX_COUNT_MAX else n\<rparr>) c1;
          c3 = on_param ps ''onewire_poll_interval_seconds'' (\<lambda>v c.
                 let n = parse_u32 (decode_param 16 v)
                 in c\<lparr>cf_onewire_poll_interval_seconds :=
                      if n > APP_CONFIG_ONEWIRE_POLL_INTERVAL_MAX_SECONDS then APP_CONFIG_ONEWIRE_POLL_INTERVAL_MAX_SECONDS else n\<rparr>) c2
      in c3\<lparr>cf_onewire_gpio2_enabled := app_web_find_param_value ps ''onewire_gpio2_enabled'' \<noteq> None,
            cf_onewire_gpio3_enabled := app_web_find_param_value ps ''onewire_gpio3_enabled'' \<noteq> None\<rparr>)"

subsection \<open>The MQTT settings\<close>

fun has_nul_escape :: "string \<Rightarrow> bool" where
  "has_nul_escape [] = False"
| "has_nul_escape (c # cs) = (take 3 (c # cs) = ''%00'' \<or> has_nul_escape cs)"

text \<open>\<open>None\<close> is \<^verbatim>\<open>false\<close>; otherwise what \<^verbatim>\<open>destination\<close> holds afterwards.\<close>

definition app_web_read_mqtt_string :: "string option \<Rightarrow> string \<Rightarrow> nat \<Rightarrow> string option" where
  "app_web_read_mqtt_string val destination capacity =
     (case val of
        None \<Rightarrow> Some destination
      | Some v \<Rightarrow>
          if length v \<ge> APP_CONFIG_MQTT_HOST_MAX_LEN * 3 \<or> has_nul_escape v then None
          else let decoded = decode_param (APP_CONFIG_MQTT_HOST_MAX_LEN * 3) v
               in if length decoded \<ge> capacity then None
                  else if list_ex (\<lambda>c. code c < 0x20 \<or> code c = 0x7F) decoded then None
                  else Some (bounded_copy capacity decoded))"

definition app_web_read_mqtt_number :: "string option \<Rightarrow> nat \<Rightarrow> nat \<Rightarrow> nat \<Rightarrow> nat option" where
  "app_web_read_mqtt_number val minimum maximum number =
     (case val of
        None \<Rightarrow> Some number
      | Some v \<Rightarrow>
          if v = '''' \<or> length v > 5 then None
          else if \<not> list_all isdigit v then None
          else let parsed = parse_u32 v in if parsed < minimum \<or> parsed > maximum then None else Some parsed)"

text \<open>\<^verbatim>\<open>app_web_read_mqtt_config\<close>: the record as it is left, and the message of a failure.\<close>

definition app_web_read_mqtt_config :: "cgi_params \<Rightarrow> app_mqtt_config \<Rightarrow> app_mqtt_config \<times> string option" where
  "app_web_read_mqtt_config ps mqtt0 =
     (let find = app_web_find_param_value ps;
          bad_text = ''Save failed: MQTT text is too long or contains control characters'';
          bad_number = ''Save failed: MQTT port must be 1..65535 and interval 5..86400 seconds'';
          m = mqtt0\<lparr>mq_enabled := find ''mqtt_enabled'' \<noteq> None\<rparr>
      in case app_web_read_mqtt_string (find ''mqtt_host'') (mq_host m) APP_CONFIG_MQTT_HOST_MAX_LEN of
           None \<Rightarrow> (m, Some bad_text)
         | Some host \<Rightarrow>
      (let m = m\<lparr>mq_host := host\<rparr>
       in case app_web_read_mqtt_string (find ''mqtt_username'') (mq_username m) APP_CONFIG_MQTT_CREDENTIAL_MAX_LEN of
            None \<Rightarrow> (m, Some bad_text)
          | Some username \<Rightarrow>
      (let m = m\<lparr>mq_username := username\<rparr>
       in case app_web_read_mqtt_string (find ''mqtt_password'') (mq_password m) APP_CONFIG_MQTT_CREDENTIAL_MAX_LEN of
            None \<Rightarrow> (m, Some bad_text)
          | Some password \<Rightarrow>
      (let m = m\<lparr>mq_password := password\<rparr>
       in case app_web_read_mqtt_number (find ''mqtt_port'') 1 65535 (mq_port mqtt0) of
            None \<Rightarrow> (m, Some bad_number)
          | Some port \<Rightarrow>
      (case app_web_read_mqtt_number (find ''mqtt_interval_seconds'') APP_CONFIG_MQTT_INTERVAL_MIN_SECONDS
              APP_CONFIG_MQTT_INTERVAL_MAX_SECONDS (mq_interval_seconds m) of
         None \<Rightarrow> (m, Some bad_number)
       | Some interval \<Rightarrow> (m\<lparr>mq_interval_seconds := interval, mq_port := port mod 65536\<rparr>, None))))))"

subsection \<open>The three handlers\<close>

definition quoted :: "string \<Rightarrow> string" where
  "quoted s = [CHR 0x27] @ s @ [CHR 0x27]"

text \<open>
  \<open>now_apply\<close> and \<open>now_reboot\<close> are the clock at its two readings; the result is the page shown.
\<close>

definition app_web_cgi_settings_handler ::
  "u32 \<Rightarrow> u32 \<Rightarrow> cgi_params \<Rightarrow> ('v, 'w) web_sys \<Rightarrow> ('v, 'w) web_sys \<times> string" where
  "app_web_cgi_settings_handler now_apply now_reboot ps s0 =
     (let reboot_requested = (app_web_find_param_value ps ''reboot'' = Some ''1'');
          c1 = read_limit_params ps (read_network_params ps (app_runtime_config_get (ws_runtime s0)));
          page = ''/settings.html''
      in case app_web_read_mqtt_config ps (cf_mqtt c1) of
           (mqtt, Some message) \<Rightarrow> (web_status message (set_next_config (c1\<lparr>cf_mqtt := mqtt\<rparr>) s0), page)
         | (mqtt, None) \<Rightarrow>
      (let config = app_config_normalize (c1\<lparr>cf_mqtt := mqtt\<rparr>);
           s = set_next_config config s0
       in if mq_enabled (cf_mqtt config) \<and> mq_host (cf_mqtt config) = ''''
          then (web_status ''Save failed: MQTT host is required'' s, page)
          else if mq_enabled (cf_mqtt config) \<and> mq_password (cf_mqtt config) \<noteq> '''' \<and> mq_username (cf_mqtt config) = ''''
          then (web_status ''Save failed: MQTT password requires a username'' s, page)
          else if cf_security config = APP_WIFI_SECURITY_WPA2 \<and> length (cf_password config) < 8
          then (web_say ''User settings save failed: WPA2 password too short''
                  (web_status ''Save failed: WPA2 password must be at least 8 characters'' s), page)
          else (case app_config_save config (ws_fs s) of
            (fs, False) \<Rightarrow>
              (web_say ''User settings save failed: unable to write config.ini''
                 (web_status ''Save failed: unable to write config.ini'' (s\<lparr>ws_fs := fs\<rparr>)), page)
          | (fs, True) \<Rightarrow>
              let s1 = app_web_apply_config now_apply config (s\<lparr>ws_fs := fs\<rparr>);
                  s2 = web_say (''User updated settings: mode='' @ app_config_mode_name (cf_mode config) @
                         '' ssid='' @ quoted (cf_ssid config) @ '' hostname='' @ quoted (cf_hostname config) @
                         '' channel='' @ show_nat (cf_channel config) @
                         '' security='' @ app_config_security_name (cf_security config) @
                         '' send_narodmon='' @ (if cf_send_narodmon config then ''on'' else ''off'')) s1
              in if reboot_requested then
                   (let s3 = web_say ''User requested reboot after settings save''
                              (web_status ''Saved to config.ini. Rebooting...'' s2)
                    in (s3\<lparr>ws_web := (ws_web s3)\<lparr>web_reboot_pending := True,
                             web_reboot_deadline_ms := now_reboot + APP_WEB_REBOOT_DELAY_MS\<rparr>\<rparr>, page))
                 else (web_status ''Saved to config.ini. Reboot required to apply changes.'' s2, page))))"

definition app_web_cgi_select_handler :: "u32 \<Rightarrow> cgi_params \<Rightarrow> ('v, 'w) web_sys \<Rightarrow> ('v, 'w) web_sys \<times> string" where
  "app_web_cgi_select_handler now_ms ps s0 =
     (let page = ''/index.html''
      in case (app_web_find_param_value ps ''mac'', app_web_find_param_value ps ''enabled'') of
           (Some mac_value, Some enabled_value) \<Rightarrow>
      (case app_config_normalize_mac APP_CONFIG_ALLOWED_MAC_LEN (decode_param APP_CONFIG_ALLOWED_MAC_LEN mac_value) of
         None \<Rightarrow>
           (web_say ''User device selection failed: invalid MAC'' (web_status ''Selection update failed: invalid MAC'' s0), page)
       | Some normalized_mac \<Rightarrow>
           let enabled = (enabled_value = ''1'')
           in case app_config_set_allowed_mac (app_runtime_config_get (ws_runtime s0)) normalized_mac enabled of
                (config, False) \<Rightarrow>
                  (web_say (''User device selection failed: unable to store MAC '' @ normalized_mac)
                     (web_status ''Selection update failed: unable to store MAC'' (set_next_config config s0)), page)
              | (config, True) \<Rightarrow>
                  (case app_config_save config (ws_fs s0) of
                     (fs, False) \<Rightarrow>
                       (web_say ''User device selection failed: unable to write config.ini''
                          (web_status ''Selection update failed: unable to write config.ini''
                             ((set_next_config config s0)\<lparr>ws_fs := fs\<rparr>)), page)
                   | (fs, True) \<Rightarrow>
                       (web_status ''Device selection saved to config.ini''
                          (web_say (''User '' @ (if enabled then ''enabled'' else ''disabled'') @
                                    '' tracking for BLE device '' @ normalized_mac)
                             (app_web_apply_config now_ms config ((set_next_config config s0)\<lparr>ws_fs := fs\<rparr>))), page)))
         | _ \<Rightarrow>
           (web_say ''User device selection failed: missing parameters''
              (web_status ''Selection update failed: missing parameters'' s0), page))"

definition app_web_cgi_name_handler :: "u32 \<Rightarrow> cgi_params \<Rightarrow> ('v, 'w) web_sys \<Rightarrow> ('v, 'w) web_sys \<times> string" where
  "app_web_cgi_name_handler now_ms ps s0 =
     (let page = ''/ble.html''
      in case (app_web_find_param_value ps ''device_id'', app_web_find_param_value ps ''name'') of
           (Some device_id_value, Some name_value) \<Rightarrow>
           (let device_id = of_nat (parse_u32 device_id_value) :: u32;
                encoded_name = decode_param (APP_CONFIG_DEVICE_NAME_MAX_BYTES * 3 + 1) name_value
            in case app_config_set_device_name (app_runtime_config_get (ws_runtime s0)) device_id encoded_name of
                 (config, False) \<Rightarrow>
                   (web_say (''User device name update failed: unable to store name for '' @ show_nat (unat device_id))
                      (web_status ''Name update failed: unable to store name'' (set_next_config config s0)), page)
               | (config, True) \<Rightarrow>
                   (case app_config_save config (ws_fs s0) of
                      (fs, False) \<Rightarrow>
                        (web_say ''User device name update failed: unable to write config.ini''
                           (web_status ''Name update failed: unable to write config.ini''
                              ((set_next_config config s0)\<lparr>ws_fs := fs\<rparr>)), page)
                    | (fs, True) \<Rightarrow>
                        (web_status ''Device name saved to config.ini''
                           (web_say (''User updated name for device '' @ show_nat (unat device_id))
                              (app_web_apply_config now_ms config ((set_next_config config s0)\<lparr>ws_fs := fs\<rparr>))), page)))
         | _ \<Rightarrow>
           (web_say ''User device name update failed: missing parameters''
              (web_status ''Name update failed: missing parameters'' s0), page))"

text \<open>The table \<^verbatim>\<open>app_web_cgis\<close>; \<open>clock\<close> is what its two readings of the clock return.\<close>

datatype cgi_request = Apply_cgi cgi_params | Select_cgi cgi_params | Name_cgi cgi_params

fun cgi_step :: "u32 \<times> u32 \<Rightarrow> cgi_request \<Rightarrow> ('v, 'w) web_sys \<Rightarrow> ('v, 'w) web_sys \<times> string" where
  "cgi_step clock (Apply_cgi ps) s = app_web_cgi_settings_handler (fst clock) (snd clock) ps s"
| "cgi_step clock (Select_cgi ps) s = app_web_cgi_select_handler (fst clock) ps s"
| "cgi_step clock (Name_cgi ps) s = app_web_cgi_name_handler (fst clock) ps s"

fun cgi_run :: "((u32 \<times> u32) \<times> cgi_request) list \<Rightarrow> ('v, 'w) web_sys \<Rightarrow> ('v, 'w) web_sys" where
  "cgi_run [] s = s"
| "cgi_run ((clock, r) # rs) s = cgi_run rs (fst (cgi_step clock r s))"

subsection \<open>The restart\<close>

definition app_web_set_cpu_load :: "u8 \<Rightarrow> app_web \<Rightarrow> app_web" where
  "app_web_set_cpu_load load_percent web = web\<lparr>web_cpu_load_percent := load_percent\<rparr>"

definition app_web_set_narodmon_seconds_remaining :: "u32 \<Rightarrow> app_web \<Rightarrow> app_web" where
  "app_web_set_narodmon_seconds_remaining seconds_remaining web = web\<lparr>web_narodmon_seconds_remaining := seconds_remaining\<rparr>"

text \<open>\<^verbatim>\<open>app_web_poll\<close>: whether the watchdog restarts the board.\<close>

definition app_web_poll :: "u32 \<Rightarrow> app_web \<Rightarrow> bool" where
  "app_web_poll now_ms web = (web_reboot_pending web \<and> time_due now_ms (web_reboot_deadline_ms web))"

subsection \<open>The texts of the pages\<close>

definition ws_store :: "('v, 'w) web_sys \<Rightarrow> measurement_store" where
  "ws_store s = mt_store (ws_mqtt s)"

text \<open>
  \<open>space\<close> is what \<^verbatim>\<open>app_storage_get_space_info\<close> answers: the sizes in bytes, 0 when it fails.  The text is
  cut to the buffer, as the \<^verbatim>\<open>written >= insert_len\<close> branch does.
\<close>

definition app_web_write_status_json :: "nat \<times> nat \<Rightarrow> nat \<Rightarrow> ('v, 'w) web_sys \<Rightarrow> string" where
  "app_web_write_status_json space insert_len s =
     (let device_name = app_text_json_escape (APP_CONFIG_HOSTNAME_MAX_LEN * 2) (Some (app_runtime_config_get_device_name (ws_runtime s)))
      in bounded_copy insert_len
        (''{\"flash_total_bytes\":'' @ show_nat (fst space) @
         '',\"flash_free_bytes\":'' @ show_nat (snd space) @
         '',\"cpu_load_percent\":'' @ show_nat (unat (web_cpu_load_percent (ws_web s))) @
         '',\"device_name\":\"'' @ device_name @
         ''\",\"narodmon_device_name\":\"'' @ device_name @
         ''\",\"narodmon_seconds_remaining\":'' @ show_nat (unat (web_narodmon_seconds_remaining (ws_web s))) @
         '',\"mqtt_status\":\"'' @ app_mqtt_status (ws_mqtt s) @
         ''\",\"mqtt_last_error\":\"'' @ app_mqtt_last_error (ws_mqtt s) @
         ''\",\"mqtt_last_send_seconds\":'' @ show_nat (unat (app_mqtt_last_send_seconds (ws_mqtt s))) @
         '',\"device_table_used\":'' @ show_nat (ble_scanner_device_table_used (ws_scanner s)) @
         '',\"device_table_capacity\":'' @ show_nat ble_scanner_device_table_capacity @
         '',\"measurement_table_used\":'' @ show_nat (ble_scanner_measurement_table_used (ws_store s)) @
         '',\"measurement_table_capacity\":'' @ show_nat measurement_store_table_capacity @
         '',\"measurement_view_used\":'' @ show_nat (ble_scanner_measurement_view_used (ws_store s)) @
         '',\"measurement_view_capacity\":'' @ show_nat measurement_store_view_capacity @
         '',\"onewire_device_table_used\":'' @ show_nat (onewire_source_device_table_used (ws_onewire s)) @
         '',\"onewire_device_table_capacity\":'' @ show_nat onewire_source_device_table_capacity @ ''}''))"

definition json_bool :: "bool \<Rightarrow> string" where
  "json_bool b = (if b then ''true'' else ''false'')"

text \<open>\<open>build_number\<close> and \<open>build_datetime\<close> are the macros of the generated \<^verbatim>\<open>app_build_info.h\<close>.\<close>

definition app_web_write_config_json ::
  "'v tcp_net \<Rightarrow> nat \<Rightarrow> string \<Rightarrow> nat \<Rightarrow> ('v, 'w) web_sys \<Rightarrow> ('v, 'w) web_sys \<times> string" where
  "app_web_write_config_json net build_number build_datetime insert_len s =
     (let c = app_runtime_config_get (ws_runtime s);
          esc = (\<lambda>size_of t. app_text_json_escape (size_of * 2) (Some t));
          saved = web_save_status_valid (ws_web s)
      in case app_narodmon_get_device_id net APP_NARODMON_DEVICE_ID_LEN (nd_net (ws_narodmon s)) of
           (v, device_id) \<Rightarrow>
             (s\<lparr>ws_narodmon := (ws_narodmon s)\<lparr>nd_net := v\<rparr>\<rparr>,
              bounded_copy insert_len
                (''{\"mode\":\"'' @ app_config_mode_name (cf_mode c) @
                 ''\",\"ssid\":\"'' @ esc APP_CONFIG_SSID_MAX_LEN (cf_ssid c) @
                 ''\",\"hostname\":\"'' @ esc APP_CONFIG_HOSTNAME_MAX_LEN (cf_hostname c) @
                 ''\",\"channel\":'' @ show_nat (cf_channel c) @
                 '',\"security\":\"'' @ app_config_security_name (cf_security c) @
                 ''\",\"password\":\"'' @ esc APP_CONFIG_PASSWORD_MAX_LEN (cf_password c) @
                 ''\",\"send_narodmon\":'' @ json_bool (cf_send_narodmon c) @
                 '',\"mqtt_enabled\":'' @ json_bool (mq_enabled (cf_mqtt c)) @
                 '',\"mqtt_host\":\"'' @ esc APP_CONFIG_MQTT_HOST_MAX_LEN (mq_host (cf_mqtt c)) @
                 ''\",\"mqtt_port\":'' @ show_nat (mq_port (cf_mqtt c)) @
                 '',\"mqtt_interval_seconds\":'' @ show_nat (mq_interval_seconds (cf_mqtt c)) @
                 '',\"mqtt_username\":\"'' @ esc APP_CONFIG_MQTT_CREDENTIAL_MAX_LEN (mq_username (cf_mqtt c)) @
                 ''\",\"mqtt_password\":\"'' @ esc APP_CONFIG_MQTT_CREDENTIAL_MAX_LEN (mq_password (cf_mqtt c)) @
                 ''\",\"narodmon_device_id\":\"'' @ (case device_id of None \<Rightarrow> '''' | Some t \<Rightarrow> t) @
                 ''\",\"measurement_retention_seconds\":'' @ show_nat (cf_measurement_retention_seconds c) @
                 '',\"measurement_max_count\":'' @ show_nat (cf_measurement_max_count c) @
                 '',\"onewire_poll_interval_seconds\":'' @ show_nat (cf_onewire_poll_interval_seconds c) @
                 '',\"onewire_gpio2_enabled\":'' @ json_bool (cf_onewire_gpio2_enabled c) @
                 '',\"onewire_gpio3_enabled\":'' @ json_bool (cf_onewire_gpio3_enabled c) @
                 '',\"build_number\":'' @ show_nat build_number @
                 '',\"build_datetime\":\"'' @ app_text_json_escape 64 (Some build_datetime) @
                 ''\",\"save_status_valid\":'' @ json_bool saved @
                 '',\"save_status\":\"'' @
                 esc APP_WEB_SAVE_STATUS_MAX_LEN (if saved then web_save_status (ws_web s) else '''') @ ''\"}'')))"

definition app_web_write_narodmon_text ::
  "'v tcp_net \<Rightarrow> u32 \<Rightarrow> nat \<Rightarrow> ('v, 'w) web_sys \<Rightarrow> ('v, 'w) web_sys \<times> string" where
  "app_web_write_narodmon_text net now_ms insert_len s =
     (case app_narodmon_build_payload net now_ms insert_len ((ws_narodmon s)\<lparr>nd_store := ws_store s\<rparr>) of
        (nd, written) \<Rightarrow> (s\<lparr>ws_narodmon := nd\<rparr>, case written of None \<Rightarrow> '''' | Some t \<Rightarrow> t))"

text \<open>The tags in the order of \<^verbatim>\<open>app_web_ssi_tags\<close>; the result is the text put into the page.\<close>

definition app_web_ssi_tags :: "string list" where
  "app_web_ssi_tags = [''devices'', ''meas'', ''stat'', ''cfg'', ''nmon'', ''owire'']"

definition app_web_ssi_handler ::
  "'v tcp_net \<Rightarrow> u32 \<Rightarrow> nat \<times> nat \<Rightarrow> nat \<Rightarrow> string \<Rightarrow> int \<Rightarrow> nat \<Rightarrow> ('v, 'w) web_sys \<Rightarrow> ('v, 'w) web_sys \<times> string" where
  "app_web_ssi_handler net now_ms space build_number build_datetime index insert_len s =
     (if index = 0 then (s, ble_scanner_write_devices_json (ws_runtime s) now_ms insert_len (ws_scanner s))
      else if index = 1 then (s, ble_scanner_write_measurements_json (ws_runtime s) insert_len (ws_store s))
      else if index = 2 then (s, app_web_write_status_json space insert_len s)
      else if index = 3 then app_web_write_config_json net build_number build_datetime insert_len s
      else if index = 4 then app_web_write_narodmon_text net now_ms insert_len s
      else if index = 5 then (s, onewire_source_write_devices_json (ws_runtime s) now_ms insert_len (ws_onewire s))
      else (s, ''''))"


subsection \<open>What the components have to agree on\<close>

text \<open>The texts fit the arrays of \<^verbatim>\<open>app_config_t\<close>, the port its 16 bits.\<close>

definition config_fits :: "app_config \<Rightarrow> bool" where
  "config_fits c =
     (length (cf_ssid c) < APP_CONFIG_SSID_MAX_LEN \<and> length (cf_hostname c) < APP_CONFIG_HOSTNAME_MAX_LEN \<and>
      length (cf_password c) < APP_CONFIG_PASSWORD_MAX_LEN \<and> length (mq_host (cf_mqtt c)) < APP_CONFIG_MQTT_HOST_MAX_LEN \<and>
      length (mq_username (cf_mqtt c)) < APP_CONFIG_MQTT_CREDENTIAL_MAX_LEN \<and>
      length (mq_password (cf_mqtt c)) < APP_CONFIG_MQTT_CREDENTIAL_MAX_LEN \<and> mq_port (cf_mqtt c) < 65536)"

definition settings_ok :: "app_config \<Rightarrow> bool" where
  "settings_ok c = (config_ok c \<and> macs_ok c \<and> names_ok c \<and> config_fits c)"

definition in_step :: "app_config \<Rightarrow> ('v, 'w) web_sys \<Rightarrow> bool" where
  "in_step c s =
     (ms_retention_ms (ws_store s) = of_nat (cf_measurement_retention_seconds c) * 1000 \<and>
      ms_max_count (ws_store s) = cf_measurement_max_count c \<and>
      bl_allowed_macs (ws_scanner s) = cf_allowed_macs c \<and>
      os_bus_enabled (ws_onewire s) = [cf_onewire_gpio2_enabled c, cf_onewire_gpio3_enabled c] \<and>
      os_poll_interval_ms (ws_onewire s) = of_nat (cf_onewire_poll_interval_seconds c) * 1000 \<and>
      mt_config (ws_mqtt s) = cf_mqtt c)"

lemma web_sys_simps [simp]:
  "ws_runtime (web_status m s) = ws_runtime s" "ws_runtime (web_say l s) = ws_runtime s" "ws_runtime (set_next_config c s) = ws_runtime s"
  "in_step c (web_status m s) = in_step c s" "in_step c (web_say l s) = in_step c s" "in_step c (set_next_config c' s) = in_step c s"
  "in_step c (s\<lparr>ws_fs := fs\<rparr>) = in_step c s" "in_step c (s\<lparr>ws_web := wb\<rparr>) = in_step c s"
  "ws_fs (web_status m s) = ws_fs s" "ws_fs (web_say l s) = ws_fs s" "ws_fs (set_next_config c s) = ws_fs s"
  "ws_web (web_say l s) = ws_web s"
  by (simp_all add: web_status_def web_say_def set_next_config_def in_step_def ws_store_def)

lemma mqtt_config_applied: "mt_config (app_mqtt_apply_config c m) = c"
  by (cases c; cases "mt_config m") (simp add: app_mqtt_apply_config_def)

lemma mqtt_store_kept: "mt_store (app_mqtt_apply_config c m) = mt_store m"
  by (simp add: app_mqtt_apply_config_def)

lemma scanner_macs: "macs_ok c \<Longrightarrow> bl_allowed_macs (ble_scanner_apply_config c s) = cf_allowed_macs c"
proof -
  assume c: "macs_ok c"
  then have t: "take APP_CONFIG_ALLOWED_MAC_MAX_COUNT (cf_allowed_macs c) = cf_allowed_macs c" by (simp add: macs_ok_def)
  have "List.map (bounded_copy APP_CONFIG_ALLOWED_MAC_LEN) (cf_allowed_macs c) = cf_allowed_macs c"
    using c by (intro map_idI) (auto simp: macs_ok_def canonical_mac_def config_sizes)
  then show ?thesis by (simp add: ble_scanner_apply_config_def Let_def t)
qed

lemma apply_config_fields [simp]:
  "ws_runtime (app_web_apply_config now c s) = (ws_runtime s)\<lparr>rc_config := c\<rparr>"
  "ws_fs (app_web_apply_config now c s) = ws_fs s" "ws_web (app_web_apply_config now c s) = ws_web s"
  by (simp_all add: app_web_apply_config_def Let_def app_runtime_config_set_def)

lemma apply_config_in_step: "settings_ok c \<Longrightarrow> in_step c (app_web_apply_config now c s)"
  by (simp add: settings_ok_def config_ok_def in_step_def app_web_apply_config_def Let_def ws_store_def mqtt_config_applied mqtt_store_kept
      app_runtime_config_get_def app_runtime_config_set_def scanner_macs measurement_store_configure_def
      onewire_source_apply_config_def clamp_id config_limits)


subsection \<open>What a request can do to the configuration\<close>

lemma decode_fits: "0 < n \<Longrightarrow> length (decode_param n v) < n"
  using length_url_decode [of "bounded_copy n v"] length_bounded_copy [of n v] by (simp add: decode_param_def)

lemma on_param_inv: "P c \<Longrightarrow> (\<And>v c. P c \<Longrightarrow> P (f v c)) \<Longrightarrow> P (on_param ps name f c)"
  by (simp add: on_param_def split: option.split)

definition edited :: "app_config \<Rightarrow> app_config \<Rightarrow> bool" where
  "edited c0 c = (config_fits c \<and> cf_allowed_macs c = cf_allowed_macs c0 \<and> cf_device_names c = cf_device_names c0 \<and>
     cf_mqtt c = cf_mqtt c0)"

lemma edited_updates:
  assumes "edited c0 c"
  shows "edited c0 (c\<lparr>cf_mode := m\<rparr>)" "edited c0 (c\<lparr>cf_channel := n\<rparr>)" "edited c0 (c\<lparr>cf_security := x\<rparr>)"
    "edited c0 (c\<lparr>cf_send_narodmon := b\<rparr>)" "edited c0 (c\<lparr>cf_measurement_retention_seconds := n\<rparr>)"
    "edited c0 (c\<lparr>cf_measurement_max_count := n\<rparr>)" "edited c0 (c\<lparr>cf_onewire_poll_interval_seconds := n\<rparr>)"
    "edited c0 (c\<lparr>cf_onewire_gpio2_enabled := b, cf_onewire_gpio3_enabled := b'\<rparr>)"
    "edited c0 (c\<lparr>cf_ssid := decode_param APP_CONFIG_SSID_MAX_LEN v\<rparr>)"
    "edited c0 (c\<lparr>cf_hostname := decode_param APP_CONFIG_HOSTNAME_MAX_LEN v\<rparr>)"
    "edited c0 (c\<lparr>cf_password := decode_param APP_CONFIG_PASSWORD_MAX_LEN v\<rparr>)"
  using assms decode_fits unfolding edited_def config_fits_def by (auto simp: config_sizes)

lemma read_network_edited: "edited c0 c \<Longrightarrow> edited c0 (read_network_params ps c)"
  unfolding read_network_params_def Let_def
  by (intro edited_updates on_param_inv [where P = "edited c0"])

lemma read_limit_edited: "edited c0 c \<Longrightarrow> edited c0 (read_limit_params ps c)"
  unfolding read_limit_params_def Let_def
  by (intro edited_updates on_param_inv [where P = "edited c0"])

lemma read_mqtt_string_fits:
  "app_web_read_mqtt_string val d n = Some t \<Longrightarrow> length d < n \<Longrightarrow> length t < n"
  by (auto simp: app_web_read_mqtt_string_def Let_def split: option.splits if_splits)

lemma read_mqtt_config_fits:
  assumes "app_web_read_mqtt_config ps (cf_mqtt c) = (mqtt, err)" "config_fits c"
  shows "config_fits (c\<lparr>cf_mqtt := mqtt\<rparr>)"
  using assms
  by (auto simp: app_web_read_mqtt_config_def config_fits_def Let_def split: option.splits dest: read_mqtt_string_fits)

lemma normalize_fits: "config_fits c \<Longrightarrow> config_fits (app_config_normalize c)"
proof -
  assume c: "config_fits c"
  have l: "length (app_config_trim t) < n" if "length t < n" for t n using length_trim [of t] that by linarith
  show ?thesis using c
    by (simp add: app_config_normalize_def config_fits_def Let_def l config_sizes)
qed

lemma normalize_settings_ok: "config_fits c \<Longrightarrow> macs_ok c \<Longrightarrow> names_ok c \<Longrightarrow> settings_ok (app_config_normalize c)"
proof -
  assume c: "config_fits c" "macs_ok c" "names_ok c"
  let ?c = "app_config_normalize c"
  have "cf_allowed_macs ?c = cf_allowed_macs c" using c(2) by (simp add: app_config_normalize_def Let_def macs_ok_def)
  then have m: "macs_ok ?c" using c(2) by (simp add: macs_ok_def)
  have "List.map (\<lambda>(device_id, name). (device_id, stored_name name)) (cf_device_names c) = cf_device_names c"
    using c(3) by (intro map_idI) (auto simp: names_ok_def name_ok_fixed(2))
  then have "cf_device_names ?c = cf_device_names c"
    using c(3) by (simp add: app_config_normalize_def Let_def names_ok_def stored_name_def)
  then have "names_ok ?c" using c(3) by (simp add: names_ok_def)
  then show ?thesis using m config_ok_normalize normalize_fits [OF c(1)] by (simp add: settings_ok_def)
qed

text \<open>A request leaves everything as it was, or a valid configuration was saved and is in use everywhere.\<close>

definition cgi_outcome :: "('v, 'w) web_sys \<Rightarrow> ('v, 'w) web_sys \<Rightarrow> bool" where
  "cgi_outcome s s' =
     (let c = rc_config (ws_runtime s')
      in ws_runtime s' = ws_runtime s \<and> (\<forall>c. in_step c s' = in_step c s) \<or>
         settings_ok c \<and> in_step c s' \<and> app_config_save c (ws_fs s) = (ws_fs s', True))"

lemma outcome_kept: "ws_runtime s' = ws_runtime s \<Longrightarrow> (\<And>c. in_step c s' = in_step c s) \<Longrightarrow> cgi_outcome s s'"
  by (simp add: cgi_outcome_def)

lemma outcome_saved:
  assumes "settings_ok c" "app_config_save c (ws_fs s) = (fs, True)" "ws_runtime s' = r\<lparr>rc_config := c\<rparr>" "ws_fs s' = fs"
    "in_step c s' = in_step c (app_web_apply_config now c s1)"
  shows "cgi_outcome s s'"
  using assms apply_config_in_step [OF assms(1), of now s1] by (simp add: cgi_outcome_def Let_def)

lemma settings_outcome:
  assumes "settings_ok (rc_config (ws_runtime s))"
  shows "cgi_outcome s (fst (app_web_cgi_settings_handler t1 t2 ps s))"
proof -
  let ?c0 = "rc_config (ws_runtime s)"
  let ?c1 = "read_limit_params ps (read_network_params ps ?c0)"
  have "edited ?c0 ?c0" using assms by (simp add: edited_def settings_ok_def)
  then have ed: "edited ?c0 ?c1" using read_network_edited read_limit_edited by blast
  obtain mqtt err where m: "app_web_read_mqtt_config ps (cf_mqtt ?c1) = (mqtt, err)" by fastforce
  let ?c = "app_config_normalize (?c1\<lparr>cf_mqtt := mqtt\<rparr>)"
  have ok: "settings_ok ?c"
    using read_mqtt_config_fits [OF m] ed assms
    by (intro normalize_settings_ok) (simp_all add: edited_def settings_ok_def macs_ok_def names_ok_def)
  obtain fs saved where sv: "app_config_save ?c (ws_fs s) = (fs, saved)" by fastforce
  note def = app_web_cgi_settings_handler_def Let_def app_runtime_config_get_def m prod.case
  show ?thesis
  proof (cases err)
    case (Some message)
    show ?thesis unfolding def Some option.case by (rule outcome_kept) simp_all
  next
    case None
    show ?thesis unfolding def None option.case sv
      by (cases saved) (simp_all add: cgi_outcome_def ok sv apply_config_in_step [OF ok])
  qed
qed


lemma select_outcome:
  assumes "settings_ok (rc_config (ws_runtime s))"
  shows "cgi_outcome s (fst (app_web_cgi_select_handler t ps s))"
proof -
  let ?c0 = "rc_config (ws_runtime s)"
  note def = app_web_cgi_select_handler_def Let_def app_runtime_config_get_def prod.case option.case
  have kept: "cgi_outcome s (web_say l (web_status m s))" for l m by (rule outcome_kept) simp_all
  show ?thesis
  proof (cases "app_web_find_param_value ps ''mac''")
    case None
    show ?thesis unfolding def None by (simp add: kept)
  next
    case mac: (Some v)
    show ?thesis
    proof (cases "app_web_find_param_value ps ''enabled''")
      case None
      show ?thesis unfolding def mac None by (simp add: kept)
    next
      case en: (Some e)
      show ?thesis
      proof (cases "app_config_normalize_mac APP_CONFIG_ALLOWED_MAC_LEN (decode_param APP_CONFIG_ALLOWED_MAC_LEN v)")
        case None
        show ?thesis unfolding def mac en None by (simp add: kept)
      next
        case (Some m)
        obtain c ok where a: "app_config_set_allowed_mac ?c0 m (e = ''1'') = (c, ok)" by fastforce
        have cm: "app_config_normalize_mac APP_CONFIG_ALLOWED_MAC_LEN m = Some m"
          by (rule normalize_mac_canonical(2) [OF normalize_mac_canonical(1) [OF Some]])
        have "macs_ok c" using set_allowed_mac_set(3) [OF _ cm a] assms by (simp add: settings_ok_def)
        moreover have "c = ?c0\<lparr>cf_allowed_macs := cf_allowed_macs c\<rparr>"
          using a by (auto simp: app_config_set_allowed_mac_def split: option.splits if_splits)
        then obtain ms where "c = ?c0\<lparr>cf_allowed_macs := ms\<rparr>" by blast
        ultimately have cok: "settings_ok c"
          using assms by (simp add: settings_ok_def config_ok_def names_ok_def config_fits_def macs_ok_def config_sizes)
        obtain fs saved where sv: "app_config_save c (ws_fs s) = (fs, saved)" by fastforce
        show ?thesis unfolding def mac en Some a
          by (cases ok; cases saved) (simp_all add: cgi_outcome_def cok sv apply_config_in_step [OF cok])
      qed
    qed
  qed
qed

lemma name_outcome:
  assumes "settings_ok (rc_config (ws_runtime s))"
  shows "cgi_outcome s (fst (app_web_cgi_name_handler t ps s))"
proof -
  let ?c0 = "rc_config (ws_runtime s)"
  note def = app_web_cgi_name_handler_def Let_def app_runtime_config_get_def prod.case option.case
  have kept: "cgi_outcome s (web_say l (web_status m s))" for l m by (rule outcome_kept) simp_all
  show ?thesis
  proof (cases "app_web_find_param_value ps ''device_id''")
    case None
    show ?thesis unfolding def None by (simp add: kept)
  next
    case id: (Some v)
    show ?thesis
    proof (cases "app_web_find_param_value ps ''name''")
      case None
      show ?thesis unfolding def id None by (simp add: kept)
    next
      case nm: (Some n)
      let ?n = "decode_param (APP_CONFIG_DEVICE_NAME_MAX_BYTES * 3 + 1) n"
      obtain c ok where a: "app_config_set_device_name ?c0 (of_nat (parse_u32 v)) ?n = (c, ok)" by fastforce
      have n0: "names_ok ?c0" using assms by (simp add: settings_ok_def)
      obtain ns where "names_ok c" "c = ?c0\<lparr>cf_device_names := ns\<rparr>" using set_device_name_map(3,4) [OF n0 a] by blast
      then have cok: "settings_ok c"
        using assms by (simp add: settings_ok_def config_ok_def names_ok_def config_fits_def macs_ok_def config_sizes)
      obtain fs saved where sv: "app_config_save c (ws_fs s) = (fs, saved)" by fastforce
      show ?thesis unfolding def id nm a
        by (cases ok; cases saved) (simp_all add: cgi_outcome_def cok sv apply_config_in_step [OF cok])
    qed
  qed
qed

lemma cgi_step_outcome: "settings_ok (rc_config (ws_runtime s)) \<Longrightarrow> cgi_outcome s (fst (cgi_step clock r s))"
  by (cases r) (simp_all add: settings_outcome select_outcome name_outcome)


subsection \<open>The properties of the settings pages\<close>

text \<open>
  C21: whatever settings requests arrive, the configuration in use stays one that fits its record and that
  normalisation accepts, with distinct canonical addresses and distinct sensors, and the measurement store,
  the BLE scanner, the 1-Wire source and the MQTT client all work with exactly that configuration.
\<close>

theorem web_settings_consistent:
  assumes "settings_ok (rc_config (ws_runtime s))" and "in_step (rc_config (ws_runtime s)) s"
  shows "let s' = cgi_run rs s; c = rc_config (ws_runtime s') in settings_ok c \<and> in_step c s'"
  using assms
proof (induction rs arbitrary: s)
  case Nil
  then show ?case by simp
next
  case (Cons x rs)
  obtain clock r where x: "x = (clock, r)" by fastforce
  let ?s = "fst (cgi_step clock r s)"
  have "settings_ok (rc_config (ws_runtime ?s))" "in_step (rc_config (ws_runtime ?s)) ?s"
    using cgi_step_outcome [OF Cons.prems(1), of clock r] Cons.prems unfolding cgi_outcome_def Let_def by metis+
  from Cons.IH [OF this] show ?case unfolding x cgi_run.simps .
qed


lemma normalize_mac_length:
  "normalize_mac_loop w s = Some m \<Longrightarrow>
   length m + count_if (\<lambda>c. c = CHR '':'' \<or> c = CHR ''-'' \<or> c = CHR '' '') s = length w + length s"
proof (induction w s rule: normalize_mac_loop.induct)
  case (1 w)
  then show ?case by (simp split: if_splits)
next
  case (2 w ch s)
  then show ?case by (auto split: if_splits)
qed

text \<open>
  An address written with separators, which the configuration file accepts, is never accepted by the
  page: the buffer cuts it to twelve characters first.
\<close>

theorem select_cuts_address:
  assumes "app_web_find_param_value ps ''mac'' = Some v" and "app_web_find_param_value ps ''enabled'' = Some e"
    and "\<forall>c\<in>set v. c \<noteq> CHR ''%'' \<and> c \<noteq> CHR ''+'' \<and> c \<noteq> NUL"
    and "c \<in> set (take 12 v)" and "c = CHR '':'' \<or> c = CHR ''-''"
  shows "app_web_cgi_select_handler t ps s =
    (web_say ''User device selection failed: invalid MAC'' (web_status ''Selection update failed: invalid MAC'' s), ''/index.html'')"
proof -
  let ?sep = "\<lambda>c. c = CHR '':'' \<or> c = CHR ''-'' \<or> c = CHR '' ''"
  have "decode_param APP_CONFIG_ALLOWED_MAC_LEN v = take 12 v"
    using assms(3) url_decode_plain [of "take 12 v"] by (auto simp: decode_param_def bounded_copy_def config_sizes dest: in_set_takeD)
  moreover have "normalize_mac_loop [] (take 12 v) \<noteq> Some m" for m
  proof
    assume n: "normalize_mac_loop [] (take 12 v) = Some m"
    then have "length m = 12" using normalize_mac_loop_canonical [of "[]" "take 12 v" m] by (simp add: canonical_mac_def)
    then have "count_if ?sep (take 12 v) = 0" using normalize_mac_length [OF n] by (simp add: min_def split: if_splits)
    then show False using assms(4,5) by (auto simp: count_if_eq_0_iff)
  qed
  then have "app_config_normalize_mac APP_CONFIG_ALLOWED_MAC_LEN (take 12 v) = None"
    unfolding app_config_normalize_mac_def by (metis option.exhaust)
  ultimately show ?thesis using assms(1,2) by (simp add: app_web_cgi_select_handler_def Let_def)
qed


text \<open>The board after it started with the configuration \<open>c\<close>, and a volume that works.\<close>

definition web_sys_boot :: "config_fs \<Rightarrow> app_config \<Rightarrow> (string, string list) web_sys" where
  "web_sys_boot fs c = app_web_apply_config 0 c
     \<lparr>ws_web = web_boot, ws_runtime = \<lparr>rc_config = c\<rparr>, ws_fs = fs, ws_scanner = ble_scanner_init,
      ws_onewire = sw_source (fst (onewire_source_init True True [False, False] 30000 0 (measurement_store_init 0))),
      ws_mqtt = mqtt_boot (measurement_store_init 0) [], ws_narodmon = narodmon_init (measurement_store_init 0) '''', ws_log = []\<rparr>"

definition working_fs :: config_fs where
  "working_fs = \<lparr>fs_ready = True, fs_open_write = True, fs_write_ok = (\<lambda>j. True), fs_broken = False, fs_config = None\<rparr>"

lemma web_sys_boot [simp]:
  "ws_runtime (web_sys_boot fs c) = \<lparr>rc_config = c\<rparr>" "ws_fs (web_sys_boot fs c) = fs" "ws_web (web_sys_boot fs c) = web_boot"
  "settings_ok c \<Longrightarrow> in_step c (web_sys_boot fs c)"
  by (simp_all add: web_sys_boot_def apply_config_in_step)

lemma defaults_settings_ok: "settings_ok app_config_defaults" "storable app_config_defaults"
  "settings_ok (app_config_defaults\<lparr>cf_allowed_macs := [''A4C1380011FE'']\<rparr>)"
  "storable (app_config_defaults\<lparr>cf_allowed_macs := [''A4C1380011FE'']\<rparr>)"
  by (simp_all add: settings_ok_def storable_def config_ok_def macs_ok_def names_ok_def name_ok_def canonical_mac_def app_config_defaults_def
      config_fits_def config_sizes config_limits trimmed_def isspace_def plain_char_def NUL_def isxdigit_def isdigit_def toupper_def)

theorem web_settings_consistent_witness:
  "settings_ok (rc_config (ws_runtime
     (cgi_run [((1, 2), Select_cgi [(''mac'', Some ''A4C1380011FE''), (''enabled'', Some ''1'')]), ((3, 4), Apply_cgi [(''ssid'', None)])]
       (web_sys_boot working_fs app_config_defaults))))"
  using web_settings_consistent [of "web_sys_boot working_fs app_config_defaults"
      "[((1, 2), Select_cgi [(''mac'', Some ''A4C1380011FE''), (''enabled'', Some ''1'')]), ((3, 4), Apply_cgi [(''ssid'', None)])]"]
    defaults_settings_ok(1) by (simp add: Let_def del: cgi_run.simps)

lemma short_network: "length (network_piece (app_config_defaults\<lparr>cf_allowed_macs := [''A4C1380011FE'']\<rparr>)) < 1024"
proof -
  have "length (show_nat 3) \<le> 1" using length_show_nat_le [of 3 1] by simp
  then show ?thesis
    by (simp add: length_network_piece app_config_defaults_def app_config_mode_name_def app_config_security_name_def)
qed


theorem select_cuts_address_witness:
  "ws_runtime (fst (app_web_cgi_select_handler 5 [(''mac'', Some ''A4:C1:38:00:11:FE''), (''enabled'', Some ''1'')]
      (web_sys_boot working_fs app_config_defaults))) = \<lparr>rc_config = app_config_defaults\<rparr> \<and>
   app_config_normalize_mac 13 ''A4:C1:38:00:11:FE'' = Some ''A4C1380011FE''"
  using select_cuts_address [of "[(''mac'', Some ''A4:C1:38:00:11:FE''), (''enabled'', Some ''1'')]" "''A4:C1:38:00:11:FE''" "''1''"
      "CHR '':''" 5 "web_sys_boot working_fs app_config_defaults"]
  by (simp add: NUL_def app_config_normalize_mac_def APP_CONFIG_ALLOWED_MAC_LEN_def isxdigit_def isdigit_def toupper_def)


text \<open>A form whose host name has an escaped line break.\<close>

definition injection_form :: cgi_params where
  "injection_form = [(''hostname'', Some ''x%0Asend_narodmon=1''), (''onewire_gpio2_enabled'', Some ''1''),
     (''onewire_gpio3_enabled'', Some ''1'')]"

definition injected_config :: app_config where
  "injected_config = app_config_defaults\<lparr>cf_hostname := ''x'' @ newline @ ''send_narodmon=1''\<rparr>"

definition injected_sections :: "ini_section list" where
  "injected_sections =
     (''network'', [(''mode'', ''ap''), (''ssid'', ''BLEBridge''), (''hostname'', ''x''), (''send_narodmon'', ''1''),
        (''channel'', show_nat 3), (''security'', ''open''), (''password'', ''''), (''send_narodmon'', ''0'')]) #
     tl (config_sections app_config_defaults)"

lemma injection_read:
  "read_limit_params injection_form (read_network_params injection_form app_config_defaults) = injected_config"
  "app_web_read_mqtt_config injection_form (cf_mqtt injected_config) = (cf_mqtt injected_config, None)"
  "app_config_normalize injected_config = injected_config"
proof -
  have d: "decode_param APP_CONFIG_HOSTNAME_MAX_LEN ''x%0Asend_narodmon=1'' = ''x'' @ newline @ ''send_narodmon=1''" by code_simp
  show "read_limit_params injection_form (read_network_params injection_form app_config_defaults) = injected_config"
    by (simp add: injection_form_def read_limit_params_def read_network_params_def on_param_def d Let_def)
      (simp add: injected_config_def app_config_defaults_def)
  show "app_web_read_mqtt_config injection_form (cf_mqtt injected_config) = (cf_mqtt injected_config, None)"
    by (simp add: injection_form_def injected_config_def app_web_read_mqtt_config_def app_web_read_mqtt_string_def
        app_web_read_mqtt_number_def Let_def app_config_defaults_def)
  have "config_ok injected_config"
    by (simp add: injected_config_def config_ok_def app_config_defaults_def config_limits trimmed_def isspace_def newline_def)
  then show "app_config_normalize injected_config = injected_config" by (rule normalize_config_ok)
qed

lemma one_digit: "length (show_nat 3) \<le> 1"
  using length_show_nat_le [of 3 1] by simp

lemma injected_pieces: "\<forall>p\<in>set (config_pieces injected_config). length p < 1024"
proof -
  have "length (network_piece app_config_defaults) < 1024"
    using short_network by (simp add: length_network_piece)
  then have "\<forall>p\<in>set (config_pieces app_config_defaults). length p < 1024"
    by (rule config_pieces_short [OF defaults_settings_ok(2)])
  moreover have "config_pieces injected_config = network_piece injected_config # tl (config_pieces app_config_defaults)"
    by (simp add: injected_config_def config_pieces_def mac_pieces_def measurement_piece_def onewire_piece_def mqtt_piece_def
        name_pieces_def)
  moreover have "length (network_piece injected_config) < 1024"
    using one_digit by (simp add: length_network_piece injected_config_def app_config_defaults_def newline_def
        app_config_mode_name_def app_config_security_name_def)
  ultimately show ?thesis by (cases "config_pieces app_config_defaults") auto
qed

lemma injected_file: "concat (config_pieces injected_config) = unlines (config_comments @ ini_lines injected_sections)"
proof -
  have t: "tl (config_sections injected_config) = tl (config_sections app_config_defaults)"
    by (simp add: injected_config_def config_sections_def measurement_keys_def onewire_keys_def mqtt_keys_def name_keys_def)
  have h: "unlines (section_lines (hd (config_sections injected_config))) = unlines (section_lines (hd injected_sections))"
    by (simp add: injected_sections_def config_sections_def network_keys_def mac_keys_def section_lines_def kv_line_def
        injected_config_def app_config_defaults_def newline_def app_config_mode_name_def app_config_security_name_def show_bool_def)
  have "unlines (ini_lines (x # xs)) = newline @ unlines (section_lines x) @ unlines (ini_lines xs)" for x xs
    by (simp add: ini_lines_def newline_def)
  moreover have "config_sections injected_config = hd (config_sections injected_config) # tl (config_sections injected_config)"
    "injected_sections = hd injected_sections # tl injected_sections"
    by (simp_all add: config_sections_def injected_sections_def)
  moreover have "tl injected_sections = tl (config_sections app_config_defaults)" by (simp add: injected_sections_def)
  ultimately show ?thesis unfolding concat_config_pieces using t h by (metis unlines_simps(3))
qed

lemma injected_sections_ok: "\<forall>s\<in>set injected_sections. section_ok s" "distinct (List.map fst injected_sections)"
proof -
  have "\<forall>s\<in>set (tl (config_sections app_config_defaults)). section_ok s"
    using config_sections_ok [OF defaults_settings_ok(2)] by (simp add: config_sections_def)
  moreover have three: "show_nat 3 = ''3''" by code_simp
  have "section_ok (hd injected_sections)"
    by (simp add: three injected_sections_def section_ok_def key_ok_def text_ok_def plain_char_def NUL_def isspace_def)
  ultimately show "\<forall>s\<in>set injected_sections. section_ok s" by (simp add: injected_sections_def)
  show "distinct (List.map fst injected_sections)" by (simp add: injected_sections_def config_sections_def)
qed


end
