(* ===== verification/Main_Loop.thy ===== *)
theory Main_Loop
  imports Network_Start Web_Settings
begin

text \<open>
  The rest of \<^verbatim>\<open>BLEBridge.c\<close>: \<^verbatim>\<open>main\<close>, the start of the application and the turns of its endless loops.
  Five minutes lie between two reports to narodmon, the volume never has two users, the numbers shown on the
  pages are bounded, and no turn hangs.
\<close>

text \<open>
  The counters of the loop, in microseconds.  In C they have 64 bits; the sums are cleared once a second, so
  nothing wraps.
\<close>

record loop_vars =
  lv_cpu_busy_acc_us :: nat
  lv_cpu_total_acc_us :: nat
  lv_next_cpu_update :: nat
  lv_next_narodmon_send :: nat

definition log_boot :: "'w board \<Rightarrow> 'w bridge \<Rightarrow> 'w bridge" where
  "log_boot bd b =
     (let b = tell bd (App_Log ''Booting BLEBridge'') (tell bd App_Web_Init b);
          b = tell bd (App_Log (''Firmware build: '' @ firmware_build_version bd)) b;
          b = (if watchdog_caused_reboot bd (br_world b) then tell bd (App_Log ''Rebooted by Watchdog'') b else b)
      in tell bd (App_Log (''Loaded config: mode='' @ app_config_mode_name (cf_mode (config_of bd b)) @ '' ssid='' @
           quoted_text (cf_ssid (config_of bd b)) @ '' hostname='' @ quoted_text (cf_hostname (config_of bd b)) @ '' channel='' @
           show_nat (cf_channel (config_of bd b)) @ '' security='' @ app_config_security_name (cf_security (config_of bd b)))) b)"

definition start_services :: "'w board \<Rightarrow> 'w bridge \<Rightarrow> loop_vars \<times> 'w bridge" where
  "start_services bd b =
     (let b = tell bd App_Web_Register_Http_Handlers (tell bd Httpd_Init b);
          b = tell bd (App_Log (''HTTP server is listening on http://'' @ address_text bd (br_world b) @ ''/'')) b;
          b = tell bd (Measurement_Store_Init (to_ms_since_boot (now bd b))) b;
          b = tell bd (Measurement_Store_Configure (cf_measurement_retention_seconds (config_of bd b)) (cf_measurement_max_count (config_of bd b))) b;
          b = tell bd Ble_Scanner_Init b;
          b = tell bd (Ble_Scanner_Apply_Config (config_of bd b)) b;
          b = tell bd (Onewire_Source_Apply_Config (config_of bd b)) b;
          b = tell bd (App_Mqtt_Apply_Config (cf_mqtt (config_of bd b))) b;
          lv = \<lparr>lv_cpu_busy_acc_us = 0, lv_cpu_total_acc_us = 0, lv_next_cpu_update = make_timeout_time_ms bd 1000 b,
                lv_next_narodmon_send = make_timeout_time_ms bd NARODMON_SEND_INTERVAL_MS b\<rparr>;
          b = tell bd (App_Web_Set_Narodmon_Seconds_Remaining (word_of_nat (NARODMON_SEND_INTERVAL_MS div 1000))) b
      in (lv, tell bd (Status_Led_Set True) b))"

text \<open>The steps of a turn of the loop, in their order.\<close>

definition poll_components :: "'w board \<Rightarrow> 'w bridge \<Rightarrow> 'w bridge" where
  "poll_components bd b =
     (let b = tell bd Cyw43_Arch_Poll (tell bd Watchdog_Update b);
          now_ms = to_ms_since_boot (now bd b)
      in tell bd (App_Mqtt_Poll now_ms) (tell bd (Measurement_Store_Periodic now_ms) (tell bd (Onewire_Source_Periodic now_ms)
          (tell bd (Ble_Scanner_Periodic now_ms) (tell bd (App_Web_Poll now_ms) (tell bd (App_Narodmon_Poll now_ms) b))))))"

definition check_link :: "'w board \<Rightarrow> 'w bridge \<Rightarrow> ('w bridge \<times> bool) option" where
  "check_link bd b =
     (if cf_mode (config_of bd b) = APP_WIFI_MODE_CLIENT \<and> link_status bd (br_world b) \<noteq> CYW43_LINK_UP
      then (case reconnect_client_network bd b of
              None \<Rightarrow> None
            | Some (b1, ok) \<Rightarrow> if \<not> ok then Some (reboot_after_log bd ''Rebooting after Wi-Fi reconnect failure'' b1, False) else Some (b1, True))
      else Some (b, True))"

definition show_countdown :: "'w board \<Rightarrow> loop_vars \<Rightarrow> 'w bridge \<Rightarrow> 'w bridge" where
  "show_countdown bd lv b =
     (let remaining_us = absolute_time_diff_us (now bd b) (lv_next_narodmon_send lv);
          remaining_seconds = (if cf_send_narodmon (config_of bd b) \<and> remaining_us > 0
                               then word_of_int ((remaining_us + 999999) div 1000000) else 0)
      in tell bd (App_Web_Set_Narodmon_Seconds_Remaining remaining_seconds) b)"

definition wait_and_account :: "'w board \<Rightarrow> nat \<Rightarrow> nat \<Rightarrow> loop_vars \<times> 'w bridge \<Rightarrow> loop_vars \<times> 'w bridge" where
  "wait_and_account bd loop_start next_poll s =
     (case s of (lv, b) \<Rightarrow>
        let busy_us = absolute_time_diff_us loop_start (now bd b);
            lv = (if busy_us > 0 then lv\<lparr>lv_cpu_busy_acc_us := lv_cpu_busy_acc_us lv + nat busy_us\<rparr> else lv);
            b = tell bd (Cyw43_Arch_Wait_For_Work_Until next_poll) b;
            total_us = absolute_time_diff_us loop_start (now bd b);
            lv = (if total_us > 0 then lv\<lparr>lv_cpu_total_acc_us := lv_cpu_total_acc_us lv + nat total_us\<rparr> else lv)
        in (lv, b))"

definition cpu_percent :: "loop_vars \<Rightarrow> nat" where
  "cpu_percent lv =
     (if lv_cpu_total_acc_us lv > 0
      then (let percent = lv_cpu_busy_acc_us lv * 100 div lv_cpu_total_acc_us lv in if percent > 100 then 100 else percent) else 0)"

definition update_cpu_load :: "'w board \<Rightarrow> loop_vars \<times> 'w bridge \<Rightarrow> loop_vars \<times> 'w bridge" where
  "update_cpu_load bd s =
     (case s of (lv, b) \<Rightarrow>
        if time_reached bd (lv_next_cpu_update lv) b
        then (let b = tell bd (App_Web_Set_Cpu_Load (word_of_nat (cpu_percent lv))) b
              in (lv\<lparr>lv_cpu_busy_acc_us := 0, lv_cpu_total_acc_us := 0, lv_next_cpu_update := make_timeout_time_ms bd 1000 b\<rparr>, b))
        else s)"

definition send_narodmon_if_due :: "'w board \<Rightarrow> loop_vars \<times> 'w bridge \<Rightarrow> loop_vars \<times> 'w bridge" where
  "send_narodmon_if_due bd s =
     (case s of (lv, b) \<Rightarrow>
        if cf_send_narodmon (config_of bd b) \<and> time_reached bd (lv_next_narodmon_send lv) b
        then (let b = tell bd App_Narodmon_Start_Send b;
                  lv = lv\<lparr>lv_next_narodmon_send := make_timeout_time_ms bd NARODMON_SEND_INTERVAL_MS b\<rparr>
              in (lv, tell bd (App_Web_Set_Narodmon_Seconds_Remaining (word_of_nat (NARODMON_SEND_INTERVAL_MS div 1000))) b))
        else s)"

text \<open>Where the program is: in a loop that only sleeps, serving the volume over USB, restarting, or in its main loop.\<close>

datatype phase = Halted | Usb_Storage | Rebooting | Running loop_vars

definition main_turn :: "'w board \<Rightarrow> loop_vars \<Rightarrow> 'w bridge \<Rightarrow> ('w bridge \<times> phase) option" where
  "main_turn bd lv b =
     (let loop_start = now bd b;
          next_poll = make_timeout_time_ms bd POLL_INTERVAL_MS b
      in case check_link bd (poll_components bd b) of
           None \<Rightarrow> None
         | Some (b1, ok) \<Rightarrow>
             if \<not> ok then Some (b1, Rebooting)
             else (case send_narodmon_if_due bd (update_cpu_load bd (wait_and_account bd loop_start next_poll (lv, show_countdown bd lv b1))) of
                     (lv', b2) \<Rightarrow> Some (b2, Running lv')))"

definition run_main_application_mode :: "'w board \<Rightarrow> 'w bridge \<Rightarrow> ('w bridge \<times> phase) option" where
  "run_main_application_mode bd b =
     (case ask bd App_Runtime_Config_Load b of
        (b1, loaded) \<Rightarrow>
          if loaded = 0 then Some (b1, Halted)
          else (case ask bd App_Log_Init b1 of
                  (b2, ready) \<Rightarrow>
                    if ready = 0 then Some (b2, Halted)
                    else (case init_network_services bd (log_boot bd b2) of
                            None \<Rightarrow> None
                          | Some (b3, ok) \<Rightarrow>
                              if \<not> ok then Some (reboot_after_log bd ''Rebooting after network initialization failure'' b3, Rebooting)
                              else (case start_services bd b3 of (lv, b4) \<Rightarrow> Some (b4, Running lv)))))"

text \<open>\<open>main\<close> up to the first of its endless loops.\<close>

definition main_boot :: "'w board \<Rightarrow> 'w bridge \<Rightarrow> ('w bridge \<times> phase) option" where
  "main_boot bd b =
     (case ask bd Cyw43_Arch_Init b of
        (b1, err) \<Rightarrow>
          if err \<noteq> 0 then Some (b1, Halted)
          else (case usb_host_present_at_boot bd (tell bd (Status_Led_Set True) (tell bd (Watchdog_Enable WATCHDOG_TIMEOUT_MS) b1)) of
                  None \<Rightarrow> None
                | Some (b2, present) \<Rightarrow>
                    if present then Some (tell bd (Status_Led_Set False) b2, Usb_Storage)
                    else (case ask bd Onewire_Source_Init b2 of
                            (b3, ok) \<Rightarrow> if ok = 0 then Some (b3, Halted) else run_main_application_mode bd b3)))"

text \<open>A turn of the loop the program is in.\<close>

definition phase_turn :: "'w board \<Rightarrow> 'w bridge \<times> phase \<Rightarrow> ('w bridge \<times> phase) option" where
  "phase_turn bd s =
     (case s of (b, ph) \<Rightarrow>
        (case ph of
           Halted \<Rightarrow> Some (tell bd (Sleep_Ms 1000) b, Halted)
         | Usb_Storage \<Rightarrow> Some (usb_mass_storage_turn bd b, Usb_Storage)
         | Rebooting \<Rightarrow> Some s
         | Running lv \<Rightarrow> main_turn bd lv b))"

fun main_run :: "'w board \<Rightarrow> nat \<Rightarrow> 'w bridge \<Rightarrow> ('w bridge \<times> phase) option" where
  "main_run bd 0 b = main_boot bd b"
| "main_run bd (Suc n) b = (case main_run bd n b of None \<Rightarrow> None | Some s \<Rightarrow> phase_turn bd s)"

subsection \<open>What the steps of the main loop keep\<close>

lemma kept_mono: "keeps bd Q J \<Longrightarrow> (\<And>c. P c \<Longrightarrow> Q c) \<Longrightarrow> keeps bd P J"
  by (simp add: keeps_def)

fun loop_call :: "call \<Rightarrow> bool" where
  "loop_call (App_Narodmon_Poll t) = True"
| "loop_call (App_Web_Poll t) = True"
| "loop_call (Ble_Scanner_Periodic t) = True"
| "loop_call (Onewire_Source_Periodic t) = True"
| "loop_call (Measurement_Store_Periodic t) = True"
| "loop_call (App_Mqtt_Poll t) = True"
| "loop_call (Sleep_Ms n) = True"
| "loop_call Watchdog_Reboot = True"
| "loop_call c = network_call c"

lemma network_loop_call: "network_call c \<Longrightarrow> loop_call c"
  by (cases c) auto

lemma poll_kept: "keeps bd loop_call J \<Longrightarrow> J b \<Longrightarrow> J (poll_components bd b)"
  by (simp add: poll_components_def Let_def keptD)

lemma reboot_kept: "keeps bd loop_call J \<Longrightarrow> J b \<Longrightarrow> J (reboot_after_log bd m b)"
  by (simp add: reboot_after_log_def keptD)

lemma check_link_kept:
  assumes k: "keeps bd loop_call J" and "J b" and r: "check_link bd b = Some (b', ok)"
  shows "J b'"
proof (cases "cf_mode (config_of bd b) = APP_WIFI_MODE_CLIENT \<and> link_status bd (br_world b) \<noteq> CYW43_LINK_UP")
  case True
  have n: "keeps bd network_call J" by (rule kept_mono [OF k]) (rule network_loop_call)
  obtain b1 ok1 where c: "reconnect_client_network bd b = Some (b1, ok1)"
    using r unfolding check_link_def if_P [OF True] by (auto split: option.splits)
  then have "J b1" using reconnect_kept [OF n assms(2)] by fastforce
  then show ?thesis
    using r reboot_kept [OF k] unfolding check_link_def if_P [OF True] c by (auto split: if_splits simp del: append.simps)
next
  case False
  then show ?thesis using r assms(2) unfolding check_link_def if_not_P [OF False] by simp
qed

text \<open>The part of a turn before the link is checked and the part behind it.\<close>

definition rest_of_turn :: "'w board \<Rightarrow> nat \<Rightarrow> nat \<Rightarrow> loop_vars \<Rightarrow> 'w bridge \<Rightarrow> loop_vars \<times> 'w bridge" where
  "rest_of_turn bd loop_start next_poll lv b =
     send_narodmon_if_due bd (update_cpu_load bd (wait_and_account bd loop_start next_poll (lv, show_countdown bd lv b)))"

lemma main_turn_cases:
  assumes k: "keeps bd loop_call J" and "J b" and r: "main_turn bd lv b = Some (b', ph)"
  shows "(ph = Rebooting \<and> J b') \<or>
    (\<exists>t p b1 lv'. J b1 \<and> rest_of_turn bd t p lv b1 = (lv', b') \<and> ph = Running lv')"
proof -
  obtain b1 ok where c: "check_link bd (poll_components bd b) = Some (b1, ok)"
    using r by (auto simp: main_turn_def Let_def split: option.splits)
  have "J b1" using check_link_kept [OF k poll_kept [OF k assms(2)] c] .
  then show ?thesis
    using r unfolding main_turn_def Let_def c option.case prod.case rest_of_turn_def by (auto split: if_splits prod.splits)
qed

text \<open>The calls of the rest of the turn.\<close>

lemma wait_and_account_cases:
  "wait_and_account bd t p (lv, b) = (lv', b') \<Longrightarrow>
   b' = tell bd (Cyw43_Arch_Wait_For_Work_Until p) b \<and> lv_next_narodmon_send lv' = lv_next_narodmon_send lv"
  by (auto simp: wait_and_account_def Let_def)

lemma cpu_percent_le: "cpu_percent lv \<le> 100"
  by (simp add: cpu_percent_def Let_def)

lemma update_cpu_load_cases:
  "update_cpu_load bd (lv, b) = (lv', b') \<Longrightarrow>
   lv_next_narodmon_send lv' = lv_next_narodmon_send lv \<and>
   (b' = b \<or> (\<exists>percent\<le>100. b' = tell bd (App_Web_Set_Cpu_Load (word_of_nat percent)) b))"
  using cpu_percent_le [of lv] by (auto simp: update_cpu_load_def Let_def split: if_splits)

lemma send_cases:
  "send_narodmon_if_due bd (lv, b) = (lv', b') \<Longrightarrow>
   (b' = b \<and> lv' = lv) \<or>
   (lv_next_narodmon_send lv \<le> now bd b \<and>
    lv_next_narodmon_send lv' = now bd (tell bd App_Narodmon_Start_Send b) + 300000000 \<and>
    b' = tell bd (App_Web_Set_Narodmon_Seconds_Remaining 300) (tell bd App_Narodmon_Start_Send b))"
  by (auto simp: send_narodmon_if_due_def time_reached_def make_timeout_time_ms_def NARODMON_SEND_INTERVAL_MS_def Let_def split: if_splits)

lemma rest_of_turn_cases:
  assumes "rest_of_turn bd t p lv b = (lv', b')"
  shows "\<exists>b1 b2 percent.
    b1 = tell bd (Cyw43_Arch_Wait_For_Work_Until p) (show_countdown bd lv b) \<and>
    (b2 = b1 \<or> percent \<le> 100 \<and> b2 = tell bd (App_Web_Set_Cpu_Load (word_of_nat percent)) b1) \<and>
    ((b' = b2 \<and> lv_next_narodmon_send lv' = lv_next_narodmon_send lv) \<or>
     (lv_next_narodmon_send lv \<le> now bd b2 \<and>
      lv_next_narodmon_send lv' = now bd (tell bd App_Narodmon_Start_Send b2) + 300000000 \<and>
      b' = tell bd (App_Web_Set_Narodmon_Seconds_Remaining 300) (tell bd App_Narodmon_Start_Send b2)))"
proof -
  obtain lv1 b1 where w: "wait_and_account bd t p (lv, show_countdown bd lv b) = (lv1, b1)" by fastforce
  obtain lv2 b2 where u: "update_cpu_load bd (lv1, b1) = (lv2, b2)" by fastforce
  have s: "send_narodmon_if_due bd (lv2, b2) = (lv', b')" using assms by (simp add: rest_of_turn_def w u)
  show ?thesis
    using wait_and_account_cases [OF w] update_cpu_load_cases [OF u] send_cases [OF s] by metis
qed

lemma rest_of_turn_kept:
  assumes k: "keeps bd P J" and P: "\<And>t. P (Cyw43_Arch_Wait_For_Work_Until t)" "\<And>x. P (App_Web_Set_Cpu_Load x)"
      "\<And>s. P (App_Web_Set_Narodmon_Seconds_Remaining s)" "P App_Narodmon_Start_Send"
    and "J b" "rest_of_turn bd t p lv b = (lv', b')"
  shows "J b'"
proof -
  have "J (tell bd (Cyw43_Arch_Wait_For_Work_Until p) (show_countdown bd lv b))"
    using assms(6) unfolding show_countdown_def Let_def by (simp add: keptD [OF k] P)
  then show ?thesis using rest_of_turn_cases [OF assms(7)] by (elim exE conjE disjE) (simp_all add: keptD [OF k] P)
qed

subsection \<open>What booting keeps\<close>

definition app_call :: "call \<Rightarrow> bool" where
  "app_call c \<longleftrightarrow> c \<noteq> Tud_Task \<and> c \<noteq> App_Narodmon_Start_Send \<and> (\<forall>x. c \<noteq> App_Web_Set_Cpu_Load x) \<and>
     (\<forall>s. c = App_Web_Set_Narodmon_Seconds_Remaining s \<longrightarrow> s = 300)"

definition boot_call :: "call \<Rightarrow> bool" where
  "boot_call c \<longleftrightarrow> c = Tud_Task \<or> app_call c"

lemma network_app_call: "network_call c \<Longrightarrow> app_call c"
  by (auto simp: app_call_def)

lemma start_services_kept:
  assumes k: "keeps bd app_call J" and "J b" and "start_services bd b = (lv, b')"
  shows "J b'"
  using assms(2,3) unfolding start_services_def Let_def
  by (auto simp: keptD [OF k] app_call_def NARODMON_SEND_INTERVAL_MS_def simp del: append.simps)

lemma log_boot_kept: "keeps bd app_call J \<Longrightarrow> J b \<Longrightarrow> J (log_boot bd b)"
  unfolding log_boot_def Let_def by (simp add: keptD app_call_def del: append.simps)

lemma run_main_kept:
  assumes k: "keeps bd app_call J" and "J b" and "run_main_application_mode bd b = Some (b', ph)"
  shows "J b'"
proof -
  have n: "keeps bd network_call J" by (rule kept_mono [OF k]) (rule network_app_call)
  obtain b1 r1 where a1: "ask bd App_Runtime_Config_Load b = (b1, r1)" by fastforce
  obtain b2 r2 where a2: "ask bd App_Log_Init b1 = (b2, r2)" by fastforce
  have b1: "b1 = tell bd App_Runtime_Config_Load b" "b2 = tell bd App_Log_Init b1" by (rule ask_tell [OF a1], rule ask_tell [OF a2])
  have j: "J b1" "J b2" unfolding b1 using assms(2) by (simp_all add: keptD [OF k] app_call_def)
  show ?thesis
  proof (cases "r1 = 0 \<or> r2 = 0")
    case True
    then show ?thesis using assms(3) j unfolding run_main_application_mode_def a1 a2 prod.case by (auto split: if_splits)
  next
    case False
    then obtain b3 ok where i: "init_network_services bd (log_boot bd b2) = Some (b3, ok)"
      using assms(3) unfolding run_main_application_mode_def a1 a2 prod.case by (auto split: option.splits)
    have "J b3" using init_network_kept [OF n log_boot_kept [OF k j(2)] i] by simp
    then show ?thesis
      using assms(3) False start_services_kept [OF k] unfolding run_main_application_mode_def a1 a2 prod.case i option.case
      by (auto simp: reboot_after_log_def keptD [OF k] app_call_def simp del: append.simps split: if_splits prod.splits)
  qed
qed

fun usb_call :: "call \<Rightarrow> bool" where
  "usb_call Tusb_Init = True"
| "usb_call Tud_Task = True"
| "usb_call Tud_Deinit = True"
| "usb_call Watchdog_Update = True"
| "usb_call Cyw43_Arch_Poll = True"
| "usb_call (Sleep_Ms n) = True"
| "usb_call (Status_Led_Set on) = True"
| "usb_call _ = False"

lemma usb_boot_call: "usb_call c \<Longrightarrow> boot_call c"
  by (cases c) (auto simp: boot_call_def app_call_def)

lemma usb_turn_kept:
  assumes k: "keeps bd usb_call J" and "J b"
  shows "usb_turn bd deadline b = Inr b' \<Longrightarrow> J b'"
    and "usb_turn bd deadline b = Inl (b', present) \<Longrightarrow> if present then J b' else \<exists>b1. J b1 \<and> b' = tell bd Tud_Deinit b1"
  using assms(2) by (auto simp: usb_turn_def Let_def keptD [OF k] split: if_splits)

text \<open>Without a host the device is switched off again, unless it did not start.\<close>

lemma usb_present_kept:
  assumes k: "keeps bd usb_call J" and "J b" and r: "usb_host_present_at_boot bd b = Some (b', present)"
  shows "J b' \<and> (present \<or> b' = tell bd Tusb_Init (tell bd (Status_Led_Set False) b) \<or> (\<exists>b1. J b1 \<and> b' = tell bd Tud_Deinit b1))"
proof -
  let ?d = "make_timeout_time_ms bd USB_HOST_DETECT_TIMEOUT_MS b"
  obtain b1 ok where a: "ask bd Tusb_Init (tell bd (Status_Led_Set False) b) = (b1, ok)" by fastforce
  have b1: "b1 = tell bd Tusb_Init (tell bd (Status_Led_Set False) b)" by (rule ask_tell [OF a])
  have j: "J b1" unfolding b1 using assms(2) by (simp add: keptD [OF k])
  show ?thesis
  proof (cases "ok = 0")
    case True
    then show ?thesis using r j b1 unfolding usb_host_present_at_boot_def Let_def a prod.case by auto
  next
    case False
    then have l: "loop (usb_turn bd ?d) b1 = Some (b', present)"
      using r unfolding usb_host_present_at_boot_def Let_def a prod.case by simp
    then obtain b2 where "J b2" "usb_turn bd ?d b2 = Inl (b', present)"
      using loop_invariant [OF l, of J] j usb_turn_kept(1) [OF k] by blast
    then show ?thesis using usb_turn_kept(2) [OF k, of b2 ?d b' present] by (auto simp: keptD [OF k] split: if_splits)
  qed
qed

text \<open>The calls before USB is looked for.\<close>

definition powered :: "'w board \<Rightarrow> 'w bridge \<Rightarrow> 'w bridge" where
  "powered bd b = tell bd (Status_Led_Set True) (tell bd (Watchdog_Enable WATCHDOG_TIMEOUT_MS) (tell bd Cyw43_Arch_Init b))"

lemma main_boot_cases:
  assumes "main_boot bd b = Some (b', ph)"
  shows "(ph = Halted \<and> b' = tell bd Cyw43_Arch_Init b) \<or>
    (\<exists>b2 present. usb_host_present_at_boot bd (powered bd b) = Some (b2, present) \<and>
       (if present then ph = Usb_Storage \<and> b' = tell bd (Status_Led_Set False) b2
        else (ph = Halted \<and> b' = tell bd Onewire_Source_Init b2) \<or>
             run_main_application_mode bd (tell bd Onewire_Source_Init b2) = Some (b', ph)))"
proof -
  obtain b1 err where a: "ask bd Cyw43_Arch_Init b = (b1, err)" by fastforce
  have b1: "b1 = tell bd Cyw43_Arch_Init b" by (rule ask_tell [OF a])
  show ?thesis
  proof (cases "err = 0")
    case False
    then show ?thesis using assms unfolding main_boot_def a prod.case b1 by simp
  next
    case True
    then obtain b2 present where u: "usb_host_present_at_boot bd (powered bd b) = Some (b2, present)"
      using assms unfolding main_boot_def a prod.case b1 powered_def by (auto split: option.splits)
    obtain b3 ok where s: "ask bd Onewire_Source_Init b2 = (b3, ok)" by fastforce
    have b3: "b3 = tell bd Onewire_Source_Init b2" by (rule ask_tell [OF s])
    show ?thesis
      using assms True unfolding main_boot_def a prod.case b1 powered_def [symmetric] u option.case s b3
      by (intro disjI2 exI [of _ b2] exI [of _ present]) (auto simp: u split: if_splits)
  qed
qed

lemma main_boot_kept:
  assumes k: "keeps bd boot_call J" and "J b" and r: "main_boot bd b = Some (b', ph)"
  shows "J b'"
proof -
  have ka: "keeps bd app_call J" by (rule kept_mono [OF k]) (simp add: boot_call_def)
  have ku: "keeps bd usb_call J" by (rule kept_mono [OF k]) (rule usb_boot_call)
  have c: "app_call Cyw43_Arch_Init" "app_call (Watchdog_Enable t)" "app_call (Status_Led_Set on)" "app_call Onewire_Source_Init" for t on
    by (simp_all add: app_call_def)
  have p: "J (powered bd b)" using assms(2) by (simp add: powered_def keptD [OF ka] c)
  from main_boot_cases [OF r] show ?thesis
  proof (elim disjE exE conjE)
    fix b2 present
    assume u: "usb_host_present_at_boot bd (powered bd b) = Some (b2, present)"
      and d: "if present then ph = Usb_Storage \<and> b' = tell bd (Status_Led_Set False) b2
        else (ph = Halted \<and> b' = tell bd Onewire_Source_Init b2) \<or>
             run_main_application_mode bd (tell bd Onewire_Source_Init b2) = Some (b', ph)"
    have j: "J b2" using usb_present_kept [OF ku p u] by blast
    have o: "J (tell bd Onewire_Source_Init b2)" "J (tell bd (Status_Led_Set False) b2)"
      by (rule keptD [OF ka _ j], rule c)+
    show ?thesis
    proof (cases present)
      case True
      then show ?thesis using d o(2) by simp
    next
      case False
      then have "b' = tell bd Onewire_Source_Init b2 \<or> run_main_application_mode bd (tell bd Onewire_Source_Init b2) = Some (b', ph)"
        using d by (simp only: if_False) blast
      then show ?thesis using o(1) run_main_kept [OF ka o(1)] by (elim disjE) simp_all
    qed
  qed (use assms(2) in \<open>simp add: keptD [OF ka] c\<close>)
qed

lemma idle_turn_kept:
  assumes k: "keeps bd boot_call J" and "J b" and "phase_turn bd (b, ph) = Some (b', ph')" and "\<And>lv. ph \<noteq> Running lv"
  shows "J b' \<and> ph' = ph"
proof -
  have "boot_call (Sleep_Ms n)" "boot_call Cyw43_Arch_Poll" "boot_call Tud_Task" "boot_call Watchdog_Update" for n
    by (simp_all add: boot_call_def app_call_def)
  then show ?thesis using assms(2-) by (cases ph) (auto simp: phase_turn_def usb_mass_storage_turn_def keptD [OF k])
qed

text \<open>An invariant of the phases holds at every turn.\<close>

lemma main_run_invariant:
  assumes "main_run bd n b = Some s" "\<And>s. main_boot bd b = Some s \<Longrightarrow> I s" "\<And>s s'. I s \<Longrightarrow> phase_turn bd s = Some s' \<Longrightarrow> I s'"
  shows "I s"
  using assms by (induction n arbitrary: s) (auto split: option.splits)

subsection \<open>The reports to narodmon\<close>

definition send_times :: "'w bridge \<Rightarrow> nat list" where
  "send_times b = map fst (filter (\<lambda>(t, c). c = App_Narodmon_Start_Send) (br_calls b))"

text \<open>Five minutes lie between two reports, and \<open>next_send\<close> is five minutes behind the last.\<close>

definition sends_spaced :: "nat list \<Rightarrow> bool" where
  "sends_spaced ts = successively (\<lambda>s t. s + 300000000 \<le> t) ts"

definition spaced_until :: "nat \<Rightarrow> 'w bridge \<Rightarrow> bool" where
  "spaced_until next_send b \<longleftrightarrow> sends_spaced (send_times b) \<and> (send_times b = [] \<or> last (send_times b) + 300000000 \<le> next_send)"

lemma send_times_tell:
  "send_times (tell bd c b) = (if c = App_Narodmon_Start_Send then send_times b @ [now bd b] else send_times b)"
  by (simp add: send_times_def)

lemma spaced_kept: "keeps bd (\<lambda>c. c \<noteq> App_Narodmon_Start_Send) (spaced_until next_send)"
  by (simp add: keeps_def spaced_until_def send_times_tell)

lemma spaced_send:
  "spaced_until next_send b \<Longrightarrow> next_send \<le> now bd b \<Longrightarrow> now bd b + 300000000 \<le> n \<Longrightarrow>
   spaced_until n (tell bd App_Narodmon_Start_Send b)"
  by (auto simp: spaced_until_def send_times_tell sends_spaced_def successively_append_iff)

lemma loop_call_no_send: "loop_call c \<Longrightarrow> c \<noteq> App_Narodmon_Start_Send"
  by auto

definition spaced_phase :: "'w bridge \<times> phase \<Rightarrow> bool" where
  "spaced_phase s \<longleftrightarrow> (\<exists>next_send. spaced_until next_send (fst s) \<and> (\<forall>lv. snd s = Running lv \<longrightarrow> lv_next_narodmon_send lv = next_send))"

lemma rest_spaced:
  assumes "steady_clock bd" "spaced_until (lv_next_narodmon_send lv) b" "rest_of_turn bd t p lv b = (lv', b')"
  shows "spaced_until (lv_next_narodmon_send lv') b'"
proof -
  note k = keptD [OF spaced_kept]
  obtain b1 b2 percent where
      b1: "b1 = tell bd (Cyw43_Arch_Wait_For_Work_Until p) (show_countdown bd lv b)"
    and b2: "b2 = b1 \<or> percent \<le> (100 :: nat) \<and> b2 = tell bd (App_Web_Set_Cpu_Load (word_of_nat percent)) b1"
    and b': "(b' = b2 \<and> lv_next_narodmon_send lv' = lv_next_narodmon_send lv) \<or>
     (lv_next_narodmon_send lv \<le> now bd b2 \<and>
      lv_next_narodmon_send lv' = now bd (tell bd App_Narodmon_Start_Send b2) + 300000000 \<and>
      b' = tell bd (App_Web_Set_Narodmon_Seconds_Remaining 300) (tell bd App_Narodmon_Start_Send b2))"
    using rest_of_turn_cases [OF assms(3)] by blast
  have "spaced_until (lv_next_narodmon_send lv) b1" unfolding b1 show_countdown_def Let_def using assms(2) by (simp add: k)
  then have s2: "spaced_until (lv_next_narodmon_send lv) b2" using b2 by (auto simp: k)
  from b' show ?thesis
  proof (elim disjE conjE)
    assume n: "lv_next_narodmon_send lv \<le> now bd b2" "lv_next_narodmon_send lv' = now bd (tell bd App_Narodmon_Start_Send b2) + 300000000"
      "b' = tell bd (App_Web_Set_Narodmon_Seconds_Remaining 300) (tell bd App_Narodmon_Start_Send b2)"
    have "now bd b2 + 300000000 \<le> lv_next_narodmon_send lv'" using n(2) steady(1) [OF assms(1)] by simp
    from spaced_send [OF s2 n(1) this] show ?thesis unfolding n(3) by (simp add: k)
  qed (use s2 in simp)
qed

lemma main_turn_spaced:
  assumes "steady_clock bd" "spaced_until (lv_next_narodmon_send lv) b" "main_turn bd lv b = Some (b', ph)"
  shows "spaced_phase (b', ph)"
proof -
  have k: "keeps bd loop_call (spaced_until n)" for n
    by (rule kept_mono [OF spaced_kept]) (rule loop_call_no_send)
  show ?thesis
    using main_turn_cases [OF k assms(2,3)] rest_spaced [OF assms(1)] unfolding spaced_phase_def by fastforce
qed

lemma boot_call_no_send: "boot_call c \<Longrightarrow> c \<noteq> App_Narodmon_Start_Send"
  by (auto simp: boot_call_def app_call_def)

lemma phase_turn_spaced:
  assumes "steady_clock bd" "spaced_phase s" "phase_turn bd s = Some s'"
  shows "spaced_phase s'"
proof (cases "\<exists>lv. snd s = Running lv")
  case True
  then obtain lv where lv: "snd s = Running lv" by blast
  then have "spaced_until (lv_next_narodmon_send lv) (fst s)" using assms(2) by (auto simp: spaced_phase_def)
  then show ?thesis using main_turn_spaced [OF assms(1), of lv "fst s" "fst s'" "snd s'"] assms(3) lv
    by (cases s) (simp add: phase_turn_def)
next
  case False
  obtain next_send where "spaced_until next_send (fst s)" using assms(2) by (auto simp: spaced_phase_def)
  moreover have "keeps bd boot_call (spaced_until next_send)"
    by (rule kept_mono [OF spaced_kept]) (rule boot_call_no_send)
  ultimately show ?thesis
    using idle_turn_kept [of bd "spaced_until next_send" "fst s" "snd s" "fst s'" "snd s'"] False assms(3)
    unfolding spaced_phase_def by (metis prod.collapse)
qed

lemma main_boot_spaced:
  assumes "br_calls b = []" "main_boot bd b = Some s"
  shows "spaced_phase s"
proof -
  let ?J = "\<lambda>b. send_times b = []"
  have k: "keeps bd boot_call ?J" by (auto simp: keeps_def send_times_tell boot_call_no_send)
  have "?J (fst s)" using main_boot_kept [OF k _ , of b "fst s" "snd s"] assms by (simp add: send_times_def)
  then show ?thesis
    by (cases "snd s") (auto simp: spaced_phase_def spaced_until_def sends_spaced_def)
qed

text \<open>
  C29: from power-on, however many turns the program makes and whatever the network does, five minutes at least
  lie between two reports to narodmon.
\<close>

theorem narodmon_reports_spaced:
  assumes "steady_clock bd" and "br_calls b = []" and "main_run bd n b = Some (b', ph)"
  shows "sends_spaced (send_times b')"
proof -
  have "spaced_phase (b', ph)"
    by (rule main_run_invariant [OF assms(3)]) (rule main_boot_spaced [OF assms(2)], assumption, rule phase_turn_spaced [OF assms(1)])
  then show ?thesis by (auto simp: spaced_phase_def spaced_until_def)
qed

subsection \<open>The program does not get stuck\<close>

lemma usb_present_ends:
  assumes "steady_clock bd"
  shows "\<exists>r. usb_host_present_at_boot bd b = Some r"
proof -
  have "\<exists>r. loop (usb_turn bd deadline) s = Some r" for deadline s
  proof (rule loop_ends [where I = "\<lambda>s. True" and measure_of = "\<lambda>s. deadline - now bd s"])
    fix s s'
    assume "usb_turn bd deadline s = Inr s'"
    then have t: "now bd s < deadline" and s': "s' = tell bd (Sleep_Ms 1) (tell bd Cyw43_Arch_Poll (tell bd Tud_Task (tell bd Watchdog_Update s)))"
      by (auto simp: usb_turn_def Let_def time_reached_def split: if_splits)
    have "now bd s \<le> now bd (tell bd Cyw43_Arch_Poll (tell bd Tud_Task (tell bd Watchdog_Update s)))"
      by (meson steady(1) [OF assms] order_trans)
    then have "now bd s + 1 * 1000 \<le> now bd s'"
      using steady(4) [OF assms, of "tell bd Cyw43_Arch_Poll (tell bd Tud_Task (tell bd Watchdog_Update s))" 1] unfolding s' by linarith
    then show "True \<and> deadline - now bd s' < deadline - now bd s"
      using t diff_less_mono2 [of "now bd s" "now bd s'" deadline] by simp
  qed simp
  moreover obtain b1 ok where "ask bd Tusb_Init (tell bd (Status_Led_Set False) b) = (b1, ok)" by fastforce
  ultimately show ?thesis
    by (cases "ok = 0") (simp_all add: usb_host_present_at_boot_def Let_def del: split_paired_Ex)
qed

lemma init_network_ends:
  assumes "steady_clock bd"
  shows "\<exists>r. init_network_services bd b = Some r"
proof -
  have "\<exists>r. init_client bd auth b = Some r" for auth
  proof -
    obtain b1 ok where d: "disable_wifi_power_save bd (tell bd Cyw43_Arch_Enable_Sta_Mode (tell bd (Netif_Set_Hostname (cf_hostname (config_of bd b))) b)) = (b1, ok)"
      by fastforce
    show ?thesis
      using connect_ends [OF assms] unfolding init_client_def Let_def d prod.case
      by (cases ok) (auto split: option.split prod.split simp del: append.simps)
  qed
  then show ?thesis unfolding init_network_services_def Let_def by auto
qed

lemma reconnect_ends:
  assumes "steady_clock bd"
  shows "\<exists>r. reconnect_client_network bd b = Some r"
proof -
  obtain m where m: "''Wi-Fi link lost, attempting reconnect to '' @ quoted_text (cf_ssid (config_of bd b)) = m" by blast
  obtain b1 ok where d: "disable_wifi_power_save bd (tell bd Cyw43_Arch_Enable_Sta_Mode (tell bd (App_Log m) b)) = (b1, ok)"
    by fastforce
  show ?thesis
    using connect_ends [OF assms] unfolding reconnect_client_network_def Let_def m d prod.case
    by (cases ok) (auto split: option.split prod.split simp del: append.simps)
qed

lemma check_link_ends: "steady_clock bd \<Longrightarrow> \<exists>r. check_link bd b = Some r"
  using reconnect_ends [of bd b] unfolding check_link_def by (auto split: option.split prod.split simp del: append.simps)

lemma main_turn_ends:
  assumes "steady_clock bd"
  shows "\<exists>s. main_turn bd lv b = Some s"
proof -
  obtain b1 ok where "check_link bd (poll_components bd b) = Some (b1, ok)" using check_link_ends [OF assms] by fastforce
  then show ?thesis unfolding main_turn_def Let_def by (auto split: prod.split)
qed

lemma main_boot_ends:
  assumes "steady_clock bd"
  shows "\<exists>s. main_boot bd b = Some s"
proof -
  have run: "\<exists>s. run_main_application_mode bd b = Some s" for b
  proof -
    obtain b1 r1 where a1: "ask bd App_Runtime_Config_Load b = (b1, r1)" by fastforce
    obtain b2 r2 where a2: "ask bd App_Log_Init b1 = (b2, r2)" by fastforce
    obtain b3 ok where "init_network_services bd (log_boot bd b2) = Some (b3, ok)" using init_network_ends [OF assms] by fastforce
    then show ?thesis unfolding run_main_application_mode_def a1 a2 prod.case by (auto split: prod.split simp del: append.simps)
  qed
  obtain b1 err where a: "ask bd Cyw43_Arch_Init b = (b1, err)" by fastforce
  obtain b2 present where "usb_host_present_at_boot bd (tell bd (Status_Led_Set True) (tell bd (Watchdog_Enable WATCHDOG_TIMEOUT_MS) b1)) = Some (b2, present)"
    using usb_present_ends [OF assms] by fastforce
  then show ?thesis unfolding main_boot_def a prod.case using run by (auto split: prod.split)
qed

lemma phase_turn_ends: "steady_clock bd \<Longrightarrow> \<exists>s'. phase_turn bd s = Some s'"
  using main_turn_ends [of bd] by (auto simp: phase_turn_def split: prod.split phase.split)

lemma main_run_ends: "steady_clock bd \<Longrightarrow> \<exists>s. main_run bd n b = Some s"
proof (induction n)
  case 0
  then show ?case using main_boot_ends by simp
next
  case (Suc n)
  then obtain s where "main_run bd n b = Some s" by blast
  then show ?case using phase_turn_ends [OF Suc.prems, of s] by simp
qed

subsection \<open>Who uses the volume\<close>

text \<open>
  Whether the USB device runs, and whether it never ran while the program read its configuration, opened or
  wrote its log, or had its HTTP server started.
\<close>

fun owner_step :: "bool \<times> bool \<Rightarrow> call \<Rightarrow> bool \<times> bool" where
  "owner_step (usb, ok) Tud_Task = (True, ok)"
| "owner_step (usb, ok) Tud_Deinit = (False, ok)"
| "owner_step (usb, ok) App_Runtime_Config_Load = (usb, ok \<and> \<not> usb)"
| "owner_step (usb, ok) App_Log_Init = (usb, ok \<and> \<not> usb)"
| "owner_step (usb, ok) (App_Log m) = (usb, ok \<and> \<not> usb)"
| "owner_step (usb, ok) Httpd_Init = (usb, ok \<and> \<not> usb)"
| "owner_step (usb, ok) c = (usb, ok)"

definition owner :: "'w bridge \<Rightarrow> bool \<times> bool" where
  "owner b = foldl owner_step (False, True) (map snd (br_calls b))"

lemma owner_tell: "owner (tell bd c b) = owner_step (owner b) c"
  by (simp add: owner_def)

lemma owner_app: "c \<noteq> Tud_Task \<Longrightarrow> owner_step (False, True) c = (False, True)"
  by (cases c) auto

lemma owner_usb: "usb_call c \<Longrightarrow> snd (owner_step s c) = snd s"
  by (cases s; cases c) auto

lemma app_owner_kept: "keeps bd (\<lambda>c. c \<noteq> Tud_Task) (\<lambda>b. owner b = (False, True))"
  by (simp add: keeps_def owner_tell owner_app)

lemma usb_owner_kept: "keeps bd usb_call (\<lambda>b. snd (owner b))"
  by (simp add: keeps_def owner_tell owner_usb)

definition one_user :: "'w bridge \<times> phase \<Rightarrow> bool" where
  "one_user s \<longleftrightarrow> (if snd s = Usb_Storage then snd (owner (fst s)) else owner (fst s) = (False, True))"

lemma main_boot_one_user:
  assumes "br_calls b = []" "main_boot bd b = Some (b', ph)"
  shows "one_user (b', ph)"
proof -
  let ?J = "\<lambda>b. owner b = (False, True)"
  note k = keptD [OF app_owner_kept]
  have ka: "keeps bd app_call ?J" by (rule kept_mono [OF app_owner_kept]) (simp add: app_call_def)
  have j0: "?J b" using assms(1) by (simp add: owner_def)
  have p: "?J (powered bd b)" using j0 by (simp add: powered_def k)
  from main_boot_cases [OF assms(2)] show ?thesis
  proof (elim disjE exE conjE)
    assume "ph = Halted" "b' = tell bd Cyw43_Arch_Init b"
    then show ?thesis using j0 by (simp add: one_user_def k)
  next
    fix b2 present
    assume u: "usb_host_present_at_boot bd (powered bd b) = Some (b2, present)"
      and d: "if present then ph = Usb_Storage \<and> b' = tell bd (Status_Led_Set False) b2
        else (ph = Halted \<and> b' = tell bd Onewire_Source_Init b2) \<or>
             run_main_application_mode bd (tell bd Onewire_Source_Init b2) = Some (b', ph)"
    note r = usb_present_kept [OF usb_owner_kept _ u]
    have s: "snd (owner b2)" using r p by simp
    show ?thesis
    proof (cases present)
      case True
      then show ?thesis using d keptD [OF usb_owner_kept _ s, of "Status_Led_Set False" bd] by (simp add: one_user_def)
    next
      case False
      have "b2 = tell bd Tusb_Init (tell bd (Status_Led_Set False) (powered bd b)) \<or> (\<exists>b1. snd (owner b1) \<and> b2 = tell bd Tud_Deinit b1)"
        using r p False by simp
      then have "?J b2"
      proof (elim disjE exE conjE)
        fix b1
        assume "snd (owner b1)" "b2 = tell bd Tud_Deinit b1"
        then show ?thesis by (cases "owner b1") (simp add: owner_tell)
      qed (use p in \<open>simp add: k\<close>)
      then have j: "?J (tell bd Onewire_Source_Init b2)" by (simp add: k)
      from d False have "(ph = Halted \<and> b' = tell bd Onewire_Source_Init b2) \<or>
          run_main_application_mode bd (tell bd Onewire_Source_Init b2) = Some (b', ph)" by simp
      then show ?thesis
      proof
        assume run: "run_main_application_mode bd (tell bd Onewire_Source_Init b2) = Some (b', ph)"
        have "?J b'" by (rule run_main_kept [OF ka j run])
        then show ?thesis by (simp add: one_user_def)
      qed (use j in \<open>simp add: one_user_def\<close>)
    qed
  qed
qed

lemma phase_turn_one_user:
  assumes "one_user s" "phase_turn bd s = Some s'"
  shows "one_user s'"
proof (cases "snd s")
  case (Running lv)
  let ?J = "\<lambda>b. owner b = (False, True)"
  have j: "?J (fst s)" using assms(1) Running by (simp add: one_user_def)
  have kl: "keeps bd loop_call ?J" by (rule kept_mono [OF app_owner_kept]) auto
  have t: "main_turn bd lv (fst s) = Some (fst s', snd s')" using assms(2) Running by (cases s) (simp add: phase_turn_def)
  have "?J (fst s') \<and> snd s' \<noteq> Usb_Storage"
    using main_turn_cases [OF kl j t]
  proof (elim disjE exE conjE)
    fix t p b1 lv'
    assume b1: "?J b1" and r: "rest_of_turn bd t p lv b1 = (lv', fst s')" and ph: "snd s' = Running lv'"
    have "?J (fst s')" by (rule rest_of_turn_kept [OF app_owner_kept _ _ _ _ b1 r]) simp_all
    then show ?thesis using ph by simp
  qed simp
  then show ?thesis by (simp add: one_user_def)
qed (use assms in \<open>auto simp: phase_turn_def one_user_def usb_mass_storage_turn_def keptD [OF app_owner_kept] keptD [OF usb_owner_kept] split: prod.splits\<close>)

text \<open>
  C30: the volume never has two users: while the USB device runs, the program neither reads its configuration
  nor writes its log nor serves pages, and once it does the USB device stays off.
\<close>

theorem volume_has_one_user:
  assumes "br_calls b = []" and "main_run bd n b = Some (b', ph)"
  shows "snd (owner b')"
proof -
  have "one_user (b', ph)"
    by (rule main_run_invariant [OF assms(2)]) (auto intro: main_boot_one_user [OF assms(1)] phase_turn_one_user)
  then show ?thesis by (simp add: one_user_def split: if_splits)
qed


subsection \<open>What the pages show\<close>

text \<open>The calls that set the numbers of the status page, with the operations of \<^verbatim>\<open>app_web.c\<close>.\<close>

fun web_step :: "call \<Rightarrow> app_web \<Rightarrow> app_web" where
  "web_step App_Web_Init web = app_web_init web"
| "web_step (App_Web_Set_Cpu_Load percent) web = app_web_set_cpu_load percent web"
| "web_step (App_Web_Set_Narodmon_Seconds_Remaining seconds) web = app_web_set_narodmon_seconds_remaining seconds web"
| "web_step _ web = web"

definition web_after :: "'w bridge \<Rightarrow> app_web \<Rightarrow> app_web" where
  "web_after b web = fold web_step (map snd (br_calls b)) web"

definition shown_ok :: "app_web \<Rightarrow> bool" where
  "shown_ok web \<longleftrightarrow> unat (web_cpu_load_percent web) \<le> 100 \<and> unat (web_narodmon_seconds_remaining web) \<le> 300"

fun shown_call :: "call \<Rightarrow> bool" where
  "shown_call (App_Web_Set_Cpu_Load percent) = (unat percent \<le> 100)"
| "shown_call (App_Web_Set_Narodmon_Seconds_Remaining seconds) = (unat seconds \<le> 300)"
| "shown_call _ = True"

lemma web_step_ok: "shown_call c \<Longrightarrow> shown_ok web \<Longrightarrow> shown_ok (web_step c web)"
  by (cases c) (auto simp: shown_ok_def app_web_init_def app_web_set_cpu_load_def app_web_set_narodmon_seconds_remaining_def)

text \<open>\<open>d\<close>, when given, is at most five minutes ahead.\<close>

definition shown_inv :: "app_web \<Rightarrow> nat option \<Rightarrow> 'w board \<Rightarrow> 'w bridge \<Rightarrow> bool" where
  "shown_inv web d bd b \<longleftrightarrow> shown_ok (web_after b web) \<and> (case d of None \<Rightarrow> True | Some t \<Rightarrow> t \<le> now bd b + 300000000)"

lemma shown_kept: "steady_clock bd \<Longrightarrow> keeps bd shown_call (shown_inv web d bd)"
  using steady(1) [of bd] unfolding keeps_def shown_inv_def web_after_def
  by (auto simp: web_step_ok split: option.splits intro: order_trans)

lemma boot_shown: "boot_call c \<Longrightarrow> shown_call c"
  by (cases c) (auto simp: boot_call_def app_call_def)

lemma loop_shown: "loop_call c \<Longrightarrow> shown_call c"
  by (cases c) auto

lemma seconds_le: "r \<le> 300000000 \<Longrightarrow> unat (word_of_int ((r + 999999) div 1000000) :: u32) \<le> 300" if "0 < r" for r :: int
proof -
  assume "r \<le> 300000000"
  then have "(r + 999999) div 1000000 \<le> 300999999 div 1000000" by (intro zdiv_mono1) simp_all
  then have le: "nat ((r + 999999) div 1000000) \<le> 300" by simp
  have "0 \<le> (r + 999999) div 1000000" using that by (simp add: pos_imp_zdiv_nonneg_iff)
  then have "(word_of_int ((r + 999999) div 1000000) :: u32) = word_of_nat (nat ((r + 999999) div 1000000))" by simp
  moreover have "unat (word_of_nat n :: u32) \<le> n" for n by (simp add: unat_of_nat)
  ultimately show ?thesis using le order_trans by metis
qed

lemma countdown_shown:
  assumes "steady_clock bd" "shown_inv web (Some (lv_next_narodmon_send lv)) bd b"
  shows "shown_inv web (Some (lv_next_narodmon_send lv)) bd (show_countdown bd lv b)"
proof -
  have "absolute_time_diff_us (now bd b) (lv_next_narodmon_send lv) \<le> 300000000"
    using assms(2) by (simp add: shown_inv_def absolute_time_diff_us_def)
  note s = seconds_le [OF _ this]
  show ?thesis unfolding show_countdown_def Let_def
  proof (rule keptD [OF shown_kept [OF assms(1)] _ assms(2)], unfold shown_call.simps)
    show "unat (if cf_send_narodmon (config_of bd b) \<and> 0 < absolute_time_diff_us (now bd b) (lv_next_narodmon_send lv)
      then word_of_int ((absolute_time_diff_us (now bd b) (lv_next_narodmon_send lv) + 999999) div 1000000) else 0 :: u32) \<le> 300"
      using s by (cases "cf_send_narodmon (config_of bd b) \<and> 0 < absolute_time_diff_us (now bd b) (lv_next_narodmon_send lv)") simp_all
  qed
qed

lemma rest_shown:
  assumes "steady_clock bd" "shown_inv web (Some (lv_next_narodmon_send lv)) bd b" "rest_of_turn bd t p lv b = (lv', b')"
  shows "shown_inv web (Some (lv_next_narodmon_send lv')) bd b'"
proof -
  note k = keptD [OF shown_kept [OF assms(1)]]
  obtain b1 b2 percent where
      b1: "b1 = tell bd (Cyw43_Arch_Wait_For_Work_Until p) (show_countdown bd lv b)"
    and b2: "b2 = b1 \<or> percent \<le> (100 :: nat) \<and> b2 = tell bd (App_Web_Set_Cpu_Load (word_of_nat percent)) b1"
    and b': "(b' = b2 \<and> lv_next_narodmon_send lv' = lv_next_narodmon_send lv) \<or>
     (lv_next_narodmon_send lv \<le> now bd b2 \<and>
      lv_next_narodmon_send lv' = now bd (tell bd App_Narodmon_Start_Send b2) + 300000000 \<and>
      b' = tell bd (App_Web_Set_Narodmon_Seconds_Remaining 300) (tell bd App_Narodmon_Start_Send b2))"
    using rest_of_turn_cases [OF assms(3)] by blast
  let ?J = "\<lambda>d. shown_inv web d bd"
  have "?J (Some (lv_next_narodmon_send lv)) b1" unfolding b1 by (rule k) (simp_all add: countdown_shown [OF assms(1,2)])
  moreover have "unat (word_of_nat percent :: u8) \<le> 100" if "percent \<le> 100"
    using that by (simp add: unat_of_nat)
  ultimately have s2: "?J (Some (lv_next_narodmon_send lv)) b2" using b2 by (auto simp: k)
  from b' show ?thesis
  proof (elim disjE conjE)
    assume n: "lv_next_narodmon_send lv' = now bd (tell bd App_Narodmon_Start_Send b2) + 300000000"
      "b' = tell bd (App_Web_Set_Narodmon_Seconds_Remaining 300) (tell bd App_Narodmon_Start_Send b2)"
    have "?J None b2" using s2 by (simp add: shown_inv_def)
    then have "?J None (tell bd App_Narodmon_Start_Send b2)" by (rule k [rotated]) simp
    then have "?J (Some (lv_next_narodmon_send lv')) (tell bd App_Narodmon_Start_Send b2)" by (simp add: shown_inv_def n(1))
    then show ?thesis unfolding n(2) by (rule k [rotated]) simp
  qed (use s2 in simp)
qed

definition shown_phase :: "app_web \<Rightarrow> 'w board \<Rightarrow> 'w bridge \<times> phase \<Rightarrow> bool" where
  "shown_phase web bd s \<longleftrightarrow>
     shown_inv web (case snd s of Running lv \<Rightarrow> Some (lv_next_narodmon_send lv) | _ \<Rightarrow> None) bd (fst s)"

lemma phase_turn_shown:
  assumes "steady_clock bd" "shown_phase web bd s" "phase_turn bd s = Some s'"
  shows "shown_phase web bd s'"
proof (cases "\<exists>lv. snd s = Running lv")
  case True
  then obtain lv where lv: "snd s = Running lv" by blast
  have kl: "keeps bd loop_call (shown_inv web d bd)" for d
    by (rule kept_mono [OF shown_kept [OF assms(1)]]) (rule loop_shown)
  have j: "shown_inv web (Some (lv_next_narodmon_send lv)) bd (fst s)" using assms(2) lv by (simp add: shown_phase_def)
  have t: "main_turn bd lv (fst s) = Some (fst s', snd s')" using assms(3) lv by (cases s) (simp add: phase_turn_def)
  from main_turn_cases [OF kl j t] show ?thesis
  proof (elim disjE exE conjE)
    assume "snd s' = Rebooting" "shown_inv web (Some (lv_next_narodmon_send lv)) bd (fst s')"
    then show ?thesis by (simp add: shown_phase_def shown_inv_def)
  next
    fix t p b1 lv'
    assume "shown_inv web (Some (lv_next_narodmon_send lv)) bd b1" "rest_of_turn bd t p lv b1 = (lv', fst s')" "snd s' = Running lv'"
    then show ?thesis using rest_shown [OF assms(1)] unfolding shown_phase_def by simp
  qed
next
  case False
  have kb: "keeps bd boot_call (shown_inv web None bd)"
    by (rule kept_mono [OF shown_kept [OF assms(1)]]) (rule boot_shown)
  have "shown_inv web None bd (fst s)" using assms(2) False by (cases "snd s") (auto simp: shown_phase_def)
  from idle_turn_kept [OF kb this, of "snd s" "fst s'" "snd s'"] have "shown_inv web None bd (fst s')" "snd s' = snd s"
    using False assms(3) by auto
  then show ?thesis using False unfolding shown_phase_def by (cases "snd s") auto
qed

lemma start_services_next:
  assumes "steady_clock bd" "start_services bd b = (lv, b')"
  shows "lv_next_narodmon_send lv \<le> now bd b' + 300000000"
  using assms(2) order_trans [OF steady(1) [OF assms(1)] steady(1) [OF assms(1)]]
  unfolding start_services_def Let_def make_timeout_time_ms_def
  by (auto simp: NARODMON_SEND_INTERVAL_MS_def simp del: append.simps)

lemma main_boot_next:
  assumes "steady_clock bd" "main_boot bd b = Some (b', Running lv)"
  shows "lv_next_narodmon_send lv \<le> now bd b' + 300000000"
proof -
  obtain b1 where r: "run_main_application_mode bd b1 = Some (b', Running lv)"
    using main_boot_cases [OF assms(2)] by (auto split: if_splits)
  then obtain b3 where "start_services bd b3 = (lv, b')"
    unfolding run_main_application_mode_def by (auto split: prod.splits if_splits option.splits simp del: append.simps)
  then show ?thesis by (rule start_services_next [OF assms(1)])
qed

lemma main_boot_shown:
  assumes "steady_clock bd" "br_calls b = []" "shown_ok web" "main_boot bd b = Some s"
  shows "shown_phase web bd s"
proof -
  have kb: "keeps bd boot_call (shown_inv web None bd)"
    by (rule kept_mono [OF shown_kept [OF assms(1)]]) (rule boot_shown)
  have "shown_inv web None bd b" using assms(2,3) by (simp add: shown_inv_def web_after_def)
  then have "shown_inv web None bd (fst s)" using main_boot_kept [OF kb, of b "fst s" "snd s"] assms(4) by simp
  then show ?thesis using main_boot_next [OF assms(1), of b "fst s"] assms(4)
    by (cases s; cases "snd s") (auto simp: shown_phase_def shown_inv_def)
qed

text \<open>
  C39: the pages never show a CPU load over 100 percent nor a time to the next report over five minutes,
  although the sums of the loop are not bounded.
\<close>

theorem shown_numbers_bounded:
  assumes "steady_clock bd" and "br_calls b = []" and "shown_ok web" and "main_run bd n b = Some (b', ph)"
  shows "shown_ok (web_after b' web)"
proof -
  have "shown_phase web bd (b', ph)"
    by (rule main_run_invariant [OF assms(4)])
      (auto intro: main_boot_shown [OF assms(1-3)] phase_turn_shown [OF assms(1)])
  then show ?thesis by (simp add: shown_phase_def shown_inv_def)
qed

subsection \<open>Witnesses\<close>

lemma quick_run:
  "\<exists>b' ph. main_run quick_board 3 \<lparr>br_world = 0, br_calls = []\<rparr> = Some (b', ph)"
  using main_run_ends [OF quick_board_steady, of 3 "\<lparr>br_world = 0, br_calls = []\<rparr>"] by simp

theorem narodmon_reports_spaced_witness:
  "\<exists>b' ph. main_run quick_board 3 \<lparr>br_world = 0, br_calls = []\<rparr> = Some (b', ph) \<and> sends_spaced (send_times b')"
proof -
  obtain b' ph where r: "main_run quick_board 3 \<lparr>br_world = 0, br_calls = []\<rparr> = Some (b', ph)" using quick_run by blast
  then show ?thesis using narodmon_reports_spaced [OF quick_board_steady _ r] by simp
qed

theorem volume_has_one_user_witness:
  "\<exists>b' ph. main_run quick_board 3 \<lparr>br_world = 0, br_calls = []\<rparr> = Some (b', ph) \<and> snd (owner b')"
proof -
  obtain b' ph where r: "main_run quick_board 3 \<lparr>br_world = 0, br_calls = []\<rparr> = Some (b', ph)" using quick_run by blast
  then show ?thesis using volume_has_one_user [OF _ r] by simp
qed


theorem shown_numbers_bounded_witness:
  "\<exists>b' ph. main_run quick_board 3 \<lparr>br_world = 0, br_calls = []\<rparr> = Some (b', ph) \<and> shown_ok (web_after b' web_boot)"
proof -
  obtain b' ph where r: "main_run quick_board 3 \<lparr>br_world = 0, br_calls = []\<rparr> = Some (b', ph)" using quick_run by blast
  have "shown_ok web_boot" by (simp add: shown_ok_def web_boot_def)
  then have "shown_ok (web_after b' web_boot)" using shown_numbers_bounded [OF quick_board_steady _ _ r, of web_boot] by simp
  then show ?thesis using r by blast
qed

end
