(* ===== verification/Status_Led.thy ===== *)
theory Status_Led
  imports Base
begin

text \<open>
  \<^verbatim>\<open>status_led.c\<close>: the remembered state of the LED and the level of the CYW43 pin that drives it.
\<close>

record status_led =
  status_led_state :: bool
  led_pin :: bool

definition status_led_set :: "bool \<Rightarrow> status_led \<Rightarrow> status_led" where
  "status_led_set on l = l\<lparr>status_led_state := on, led_pin := on\<rparr>"

definition status_led_suspend_off :: "status_led \<Rightarrow> status_led \<times> bool" where
  "status_led_suspend_off l = (l\<lparr>led_pin := False\<rparr>, status_led_state l)"

definition status_led_resume :: "bool \<Rightarrow> status_led \<Rightarrow> status_led" where
  "status_led_resume was_on l = status_led_set was_on l"

lemma status_led_set_simps [simp]:
  "status_led_state (status_led_set on l) = on" "led_pin (status_led_set on l) = on"
  "status_led_set on (status_led_set off l) = status_led_set on l"
  by (simp_all add: status_led_set_def)

lemma suspend_resume:
  "status_led_suspend_off l = (l', was_on) \<Longrightarrow>
   status_led_resume was_on l' = l\<lparr>led_pin := status_led_state l\<rparr>"
  by (auto simp: status_led_suspend_off_def status_led_resume_def status_led_set_def)

end
