(* ===== verification/Log_Files.thy ===== *)
theory Log_Files
  imports C_Text Status_Led
begin

text \<open>
  The storage volume (\<^verbatim>\<open>app_storage.c\<close>), the log in two files of bounded size (\<^verbatim>\<open>app_log.c\<close>) and its
  download under \<^verbatim>\<open>/logs.txt\<close> (\<^verbatim>\<open>app_web_logs.c\<close>), over the calls of FatFs as records of parameters.
  On a volume where no call fails the two files always hold the end of all that was logged, the current one
  at most 48 KiB, and the download serves them in order.
\<close>

definition FR_OK :: int where "FR_OK = 0"
definition FR_NO_FILE :: int where "FR_NO_FILE = 4"
definition FR_NO_FILESYSTEM :: int where "FR_NO_FILESYSTEM = 13"

subsection \<open>The volume (\<^verbatim>\<open>app_storage.c\<close>)\<close>

text \<open>The calls of FatFs on the volume; \<open>f_getfree\<close> gives the free clusters, \<^verbatim>\<open>n_fatent\<close> and \<^verbatim>\<open>csize\<close>.\<close>

record 'w volume =
  f_mount :: "'w \<Rightarrow> 'w \<times> int"
  f_mkfs :: "'w \<Rightarrow> 'w \<times> int"
  f_unmount :: "'w \<Rightarrow> 'w"
  f_getfree :: "'w \<Rightarrow> 'w \<times> (nat \<times> nat \<times> nat) option"

record 'w storage =
  st_ready :: bool
  st_led :: status_led
  st_volume :: 'w

definition app_storage_init :: "'w volume \<Rightarrow> 'w storage \<Rightarrow> 'w storage \<times> bool" where
  "app_storage_init vol s =
     (if st_ready s then (s, True) else
      case status_led_suspend_off (st_led s) of
        (led0, led_was_on) \<Rightarrow>
          let led = status_led_set True led0;
              finish = (\<lambda>w fr. (s\<lparr>st_ready := (fr = FR_OK), st_led := status_led_resume led_was_on led, st_volume := w\<rparr>, fr = FR_OK))
          in case f_mount vol (st_volume s) of
               (w, fr) \<Rightarrow>
                 if fr = FR_NO_FILESYSTEM then
                   (case f_mkfs vol w of
                      (w1, fr1) \<Rightarrow>
                        if fr1 \<noteq> FR_OK then (s\<lparr>st_led := status_led_resume led_was_on led, st_volume := w1\<rparr>, False)
                        else (case f_mount vol w1 of (w2, fr2) \<Rightarrow> finish w2 fr2))
                 else finish w fr)"

definition app_storage_deinit :: "'w volume \<Rightarrow> 'w storage \<Rightarrow> 'w storage" where
  "app_storage_deinit vol s =
     (if \<not> st_ready s then s else s\<lparr>st_volume := f_unmount vol (st_volume s), st_ready := False\<rparr>)"

definition app_storage_is_ready :: "'w storage \<Rightarrow> bool" where
  "app_storage_is_ready s = st_ready s"

text \<open>\<open>Some (total, free)\<close> in bytes; \<open>None\<close> is \<^verbatim>\<open>false\<close>.\<close>

definition app_storage_get_space_info :: "'w volume \<Rightarrow> 'w storage \<Rightarrow> 'w storage \<times> (nat \<times> nat) option" where
  "app_storage_get_space_info vol s =
     (if \<not> st_ready s then (s, None) else
      case f_getfree vol (st_volume s) of
        (w, None) \<Rightarrow> (s\<lparr>st_volume := w\<rparr>, None)
      | (w, Some (free_clusters, n_fatent, csize)) \<Rightarrow>
          (s\<lparr>st_volume := w\<rparr>, Some (sub32 n_fatent 2 * csize * 512, free_clusters * csize * 512)))"

text \<open>
  The volume is formatted only after the first mount answered \<^verbatim>\<open>FR_NO_FILESYSTEM\<close>; on every path the
  LED is left as \<^verbatim>\<open>status_led_set\<close> had it, and the answer tells whether the volume is ready.
\<close>

lemma storage_not_formatted:
  "snd (f_mount vol (st_volume s)) \<noteq> FR_NO_FILESYSTEM \<Longrightarrow>
   st_volume (fst (app_storage_init vol s)) = (if st_ready s then st_volume s else fst (f_mount vol (st_volume s)))"
  by (auto simp: app_storage_init_def Let_def split: prod.splits)

lemma storage_led_kept:
  "status_led_state (st_led (fst (app_storage_init vol s))) = status_led_state (st_led s)"
  by (auto simp: app_storage_init_def Let_def status_led_suspend_off_def status_led_resume_def split: prod.splits)

lemma storage_answer:
  "app_storage_init vol s = (s', ok) \<Longrightarrow> ok = app_storage_is_ready s'"
  by (auto simp: app_storage_init_def app_storage_is_ready_def Let_def split: prod.splits if_splits)

lemma storage_space_ready:
  "app_storage_get_space_info vol s = (s', Some info) \<Longrightarrow> app_storage_is_ready s"
  by (auto simp: app_storage_get_space_info_def app_storage_is_ready_def split: if_splits)

subsection \<open>The log (\<^verbatim>\<open>app_log.c\<close>)\<close>

definition APP_LOG_MAX_SIZE_BYTES :: nat where "APP_LOG_MAX_SIZE_BYTES = 48 * 1024"

text \<open>The calls of FatFs on the object \<^verbatim>\<open>log_file\<close> and on names; \<open>f_write\<close> also gives the bytes written.\<close>

record 'w log_files =
  f_open :: "string \<Rightarrow> 'w \<Rightarrow> 'w \<times> int"
  f_size :: "'w \<Rightarrow> nat"
  f_lseek :: "nat \<Rightarrow> 'w \<Rightarrow> 'w \<times> int"
  f_write :: "string \<Rightarrow> 'w \<Rightarrow> 'w \<times> int \<times> nat"
  f_sync :: "'w \<Rightarrow> 'w"
  f_close :: "'w \<Rightarrow> 'w"
  f_unlink :: "string \<Rightarrow> 'w \<Rightarrow> 'w \<times> int"
  f_rename :: "string \<Rightarrow> string \<Rightarrow> 'w \<Rightarrow> 'w \<times> int"

record 'w log =
  log_ready :: bool
  log_world :: 'w

definition log_name :: string where "log_name = ''0:/log.txt''"
definition log1_name :: string where "log1_name = ''0:/log1.txt''"

definition app_log_open_current_file :: "'w log_files \<Rightarrow> 'w \<Rightarrow> 'w \<times> bool" where
  "app_log_open_current_file fat w =
     (case f_open fat log_name w of
        (w1, fr) \<Rightarrow>
          if fr \<noteq> FR_OK then (w1, False)
          else case f_lseek fat (f_size fat w1) w1 of
                 (w2, fr2) \<Rightarrow> if fr2 \<noteq> FR_OK then (f_close fat w2, False) else (w2, True))"

definition app_log_rotate_if_needed :: "'w log_files \<Rightarrow> nat \<Rightarrow> 'w \<Rightarrow> 'w \<times> bool" where
  "app_log_rotate_if_needed fat incoming_len w =
     (if f_size fat w + incoming_len \<le> APP_LOG_MAX_SIZE_BYTES then (w, True) else
      case f_unlink fat log1_name (f_close fat (f_sync fat w)) of
        (w1, fr) \<Rightarrow>
          if fr \<noteq> FR_OK \<and> fr \<noteq> FR_NO_FILE then app_log_open_current_file fat w1
          else (case f_rename fat log_name log1_name w1 of
                  (w2, fr2) \<Rightarrow> if fr2 \<noteq> FR_OK then app_log_open_current_file fat w2 else app_log_open_current_file fat w2))"

text \<open>\<open>storage_ok\<close> is the answer of \<^verbatim>\<open>app_storage_init\<close>.\<close>

definition app_log_init :: "'w log_files \<Rightarrow> bool \<Rightarrow> 'w log \<Rightarrow> 'w log \<times> bool" where
  "app_log_init fat storage_ok lg =
     (if \<not> storage_ok then (lg, False)
      else case app_log_open_current_file fat (log_world lg) of
             (w, False) \<Rightarrow> (lg\<lparr>log_world := w\<rparr>, False)
           | (w, True) \<Rightarrow> (lg\<lparr>log_ready := True, log_world := w\<rparr>, True))"

definition app_log_close :: "'w log_files \<Rightarrow> 'w log \<Rightarrow> 'w log" where
  "app_log_close fat lg =
     (if \<not> log_ready lg then lg
      else lg\<lparr>log_world := f_close fat (f_sync fat (log_world lg)), log_ready := False\<rparr>)"

text \<open>The text of \<^verbatim>\<open>line\<close>: the prefix and the formatted message, cut to 254 characters, and a line feed.\<close>

definition app_log_line :: "u32 \<Rightarrow> string \<Rightarrow> string" where
  "app_log_line uptime_ms message =
     (let prefix = ''['' @ show_nat (unat uptime_ms div 1000) @ ''.'' @ show_pad 3 (unat uptime_ms mod 1000) @ ''] '';
          message_offset = (if 0 < length prefix \<and> length prefix < 256 then length prefix else 0);
          line = take message_offset prefix @ bounded_copy (256 - message_offset) message
      in (if length line \<ge> 254 then take 254 line else line) @ [CHR 0x0A])"

definition app_log :: "'w log_files \<Rightarrow> u32 \<Rightarrow> string \<Rightarrow> 'w log \<Rightarrow> 'w log" where
  "app_log fat uptime_ms message lg =
     (if \<not> log_ready lg then lg else
      let line = app_log_line uptime_ms message
      in case app_log_rotate_if_needed fat (length line) (log_world lg) of
           (w, False) \<Rightarrow> lg\<lparr>log_world := w\<rparr>
         | (w, True) \<Rightarrow>
             (case f_write fat line w of
                (w1, fr, written) \<Rightarrow>
                  if fr = FR_OK \<and> written = length line then lg\<lparr>log_world := f_sync fat w1\<rparr> else lg\<lparr>log_world := w1\<rparr>))"

subsection \<open>The download of the log (\<^verbatim>\<open>app_web_logs.c\<close>)\<close>

definition APP_WEB_LOGS_URI :: string where "APP_WEB_LOGS_URI = ''/logs.txt''"
definition APP_WEB_LOG_READ_CHUNK :: nat where "APP_WEB_LOG_READ_CHUNK = 1024"

text \<open>The calls of FatFs on a file object that is open for reading; \<open>None\<close> is an error.\<close>

record ('h, 'w) readers =
  r_open :: "string \<Rightarrow> 'w \<Rightarrow> 'w \<times> 'h option"
  r_size :: "'h \<Rightarrow> 'w \<Rightarrow> nat"
  r_read :: "'h \<Rightarrow> nat \<Rightarrow> 'w \<Rightarrow> 'w \<times> 'h \<times> string option"
  r_close :: "'h \<Rightarrow> 'w \<Rightarrow> 'w"

text \<open>\<open>None\<close> for a file object that is not open.\<close>

record 'h log_stream =
  sm_previous_file :: "'h option"
  sm_current_file :: "'h option"
  sm_previous_size :: nat
  sm_previous_read :: nat
  sm_in_use :: bool

definition no_stream :: "'h log_stream" where
  "no_stream = \<lparr>sm_previous_file = None, sm_current_file = None, sm_previous_size = 0, sm_previous_read = 0, sm_in_use = False\<rparr>"

text \<open>The members of \<^verbatim>\<open>struct fs_file\<close> that are used; \<open>fs_attached\<close>: \<^verbatim>\<open>pextension\<close> is the stream.\<close>

record fs_file =
  fs_len :: int
  fs_index :: int
  fs_header_persistent :: bool
  fs_attached :: bool

definition fs_open_custom ::
  "('h, 'w) readers \<Rightarrow> string \<Rightarrow> 'h log_stream \<times> 'w \<Rightarrow> ('h log_stream \<times> 'w) \<times> fs_file option" where
  "fs_open_custom fat name st =
     (case st of (stream, w) \<Rightarrow>
        if name \<noteq> APP_WEB_LOGS_URI \<or> sm_in_use stream then (st, None) else
        case r_open fat log1_name w of
          (w1, previous) \<Rightarrow>
            let previous_size = (case previous of None \<Rightarrow> 0 | Some h \<Rightarrow> r_size fat h w1)
            in case r_open fat log_name w1 of
                 (w2, current) \<Rightarrow>
                   let total_size = previous_size + (case current of None \<Rightarrow> 0 | Some h \<Rightarrow> r_size fat h w2)
                   in ((\<lparr>sm_previous_file = previous, sm_current_file = current, sm_previous_size = previous_size,
                         sm_previous_read = 0, sm_in_use = True\<rparr>, w2),
                       Some \<lparr>fs_len = sint (word_of_nat total_size :: u32), fs_index = 0, fs_header_persistent = True, fs_attached = True\<rparr>))"

definition fs_close_custom :: "('h, 'w) readers \<Rightarrow> fs_file \<Rightarrow> 'h log_stream \<times> 'w \<Rightarrow> ('h log_stream \<times> 'w) \<times> fs_file" where
  "fs_close_custom fat file st =
     (case st of (stream, w) \<Rightarrow>
        if \<not> fs_attached file then (st, file) else
        let w1 = (case sm_previous_file stream of None \<Rightarrow> w | Some h \<Rightarrow> r_close fat h w);
            w2 = (case sm_current_file stream of None \<Rightarrow> w1 | Some h \<Rightarrow> r_close fat h w1)
        in ((no_stream, w2), file\<lparr>fs_attached := False\<rparr>))"

text \<open>A read: the bytes, or the empty text for \<^verbatim>\<open>FS_READ_EOF\<close> and for 0 bytes.\<close>

definition app_web_log_read_file :: "('h, 'w) readers \<Rightarrow> 'h \<Rightarrow> nat \<Rightarrow> 'w \<Rightarrow> 'w \<times> 'h \<times> string" where
  "app_web_log_read_file fat source count w =
     (case r_read fat source count w of
        (w1, h, None) \<Rightarrow> (w1, h, '''')
      | (w1, h, Some bytes) \<Rightarrow> (w1, h, bytes))"

definition read_current ::
  "('h, 'w) readers \<Rightarrow> nat \<Rightarrow> fs_file \<Rightarrow> 'h log_stream \<times> 'w \<Rightarrow> ('h log_stream \<times> 'w) \<times> fs_file \<times> string option" where
  "read_current fat read_count file st =
     (case st of (stream, w) \<Rightarrow>
        case sm_current_file stream of
          None \<Rightarrow> (st, file, None)
        | Some h \<Rightarrow>
            (case app_web_log_read_file fat h read_count w of
               (w1, h1, bytes) \<Rightarrow>
                 let st1 = (stream\<lparr>sm_current_file := Some h1\<rparr>, w1)
                 in if bytes = '''' then (st1, file, None)
                    else (st1, file\<lparr>fs_index := fs_index file + int (length bytes)\<rparr>, Some bytes)))"

text \<open>\<open>None\<close> is \<^verbatim>\<open>FS_READ_EOF\<close>.\<close>

definition fs_read_custom ::
  "('h, 'w) readers \<Rightarrow> int \<Rightarrow> fs_file \<Rightarrow> 'h log_stream \<times> 'w \<Rightarrow> ('h log_stream \<times> 'w) \<times> fs_file \<times> string option" where
  "fs_read_custom fat count file st =
     (case st of (stream, w) \<Rightarrow>
        if count \<le> 0 \<or> \<not> fs_attached file then (st, file, None) else
        let read_count = (if nat count > APP_WEB_LOG_READ_CHUNK then APP_WEB_LOG_READ_CHUNK else nat count)
        in case sm_previous_file stream of
             None \<Rightarrow> read_current fat read_count file st
           | Some h \<Rightarrow>
               if \<not> sm_previous_read stream < sm_previous_size stream then read_current fat read_count file st
               else
                 (let remaining = sm_previous_size stream - sm_previous_read stream;
                      read_count = (if read_count > remaining then remaining else read_count)
                  in case app_web_log_read_file fat h read_count w of
                       (w1, h1, bytes) \<Rightarrow>
                         if bytes \<noteq> ''''
                         then ((stream\<lparr>sm_previous_file := Some h1, sm_previous_read := sm_previous_read stream + length bytes\<rparr>, w1),
                               file\<lparr>fs_index := fs_index file + int (length bytes)\<rparr>, Some bytes)
                         else read_current fat read_count file
                                (stream\<lparr>sm_previous_file := Some h1, sm_previous_read := sm_previous_size stream\<rparr>, w1)))"


subsection \<open>A volume on which nothing fails\<close>

text \<open>
  What FatFs documents of its calls when they succeed, in terms of the directory \<open>dir\<close> (names and contents)
  and of the file and the position \<open>log_file\<close> is at, \<open>None\<close> when it is closed.
\<close>

definition log_volume :: "'w log_files \<Rightarrow> ('w \<Rightarrow> string \<Rightarrow> string option) \<Rightarrow> ('w \<Rightarrow> (string \<times> nat) option) \<Rightarrow> bool" where
  "log_volume fat dir cur =
     ((\<forall>w n. \<exists>w'. f_open fat n w = (w', FR_OK) \<and> cur w' = Some (n, 0) \<and>
         dir w' = (dir w)(n \<mapsto> (case dir w n of None \<Rightarrow> '''' | Some s \<Rightarrow> s))) \<and>
      (\<forall>w n p s. cur w = Some (n, p) \<longrightarrow> dir w n = Some s \<longrightarrow>
         f_size fat w = length s \<and>
         (\<forall>k\<le>length s. \<exists>w'. f_lseek fat k w = (w', FR_OK) \<and> dir w' = dir w \<and> cur w' = Some (n, k)) \<and>
         (\<forall>t. p = length s \<longrightarrow> (\<exists>w'. f_write fat t w = (w', FR_OK, length t) \<and> dir w' = (dir w)(n \<mapsto> s @ t) \<and>
             cur w' = Some (n, p + length t)))) \<and>
      (\<forall>w. dir (f_sync fat w) = dir w \<and> cur (f_sync fat w) = cur w) \<and>
      (\<forall>w. dir (f_close fat w) = dir w \<and> cur (f_close fat w) = None) \<and>
      (\<forall>w n. cur w = None \<longrightarrow> (\<exists>w'. f_unlink fat n w = (w', if dir w n = None then FR_NO_FILE else FR_OK) \<and>
         cur w' = None \<and> dir w' = (dir w)(n := None))) \<and>
      (\<forall>w a b s. cur w = None \<longrightarrow> dir w a = Some s \<longrightarrow> dir w b = None \<longrightarrow>
         (\<exists>w'. f_rename fat a b w = (w', FR_OK) \<and> cur w' = None \<and> dir w' = (dir w)(a := None, b \<mapsto> s))))"

lemma volume_open:
  "log_volume fat dir cur \<Longrightarrow> \<exists>w'. f_open fat n w = (w', FR_OK) \<and> cur w' = Some (n, 0) \<and>
     dir w' = (dir w)(n \<mapsto> (case dir w n of None \<Rightarrow> '''' | Some s \<Rightarrow> s))"
  and volume_size: "log_volume fat dir cur \<Longrightarrow> cur w = Some (n, p) \<Longrightarrow> dir w n = Some s \<Longrightarrow> f_size fat w = length s"
  and volume_seek: "log_volume fat dir cur \<Longrightarrow> cur w = Some (n, p) \<Longrightarrow> dir w n = Some s \<Longrightarrow> k \<le> length s \<Longrightarrow>
     \<exists>w'. f_lseek fat k w = (w', FR_OK) \<and> dir w' = dir w \<and> cur w' = Some (n, k)"
  and volume_write: "log_volume fat dir cur \<Longrightarrow> cur w = Some (n, length s) \<Longrightarrow> dir w n = Some s \<Longrightarrow>
     \<exists>w'. f_write fat t w = (w', FR_OK, length t) \<and> dir w' = (dir w)(n \<mapsto> s @ t) \<and> cur w' = Some (n, length s + length t)"
  and volume_sync: "log_volume fat dir cur \<Longrightarrow> dir (f_sync fat w) = dir w"
     "log_volume fat dir cur \<Longrightarrow> cur (f_sync fat w) = cur w"
  and volume_close: "log_volume fat dir cur \<Longrightarrow> dir (f_close fat w) = dir w" "log_volume fat dir cur \<Longrightarrow> cur (f_close fat w) = None"
  and volume_unlink: "log_volume fat dir cur \<Longrightarrow> cur w = None \<Longrightarrow>
     \<exists>w'. f_unlink fat n w = (w', if dir w n = None then FR_NO_FILE else FR_OK) \<and> cur w' = None \<and> dir w' = (dir w)(n := None)"
  and volume_rename: "log_volume fat dir cur \<Longrightarrow> cur w = None \<Longrightarrow> dir w a = Some s \<Longrightarrow> dir w b = None \<Longrightarrow>
     \<exists>w'. f_rename fat a b w = (w', FR_OK) \<and> cur w' = None \<and> dir w' = (dir w)(a := None, b \<mapsto> s)"
  unfolding log_volume_def by blast+

text \<open>The file is open at its end.\<close>

definition at_end :: "('w \<Rightarrow> string \<Rightarrow> string option) \<Rightarrow> ('w \<Rightarrow> (string \<times> nat) option) \<Rightarrow> string \<Rightarrow> 'w \<Rightarrow> bool" where
  "at_end dir cur s w = (dir w log_name = Some s \<and> cur w = Some (log_name, length s))"

lemma open_current_spec:
  assumes v: "log_volume fat dir cur" and s: "s = (case dir w log_name of None \<Rightarrow> '''' | Some s \<Rightarrow> s)"
  shows "\<exists>w'. app_log_open_current_file fat w = (w', True) \<and> at_end dir cur s w' \<and> dir w' = (dir w)(log_name \<mapsto> s)"
proof -
  obtain w1 where w1: "f_open fat log_name w = (w1, FR_OK)" "cur w1 = Some (log_name, 0)" "dir w1 = (dir w)(log_name \<mapsto> s)"
    using volume_open [OF v, of log_name w] s by blast
  have d: "dir w1 log_name = Some s" using w1(3) by simp
  have z: "f_size fat w1 = length s" by (rule volume_size [OF v w1(2) d])
  obtain w2 where "f_lseek fat (length s) w1 = (w2, FR_OK)" "dir w2 = dir w1" "cur w2 = Some (log_name, length s)"
    using volume_seek [OF v w1(2) d] by blast
  then show ?thesis using w1 d z by (simp add: app_log_open_current_file_def at_end_def)
qed

lemma log_names [simp]: "log_name \<noteq> log1_name" "log1_name \<noteq> log_name"
  by (simp_all add: log_name_def log1_name_def)

lemma rotate_spec:
  assumes v: "log_volume fat dir cur" and e: "at_end dir cur s w"
  shows "\<exists>w'. app_log_rotate_if_needed fat n w = (w', True) \<and>
    (if length s + n \<le> APP_LOG_MAX_SIZE_BYTES then w' = w
     else at_end dir cur '''' w' \<and> dir w' = (dir w)(log1_name \<mapsto> s, log_name \<mapsto> ''''))"
proof -
  have z: "f_size fat w = length s" using volume_size [OF v] e by (auto simp: at_end_def)
  show ?thesis
  proof (cases "length s + n \<le> APP_LOG_MAX_SIZE_BYTES")
    case True
    then show ?thesis using z by (simp add: app_log_rotate_if_needed_def)
  next
    case False
    let ?w0 = "f_close fat (f_sync fat w)"
    have w0: "dir ?w0 = dir w" "cur ?w0 = None" using volume_sync [OF v] volume_close [OF v] by simp_all
    obtain w1 where w1: "f_unlink fat log1_name ?w0 = (w1, if dir w log1_name = None then FR_NO_FILE else FR_OK)"
      "cur w1 = None" "dir w1 = (dir w)(log1_name := None)"
      using volume_unlink [OF v w0(2), of log1_name] w0(1) by auto
    have "dir w1 log_name = Some s" "dir w1 log1_name = None" using w1(3) e by (simp_all add: at_end_def)
    then obtain w2 where w2: "f_rename fat log_name log1_name w1 = (w2, FR_OK)"
      "dir w2 = (dir w1)(log_name := None, log1_name \<mapsto> s)"
      using volume_rename [OF v w1(2)] by blast
    have o: "'''' = (case dir w2 log_name of None \<Rightarrow> '''' | Some s \<Rightarrow> s)" using w2(2) by simp
    obtain w3 where w3: "app_log_open_current_file fat w2 = (w3, True)" "at_end dir cur '''' w3" "dir w3 = (dir w2)(log_name \<mapsto> '''')"
      using open_current_spec [OF v o] by blast
    have "app_log_rotate_if_needed fat n w = (w3, True)"
      using False z w1(1) w2(1) w3(1) by (simp add: app_log_rotate_if_needed_def FR_OK_def FR_NO_FILE_def)
    moreover have "dir w3 = (dir w)(log1_name \<mapsto> s, log_name \<mapsto> '''')"
      using w1(3) w2(2) w3(3) by (auto simp: fun_eq_iff)
    ultimately show ?thesis using False w3(2) by simp
  qed
qed

lemma app_log_spec:
  assumes v: "log_volume fat dir cur" and e: "at_end dir cur s (log_world lg)" "log_ready lg" and l: "line = app_log_line t m"
  shows "log_ready (app_log fat t m lg) \<and>
    (let w' = log_world (app_log fat t m lg); d = dir (log_world lg)
     in if length s + length line \<le> APP_LOG_MAX_SIZE_BYTES
        then at_end dir cur (s @ line) w' \<and> dir w' = d(log_name \<mapsto> s @ line)
        else at_end dir cur line w' \<and> dir w' = d(log1_name \<mapsto> s, log_name \<mapsto> line))"
proof -
  obtain w1 where w1: "app_log_rotate_if_needed fat (length line) (log_world lg) = (w1, True)"
    "if length s + length line \<le> APP_LOG_MAX_SIZE_BYTES then w1 = log_world lg
     else at_end dir cur '''' w1 \<and> dir w1 = (dir (log_world lg))(log1_name \<mapsto> s, log_name \<mapsto> '''')"
    using rotate_spec [OF v e(1)] by blast
  let ?s = "if length s + length line \<le> APP_LOG_MAX_SIZE_BYTES then s else ''''"
  have "at_end dir cur ?s w1" using w1(2) e(1) by (auto split: if_splits)
  then obtain w2 where w2: "f_write fat line w1 = (w2, FR_OK, length line)" "dir w2 = (dir w1)(log_name \<mapsto> ?s @ line)"
    "cur w2 = Some (log_name, length ?s + length line)"
    using volume_write [OF v, of w1 log_name ?s line] unfolding at_end_def by blast
  have "app_log fat t m lg = lg\<lparr>log_world := f_sync fat w2\<rparr>"
    using e(2) w1(1) w2(1) l by (simp add: app_log_def Let_def)
  then show ?thesis using w1(2) w2(2,3) volume_sync [OF v] e(2)
    by (auto simp: at_end_def Let_def split: if_splits)
qed

lemma length_app_log_line: "length (app_log_line t m) \<le> 255"
proof -
  have "length ((if length l \<ge> 254 then take 254 l else l) @ [c]) \<le> 255" for l and c :: char by simp
  then show ?thesis unfolding app_log_line_def Let_def by blast
qed

fun app_log_run :: "'w log_files \<Rightarrow> (u32 \<times> string) list \<Rightarrow> 'w log \<Rightarrow> 'w log" where
  "app_log_run fat [] lg = lg"
| "app_log_run fat ((t, m) # es) lg = app_log_run fat es (app_log fat t m lg)"

definition old_log :: "(string \<Rightarrow> string option) \<Rightarrow> string" where
  "old_log d = (case d log1_name of None \<Rightarrow> '''' | Some s \<Rightarrow> s)"

lemma app_log_run_spec:
  assumes "log_volume fat dir cur" "at_end dir cur s (log_world lg)" "log_ready lg"
    and "length s \<le> APP_LOG_MAX_SIZE_BYTES" "length (old_log (dir (log_world lg))) \<le> APP_LOG_MAX_SIZE_BYTES"
    and "H = lost @ old_log (dir (log_world lg)) @ s"
    and "lost = '''' \<or> APP_LOG_MAX_SIZE_BYTES < length (old_log (dir (log_world lg))) + 255"
  shows "\<exists>lost s'. let w' = log_world (app_log_run fat es lg) in
    at_end dir cur s' w' \<and> length s' \<le> APP_LOG_MAX_SIZE_BYTES \<and> length (old_log (dir w')) \<le> APP_LOG_MAX_SIZE_BYTES \<and>
    H @ concat (List.map (\<lambda>(t, m). app_log_line t m) es) = lost @ old_log (dir w') @ s' \<and>
    (lost = '''' \<or> APP_LOG_MAX_SIZE_BYTES < length (old_log (dir w')) + 255) \<and>
    (\<forall>n. n \<noteq> log_name \<longrightarrow> n \<noteq> log1_name \<longrightarrow> dir w' n = dir (log_world lg) n)"
  using assms
proof (induction es arbitrary: lg s lost H)
  case Nil
  then show ?case unfolding app_log_run.simps Let_def by (intro exI [of _ lost] exI [of _ s]) simp
next
  case (Cons e es)
  obtain t m where e: "e = (t, m)" by fastforce
  let ?l = "app_log_line t m" and ?lg = "app_log fat t m lg"
  note sp = app_log_spec [OF Cons.prems(1-3) refl, of t m, unfolded Let_def]
  have len: "length ?l \<le> 255" by (rule length_app_log_line)
  let ?fits = "length s + length ?l \<le> APP_LOG_MAX_SIZE_BYTES"
  let ?s = "if ?fits then s @ ?l else ?l" and ?lost = "if ?fits then lost else lost @ old_log (dir (log_world lg))"
  have d: "dir (log_world ?lg) = (if ?fits then (dir (log_world lg))(log_name \<mapsto> ?s) else (dir (log_world lg))(log1_name \<mapsto> s, log_name \<mapsto> ?s))"
    using sp by (simp split: if_splits)
  have o: "old_log (dir (log_world ?lg)) = (if ?fits then old_log (dir (log_world lg)) else s)"
    unfolding d by (simp add: old_log_def)
  have "at_end dir cur ?s (log_world ?lg)" "log_ready ?lg" using sp by (simp_all split: if_splits)
  moreover have "length ?s \<le> APP_LOG_MAX_SIZE_BYTES" using len by (auto simp: APP_LOG_MAX_SIZE_BYTES_def)
  moreover have "length (old_log (dir (log_world ?lg))) \<le> APP_LOG_MAX_SIZE_BYTES" using o Cons.prems(4,5) by simp
  moreover have "H @ ?l = ?lost @ old_log (dir (log_world ?lg)) @ ?s" using o Cons.prems(6) by simp
  moreover have "?lost = '''' \<or> APP_LOG_MAX_SIZE_BYTES < length (old_log (dir (log_world ?lg))) + 255"
    using o Cons.prems(7) len by auto
  ultimately obtain lost' s' where r: "let w' = log_world (app_log_run fat es ?lg) in
    at_end dir cur s' w' \<and> length s' \<le> APP_LOG_MAX_SIZE_BYTES \<and> length (old_log (dir w')) \<le> APP_LOG_MAX_SIZE_BYTES \<and>
    (H @ ?l) @ concat (List.map (\<lambda>(t, m). app_log_line t m) es) = lost' @ old_log (dir w') @ s' \<and>
    (lost' = '''' \<or> APP_LOG_MAX_SIZE_BYTES < length (old_log (dir w')) + 255) \<and>
    (\<forall>n. n \<noteq> log_name \<longrightarrow> n \<noteq> log1_name \<longrightarrow> dir w' n = dir (log_world ?lg) n)"
    using Cons.IH [OF Cons.prems(1), of ?s ?lg "H @ ?l" ?lost] by blast
  have "dir (log_world ?lg) n = dir (log_world lg) n" if "n \<noteq> log_name" "n \<noteq> log1_name" for n using that unfolding d by simp
  then show ?case using r unfolding e app_log_run.simps Let_def
    by (intro exI [of _ lost'] exI [of _ s']) simp
qed



text \<open>A volume in memory: the files, and the file that is open with its position.\<close>

type_synonym ram = "(string \<Rightarrow> string option) \<times> (string \<times> nat) option"

definition ram_volume :: "ram log_files" where
  "ram_volume =
     \<lparr>f_open = (\<lambda>n (d, c). ((d(n \<mapsto> (case d n of None \<Rightarrow> '''' | Some s \<Rightarrow> s)), Some (n, 0)), FR_OK)),
      f_size = (\<lambda>(d, c). case c of None \<Rightarrow> 0 | Some (n, p) \<Rightarrow> length (the (d n))),
      f_lseek = (\<lambda>k (d, c). ((d, map_option (\<lambda>(n, p). (n, k)) c), FR_OK)),
      f_write = (\<lambda>t (d, c). case c of None \<Rightarrow> ((d, c), 9, 0)
         | Some (n, p) \<Rightarrow> ((d(n \<mapsto> take p (the (d n)) @ t @ drop (p + length t) (the (d n))), Some (n, p + length t)), FR_OK, length t)),
      f_sync = (\<lambda>w. w), f_close = (\<lambda>(d, c). (d, None)),
      f_unlink = (\<lambda>n (d, c). ((d(n := None), c), if d n = None then FR_NO_FILE else FR_OK)),
      f_rename = (\<lambda>a b (d, c). ((d(a := None, b := d a), c), FR_OK))\<rparr>"

lemma ram_volume_laws: "log_volume ram_volume fst snd"
  by (auto simp: log_volume_def ram_volume_def)


subsection \<open>Reading the log\<close>

text \<open>What FatFs documents of a file object open for reading, \<open>pos\<close> its name and position.\<close>

definition log_readers ::
  "('h, 'w) readers \<Rightarrow> ('w \<Rightarrow> string \<Rightarrow> string option) \<Rightarrow> ('h \<Rightarrow> string \<times> nat) \<Rightarrow> bool" where
  "log_readers fat dir pos =
     ((\<forall>w n. \<exists>w' r. r_open fat n w = (w', r) \<and> dir w' = dir w \<and>
         (case dir w n of None \<Rightarrow> r = None | Some s \<Rightarrow> (\<exists>h. r = Some h \<and> pos h = (n, 0)))) \<and>
      (\<forall>w h n p s. pos h = (n, p) \<longrightarrow> dir w n = Some s \<longrightarrow>
         r_size fat h w = length s \<and>
         (\<forall>k. \<exists>w' h'. r_read fat h k w = (w', h', Some (take k (drop p s))) \<and> dir w' = dir w \<and>
            pos h' = (n, p + length (take k (drop p s))))))"

lemma reader_open:
  "log_readers fat dir pos \<Longrightarrow> \<exists>w' r. r_open fat n w = (w', r) \<and> dir w' = dir w \<and>
     (case dir w n of None \<Rightarrow> r = None | Some s \<Rightarrow> (\<exists>h. r = Some h \<and> pos h = (n, 0)))"
  unfolding log_readers_def by blast

text \<open>The stream with \<open>rp\<close> of the older file and \<open>rc\<close> of the current one still to come.\<close>

definition previous_at ::
  "('w \<Rightarrow> string \<Rightarrow> string option) \<Rightarrow> ('h \<Rightarrow> string \<times> nat) \<Rightarrow> 'h log_stream \<Rightarrow> 'w \<Rightarrow> string \<Rightarrow> bool" where
  "previous_at dir pos stream w rp =
     (case sm_previous_file stream of
        None \<Rightarrow> rp = ''''
      | Some h \<Rightarrow> \<exists>old. dir w log1_name = Some old \<and> sm_previous_size stream = length old \<and>
          sm_previous_read stream \<le> length old \<and> pos h = (log1_name, sm_previous_read stream) \<and>
          rp = drop (sm_previous_read stream) old)"

definition current_at ::
  "('w \<Rightarrow> string \<Rightarrow> string option) \<Rightarrow> ('h \<Rightarrow> string \<times> nat) \<Rightarrow> 'h log_stream \<Rightarrow> 'w \<Rightarrow> string \<Rightarrow> bool" where
  "current_at dir pos stream w rc =
     (case sm_current_file stream of
        None \<Rightarrow> rc = ''''
      | Some h \<Rightarrow> \<exists>s q. dir w log_name = Some s \<and> pos h = (log_name, q) \<and> rc = drop q s)"

lemma at_frame:
  "dir w' = dir w \<Longrightarrow> previous_at dir pos (stream\<lparr>sm_current_file := c\<rparr>) w' rp = previous_at dir pos stream w rp"
  "dir w' = dir w \<Longrightarrow> current_at dir pos (stream\<lparr>sm_previous_file := h, sm_previous_read := k\<rparr>) w' rc = current_at dir pos stream w rc"
  by (simp_all add: previous_at_def current_at_def split: option.split)

lemma read_file_spec:
  assumes "log_readers fat dir pos" "pos h = (n, p)" "dir w n = Some s"
  shows "\<exists>w' h'. app_web_log_read_file fat h k w = (w', h', take k (drop p s)) \<and> dir w' = dir w \<and>
    pos h' = (n, p + length (take k (drop p s)))"
proof -
  obtain w' h' where "r_read fat h k w = (w', h', Some (take k (drop p s)))" "dir w' = dir w" "pos h' = (n, p + length (take k (drop p s)))"
    using assms unfolding log_readers_def by blast
  then show ?thesis by (simp add: app_web_log_read_file_def)
qed

lemma read_current_spec:
  assumes "log_readers fat dir pos" "previous_at dir pos stream w ''''" "current_at dir pos stream w r" "0 < k"
  shows "\<exists>stream' w' file' b. read_current fat k file (stream, w) = ((stream', w'), file', b) \<and>
    fs_attached file' = fs_attached file \<and>
    (case b of None \<Rightarrow> r = ''''
     | Some t \<Rightarrow> \<exists>r'. t \<noteq> '''' \<and> r = t @ r' \<and> previous_at dir pos stream' w' '''' \<and> current_at dir pos stream' w' r')"
proof (cases "sm_current_file stream")
  case None
  then show ?thesis using assms(3) by (simp add: read_current_def current_at_def)
next
  case (Some h)
  then obtain s q where s: "dir w log_name = Some s" "pos h = (log_name, q)" "r = drop q s"
    using assms(3) by (auto simp: current_at_def)
  obtain w' h' where r: "app_web_log_read_file fat h k w = (w', h', take k r)" "dir w' = dir w"
    "pos h' = (log_name, q + length (take k r))"
    using read_file_spec [OF assms(1) s(2,1), of k] s(3) by blast
  have "drop k r = drop (q + length (take k r)) s" using s(3) by (simp add: min_def add.commute)
  then have c: "current_at dir pos (stream\<lparr>sm_current_file := Some h'\<rparr>) w' (drop k r)"
    using r(2,3) s(1) by (auto simp: current_at_def)
  have p: "previous_at dir pos (stream\<lparr>sm_current_file := Some h'\<rparr>) w' ''''"
    using assms(2) at_frame(1) [of dir w' w, OF r(2)] by blast
  show ?thesis
  proof (cases "take k r = ''''")
    case True
    then have "r = ''''" using assms(4) by simp
    then show ?thesis using True Some r(1) by (simp add: read_current_def)
  next
    case False
    let ?st = "stream\<lparr>sm_current_file := Some h'\<rparr>" and ?file = "file\<lparr>fs_index := fs_index file + int (length (take k r))\<rparr>"
    have eq: "read_current fat k file (stream, w) = ((?st, w'), ?file, Some (take k r))"
      unfolding read_current_def prod.case Some option.case r(1) Let_def if_not_P [OF False] ..
    have "r = take k r @ drop k r" by simp
    then have e: "\<exists>r'. take k r \<noteq> '''' \<and> r = take k r @ r' \<and> previous_at dir pos ?st w' '''' \<and> current_at dir pos ?st w' r'"
      using False c p by blast
    have a: "fs_attached ?file = fs_attached file" by simp
    show ?thesis
      by (intro exI [of _ ?st] exI [of _ w'] exI [of _ ?file] exI [of _ "Some (take k r)"] conjI)
        (rule eq, rule a, unfold option.case, rule e)
  qed
qed


lemma fs_read_spec:
  assumes "log_readers fat dir pos" "previous_at dir pos stream w rp" "current_at dir pos stream w rc"
    and "0 < count" "fs_attached file"
  shows "\<exists>stream' w' file' b. fs_read_custom fat count file (stream, w) = ((stream', w'), file', b) \<and> fs_attached file' \<and>
    (case b of None \<Rightarrow> rp @ rc = ''''
     | Some t \<Rightarrow> \<exists>rp' rc'. t \<noteq> '''' \<and> rp @ rc = t @ rp' @ rc' \<and> previous_at dir pos stream' w' rp' \<and> current_at dir pos stream' w' rc')"
proof -
  let ?k = "if nat count > APP_WEB_LOG_READ_CHUNK then APP_WEB_LOG_READ_CHUNK else nat count"
  have k: "0 < ?k" using assms(4) by (simp add: APP_WEB_LOG_READ_CHUNK_def)
  have g: "\<not> (count \<le> 0 \<or> \<not> fs_attached file)" using assms(4,5) by simp
  note def = fs_read_custom_def prod.case if_not_P [OF g] Let_def
  show ?thesis
  proof (cases "rp = ''''")
    case True
    have "fs_read_custom fat count file (stream, w) = read_current fat ?k file (stream, w)"
    proof (cases "sm_previous_file stream")
      case None
      then show ?thesis unfolding def by simp
    next
      case (Some h)
      then have "\<not> sm_previous_read stream < sm_previous_size stream" using assms(2) True by (auto simp: previous_at_def)
      then show ?thesis unfolding def Some by simp
    qed
    then show ?thesis
      using read_current_spec [OF assms(1) assms(2) [unfolded True] assms(3) k, of "file"] assms(5) True
      by (fastforce split: option.splits)
  next
    case False
    then obtain h old where h: "sm_previous_file stream = Some h" "dir w log1_name = Some old" "sm_previous_size stream = length old"
      "pos h = (log1_name, sm_previous_read stream)" "rp = drop (sm_previous_read stream) old"
      using assms(2) by (auto simp: previous_at_def split: option.splits)
    have lt: "\<not> \<not> sm_previous_read stream < sm_previous_size stream" using False h(3,5) by simp
    let ?r = "sm_previous_size stream - sm_previous_read stream"
    obtain m where m_def: "(if ?k > ?r then ?r else ?k) = m" by blast
    have m: "0 < m" "m \<le> length rp" using k lt h(3,5) unfolding m_def [symmetric] by auto
    obtain w' h' where r: "app_web_log_read_file fat h m w = (w', h', take m rp)" "dir w' = dir w"
      "pos h' = (log1_name, sm_previous_read stream + length (take m rp))"
      using read_file_spec [OF assms(1) h(4,2), of m] h(5) by blast
    have ne: "take m rp \<noteq> ''''" and len: "length (take m rp) = m" using m by auto
    let ?st = "stream\<lparr>sm_previous_file := Some h', sm_previous_read := sm_previous_read stream + length (take m rp)\<rparr>"
    let ?file = "file\<lparr>fs_index := fs_index file + int (length (take m rp))\<rparr>"
    have eq: "fs_read_custom fat count file (stream, w) = ((?st, w'), ?file, Some (take m rp))"
      unfolding def h(1) option.case if_not_P [OF lt] m_def r(1) if_P [OF ne] ..
    have d: "drop m rp = drop (sm_previous_read stream + length (take m rp)) old"
      unfolding len unfolding h(5) by (simp add: add.commute)
    have "length rp = length old - sm_previous_read stream" unfolding h(5) by simp
    moreover have "sm_previous_read stream < length old" using lt unfolding h(3) by blast
    ultimately have le: "sm_previous_read stream + length (take m rp) \<le> length old"
      using m(2) unfolding len by linarith
    have p: "previous_at dir pos ?st w' (drop m rp)"
      unfolding previous_at_def
      by (simp del: length_take drop_drop, intro exI [of _ old] conjI)
        (use h(2) r(2) in simp, rule h(3), rule le, rule r(3), rule d)
    have c: "current_at dir pos ?st w' rc" using assms(3) at_frame(2) [of dir w' w, OF r(2)] by blast
    have "rp @ rc = take m rp @ drop m rp @ rc" by simp
    then have e: "\<exists>rp' rc'. take m rp \<noteq> '''' \<and> rp @ rc = take m rp @ rp' @ rc' \<and> previous_at dir pos ?st w' rp' \<and> current_at dir pos ?st w' rc'"
      using ne p c by blast
    have a: "fs_attached ?file" using assms(5) by simp
    show ?thesis
      by (intro exI [of _ ?st] exI [of _ w'] exI [of _ ?file] exI [of _ "Some (take m rp)"] conjI)
        (rule eq, rule a, unfold option.case, rule e)
  qed
qed

text \<open>The HTTP server reads with the counts it likes until the end: the text, and whether the end came.\<close>

fun read_all :: "('h, 'w) readers \<Rightarrow> int list \<Rightarrow> fs_file \<Rightarrow> 'h log_stream \<times> 'w \<Rightarrow> string \<times> bool" where
  "read_all fat [] file st = ('''', False)"
| "read_all fat (c # cs) file st =
     (case fs_read_custom fat c file st of
        (st', file', None) \<Rightarrow> ('''', True)
      | (st', file', Some t) \<Rightarrow> (case read_all fat cs file' st' of (rest, ended) \<Rightarrow> (t @ rest, ended)))"

lemma read_all_spec:
  assumes "log_readers fat dir pos" "previous_at dir pos stream w rp" "current_at dir pos stream w rc"
    and "\<forall>c\<in>set cs. 0 < c" "fs_attached file" "length (rp @ rc) < length cs"
  shows "read_all fat cs file (stream, w) = (rp @ rc, True)"
  using assms(2-)
proof (induction cs arbitrary: stream w rp rc "file")
  case Nil
  then show ?case by simp
next
  case (Cons c cs)
  have c: "0 < c" using Cons.prems(3) by simp
  obtain stream' w' file' b where r: "fs_read_custom fat c file (stream, w) = ((stream', w'), file', b)" "fs_attached file'"
    "case b of None \<Rightarrow> rp @ rc = ''''
     | Some t \<Rightarrow> \<exists>rp' rc'. t \<noteq> '''' \<and> rp @ rc = t @ rp' @ rc' \<and> previous_at dir pos stream' w' rp' \<and> current_at dir pos stream' w' rc'"
    using fs_read_spec [OF assms(1) Cons.prems(1,2) c Cons.prems(4)] by blast
  show ?case
  proof (cases b)
    case None
    then show ?thesis using r(1,3) by simp
  next
    case (Some t)
    then obtain rp' rc' where t: "t \<noteq> ''''" "rp @ rc = t @ rp' @ rc'" "previous_at dir pos stream' w' rp'" "current_at dir pos stream' w' rc'"
      using r(3) by auto
    have "length (rp' @ rc') < length cs" 
    proof -
      have "length (rp @ rc) = length t + length (rp' @ rc')" unfolding t(2) by simp
      moreover have "0 < length t" using t(1) by simp
      ultimately show ?thesis using Cons.prems(5) unfolding list.size(4) by linarith
    qed
    then have "read_all fat cs file' (stream', w') = (rp' @ rc', True)"
      using Cons.IH [OF t(3,4) _ r(2)] Cons.prems(3) by simp
    then show ?thesis using r(1) Some t(2) by simp
  qed
qed


lemma sint_small: "n < 2 ^ 31 \<Longrightarrow> sint (word_of_nat n :: u32) = int n"
  by (simp add: signed_of_nat signed_take_bit_int_eq_self)

text \<open>
  C33: the address \<^verbatim>\<open>/logs.txt\<close> serves the older file and then the current one, byte for byte, whatever
  counts the HTTP server asks for, and announces their length; it ends there.
\<close>

theorem log_download:
  assumes "log_readers fat dir pos" and "\<not> sm_in_use stream" and "\<forall>c\<in>set cs. 0 < c"
    and "old = (case dir w log1_name of None \<Rightarrow> '''' | Some s \<Rightarrow> s)" and "current = (case dir w log_name of None \<Rightarrow> '''' | Some s \<Rightarrow> s)"
    and "length (old @ current) < 2 ^ 31" and "length (old @ current) < length cs"
  shows "\<exists>st' served. fs_open_custom fat ''/logs.txt'' (stream, w) = (st', Some served) \<and>
    fs_len served = int (length (old @ current)) \<and> read_all fat cs served st' = (old @ current, True)"
proof -
  obtain w1 h1 where o1: "r_open fat log1_name w = (w1, h1)" "dir w1 = dir w"
    "case dir w log1_name of None \<Rightarrow> h1 = None | Some s \<Rightarrow> (\<exists>h. h1 = Some h \<and> pos h = (log1_name, 0))"
    using reader_open [OF assms(1), of log1_name w] by blast
  obtain w2 h2 where o2: "r_open fat log_name w1 = (w2, h2)" "dir w2 = dir w"
    "case dir w log_name of None \<Rightarrow> h2 = None | Some s \<Rightarrow> (\<exists>h. h2 = Some h \<and> pos h = (log_name, 0))"
    using reader_open [OF assms(1), of log_name w1] unfolding o1(2) by blast
  have size: "r_size fat h w' = length s" if "pos h = (n, p)" "dir w' n = Some s" for h w' n p s
    using assms(1) that unfolding log_readers_def by blast
  have s1: "(case h1 of None \<Rightarrow> 0 | Some h \<Rightarrow> r_size fat h w1) = length old"
    using o1(2,3) assms(4) by (cases "dir w log1_name") (auto simp: size)
  have s2: "(case h2 of None \<Rightarrow> 0 | Some h \<Rightarrow> r_size fat h w2) = length current"
    using o2(2,3) assms(5) by (cases "dir w log_name") (auto simp: size)
  let ?st = "\<lparr>sm_previous_file = h1, sm_current_file = h2, sm_previous_size = length old, sm_previous_read = 0, sm_in_use = True\<rparr>"
  let ?file = "\<lparr>fs_len = sint (word_of_nat (length old + length current) :: u32), fs_index = 0, fs_header_persistent = True, fs_attached = True\<rparr>"
  have g: "\<not> (''/logs.txt'' \<noteq> APP_WEB_LOGS_URI \<or> sm_in_use stream)" using assms(2) by (simp add: APP_WEB_LOGS_URI_def)
  have open_ok: "fs_open_custom fat ''/logs.txt'' (stream, w) = ((?st, w2), Some ?file)"
    unfolding fs_open_custom_def prod.case if_not_P [OF g] o1(1) Let_def o2(1) s1 s2 ..
  have "sint (word_of_nat (length old + length current) :: u32) = int (length old + length current)"
    using sint_small [of "length (old @ current)"] assms(6) by simp
  moreover have "previous_at dir pos ?st w2 old"
    using o1(3) o2(2) assms(4) by (cases "dir w log1_name") (auto simp: previous_at_def)
  moreover have "current_at dir pos ?st w2 current"
    using o2(2,3) assms(5) by (cases "dir w log_name") (auto simp: current_at_def)
  ultimately show ?thesis
    using open_ok read_all_spec [OF assms(1) _ _ assms(3) _ assms(7), of ?st w2 ?file] by simp
qed


text \<open>A volume in memory whose file objects are a name and a position.\<close>

definition ram_readers :: "(string \<times> nat, string \<Rightarrow> string option) readers" where
  "ram_readers =
     \<lparr>r_open = (\<lambda>n d. (d, case d n of None \<Rightarrow> None | Some s \<Rightarrow> Some (n, 0))),
      r_size = (\<lambda>(n, p) d. case d n of None \<Rightarrow> 0 | Some s \<Rightarrow> length s),
      r_read = (\<lambda>(n, p) k d. case d n of None \<Rightarrow> (d, (n, p), None)
         | Some s \<Rightarrow> (d, (n, p + length (take k (drop p s))), Some (take k (drop p s)))),
      r_close = (\<lambda>h d. d)\<rparr>"

lemma ram_readers_laws: "log_readers ram_readers (\<lambda>d. d) (\<lambda>h. h)"
  by (auto simp: log_readers_def ram_readers_def split: option.split)

theorem log_download_witness:
  "\<exists>st' served. fs_open_custom ram_readers ''/logs.txt'' (no_stream, [log1_name \<mapsto> ''old'', log_name \<mapsto> ''new'']) = (st', Some served) \<and>
     fs_len served = 6 \<and> read_all ram_readers [2, 2, 1024, 2, 1024, 1024, 1024] served st' = (''oldnew'', True)"
  using log_download [OF ram_readers_laws, of no_stream "[2, 2, 1024, 2, 1024, 1024, 1024]" "''old''"
      "[log1_name \<mapsto> ''old'', log_name \<mapsto> ''new'']" "''new''"]
  by (simp add: no_stream_def log_name_def log1_name_def)

end
