(* ===== verification/Tlv_Store.thy ===== *)
theory Tlv_Store
  imports Base
begin

text \<open>
  The store in which BTstack keeps its keys (\<^verbatim>\<open>app_btstack_cyw43.c\<close>): an array of 16 entries of a tag and up
  to 128 bytes, in RAM.  Any sequence of BTstack's calls is answered as by a map of bounded size.
\<close>

subsection \<open>The entries and the operations\<close>

definition APP_BTSTACK_TLV_ENTRY_COUNT :: nat where "APP_BTSTACK_TLV_ENTRY_COUNT = 16"
definition APP_BTSTACK_TLV_VALUE_SIZE :: nat where "APP_BTSTACK_TLV_VALUE_SIZE = 128"

record app_btstack_tlv_entry =
  tlv_used :: bool
  tlv_tag :: u32
  tlv_size :: nat
  tlv_value :: "u8 list"

definition no_tlv_entry :: app_btstack_tlv_entry where
  "no_tlv_entry = \<lparr>tlv_used = False, tlv_tag = 0, tlv_size = 0, tlv_value = replicate APP_BTSTACK_TLV_VALUE_SIZE 0\<rparr>"

text \<open>The array as \<^verbatim>\<open>btstack_cyw43_init\<close> clears it.\<close>

definition app_btstack_tlv_entries :: "app_btstack_tlv_entry list" where
  "app_btstack_tlv_entries = replicate APP_BTSTACK_TLV_ENTRY_COUNT no_tlv_entry"

text \<open>\<open>buffer_size\<close> is \<open>None\<close> for a null buffer; the result is the bytes copied and the size.\<close>

fun app_btstack_tlv_get :: "app_btstack_tlv_entry list \<Rightarrow> u32 \<Rightarrow> nat option \<Rightarrow> u8 list \<times> nat" where
  "app_btstack_tlv_get [] tag buffer_size = ([], 0)"
| "app_btstack_tlv_get (e # es) tag buffer_size =
     (if \<not> tlv_used e \<or> tlv_tag e \<noteq> tag then app_btstack_tlv_get es tag buffer_size
      else (case buffer_size of
              None \<Rightarrow> []
            | Some n \<Rightarrow> if n > 0 then take (if tlv_size e < n then tlv_size e else n) (tlv_value e) else [], tlv_size e))"

text \<open>The loop of the store: \<open>free_entry\<close> and \<open>i\<close> are its variables.\<close>

fun tlv_slot :: "u32 \<Rightarrow> app_btstack_tlv_entry list \<Rightarrow> nat \<Rightarrow> nat option \<Rightarrow> nat option" where
  "tlv_slot tag [] i free_entry = free_entry"
| "tlv_slot tag (e # es) i free_entry =
     (if tlv_used e \<and> tlv_tag e = tag then Some i
      else tlv_slot tag es (i + 1) (if \<not> tlv_used e \<and> free_entry = None then Some i else free_entry))"

text \<open>\<open>data\<close> is \<open>None\<close> for a null pointer; \<open>True\<close> stands for the answer 0, \<open>False\<close> for 1.\<close>

definition app_btstack_tlv_store ::
  "app_btstack_tlv_entry list \<Rightarrow> u32 \<Rightarrow> u8 list option \<Rightarrow> nat \<Rightarrow> app_btstack_tlv_entry list \<times> bool" where
  "app_btstack_tlv_store entries tag data data_size =
     (if data_size > APP_BTSTACK_TLV_VALUE_SIZE \<or> (data_size > 0 \<and> data = None) then (entries, False) else
      case tlv_slot tag entries 0 None of
        None \<Rightarrow> (entries, False)
      | Some i \<Rightarrow>
          (let e = (entries ! i)\<lparr>tlv_used := True, tlv_tag := tag, tlv_size := data_size mod 2 ^ 16\<rparr>;
               e = (case data of
                      Some bytes \<Rightarrow> if data_size > 0 then e\<lparr>tlv_value := take data_size bytes @ drop data_size (tlv_value e)\<rparr> else e
                    | None \<Rightarrow> e)
           in (entries[i := e], True)))"

fun app_btstack_tlv_delete :: "app_btstack_tlv_entry list \<Rightarrow> u32 \<Rightarrow> app_btstack_tlv_entry list" where
  "app_btstack_tlv_delete [] tag = []"
| "app_btstack_tlv_delete (e # es) tag =
     (if tlv_used e \<and> tlv_tag e = tag then no_tlv_entry # es else e # app_btstack_tlv_delete es tag)"

subsection \<open>The map the entries stand for\<close>

definition entry_of :: "u32 \<Rightarrow> app_btstack_tlv_entry \<Rightarrow> bool" where
  "entry_of t e \<longleftrightarrow> tlv_used e \<and> tlv_tag e = t"

definition tlv_view :: "app_btstack_tlv_entry list \<Rightarrow> u32 \<Rightarrow> u8 list option" where
  "tlv_view es t = map_option (\<lambda>e. take (tlv_size e) (tlv_value e)) (find (entry_of t) es)"

definition tlv_entry_ok :: "app_btstack_tlv_entry \<Rightarrow> bool" where
  "tlv_entry_ok e \<longleftrightarrow> length (tlv_value e) = 128 \<and> tlv_size e \<le> 128"

definition tlv_tags :: "app_btstack_tlv_entry list \<Rightarrow> u32 list" where
  "tlv_tags es = map tlv_tag (filter tlv_used es)"

definition tlv_ok :: "app_btstack_tlv_entry list \<Rightarrow> bool" where
  "tlv_ok es \<longleftrightarrow> length es = 16 \<and> list_all tlv_entry_ok es \<and> distinct (tlv_tags es)"

lemma tlv_tags_simps [simp]:
  "tlv_tags [] = []" "tlv_tags (e # es) = (if tlv_used e then tlv_tag e # tlv_tags es else tlv_tags es)"
  "tlv_tags (es @ fs) = tlv_tags es @ tlv_tags fs"
  by (simp_all add: tlv_tags_def)

lemma dom_view: "dom (tlv_view es) = set (tlv_tags es)"
proof -
  have "(\<exists>v. tlv_view es t = Some v) \<longleftrightarrow> t \<in> set (tlv_tags es)" for t
    by (induction es) (auto simp: tlv_view_def entry_of_def)
  then show ?thesis by (auto simp: dom_def)
qed

lemma view_append: "tlv_view (es @ fs) t = (case tlv_view es t of None \<Rightarrow> tlv_view fs t | Some v \<Rightarrow> Some v)"
  by (induction es) (auto simp: tlv_view_def)

lemma view_cons:
  "tlv_view (e # es) = (if tlv_used e then (tlv_view es)(tlv_tag e \<mapsto> take (tlv_size e) (tlv_value e)) else tlv_view es)"
  by (auto simp: tlv_view_def entry_of_def fun_eq_iff)

lemma view_none: "tlv_view es t = None \<longleftrightarrow> t \<notin> set (tlv_tags es)"
  using dom_view [of es] by (auto simp: domIff)

lemma get_view:
  "list_all tlv_entry_ok es \<Longrightarrow> app_btstack_tlv_get es tag buffer_size =
     (case tlv_view es tag of
        None \<Rightarrow> ([], 0)
      | Some v \<Rightarrow> (case buffer_size of None \<Rightarrow> [] | Some n \<Rightarrow> take n v, length v))"
  by (induction es) (auto simp: tlv_view_def entry_of_def tlv_entry_ok_def min_def split: option.split)

lemma delete_ok:
  assumes "tlv_ok es"
  shows "tlv_ok (app_btstack_tlv_delete es tag)" "tlv_view (app_btstack_tlv_delete es tag) = (tlv_view es)(tag := None)"
proof -
  have l: "length (app_btstack_tlv_delete es tag) = length es" by (induction es) auto
  have a: "list_all tlv_entry_ok es \<Longrightarrow> list_all tlv_entry_ok (app_btstack_tlv_delete es tag)"
    by (induction es) (auto simp: tlv_entry_ok_def no_tlv_entry_def APP_BTSTACK_TLV_VALUE_SIZE_def)
  have t: "set (tlv_tags (app_btstack_tlv_delete es tag)) \<subseteq> set (tlv_tags es)" for es
    by (induction es) (auto simp: no_tlv_entry_def)
  have d: "distinct (tlv_tags es) \<Longrightarrow> distinct (tlv_tags (app_btstack_tlv_delete es tag))"
    by (induction es) (auto simp: no_tlv_entry_def dest: t [THEN subsetD])
  have "distinct (tlv_tags es) \<Longrightarrow> tlv_view (app_btstack_tlv_delete es tag) = (tlv_view es)(tag := None)"
  proof (induction es)
    case Nil
    then show ?case by (simp add: tlv_view_def fun_eq_iff)
  next
    case (Cons e es)
    have "tlv_used e \<Longrightarrow> tlv_view es (tlv_tag e) = None" using Cons.prems by (simp add: view_none)
    then show ?case using Cons by (auto simp: view_cons no_tlv_entry_def fun_eq_iff split: if_splits)
  qed
  then show "tlv_ok (app_btstack_tlv_delete es tag)" "tlv_view (app_btstack_tlv_delete es tag) = (tlv_view es)(tag := None)"
    using assms l a d by (auto simp: tlv_ok_def)
qed

text \<open>Where a tag goes: to its own entry, else to the first free one; with \<open>rest\<close> the entries around it.\<close>

definition tlv_place :: "u32 \<Rightarrow> app_btstack_tlv_entry list \<Rightarrow> app_btstack_tlv_entry list \<Rightarrow> app_btstack_tlv_entry \<Rightarrow> app_btstack_tlv_entry list \<Rightarrow> bool" where
  "tlv_place tag es xs e ys \<longleftrightarrow> es = xs @ e # ys \<and> (tlv_used e \<longrightarrow> tlv_tag e = tag) \<and>
     tag \<notin> set (tlv_tags xs) \<and> tag \<notin> set (tlv_tags ys)"

lemma slot_present:
  "tag \<in> set (tlv_tags es) \<Longrightarrow> distinct (tlv_tags es) \<Longrightarrow>
   \<exists>xs e ys. tlv_place tag es xs e ys \<and> tlv_used e \<and> tlv_slot tag es i f = Some (i + length xs)"
proof (induction es arbitrary: i f)
  case Nil
  then show ?case by simp
next
  case (Cons e es)
  show ?case
  proof (cases "tlv_used e \<and> tlv_tag e = tag")
    case True
    then have "tlv_place tag (e # es) [] e es" using Cons.prems(2) by (auto simp: tlv_place_def)
    then show ?thesis using True by fastforce
  next
    case False
    then have "tag \<in> set (tlv_tags es)" "distinct (tlv_tags es)" using Cons.prems by (auto split: if_splits)
    from Cons.IH [OF this, of "i + 1" "if \<not> tlv_used e \<and> f = None then Some i else f"]
    obtain xs e' ys where r: "tlv_place tag es xs e' ys" "tlv_used e'"
      "tlv_slot tag es (i + 1) (if \<not> tlv_used e \<and> f = None then Some i else f) = Some (i + 1 + length xs)" by blast
    have "tlv_place tag (e # es) (e # xs) e' ys" using r(1) False by (auto simp: tlv_place_def)
    moreover have "tlv_slot tag (e # es) i f = Some (i + length (e # xs))" using r(3) False by simp
    ultimately show ?thesis using r(2) by blast
  qed
qed

lemma slot_kept: "tag \<notin> set (tlv_tags es) \<Longrightarrow> tlv_slot tag es i (Some j) = Some j"
  by (induction es arbitrary: i) (auto split: if_splits)

lemma slot_absent:
  "tag \<notin> set (tlv_tags es) \<Longrightarrow>
   (list_all tlv_used es \<and> tlv_slot tag es i None = None) \<or>
   (\<exists>xs e ys. tlv_place tag es xs e ys \<and> \<not> tlv_used e \<and> tlv_slot tag es i None = Some (i + length xs))"
proof (induction es arbitrary: i)
  case Nil
  then show ?case by simp
next
  case (Cons e es)
  show ?case
  proof (cases "tlv_used e")
    case False
    then have "tlv_place tag (e # es) [] e es" "tlv_slot tag (e # es) i None = Some (i + length ([] :: app_btstack_tlv_entry list))"
      using Cons.prems slot_kept by (auto simp: tlv_place_def)
    then show ?thesis using False by blast
  next
    case True
    then have t: "tlv_tag e \<noteq> tag" "tag \<notin> set (tlv_tags es)" using Cons.prems by auto
    have s: "tlv_slot tag (e # es) i None = tlv_slot tag es (i + 1) None" using t True by simp
    from Cons.IH [OF t(2), of "i + 1"] show ?thesis
    proof (elim disjE exE conjE)
      fix xs e' ys
      assume a: "tlv_place tag es xs e' ys" "\<not> tlv_used e'" "tlv_slot tag es (i + 1) None = Some (i + 1 + length xs)"
      have "tlv_place tag (e # es) (e # xs) e' ys" using a(1) t by (auto simp: tlv_place_def)
      moreover have "tlv_slot tag (e # es) i None = Some (i + length (e # xs))" unfolding s a(3) by simp
      ultimately show ?thesis using a(2) by blast
    qed (use True s in simp)
  qed
qed

lemma tags_count: "distinct (tlv_tags es) \<Longrightarrow> card (dom (tlv_view es)) = length (filter tlv_used es)"
  unfolding dom_view by (simp add: distinct_card) (simp add: tlv_tags_def)

lemma place_updated:
  assumes "tlv_place tag es xs e ys" "tlv_ok es" "tlv_used e'" "tlv_tag e' = tag" "tlv_entry_ok e'"
  shows "es[length xs := e'] = xs @ e' # ys" "tlv_ok (xs @ e' # ys)"
    and "tlv_view (xs @ e' # ys) = (tlv_view es)(tag \<mapsto> take (tlv_size e') (tlv_value e'))"
proof -
  have es: "es = xs @ e # ys" and out: "tag \<notin> set (tlv_tags xs)" "tag \<notin> set (tlv_tags ys)"
    and e: "tlv_used e \<Longrightarrow> tlv_tag e = tag" using assms(1) by (auto simp: tlv_place_def)
  show "es[length xs := e'] = xs @ e' # ys" unfolding es by simp
  show "tlv_ok (xs @ e' # ys)" using assms(2-) out unfolding es by (auto simp: tlv_ok_def split: if_splits)
  show "tlv_view (xs @ e' # ys) = (tlv_view es)(tag \<mapsto> take (tlv_size e') (tlv_value e'))"
    using out e assms(3,4) unfolding es view_append view_cons view_none [symmetric]
    by (auto simp: fun_eq_iff view_append view_cons split: option.split)
qed

lemma store_ok:
  assumes "tlv_ok es" and "data_size \<le> length data"
  shows "if data_size \<le> 128 \<and> (tag \<in> dom (tlv_view es) \<or> card (dom (tlv_view es)) < 16)
    then \<exists>es'. app_btstack_tlv_store es tag (Some data) data_size = (es', True) \<and> tlv_ok es' \<and>
           tlv_view es' = (tlv_view es)(tag \<mapsto> take data_size data)
    else app_btstack_tlv_store es tag (Some data) data_size = (es, False)"
proof (cases "data_size \<le> 128")
  case False
  then show ?thesis by (simp add: app_btstack_tlv_store_def APP_BTSTACK_TLV_VALUE_SIZE_def)
next
  case True
  have d: "distinct (tlv_tags es)" and len: "length es = 16" using assms(1) by (simp_all add: tlv_ok_def)
  have stored: "\<exists>es'. app_btstack_tlv_store es tag (Some data) data_size = (es', True) \<and> tlv_ok es' \<and>
      tlv_view es' = (tlv_view es)(tag \<mapsto> take data_size data)"
    if p: "tlv_place tag es xs e ys" "tlv_slot tag es 0 None = Some (length xs)" for xs e ys
  proof -
    let ?e = "e\<lparr>tlv_used := True, tlv_tag := tag, tlv_size := data_size mod 2 ^ 16\<rparr>"
    let ?e' = "if data_size > 0 then ?e\<lparr>tlv_value := take data_size data @ drop data_size (tlv_value ?e)\<rparr> else ?e"
    have i: "es ! length xs = e" using p(1) by (simp add: tlv_place_def)
    have v: "length (tlv_value e) = 128" using p(1) assms(1) by (auto simp: tlv_place_def tlv_ok_def tlv_entry_ok_def)
    have n: "\<not> (data_size > APP_BTSTACK_TLV_VALUE_SIZE \<or> (data_size > 0 \<and> Some data = None))"
      using True by (simp add: APP_BTSTACK_TLV_VALUE_SIZE_def)
    have eq: "app_btstack_tlv_store es tag (Some data) data_size = (es[length xs := ?e'], True)"
      unfolding app_btstack_tlv_store_def if_not_P [OF n] p(2) option.case i Let_def ..
    have e': "tlv_used ?e'" "tlv_tag ?e' = tag" "tlv_entry_ok ?e'" "take (tlv_size ?e') (tlv_value ?e') = take data_size data"
      using True v assms(2) by (auto simp: tlv_entry_ok_def)
    show ?thesis
      using eq place_updated [OF p(1) assms(1) e'(1-3)] unfolding e'(4) by auto
  qed
  show ?thesis
  proof (cases "tag \<in> set (tlv_tags es)")
    case in_es: True
    then obtain xs e ys where "tlv_place tag es xs e ys" "tlv_slot tag es 0 None = Some (length xs)"
      using slot_present [OF in_es d, of 0 None] by auto
    then show ?thesis using stored True in_es dom_view [of es] by auto
  next
    case out: False
    from slot_absent [OF out, of 0] show ?thesis
    proof (elim disjE exE conjE)
      fix xs e ys
      assume a: "tlv_place tag es xs e ys" "\<not> tlv_used e" "tlv_slot tag es 0 None = Some (0 + length xs)"
      then have "length (filter tlv_used es) < length es"
        by (auto simp: tlv_place_def intro!: le_less_trans [OF add_mono [OF length_filter_le length_filter_le]])
      then show ?thesis using stored [OF a(1)] a(3) True tags_count [OF d] len by auto
    next
      assume a: "list_all tlv_used es" "tlv_slot tag es 0 None = None"
      then have "filter tlv_used es = es" by (simp add: list_all_iff)
      then have "\<not> card (dom (tlv_view es)) < 16" using tags_count [OF d] len by simp
      moreover have "tag \<notin> dom (tlv_view es)" using out dom_view [of es] by simp
      ultimately show ?thesis using a(2) by (simp add: app_btstack_tlv_store_def)
    qed
  qed
qed

text \<open>The entries are a table addressed by tags.\<close>

definition put_tag :: "app_btstack_tlv_entry list \<Rightarrow> u32 \<Rightarrow> u8 list \<Rightarrow> app_btstack_tlv_entry list \<times> bool" where
  "put_tag es tag data = app_btstack_tlv_store es tag (Some data) (length data)"

lemma put_tag_spec:
  "tlv_ok es \<Longrightarrow> snd (put_tag es tag data) = (length data \<le> 128 \<and> (tag \<in> dom (tlv_view es) \<or> card (dom (tlv_view es)) < 16))"
  using store_ok [OF _ order.refl, of es data tag] unfolding put_tag_def by (auto split: if_splits)

interpretation key_store: keyed_store put_tag tlv_view Some tlv_ok
proof
  fix s k v
  assume ok: "tlv_ok s"
  show "tlv_ok (fst (put_tag s k v))"
    "tlv_view (fst (put_tag s k v)) = (if snd (put_tag s k v) then (tlv_view s)(k := Some v) else tlv_view s)"
    using store_ok [OF ok order.refl, of v k] ok by (auto simp: put_tag_def split: if_splits)
qed

subsection \<open>Refinement of a bounded map\<close>

datatype tlv_call =
  Get_Tag u32 "nat option"
| Store_Tag u32 "u8 list"
| Delete_Tag u32

datatype tlv_answer = Got "u8 list" nat | Stored bool | Deleted

fun tlv_step :: "app_btstack_tlv_entry list \<Rightarrow> tlv_call \<Rightarrow> app_btstack_tlv_entry list \<times> tlv_answer" where
  "tlv_step es (Get_Tag t n) = (case app_btstack_tlv_get es t n of (bytes, count) \<Rightarrow> (es, Got bytes count))"
| "tlv_step es (Store_Tag t data) = (case put_tag es t data of (es', ok) \<Rightarrow> (es', Stored ok))"
| "tlv_step es (Delete_Tag t) = (app_btstack_tlv_delete es t, Deleted)"

text \<open>A map of at most 16 tags to at most 128 bytes each; an absent tag reads as 0 bytes.\<close>

fun bounded_map_step :: "(u32 \<Rightarrow> u8 list option) \<Rightarrow> tlv_call \<Rightarrow> (u32 \<Rightarrow> u8 list option) \<times> tlv_answer" where
  "bounded_map_step m (Get_Tag t n) =
     (m, case m t of
           None \<Rightarrow> Got [] 0
         | Some v \<Rightarrow> Got (case n of None \<Rightarrow> [] | Some n \<Rightarrow> take n v) (length v))"
| "bounded_map_step m (Store_Tag t data) =
     (if length data \<le> 128 \<and> (t \<in> dom m \<or> card (dom m) < 16) then (m(t \<mapsto> data), Stored True) else (m, Stored False))"
| "bounded_map_step m (Delete_Tag t) = (m(t := None), Deleted)"

fun answers_of :: "('s \<Rightarrow> tlv_call \<Rightarrow> 's \<times> tlv_answer) \<Rightarrow> tlv_call list \<Rightarrow> 's \<Rightarrow> tlv_answer list" where
  "answers_of step [] s = []"
| "answers_of step (c # cs) s = (case step s c of (s', a) \<Rightarrow> a # answers_of step cs s')"

lemma tlv_step_refines:
  "tlv_ok es \<Longrightarrow> tlv_ok (fst (tlv_step es c)) \<and>
   bounded_map_step (tlv_view es) c = (tlv_view (fst (tlv_step es c)), snd (tlv_step es c))"
proof (cases c)
  case (Get_Tag t n)
  assume ok: "tlv_ok es"
  then have "list_all tlv_entry_ok es" by (simp add: tlv_ok_def)
  then show ?thesis using ok Get_Tag by (simp add: get_view split: option.split)
next
  case (Store_Tag t data)
  assume ok: "tlv_ok es"
  show ?thesis
    using key_store.put_inv [OF ok] key_store.put_look [OF ok] put_tag_spec [OF ok, of t data] Store_Tag
    by (cases "snd (put_tag es t data)") (auto simp: case_prod_beta)
qed (simp add: delete_ok)

lemma tlv_init_ok: "tlv_ok app_btstack_tlv_entries" "tlv_view app_btstack_tlv_entries = Map.empty"
  by (simp_all add: tlv_ok_def tlv_tags_def app_btstack_tlv_entries_def APP_BTSTACK_TLV_ENTRY_COUNT_def no_tlv_entry_def
      tlv_entry_ok_def APP_BTSTACK_TLV_VALUE_SIZE_def tlv_view_def entry_of_def fun_eq_iff list_all_iff find_None_iff)

lemma answers_refine:
  "tlv_ok es \<Longrightarrow> answers_of tlv_step cs es = answers_of bounded_map_step cs (tlv_view es)"
proof (induction cs arbitrary: es)
  case (Cons c cs)
  from tlv_step_refines [OF Cons.prems, of c] show ?case
    using Cons.IH [of "fst (tlv_step es c)"] by (simp add: case_prod_beta)
qed simp

text \<open>
  C34: after \<^verbatim>\<open>btstack_cyw43_init\<close>, whatever calls BTstack makes, the store answers like a map that holds
  16 tags of 128 bytes: what was stored last is read back, a deleted tag is gone and makes room again.
\<close>

theorem tlv_refines_map:
  "answers_of tlv_step calls app_btstack_tlv_entries = answers_of bounded_map_step calls Map.empty"
  using answers_refine [OF tlv_init_ok(1)] unfolding tlv_init_ok(2) .

lemma tlv_example:
  "answers_of tlv_step [Store_Tag 7 [1, 2, 3], Get_Tag 7 (Some 2), Delete_Tag 7, Get_Tag 7 None] app_btstack_tlv_entries
   = [Stored True, Got [1, 2] 3, Deleted, Got [] 0]"
  unfolding answers_refine [OF tlv_init_ok(1)] tlv_init_ok(2) by simp

end
