(* ===== verification/Usb_Strings.thy ===== *)
theory Usb_Strings
  imports Base
begin

text \<open>
  The string descriptors of the USB device (\<^verbatim>\<open>usb_descriptors.c\<close>): the table, the serial number that is
  read on first use, and the buffer of 40 units the answer is built in.
\<close>

definition TUSB_DESC_STRING :: nat where "TUSB_DESC_STRING = 3"
definition USB_STR_LANGID :: nat where "USB_STR_LANGID = 0"
definition USB_STR_SERIAL :: nat where "USB_STR_SERIAL = 3"

record usb_strings =
  usb_serial_str :: string
  desc_str :: "u16 list"

definition usb_strings_init :: usb_strings where
  "usb_strings_init = \<lparr>usb_serial_str = '''', desc_str = replicate 40 0\<rparr>"

text \<open>The entries from the manufacturer on; entry 0, the language, has no text.\<close>

definition string_desc_arr :: "usb_strings \<Rightarrow> string list" where
  "string_desc_arr u = ['''', ''Raspberry Pi'', ''BLEBridge Storage'', usb_serial_str u, ''Flash Storage'']"

text \<open>
  \<open>board_id\<close> is what \<^verbatim>\<open>pico_get_unique_board_id_string\<close> writes.  The answer is the buffer, \<open>None\<close> for the null
  pointer; the units of the language are the bytes \<open>09 04\<close> in the order of the memory.
\<close>

definition tud_descriptor_string_cb :: "string \<Rightarrow> usb_strings \<Rightarrow> nat \<Rightarrow> usb_strings \<times> u16 list option" where
  "tud_descriptor_string_cb board_id u index =
     (let u = (if usb_serial_str u = '''' then u\<lparr>usb_serial_str := board_id\<rparr> else u);
          answer = (\<lambda>units.
            let buffer = units @ drop (length units) (tl (desc_str u));
                first = word_of_nat (TUSB_DESC_STRING * 256 + (2 * length units + 2))
            in (u\<lparr>desc_str := first # buffer\<rparr>, Some (first # buffer)))
      in if index = USB_STR_LANGID then answer [0x0409]
         else if index \<ge> length (string_desc_arr u) then (u, None)
         else (let str = string_desc_arr u ! index;
                   chr_count = length str;
                   max_count = length (desc_str u) - 1;
                   chr_count = (if chr_count > max_count then max_count else chr_count)
               in answer (map (\<lambda>c. word_of_nat (of_char c)) (take chr_count str))))"

text \<open>The host reads the length from the first byte and as many bytes from the buffer.\<close>

definition host_reads :: "u16 list \<Rightarrow> u16 list" where
  "host_reads buffer = take (unat (hd buffer) mod 256 div 2 - 1) (tl buffer)"

lemma string_desc_length:
  "length board_id \<le> 39 \<Longrightarrow> length (usb_serial_str u) \<le> 39 \<Longrightarrow> index < 5 \<Longrightarrow>
   length (string_desc_arr (if usb_serial_str u = '''' then u\<lparr>usb_serial_str := board_id\<rparr> else u) ! index) \<le> 39"
  by (auto simp: string_desc_arr_def less_Suc_eq numeral_eq_Suc)

text \<open>The buffer keeps its 40 units, and the host reads the text of the entry it asked for.\<close>

lemma usb_string_read:
  assumes "length (desc_str u) = 40" "length board_id \<le> 39" "length (usb_serial_str u) \<le> 39" "0 < index" "index < 5"
    and "tud_descriptor_string_cb board_id u index = (u', answer)"
  shows "length (desc_str u') = 40"
    and "\<exists>buffer. answer = Some buffer \<and> host_reads buffer = map (\<lambda>c. word_of_nat (of_char c)) (string_desc_arr u' ! index)"
proof -
  obtain v where v: "(if usb_serial_str u = '''' then u\<lparr>usb_serial_str := board_id\<rparr> else u) = v" by blast
  let ?str = "string_desc_arr v ! index"
  have d: "length (desc_str v) = 40" using v assms(1) by auto
  have l: "length ?str \<le> 39" using string_desc_length [OF assms(2,3,5)] unfolding v .
  have n: "\<not> index = USB_STR_LANGID" "\<not> index \<ge> length (string_desc_arr v)" "\<not> length ?str > length (desc_str v) - 1"
    using assms(4,5) l unfolding d by (simp_all add: USB_STR_LANGID_def string_desc_arr_def)
  let ?units = "map (\<lambda>c. word_of_nat (of_char c)) ?str :: u16 list"
  let ?first = "word_of_nat (TUSB_DESC_STRING * 256 + (2 * length ?units + 2)) :: u16"
  let ?buffer = "?first # ?units @ drop (length ?units) (tl (desc_str v))"
  have eq: "u' = v\<lparr>desc_str := ?buffer\<rparr>" "answer = Some ?buffer"
    using assms(6) unfolding tud_descriptor_string_cb_def Let_def v if_not_P [OF n(1)] if_not_P [OF n(2)] if_not_P [OF n(3)]
      take_all [OF order.refl] by simp_all
  show "length (desc_str u') = 40" unfolding eq(1) using d l by simp
  have "unat ?first = 768 + (2 * length ?str + 2)"
    using l by (simp add: unat_of_nat TUSB_DESC_STRING_def del: of_nat_add of_nat_mult of_nat_numeral)
  moreover have "(770 + 2 * n) mod 256 div 2 - 1 = n" if "n \<le> 39" for n :: nat
  proof -
    have "(770 + 2 * n) mod 256 = (2 * n + 2 + 256 * 3) mod 256" by simp
    also have "\<dots> = 2 * n + 2" unfolding mod_mult_self2 using that by simp
    finally show ?thesis by simp
  qed
  ultimately have "unat (hd ?buffer) mod 256 div 2 - 1 = length ?units" using l unfolding list.sel length_map by simp
  then have "host_reads ?buffer = ?units" unfolding host_reads_def by simp
  moreover have "string_desc_arr u' ! index = ?str" unfolding eq(1) by (simp add: string_desc_arr_def)
  ultimately show "\<exists>buffer. answer = Some buffer \<and> host_reads buffer = map (\<lambda>c. word_of_nat (of_char c)) (string_desc_arr u' ! index)"
    using eq(2) by simp
qed

lemma usb_string_unknown: "5 \<le> index \<Longrightarrow> snd (tud_descriptor_string_cb board_id u index) = None"
  by (simp add: tud_descriptor_string_cb_def USB_STR_LANGID_def string_desc_arr_def Let_def)

end
