(* ===== verification/Storage_Backend.thy ===== *)
theory Storage_Backend
  imports Flash_Device Status_Led
begin

text \<open>
  \<^verbatim>\<open>storage_backend.c\<close> (the writable flash partition, rewritten sector by sector), its two clients
  \<^verbatim>\<open>fatfs_diskio.c\<close> and \<^verbatim>\<open>usb_msc_storage.c\<close>, and the interface between them: a store of bytes
  read and written at an offset.
\<close>

subsection \<open>The backend\<close>

definition STORAGE_BLOCK_SIZE :: nat where "STORAGE_BLOCK_SIZE = 512"

text \<open>The linker symbols of \<^verbatim>\<open>memmap_storage.ld\<close>.\<close>

definition storage_start :: nat where "storage_start = 0x101e0000"
definition storage_end :: nat where "storage_end = 0x101e0000 + 128 * 1024"

definition storage_backend_program_sector :: "nat \<Rightarrow> u8 list \<Rightarrow> flash \<Rightarrow> flash" where
  "storage_backend_program_sector flash_offset sector_buffer f = rewrite_sector flash_offset sector_buffer f"

definition storage_backend_offset_bytes :: nat where
  "storage_backend_offset_bytes = sub32 storage_start XIP_BASE"

definition storage_backend_size_bytes :: nat where
  "storage_backend_size_bytes = sub32 storage_end storage_start"

definition storage_backend_block_count :: nat where
  "storage_backend_block_count = storage_backend_size_bytes div STORAGE_BLOCK_SIZE"

definition storage_backend_bounds_check :: "nat \<Rightarrow> nat \<Rightarrow> bool" where
  "storage_backend_bounds_check byte_offset sz =
     (let total_size = storage_backend_size_bytes
      in if byte_offset > total_size then False
         else if sz > sub32 total_size byte_offset then False
         else True)"

definition storage_backend_read :: "flash \<Rightarrow> nat \<Rightarrow> nat \<Rightarrow> u8 list option" where
  "storage_backend_read f byte_offset sz =
     (if \<not> storage_backend_bounds_check byte_offset sz then None
      else Some (read_flash f (storage_backend_offset_bytes + byte_offset) sz))"

function storage_backend_write_loop :: "flash \<Rightarrow> nat \<Rightarrow> u8 list \<Rightarrow> flash \<times> bool" where
  "storage_backend_write_loop f byte_offset data =
     (if data = [] then (f, True) else
      let sector_index = byte_offset div FLASH_SECTOR_SIZE;
          sector_offset = byte_offset mod FLASH_SECTOR_SIZE;
          sector_flash_offset = add32 storage_backend_offset_bytes (mul32 sector_index FLASH_SECTOR_SIZE);
          chunk_size = min (FLASH_SECTOR_SIZE - sector_offset) (length data);
          sector_buffer = splice (read_flash f sector_flash_offset FLASH_SECTOR_SIZE) sector_offset
                            (take chunk_size data)
      in case flash_safe_execute (storage_backend_program_sector sector_flash_offset sector_buffer) f of
           (f', False) \<Rightarrow> (f', False)
         | (f', True) \<Rightarrow>
             storage_backend_write_loop f' (add32 byte_offset chunk_size) (drop chunk_size data))"
  by pat_completeness auto
termination
  by (relation "measure (\<lambda>(f, byte_offset, data). length data)") (auto simp: FLASH_SECTOR_SIZE_def)

declare storage_backend_write_loop.simps [simp del]

definition storage_backend_write :: "flash \<Rightarrow> nat \<Rightarrow> u8 list \<Rightarrow> flash \<times> bool" where
  "storage_backend_write f byte_offset data =
     (if \<not> storage_backend_bounds_check byte_offset (length data) then (f, False)
      else storage_backend_write_loop f byte_offset data)"

subsection \<open>The partition as an array of bytes\<close>

definition storage_view :: "flash \<Rightarrow> u8 list" where
  "storage_view f = read_flash f storage_backend_offset_bytes storage_backend_size_bytes"

lemma storage_consts [simp]:
  "storage_backend_offset_bytes = 0x1e0000" "storage_backend_size_bytes = 131072"
  by (simp_all add: storage_backend_offset_bytes_def storage_backend_size_bytes_def storage_start_def
      storage_end_def XIP_BASE_def sub32_def)

lemma bounds_check_iff [simp]:
  "storage_backend_bounds_check off n \<longleftrightarrow> off + n \<le> 131072"
  by (auto simp: storage_backend_bounds_check_def sub32_id)

lemma length_storage_view [simp]: "length (storage_view f) = 131072"
  by (simp add: storage_view_def)

lemma nth_storage_view [simp]: "i < 131072 \<Longrightarrow> storage_view f ! i = mem f (0x1e0000 + i)"
  by (simp add: storage_view_def)

definition in_storage :: "nat \<Rightarrow> bool" where
  "in_storage a = (0x1e0000 \<le> a \<and> a < 0x1e0000 + 131072)"

text \<open>
  One iteration of the write loop: the chunk lands in the partition and nothing else changes.
\<close>

lemma storage_chunk:
  assumes "flash_laws f" "off + length data \<le> 131072" "data \<noteq> []"
    and "chunk = min (4096 - off mod 4096) (length data)"
    and "sfo = 0x1e0000 + off div 4096 * 4096"
    and "g = storage_backend_program_sector sfo
           (splice (read_flash f sfo 4096) (off mod 4096) (take chunk data)) (f\<lparr>exec_calls := c\<rparr>)"
  shows "mem g a = (if 0x1e0000 + off \<le> a \<and> a < 0x1e0000 + off + chunk
                    then data ! (a - 0x1e0000 - off) else mem f a)"
    and "same_driver f g"
proof -
  let ?buf = "splice (read_flash f sfo 4096) (off mod 4096) (take chunk data)"
  have len: "off mod 4096 + length (take chunk data) \<le> 4096" using assms(4) by auto
  then have lb: "length ?buf = 4096" by simp
  have al: "sfo mod 4096 = 0" using assms(5) by simp
  have so: "sfo + off mod 4096 = 0x1e0000 + off" using assms(5) by simp
  have g: "mem g a = (if sfo \<le> a \<and> a < sfo + 4096 then ?buf ! (a - sfo) else mem f a)"
    using mem_rewrite_sector [of "f\<lparr>exec_calls := c\<rparr>" sfo ?buf a] al lb assms(1,6)
    by (simp add: storage_backend_program_sector_def)
  have b: "?buf ! (a - sfo) = (if 0x1e0000 + off \<le> a \<and> a < 0x1e0000 + off + chunk
       then data ! (a - 0x1e0000 - off) else mem f a)" if "sfo \<le> a" "a < sfo + 4096"
  proof -
    have "length (take chunk data) = chunk" using assms(4) by simp
    moreover have "a - sfo - off mod 4096 = a - 0x1e0000 - off" using so by arith
    ultimately show ?thesis using that so
      nth_splice [of "off mod 4096" "take chunk data" "read_flash f sfo 4096" "a - sfo"] len
      by auto
  qed
  have "0x1e0000 + off + chunk \<le> sfo + 4096" using assms(4) so by simp
  then show "mem g a = (if 0x1e0000 + off \<le> a \<and> a < 0x1e0000 + off + chunk
                    then data ! (a - 0x1e0000 - off) else mem f a)"
    using g b so by auto
  show "same_driver f g"
    unfolding assms(6) storage_backend_program_sector_def
    by (rule same_driver_trans [OF same_driver_updates(3) same_driver_rewrite_sector])
qed

text \<open>
  The whole loop, whether or not every call of the driver succeeds: a prefix of the data lands at
  the offset, all of it when the loop reports success.
\<close>

lemma storage_backend_write_loop_spec:
  assumes "flash_laws f" "off + length data \<le> 131072"
  shows "\<exists>k \<le> length data.
      (\<forall>a. mem (fst (storage_backend_write_loop f off data)) a =
             (if 0x1e0000 + off \<le> a \<and> a < 0x1e0000 + off + k then data ! (a - 0x1e0000 - off) else mem f a)) \<and>
      (snd (storage_backend_write_loop f off data) \<longrightarrow> k = length data) \<and>
      same_driver f (fst (storage_backend_write_loop f off data))"
  using assms
proof (induction "length data" arbitrary: f off data rule: less_induct)
  case less
  show ?case
  proof (cases "data = []")
    case True
    then show ?thesis by (auto simp: storage_backend_write_loop.simps intro!: exI [of _ 0])
  next
    case False
    define chunk where "chunk = min (4096 - off mod 4096) (length data)"
    define sfo where "sfo = 0x1e0000 + off div 4096 * 4096"
    define buf where "buf = splice (read_flash f sfo 4096) (off mod 4096) (take chunk data)"
    define g where "g = storage_backend_program_sector sfo buf (f\<lparr>exec_calls := Suc (exec_calls f)\<rparr>)"
    have c: "0 < chunk" "chunk \<le> length data" using False by (auto simp: chunk_def)
    note g_mem = storage_chunk(1) [OF less.prems False chunk_def sfo_def g_def [unfolded buf_def]]
    note g_drv = storage_chunk(2) [OF less.prems False chunk_def sfo_def g_def [unfolded buf_def]]
    have sfo32: "add32 0x1e0000 (mul32 (off div 4096) 4096) = sfo" "add32 off chunk = off + chunk"
      using less.prems c by (simp_all add: arith32 sfo_def)
    have step: "storage_backend_write_loop f off data =
        (if exec_ok f (exec_calls f) then storage_backend_write_loop g (off + chunk) (drop chunk data)
         else (f\<lparr>exec_calls := Suc (exec_calls f)\<rparr>, False))"
      using False sfo32
      by (subst storage_backend_write_loop.simps)
        (simp add: flash_safe_execute_def Let_def FLASH_SECTOR_SIZE_def g_def buf_def flip: chunk_def)
    show ?thesis
    proof (cases "exec_ok f (exec_calls f)")
      case False
      then show ?thesis by (auto simp: step intro!: exI [of _ 0])
    next
      case True
      have "flash_laws g" using g_drv less.prems(1) flash_laws_same_driver by blast
      moreover have "off + chunk + length (drop chunk data) \<le> 131072" using c less.prems(2) by simp
      moreover have shorter: "length (drop chunk data) < length data" using c by simp
      ultimately obtain k where k: "k \<le> length (drop chunk data)"
        "\<And>a. mem (fst (storage_backend_write_loop g (off + chunk) (drop chunk data))) a =
          (if 0x1e0000 + (off + chunk) \<le> a \<and> a < 0x1e0000 + (off + chunk) + k
           then drop chunk data ! (a - 0x1e0000 - (off + chunk)) else mem g a)"
        "snd (storage_backend_write_loop g (off + chunk) (drop chunk data)) \<longrightarrow> k = length (drop chunk data)"
        "same_driver g (fst (storage_backend_write_loop g (off + chunk) (drop chunk data)))"
        using less.hyps [OF shorter] by blast
      show ?thesis
        using k c same_driver_trans [OF g_drv k(4)] True
        by (intro exI [of _ "chunk + k"]) (auto simp: step g_mem)
    qed
  qed
qed

lemma storage_backend_write_spec:
  assumes "flash_laws f" "off + length data \<le> 131072"
    "storage_backend_write f off data = (f', ok)"
  obtains k where "k \<le> length data" "ok \<longrightarrow> k = length data" "same_driver f f'"
    "storage_view f' = splice (storage_view f) off (take k data)"
    "\<And>a. \<not> in_storage a \<Longrightarrow> mem f' a = mem f a"
proof -
  have "storage_backend_write_loop f off data = (f', ok)"
    using assms(2,3) by (simp add: storage_backend_write_def)
  then obtain k where k: "k \<le> length data" "ok \<longrightarrow> k = length data" "same_driver f f'"
    "\<And>a. mem f' a = (if 0x1e0000 + off \<le> a \<and> a < 0x1e0000 + off + k
       then data ! (a - 0x1e0000 - off) else mem f a)"
    using storage_backend_write_loop_spec [OF assms(1,2)] by auto
  have "storage_view f' ! i = splice (storage_view f) off (take k data) ! i" if "i < 131072" for i
    using k assms(2) that by (auto simp: nth_splice)
  then have "storage_view f' = splice (storage_view f) off (take k data)"
    using k(1) assms(2) by (simp add: list_eq_iff_nth_eq)
  moreover have "mem f' a = mem f a" if "\<not> in_storage a" for a
    using that k assms(2) by (auto simp: in_storage_def)
  ultimately show ?thesis using that k by blast
qed

lemma storage_backend_write_refused:
  "131072 < off + length data \<Longrightarrow> storage_backend_write f off data = (f, False)"
  by (simp add: storage_backend_write_def)

lemma storage_backend_read_spec:
  "storage_backend_read f off n =
     (if off + n \<le> 131072 then Some (take n (drop off (storage_view f))) else None)"
  by (auto simp: storage_backend_read_def list_eq_iff_nth_eq add.assoc)

subsection \<open>The interface: a store of bytes\<close>

text \<open>
  What the block-device clients rely on: reading returns the bytes stored in range and refuses
  anything else; a write that succeeds replaces its range, one that fails replaces a prefix of it.
\<close>

locale byte_store =
  fixes rd :: "'s \<Rightarrow> nat \<Rightarrow> nat \<Rightarrow> u8 list option"
    and wr :: "'s \<Rightarrow> nat \<Rightarrow> u8 list \<Rightarrow> 's \<times> bool"
    and contents :: "'s \<Rightarrow> u8 list"
    and inv :: "'s \<Rightarrow> bool"
  assumes rd: "inv s \<Longrightarrow> rd s off n =
      (if off + n \<le> length (contents s) then Some (take n (drop off (contents s))) else None)"
    and wr_ok: "inv s \<Longrightarrow> wr s off ds = (s', True) \<Longrightarrow>
      off + length ds \<le> length (contents s) \<and> contents s' = splice (contents s) off ds"
    and wr_fail: "inv s \<Longrightarrow> wr s off ds = (s', False) \<Longrightarrow>
      contents s' = contents s \<or>
      (off + length ds \<le> length (contents s) \<and>
       (\<exists>k \<le> length ds. contents s' = splice (contents s) off (take k ds)))"
    and wr_inv: "inv s \<Longrightarrow> wr s off ds = (s', ok) \<Longrightarrow> inv s'"
begin

lemma wr_length: "inv s \<Longrightarrow> wr s off ds = (s', ok) \<Longrightarrow> length (contents s') = length (contents s)"
  using wr_ok [of s off ds s'] wr_fail [of s off ds s'] by (cases ok) auto

lemma read_written:
  assumes "inv s" "wr s off ds = (s', True)"
  shows "rd s' off (length ds) = Some ds"
proof -
  have "contents s' = splice (contents s) off ds" and le: "off + length ds \<le> length (contents s)"
    using wr_ok assms by auto
  then have "take (length ds) (drop off (contents s')) = ds" by (simp add: splice_def)
  moreover have "length (contents s') = length (contents s)" by (rule wr_length [OF assms])
  ultimately show ?thesis using rd [of s' off "length ds"] wr_inv [OF assms] le by simp
qed

lemma contents_outside:
  assumes "inv s" "wr s off ds = (s', ok)" "i < off \<or> off + length ds \<le> i" "i < length (contents s)"
  shows "contents s' ! i = contents s ! i"
proof (cases ok)
  case True
  with assms show ?thesis using wr_ok [of s off ds s'] by (auto simp: nth_splice)
next
  case False
  with assms wr_fail [of s off ds s'] show ?thesis by (auto simp: nth_splice)
qed

lemma read_disjoint:
  assumes "inv s" "wr s off ds = (s', ok)" "off' + n \<le> off \<or> off + length ds \<le> off'"
  shows "rd s' off' n = rd s off' n"
proof -
  have "take n (drop off' (contents s')) = take n (drop off' (contents s))"
    if "off' + n \<le> length (contents s)"
    using that contents_outside [OF assms(1,2)] wr_length [OF assms(1,2)] assms(3)
    by (auto simp: list_eq_iff_nth_eq)
  then show ?thesis
    using rd [of s off' n] rd [of s' off' n] wr_inv [OF assms(1,2)] wr_length [OF assms(1,2)] assms(1)
    by simp
qed

end

interpretation sb: byte_store storage_backend_read storage_backend_write storage_view flash_laws
proof unfold_locales
  fix s :: flash and off n :: nat
  assume "flash_laws s"
  show "storage_backend_read s off n =
    (if off + n \<le> length (storage_view s) then Some (take n (drop off (storage_view s))) else None)"
    by (simp add: storage_backend_read_spec)
next
  fix s off ds s'
  assume *: "flash_laws s" "storage_backend_write s off ds = (s', True)"
  then have le: "off + length ds \<le> 131072"
    using storage_backend_write_refused [of off ds s] by (cases "131072 < off + length ds") auto
  obtain k where "True \<longrightarrow> k = length ds" "storage_view s' = splice (storage_view s) off (take k ds)"
    using storage_backend_write_spec [OF *(1) le *(2)] by metis
  with le show "off + length ds \<le> length (storage_view s) \<and> storage_view s' = splice (storage_view s) off ds"
    by simp
next
  fix s off ds s'
  assume *: "flash_laws s" "storage_backend_write s off ds = (s', False)"
  show "storage_view s' = storage_view s \<or>
    (off + length ds \<le> length (storage_view s) \<and>
     (\<exists>k \<le> length ds. storage_view s' = splice (storage_view s) off (take k ds)))"
  proof (cases "off + length ds \<le> 131072")
    case True
    then show ?thesis using storage_backend_write_spec [OF *(1) True *(2)] by auto
  next
    case False
    then show ?thesis using * storage_backend_write_refused [of off ds s] by simp
  qed
next
  fix s off ds s' ok
  assume *: "flash_laws s" "storage_backend_write s off ds = (s', ok)"
  show "flash_laws s'"
  proof (cases "off + length ds \<le> 131072")
    case True
    then show ?thesis
      using storage_backend_write_spec [OF *(1) True *(2)] flash_laws_same_driver *(1) by metis
  next
    case False
    then show ?thesis using * storage_backend_write_refused [of off ds s] by simp
  qed
qed

end
