(* ===== verification/Block_Devices.thy ===== *)
theory Block_Devices
  imports Storage_Backend
begin

text \<open>
  The two clients of the storage partition: the FatFs disk driver (\<^verbatim>\<open>fatfs_diskio.c\<close>) and the USB
  mass-storage callbacks (\<^verbatim>\<open>usb_msc_storage.c\<close>).  Sector and block numbers are turned into byte
  offsets in 32-bit arithmetic, which wraps.  Their theorems rest on the laws of the byte store.
\<close>

subsection \<open>The FatFs disk driver\<close>

datatype DRESULT = RES_OK | RES_ERROR | RES_WRPRT | RES_NOTRDY | RES_PARERR

datatype ioctl_cmd = CTRL_SYNC | GET_SECTOR_COUNT | GET_SECTOR_SIZE | GET_BLOCK_SIZE | OTHER_CMD nat

definition STA_NOINIT :: nat where "STA_NOINIT = 1"

definition disk_initialize :: "nat \<Rightarrow> nat" where
  "disk_initialize pdrv = (if pdrv = 0 then 0 else STA_NOINIT)"

definition disk_status :: "nat \<Rightarrow> nat" where
  "disk_status pdrv = (if pdrv = 0 then 0 else STA_NOINIT)"

definition disk_read :: "flash \<Rightarrow> nat \<Rightarrow> nat \<Rightarrow> nat \<Rightarrow> DRESULT \<times> u8 list option" where
  "disk_read f pdrv sector count =
     (let offset = mul32 sector STORAGE_BLOCK_SIZE; sz = mul32 count STORAGE_BLOCK_SIZE
      in if pdrv \<noteq> 0 then (RES_PARERR, None)
         else case storage_backend_read f offset sz of
                Some buff \<Rightarrow> (RES_OK, Some buff)
              | None \<Rightarrow> (RES_ERROR, None))"

definition disk_write :: "flash \<Rightarrow> nat \<Rightarrow> u8 list \<Rightarrow> nat \<Rightarrow> nat \<Rightarrow> flash \<times> DRESULT" where
  "disk_write f pdrv buff sector count =
     (let offset = mul32 sector STORAGE_BLOCK_SIZE; sz = mul32 count STORAGE_BLOCK_SIZE
      in if pdrv \<noteq> 0 then (f, RES_PARERR)
         else case storage_backend_write f offset (take sz buff) of
                (f', True) \<Rightarrow> (f', RES_OK)
              | (f', False) \<Rightarrow> (f', RES_ERROR))"

fun disk_ioctl :: "nat \<Rightarrow> ioctl_cmd \<Rightarrow> DRESULT \<times> nat option" where
  "disk_ioctl pdrv cmd =
     (if pdrv \<noteq> 0 then (RES_PARERR, None)
      else case cmd of
             CTRL_SYNC \<Rightarrow> (RES_OK, None)
           | GET_SECTOR_COUNT \<Rightarrow> (RES_OK, Some storage_backend_block_count)
           | GET_SECTOR_SIZE \<Rightarrow> (RES_OK, Some STORAGE_BLOCK_SIZE)
           | GET_BLOCK_SIZE \<Rightarrow> (RES_OK, Some (FLASH_SECTOR_SIZE div STORAGE_BLOCK_SIZE))
           | _ \<Rightarrow> (RES_PARERR, None))"

subsection \<open>The USB mass-storage callbacks\<close>

text \<open>
  The state the callbacks touch: the flash, the status LED, the sense data they report to TinyUSB.
\<close>

record usb_msc =
  msc_flash :: flash
  msc_led :: status_led
  msc_sense :: "(nat \<times> nat \<times> nat) option"

definition SCSI_SENSE_HARDWARE_ERROR :: nat where "SCSI_SENSE_HARDWARE_ERROR = 4"
definition SCSI_SENSE_ILLEGAL_REQUEST :: nat where "SCSI_SENSE_ILLEGAL_REQUEST = 5"

definition int32 :: "nat \<Rightarrow> int" where
  "int32 n = (let m = n mod 2 ^ 32 in if m < 2 ^ 31 then int m else int m - 2 ^ 32)"

definition tud_msc_capacity_cb :: "nat \<times> nat" where
  "tud_msc_capacity_cb = (storage_backend_block_count, STORAGE_BLOCK_SIZE)"

definition tud_msc_read10_cb :: "usb_msc \<Rightarrow> nat \<Rightarrow> nat \<Rightarrow> nat \<Rightarrow> usb_msc \<times> u8 list option \<times> int" where
  "tud_msc_read10_cb u lba offset bufsize =
     (let byte_offset = add32 (mul32 lba STORAGE_BLOCK_SIZE) offset;
          u1 = u\<lparr>msc_led := status_led_set True (msc_led u)\<rparr>;
          ok = storage_backend_read (msc_flash u1) byte_offset bufsize;
          u2 = u1\<lparr>msc_led := status_led_set False (msc_led u1)\<rparr>
      in case ok of
           None \<Rightarrow> (u2\<lparr>msc_sense := Some (SCSI_SENSE_ILLEGAL_REQUEST, 0x21, 0x00)\<rparr>, None, -1)
         | Some buffer \<Rightarrow> (u2, Some buffer, int32 bufsize))"

definition tud_msc_write10_cb :: "usb_msc \<Rightarrow> nat \<Rightarrow> nat \<Rightarrow> u8 list \<Rightarrow> usb_msc \<times> int" where
  "tud_msc_write10_cb u lba offset buffer =
     (let bufsize = length buffer;
          byte_offset = add32 (mul32 lba STORAGE_BLOCK_SIZE) offset;
          u1 = u\<lparr>msc_led := status_led_set True (msc_led u)\<rparr>
      in case storage_backend_write (msc_flash u1) byte_offset buffer of
           (f', ok) \<Rightarrow>
             let u2 = u1\<lparr>msc_flash := f', msc_led := status_led_set False (msc_led u1)\<rparr>
             in if \<not> ok
                then (u2\<lparr>msc_sense := Some (SCSI_SENSE_HARDWARE_ERROR, 0x44, 0x00)\<rparr>, -1)
                else (u2, int32 bufsize))"

definition tud_msc_get_maxlun_cb :: u8 where
  "tud_msc_get_maxlun_cb = 0"

text \<open>The three fields of the inquiry, of 8, 16 and 4 characters, as the stack hands them over and gets them back.\<close>

definition tud_msc_inquiry_cb :: "string \<times> string \<times> string \<Rightarrow> string \<times> string \<times> string" where
  "tud_msc_inquiry_cb buffers =
     (case buffers of (vendor_id, product_id, product_rev) \<Rightarrow>
        let vid = ''BLEBrdge''; pid = ''Flash Storage''; rev = ''1.0''
        in (vid @ drop (length vid) vendor_id, pid @ drop (length pid) product_id, rev @ drop (length rev) product_rev))"

definition tud_msc_test_unit_ready_cb :: bool where "tud_msc_test_unit_ready_cb = True"

definition tud_msc_start_stop_cb :: "nat \<Rightarrow> bool \<Rightarrow> bool \<Rightarrow> bool" where
  "tud_msc_start_stop_cb power_condition start load_eject = True"

definition tud_msc_is_writable_cb :: bool where "tud_msc_is_writable_cb = True"

definition tud_msc_scsi_cb :: "usb_msc \<Rightarrow> u8 list \<Rightarrow> usb_msc \<times> int" where
  "tud_msc_scsi_cb u scsi_cmd = (u\<lparr>msc_sense := Some (SCSI_SENSE_ILLEGAL_REQUEST, 0x20, 0x00)\<rparr>, -1)"

subsection \<open>Lemmas\<close>

lemma int32_small: "n < 2 ^ 31 \<Longrightarrow> int32 n = int n"
  by (simp add: int32_def)

lemma block_count: "storage_backend_block_count = 256"
  by (simp add: storage_backend_block_count_def STORAGE_BLOCK_SIZE_def)

lemma disk_write_cases:
  assumes "disk_write f 0 buff sector count = (f', r)"
  shows "storage_backend_write f (mul32 sector 512) (take (mul32 count 512) buff) = (f', r = RES_OK)
    \<and> (r = RES_OK \<or> r = RES_ERROR)"
proof (cases "storage_backend_write f (mul32 sector 512) (take (mul32 count 512) buff)")
  case (Pair g ok)
  have "disk_write f 0 buff sector count = (g, if ok then RES_OK else RES_ERROR)"
    unfolding disk_write_def Let_def STORAGE_BLOCK_SIZE_def Pair by (cases ok) simp_all
  with assms have *: "f' = g" "r = (if ok then RES_OK else RES_ERROR)" by auto
  show ?thesis unfolding Pair * by simp
qed

lemma tud_msc_write10_eq:
  assumes "storage_backend_write (msc_flash u) (add32 (mul32 lba 512) offset) buffer = (f', ok)"
  shows "msc_flash (fst (tud_msc_write10_cb u lba offset buffer)) = f'"
    and "snd (tud_msc_write10_cb u lba offset buffer) = (if ok then int32 (length buffer) else -1)"
  unfolding tud_msc_write10_cb_def Let_def STORAGE_BLOCK_SIZE_def using assms by (cases ok; simp)+

subsection \<open>Properties\<close>



text \<open>
  The sectors the file system writes are the sectors it reads back: after a successful write
  of the sectors [sector, sector + count) of the volume, reading them returns the data, and
  reading any sectors disjoint from them returns what it returned before, success or not.
\<close>

theorem disk_write_read:
  assumes "flash_laws f" and "sector + count \<le> 256" and "length buff = count * 512"
    and "disk_write f 0 buff sector count = (f', r)"
  shows "(r = RES_OK \<longrightarrow> disk_read f' 0 sector count = (RES_OK, Some buff))
    \<and> (\<forall>sector' count'. sector' + count' \<le> sector \<or> sector + count \<le> sector' \<longrightarrow> sector' + count' \<le> 256 \<longrightarrow>
         disk_read f' 0 sector' count' = disk_read f 0 sector' count')"
proof -
  have m: "mul32 a 512 = a * 512" if "a \<le> 256" for a using that by (simp add: mul32_id)
  have w: "storage_backend_write f (sector * 512) buff = (f', r = RES_OK)"
    using disk_write_cases [OF assms(4)] assms(2,3) by (simp add: m)
  have "disk_read f' 0 sector count = (RES_OK, Some buff)" if "r = RES_OK"
  proof -
    from w that have "storage_backend_write f (sector * 512) buff = (f', True)" by simp
    from sb.read_written [OF assms(1) this] assms(2,3) show ?thesis
      by (simp add: disk_read_def STORAGE_BLOCK_SIZE_def m Let_def)
  qed
  moreover have "disk_read f' 0 sector' count' = disk_read f 0 sector' count'"
    if "sector' + count' \<le> sector \<or> sector + count \<le> sector'" "sector' + count' \<le> 256" for sector' count'
  proof -
    have "sector' * 512 + count' * 512 \<le> sector * 512 \<or> sector * 512 + length buff \<le> sector' * 512"
      using that(1) assms(3) by auto
    from sb.read_disjoint [OF assms(1) w this] that(2) show ?thesis
      by (simp add: disk_read_def STORAGE_BLOCK_SIZE_def m Let_def)
  qed
  ultimately show ?thesis by blast
qed

theorem disk_write_read_witness:
  "disk_read (fst (disk_write (nor_flash (\<lambda>_. 7) (\<lambda>_. True)) 0 (replicate 512 1) 3 1)) 0 4 1
   = disk_read (nor_flash (\<lambda>_. 7) (\<lambda>_. True)) 0 4 1"
  using disk_write_read [of "nor_flash (\<lambda>_. 7) (\<lambda>_. True)" 3 1 "replicate 512 1"
      "fst (disk_write (nor_flash (\<lambda>_. 7) (\<lambda>_. True)) 0 (replicate 512 1) 3 1)"
      "snd (disk_write (nor_flash (\<lambda>_. 7) (\<lambda>_. True)) 0 (replicate 512 1) 3 1)"]
  by simp

text \<open>
  The USB host reads back what it wrote: after a write of a block-device range that lies on the
  disk reports its full size, the read of that range returns the data with a success status, and a
  write reports either its full size or a failure.
\<close>

theorem tud_msc_write_read:
  assumes "flash_laws (msc_flash u)" and "lba * 512 + offset + length buffer \<le> 131072" and "buffer \<noteq> []"
    and "tud_msc_write10_cb u lba offset buffer = (u', r)"
  shows "(r = int (length buffer) \<and>
          snd (tud_msc_read10_cb u' lba offset (length buffer)) = (Some buffer, int (length buffer)))
         \<or> (r = -1 \<and> msc_sense u' = Some (SCSI_SENSE_HARDWARE_ERROR, 0x44, 0x00))"
proof -
  have off: "add32 (mul32 lba 512) offset = lba * 512 + offset"
    using assms(2) by (simp add: mul32_id add32_id)
  obtain f' ok where w: "storage_backend_write (msc_flash u) (lba * 512 + offset) buffer = (f', ok)"
    by (cases "storage_backend_write (msc_flash u) (lba * 512 + offset) buffer")
  have f': "msc_flash u' = f'" and r: "r = (if ok then int32 (length buffer) else -1)"
    using tud_msc_write10_eq [of u lba offset buffer f' ok] w off assms(4) by simp_all
  show ?thesis
  proof (cases ok)
    case True
    with w have "storage_backend_read f' (lba * 512 + offset) (length buffer) = Some buffer"
      using sb.read_written [OF assms(1)] by simp
    with True r f' off assms(2) show ?thesis
      by (simp add: tud_msc_read10_cb_def STORAGE_BLOCK_SIZE_def Let_def int32_small)
  next
    case False
    with w assms(4) off r show ?thesis
      by (auto simp: tud_msc_write10_cb_def STORAGE_BLOCK_SIZE_def Let_def)
  qed
qed

definition msc_example :: usb_msc where
  "msc_example = \<lparr>msc_flash = nor_flash (\<lambda>_. 7) (\<lambda>_. True),
     msc_led = \<lparr>status_led_state = False, led_pin = False\<rparr>, msc_sense = None\<rparr>"

theorem tud_msc_write_read_witness:
  "snd (tud_msc_write10_cb msc_example 255 0 [1, 2, 3]) = 3 \<or>
   snd (tud_msc_write10_cb msc_example 255 0 [1, 2, 3]) = -1"
  using tud_msc_write_read [of msc_example 255 0 "[1, 2, 3]"
      "fst (tud_msc_write10_cb msc_example 255 0 [1, 2, 3])" "snd (tud_msc_write10_cb msc_example 255 0 [1, 2, 3])"]
  by (auto simp: msc_example_def)

text \<open>
  Block numbers wrap: a host that asks for a block number past the end of the disk whose
  product with the block size overflows 32 bits is not refused but served block 0, with a success
  status and no sense data.
\<close>

theorem tud_msc_read10_aliases_block_0:
  "tud_msc_read10_cb u (2 ^ 23 * k) 0 512 = tud_msc_read10_cb u 0 0 512
   \<and> snd (snd (tud_msc_read10_cb u (2 ^ 23 * k) 0 512)) = 512"
proof -
  have "mul32 (2 ^ 23 * k) 512 = 0"
    by (simp add: mul32_def)
  then show ?thesis
    by (simp add: tud_msc_read10_cb_def STORAGE_BLOCK_SIZE_def add32_def Let_def mul32_def
        storage_backend_read_def int32_small)
qed

end
