(* ===== verification/Bootloader.thy ===== *)
theory Bootloader
  imports Firmware_Upload
begin

text \<open>
  \<^verbatim>\<open>bootloader_stub.c\<close>: after a reset it looks for a pending manifest, checks the staged image, copies
  it over the program sector by sector, checks the copy, clears the manifest and reboots; otherwise it
  jumps to the program.  The state is the flash and the static sector buffer; the outcome of \<^verbatim>\<open>main\<close> is
  how it leaves the bootloader.
\<close>

unbundle bit_operations_syntax

subsection \<open>Constants and helpers\<close>

definition APP_IMAGE_BASE :: nat where "APP_IMAGE_BASE = 0x10020000"
definition APP_SRAM_BASE :: nat where "APP_SRAM_BASE = 0x20000000"
definition APP_SRAM_END :: nat where "APP_SRAM_END = 0x20042000"
definition APP_XIP_BASE :: nat where "APP_XIP_BASE = 0x10000000"
definition APP_IMAGE_SIZE :: nat where "APP_IMAGE_SIZE = 896 * 1024"
definition APP_COPY_BASE :: nat where "APP_COPY_BASE = 0x10100000"
definition UPDATE_METADATA_BASE :: nat where "UPDATE_METADATA_BASE = 0x1001f000"
definition UPDATE_METADATA_SIZE :: nat where "UPDATE_METADATA_SIZE = FLASH_SECTOR_SIZE"
definition CRC32_POLY :: u32 where "CRC32_POLY = 0xedb88320"

lemmas boot_consts = APP_IMAGE_BASE_def APP_SRAM_BASE_def APP_SRAM_END_def APP_XIP_BASE_def
  APP_IMAGE_SIZE_def APP_COPY_BASE_def UPDATE_METADATA_BASE_def UPDATE_METADATA_SIZE_def flash_sizes

record boot =
  boot_flash :: flash
  sector_buffer :: "u8 list"

definition bootloader_flash_offset :: "nat \<Rightarrow> nat" where
  "bootloader_flash_offset xip_address = sub32 xip_address APP_XIP_BASE"

text \<open>Reading through the XIP window: \<open>n\<close> bytes at an address.\<close>

definition xip_read :: "boot \<Rightarrow> nat \<Rightarrow> nat \<Rightarrow> u8 list" where
  "xip_read b address n = read_flash (boot_flash b) (address - APP_XIP_BASE) n"

definition bootloader_round_up :: "u32 \<Rightarrow> u32 \<Rightarrow> u32" where
  "bootloader_round_up value alignment = (value + alignment - 1) AND NOT (alignment - 1)"

fun bootloader_crc32_bits :: "nat \<Rightarrow> u32 \<Rightarrow> u32" where
  "bootloader_crc32_bits 0 crc = crc"
| "bootloader_crc32_bits (Suc bits) crc =
     (let mask = 0 - (crc AND 1) in bootloader_crc32_bits bits (drop_bit 1 crc XOR (CRC32_POLY AND mask)))"

fun bootloader_crc32_update :: "u32 \<Rightarrow> u8 list \<Rightarrow> u32" where
  "bootloader_crc32_update crc [] = crc"
| "bootloader_crc32_update crc (b # bs) = bootloader_crc32_update (bootloader_crc32_bits 8 (crc XOR ucast b)) bs"

definition bootloader_crc32 :: "u8 list \<Rightarrow> u32" where
  "bootloader_crc32 data = bootloader_crc32_update 0xffffffff data XOR 0xffffffff"

definition bootloader_app_vector_is_valid :: "u32 \<Rightarrow> u32 \<Rightarrow> nat \<Rightarrow> nat \<Rightarrow> bool" where
  "bootloader_app_vector_is_valid stack_pointer reset_handler expected_image_base max_image_size =
     (if unat stack_pointer < APP_SRAM_BASE \<or> unat stack_pointer > APP_SRAM_END \<or> stack_pointer AND 3 \<noteq> 0
      then False
      else if reset_handler AND 1 = 0 then False
      else let reset_address = reset_handler AND NOT 1
           in \<not> (unat reset_address < expected_image_base \<or>
                 unat reset_address \<ge> add32 expected_image_base max_image_size))"

definition bootloader_image_vectors_are_valid :: "nat \<Rightarrow> nat \<Rightarrow> nat \<Rightarrow> boot \<Rightarrow> bool" where
  "bootloader_image_vectors_are_valid image_base expected_image_base img_size b =
     (if img_size < 8 \<or> img_size > APP_IMAGE_SIZE then False
      else let vectors = xip_read b image_base 8
           in bootloader_app_vector_is_valid (read_le32 vectors 0) (read_le32 vectors 4)
                expected_image_base img_size)"

text \<open>The manifest is read in place; \<open>data\<close> is the metadata sector.\<close>

definition bootloader_manifest_is_blank :: "u8 list \<Rightarrow> bool" where
  "bootloader_manifest_is_blank data = (\<forall>b\<in>set data. b = 0xff \<or> b = 0x00)"

definition bootloader_manifest_is_valid :: "u8 list \<Rightarrow> bool" where
  "bootloader_manifest_is_valid data =
     (if bootloader_manifest_is_blank data then False else
      let manifest = manifest_of data in
      if magic manifest \<noteq> FIRMWARE_UPDATE_MAGIC \<or>
         version manifest \<noteq> FIRMWARE_UPDATE_MANIFEST_VERSION \<or>
         unat (header_size manifest) \<noteq> sizeof_manifest \<or>
         flags manifest AND FIRMWARE_UPDATE_FLAG_PENDING = 0 \<or>
         unat (image_size manifest) = 0 \<or>
         unat (image_size manifest) > APP_IMAGE_SIZE
      then False
      else bootloader_crc32 (take offsetof_header_crc32 data) = header_crc32 manifest)"

definition bootloader_staged_image_is_valid :: "firmware_update_manifest \<Rightarrow> boot \<Rightarrow> bool" where
  "bootloader_staged_image_is_valid manifest b =
     (if \<not> bootloader_image_vectors_are_valid APP_COPY_BASE APP_IMAGE_BASE (unat (image_size manifest)) b
      then False
      else bootloader_crc32 (xip_read b APP_COPY_BASE (unat (image_size manifest))) = image_crc32 manifest)"

subsection \<open>Applying an update\<close>

definition boot_erase :: "nat \<Rightarrow> nat \<Rightarrow> boot \<Rightarrow> boot" where
  "boot_erase off n b = b\<lparr>boot_flash := flash_range_erase off n (boot_flash b)\<rparr>"

definition boot_program :: "nat \<Rightarrow> u8 list \<Rightarrow> boot \<Rightarrow> boot" where
  "boot_program off data b = b\<lparr>boot_flash := flash_range_program off data (boot_flash b)\<rparr>"

text \<open>The inner loop of the copy, \<open>page_offset\<close> from 0 in steps of a page.\<close>

function bootloader_program_sector :: "nat \<Rightarrow> nat \<Rightarrow> boot \<Rightarrow> boot" where
  "bootloader_program_sector offset page_offset b =
     (if page_offset < FLASH_SECTOR_SIZE then
        bootloader_program_sector offset (page_offset + FLASH_PAGE_SIZE)
          (boot_program (bootloader_flash_offset (add32 (add32 APP_IMAGE_BASE offset) page_offset))
             (take FLASH_PAGE_SIZE (drop page_offset (sector_buffer b))) b)
      else b)"
  by pat_completeness auto
termination
  by (relation "measure (\<lambda>(offset, page_offset, b). FLASH_SECTOR_SIZE - page_offset)")
    (auto simp: FLASH_PAGE_SIZE_def)

declare bootloader_program_sector.simps [simp del]

definition bootloader_copy_sector :: "nat \<Rightarrow> boot \<Rightarrow> boot" where
  "bootloader_copy_sector offset b =
     (let b1 = b\<lparr>sector_buffer := xip_read b (add32 APP_COPY_BASE offset) FLASH_SECTOR_SIZE\<rparr>;
          b2 = boot_erase (bootloader_flash_offset (add32 APP_IMAGE_BASE offset)) FLASH_SECTOR_SIZE b1
      in bootloader_program_sector offset 0 b2)"

text \<open>
  The outer loop; \<open>None\<close> is the loop whose 32-bit offset wraps (a copy size within a sector of
  \<open>2\<^sup>32\<close>), which would not end.
\<close>

function bootloader_copy_loop :: "nat \<Rightarrow> nat \<Rightarrow> boot \<Rightarrow> boot option" where
  "bootloader_copy_loop copy_size offset b =
     (if offset < copy_size then
        (if 2 ^ 32 \<le> offset + FLASH_SECTOR_SIZE then None
         else bootloader_copy_loop copy_size (add32 offset FLASH_SECTOR_SIZE) (bootloader_copy_sector offset b))
      else Some b)"
  by pat_completeness auto
termination
  by (relation "measure (\<lambda>(copy_size, offset, b). copy_size - offset)") (auto simp: FLASH_SECTOR_SIZE_def add32_def)

declare bootloader_copy_loop.simps [simp del]

definition bootloader_copy_staged_image :: "u32 \<Rightarrow> boot \<Rightarrow> boot option" where
  "bootloader_copy_staged_image img_size b =
     (let copy_size = bootloader_round_up img_size (of_nat FLASH_SECTOR_SIZE)
      in bootloader_copy_loop (unat copy_size) 0 b)"

definition bootloader_clear_update_metadata :: "boot \<Rightarrow> boot" where
  "bootloader_clear_update_metadata b =
     boot_erase (bootloader_flash_offset UPDATE_METADATA_BASE) UPDATE_METADATA_SIZE b"

text \<open>\<open>Some (b, True)\<close>: the function ended in \<^verbatim>\<open>bootloader_reboot\<close>; \<open>Some (b, False)\<close>: it returned.\<close>

definition bootloader_try_apply_update :: "boot \<Rightarrow> (boot \<times> bool) option" where
  "bootloader_try_apply_update b =
     (let data = xip_read b UPDATE_METADATA_BASE UPDATE_METADATA_SIZE; manifest = manifest_of data in
      if \<not> bootloader_manifest_is_valid data then Some (b, False)
      else if \<not> bootloader_staged_image_is_valid manifest b then Some (b, False)
      else case bootloader_copy_staged_image (image_size manifest) b of
             None \<Rightarrow> None
           | Some b1 \<Rightarrow>
               if bootloader_crc32 (xip_read b1 APP_IMAGE_BASE (unat (image_size manifest))) \<noteq> image_crc32 manifest
               then Some (b1, True)
               else Some (bootloader_clear_update_metadata b1, True))"

datatype boot_outcome = Boot_reboot | Boot_usb | Boot_app u32 u32

definition bootloader_jump_to_app :: "nat \<Rightarrow> boot \<Rightarrow> boot_outcome" where
  "bootloader_jump_to_app app_base b =
     (let vectors = xip_read b app_base 8;
          stack_pointer = read_le32 vectors 0;
          reset_handler = read_le32 vectors 4
      in if \<not> bootloader_app_vector_is_valid stack_pointer reset_handler app_base APP_IMAGE_SIZE
         then Boot_usb else Boot_app stack_pointer reset_handler)"

definition bootloader_main :: "boot \<Rightarrow> (boot \<times> boot_outcome) option" where
  "bootloader_main b =
     (case bootloader_try_apply_update b of
        None \<Rightarrow> None
      | Some (b1, True) \<Rightarrow> Some (b1, Boot_reboot)
      | Some (b1, False) \<Rightarrow> Some (b1, bootloader_jump_to_app APP_IMAGE_BASE b1))"

subsection \<open>The two checksum routines\<close>

lemma crc_bit_masked_simp [simp]:
  "drop_bit (Suc 0) c XOR poly AND - (c AND 1) = crc_bit poly (c :: 'a::len word)"
  using crc_bit_masked [of c poly] by simp

lemma app_crc_bits: "app_firmware_update_crc32_bits n c = (crc_bit 0xedb88320 ^^ n) c"
  by (induction n arbitrary: c)
    (simp_all add: APP_FIRMWARE_UPDATE_CRC32_POLY_def funpow_swap1 Let_def)

lemma boot_crc_bits: "bootloader_crc32_bits n c = (crc_bit 0xedb88320 ^^ n) c"
  by (induction n arbitrary: c)
    (simp_all add: CRC32_POLY_def funpow_swap1 Let_def)

lemma app_crc_update: "app_firmware_update_crc32_update c bs = crc_bytes 0xedb88320 c bs"
  by (induction bs arbitrary: c) (simp_all add: app_crc_bits crc_byte_def)

lemma boot_crc_update: "bootloader_crc32_update c bs = crc_bytes 0xedb88320 c bs"
  by (induction bs arbitrary: c) (simp_all add: boot_crc_bits crc_byte_def)

lemma boot_crc32_eq: "bootloader_crc32 bs = app_firmware_update_crc32 bs"
  by (simp add: bootloader_crc32_def app_firmware_update_crc32_def app_crc_update boot_crc_update)

lemma boot_crc32_one_byte:
  assumes "bootloader_crc32 (xs @ a # ys) = bootloader_crc32 (xs @ b # ys)"
  shows "a = b"
  by (rule crc_bytes_one_byte [of "0xedb88320 :: u32" "0xffffffff" xs a ys b])
    (use assms in \<open>simp_all add: bootloader_crc32_def boot_crc_update bit_numeral_rec\<close>)

text \<open>A list that differs from another in one place.\<close>

lemma boot_crc32_update_byte:
  assumes "i < length xs" "bootloader_crc32 (xs[i := v]) = bootloader_crc32 xs"
  shows "v = xs ! i"
proof -
  have "xs = take i xs @ xs ! i # drop (Suc i) xs" "xs[i := v] = take i xs @ v # drop (Suc i) xs"
    using assms(1) by (simp_all add: id_take_nth_drop upd_conv_take_nth_drop)
  then show ?thesis using boot_crc32_one_byte [of "take i xs" v "drop (Suc i) xs" "xs ! i"] assms(2) by metis
qed

subsection \<open>Copying the image\<close>

lemma boot_offsets [simp]:
  "bootloader_flash_offset UPDATE_METADATA_BASE = 0x1f000"
  "UPDATE_METADATA_SIZE = 4096" "APP_IMAGE_SIZE = 917504"
  "xip_read b APP_COPY_BASE n = read_flash (boot_flash b) 0x100000 n"
  "xip_read b APP_IMAGE_BASE n = read_flash (boot_flash b) 0x20000 n"
  "xip_read b UPDATE_METADATA_BASE n = read_flash (boot_flash b) 0x1f000 n"
  by (simp_all add: bootloader_flash_offset_def boot_consts sub32_def xip_read_def)

lemma image_offset:
  "offset + p < 2 ^ 20 \<Longrightarrow> bootloader_flash_offset (add32 (add32 APP_IMAGE_BASE offset) p) = 0x20000 + offset + p"
  "offset < 2 ^ 20 \<Longrightarrow> bootloader_flash_offset (add32 APP_IMAGE_BASE offset) = 0x20000 + offset"
  "offset < 2 ^ 20 \<Longrightarrow> xip_read b (add32 APP_COPY_BASE offset) n = read_flash (boot_flash b) (0x100000 + offset) n"
  by (simp_all add: bootloader_flash_offset_def boot_consts add32_id sub32_id xip_read_def)

lemma program_sector_eq:
  assumes "offset + 4096 \<le> 917504" "po + k * 256 = 4096"
  shows "bootloader_program_sector offset po b =
    b\<lparr>boot_flash := program_pages k (0x20000 + offset + po) (drop po (sector_buffer b)) (boot_flash b)\<rparr>"
  using assms(2)
proof (induction k arbitrary: po b)
  case 0
  then show ?case by (subst bootloader_program_sector.simps) (simp add: flash_sizes)
next
  case (Suc k)
  then have "po < 4096" "po + 256 + k * 256 = 4096" by simp_all
  then show ?case using Suc.IH [of "po + 256"] assms(1)
    by (subst bootloader_program_sector.simps)
      (simp add: flash_sizes boot_program_def image_offset ac_simps)
qed

lemma copy_sector_eq:
  assumes "offset + 4096 \<le> 917504"
  shows "bootloader_copy_sector offset b =
    (let buf = read_flash (boot_flash b) (0x100000 + offset) 4096
     in b\<lparr>boot_flash := rewrite_sector (0x20000 + offset) buf (boot_flash b), sector_buffer := buf\<rparr>)"
  using assms program_sector_eq [OF assms, of 0 16]
  by (simp add: bootloader_copy_sector_def image_offset flash_sizes boot_erase_def rewrite_sector_def Let_def)

text \<open>The program area after \<open>n\<close> bytes of the staged image were copied.\<close>

definition copied_mem :: "memory \<Rightarrow> nat \<Rightarrow> memory" where
  "copied_mem m n a = (if 0x20000 \<le> a \<and> a < 0x20000 + n then m (a + 0xe0000) else m a)"

lemma copy_sector_mem:
  assumes "flash_laws (boot_flash b)" "offset + 4096 \<le> 917504" "offset mod 4096 = 0"
    "mem (boot_flash b) = copied_mem m offset"
  shows "mem (boot_flash (bootloader_copy_sector offset b)) = copied_mem m (offset + 4096)"
proof
  fix a
  have "(32 * 4096 + offset) mod 4096 = offset mod 4096" by (rule mod_mult_self3)
  then have al: "(0x20000 + offset) mod 4096 = 0" using assms(3) by simp
  have "mem (boot_flash (bootloader_copy_sector offset b)) a =
      (if 0x20000 + offset \<le> a \<and> a < 0x20000 + offset + 4096
       then read_flash (boot_flash b) (0x100000 + offset) 4096 ! (a - (0x20000 + offset))
       else mem (boot_flash b) a)"
    using mem_rewrite_sector [OF assms(1) al, of "read_flash (boot_flash b) (0x100000 + offset) 4096" a]
    by (simp add: copy_sector_eq [OF assms(2)] Let_def)
  also have "\<dots> = copied_mem m (offset + 4096) a"
  proof (cases "0x20000 + offset \<le> a \<and> a < 0x20000 + offset + 4096")
    case True
    then obtain d where d: "a = 0x20000 + offset + d" "d < 4096"
      by (metis add_less_cancel_left le_Suc_ex)
    then show ?thesis using assms(2,4) by (simp add: copied_mem_def add.commute add.left_commute)
  next
    case False
    then show ?thesis using assms(4) by (auto simp: copied_mem_def)
  qed
  finally show "mem (boot_flash (bootloader_copy_sector offset b)) a = copied_mem m (offset + 4096) a" .
qed

lemma copy_sector_driver:
  "offset + 4096 \<le> 917504 \<Longrightarrow> same_driver (boot_flash b) (boot_flash (bootloader_copy_sector offset b))"
  by (simp add: copy_sector_eq Let_def)

lemma copy_loop_spec:
  assumes "flash_laws (boot_flash b)" "cs \<le> 917504" "cs = offset + k * 4096" "offset mod 4096 = 0"
    "mem (boot_flash b) = copied_mem m offset"
  shows "\<exists>b'. bootloader_copy_loop cs offset b = Some b' \<and> same_driver (boot_flash b) (boot_flash b') \<and>
    mem (boot_flash b') = copied_mem m cs"
  using assms
proof (induction k arbitrary: offset b)
  case 0
  then show ?case by (subst bootloader_copy_loop.simps) simp
next
  case (Suc k)
  let ?b = "bootloader_copy_sector offset b"
  have o: "offset + 4096 \<le> 917504" using Suc.prems(2,3) by simp
  have sd: "same_driver (boot_flash b) (boot_flash ?b)" by (rule copy_sector_driver [OF o])
  have "mem (boot_flash ?b) = copied_mem m (offset + 4096)"
    using Suc.prems o by (intro copy_sector_mem) simp_all
  moreover have "(offset + 4096) mod 4096 = 0" using Suc.prems(4) by simp
  ultimately obtain b' where "bootloader_copy_loop cs (offset + 4096) ?b = Some b'"
    "same_driver (boot_flash ?b) (boot_flash b')" "mem (boot_flash b') = copied_mem m cs"
    using Suc.IH [of ?b "offset + 4096"] Suc.prems flash_laws_same_driver [OF sd] by auto
  then show ?case using Suc.prems(3) o sd
    by (subst bootloader_copy_loop.simps) (auto simp: flash_sizes add32_id intro: same_driver_trans)
qed

lemma and_not_mask: "x AND NOT (mask n) = push_bit n (drop_bit n (x :: 'a::len word))"
  by (rule bit_word_eqI) (auto simp: bit_and_iff bit_not_iff bit_mask_iff bit_push_bit_iff bit_drop_bit_eq)

lemma round_up_sector:
  assumes "unat v \<le> 917504"
  shows "unat (bootloader_round_up v (of_nat FLASH_SECTOR_SIZE)) = sectors (unat v)"
proof -
  define x where "x = v + 4095"
  have x: "unat x = unat v + 4095"
    using assms by (simp add: x_def unat_word_ariths)
  have "bootloader_round_up v (of_nat FLASH_SECTOR_SIZE) = x AND NOT (mask 12)"
    by (simp add: bootloader_round_up_def flash_sizes x_def mask_eq_exp_minus_1 algebra_simps)
  also have "\<dots> = push_bit 12 (drop_bit 12 x)" by (rule and_not_mask)
  finally have r: "bootloader_round_up v (of_nat FLASH_SECTOR_SIZE) = push_bit 12 (drop_bit 12 x)" .
  have "unat (drop_bit 12 x) = (unat v + 4095) div 4096"
  proof -
    have "unat (drop_bit 12 x) = drop_bit 12 (unat x)" by (rule unat_drop_bit_eq)
    then show ?thesis by (simp only: x drop_bit_eq_div) simp
  qed
  moreover have "push_bit 12 (drop_bit 12 x) = drop_bit 12 x * 4096" by (simp add: push_bit_eq_mult)
  moreover have "(unat v + 4095) div 4096 * 4096 < 2 ^ 32"
    using sectors_le [OF assms] by (simp add: sectors_def)
  ultimately show ?thesis using r by (simp add: unat_word_ariths sectors_def)
qed

subsection \<open>Applying a pending update\<close>

abbreviation metadata_of :: "boot \<Rightarrow> u8 list" where
  "metadata_of b \<equiv> read_flash (boot_flash b) 0x1f000 4096"

definition update_pending :: "boot \<Rightarrow> bool" where
  "update_pending b = (bootloader_manifest_is_valid (metadata_of b) \<and>
     bootloader_staged_image_is_valid (manifest_of (metadata_of b)) b)"

definition pending_size :: "boot \<Rightarrow> nat" where
  "pending_size b = unat (image_size (manifest_of (metadata_of b)))"

text \<open>The flash after the update is applied.\<close>

definition installed_mem :: "memory \<Rightarrow> nat \<Rightarrow> memory" where
  "installed_mem m n a = (if in_metadata a then 0xFF else copied_mem m (sectors n) a)"

lemma pending_size_bound: "update_pending b \<Longrightarrow> 0 < pending_size b \<and> pending_size b \<le> 917504"
  by (auto simp: update_pending_def pending_size_def bootloader_manifest_is_valid_def Let_def split: if_splits)

lemma copied_outside: "\<not> (0x20000 \<le> a \<and> a < 0x100000) \<Longrightarrow> n \<le> 917504 \<Longrightarrow> copied_mem m n a = m a"
  by (auto simp: copied_mem_def)

lemma try_apply_spec:
  assumes "flash_laws (boot_flash b)" "update_pending b"
  shows "\<exists>b'. bootloader_try_apply_update b = Some (b', True) \<and>
    same_driver (boot_flash b) (boot_flash b') \<and>
    mem (boot_flash b') = installed_mem (mem (boot_flash b)) (pending_size b)"
proof -
  let ?n = "pending_size b" and ?m = "mem (boot_flash b)" and ?mf = "manifest_of (metadata_of b)"
  have n: "?n \<le> 917504" using pending_size_bound [OF assms(2)] by simp
  have sz: "unat (image_size ?mf) = ?n" by (simp add: pending_size_def)
  obtain b1 where b1: "bootloader_copy_staged_image (image_size ?mf) b = Some b1"
    "same_driver (boot_flash b) (boot_flash b1)" "mem (boot_flash b1) = copied_mem ?m (sectors ?n)"
  proof -
    have "sectors ?n = 0 + sectors ?n div 4096 * 4096" by (simp add: sectors_def)
    moreover have "?m = copied_mem ?m 0" by (auto simp: copied_mem_def fun_eq_iff)
    ultimately show ?thesis
      using copy_loop_spec [OF assms(1) sectors_le [OF n], of 0 "sectors ?n div 4096" ?m] that n
      by (auto simp: bootloader_copy_staged_image_def Let_def round_up_sector sz)
  qed
  have "read_flash (boot_flash b1) 0x20000 ?n = read_flash (boot_flash b) 0x100000 ?n"
    using sectors_bounds(1) [of ?n] b1(3) by (intro read_flash_eqI) (simp_all add: copied_mem_def add.commute)
  moreover have "bootloader_crc32 (read_flash (boot_flash b) 0x100000 ?n) = image_crc32 ?mf"
    using assms(2) sz by (simp add: update_pending_def bootloader_staged_image_is_valid_def split: if_splits)
  ultimately have "bootloader_try_apply_update b = Some (bootloader_clear_update_metadata b1, True)"
    using assms(2) b1(1) sz by (simp add: bootloader_try_apply_update_def Let_def update_pending_def)
  moreover have "mem (boot_flash (bootloader_clear_update_metadata b1)) = installed_mem ?m ?n"
    using assms(1) b1(3) flash_laws_same_driver [OF b1(2)]
    by (simp add: bootloader_clear_update_metadata_def boot_erase_def fun_eq_iff mem_erase installed_mem_def in_metadata_def)
  ultimately show ?thesis using b1(2)
    by (simp add: bootloader_clear_update_metadata_def boot_erase_def same_driver_def flash_range_erase_def)
qed

lemma try_apply_none:
  "\<not> update_pending b \<Longrightarrow> bootloader_try_apply_update b = Some (b, False)"
  by (auto simp: bootloader_try_apply_update_def update_pending_def Let_def)

text \<open>The checks look at the metadata sector and the copy region only.\<close>

definition agree_staging :: "flash \<Rightarrow> flash \<Rightarrow> bool" where
  "agree_staging f g = (\<forall>a. in_metadata a \<or> in_copy a \<longrightarrow> mem g a = mem f a)"

lemma agree_staging_reads:
  assumes "agree_staging f g"
  shows "read_flash g 0x1f000 4096 = read_flash f 0x1f000 4096"
    "n \<le> 917504 \<Longrightarrow> read_flash g 0x100000 n = read_flash f 0x100000 n"
  using assms by (auto intro!: read_flash_cong simp: agree_staging_def in_metadata_def in_copy_def)

lemma update_pending_cong:
  assumes "agree_staging (boot_flash b) (boot_flash b')"
  shows "update_pending b' = update_pending b" "pending_size b' = pending_size b"
proof -
  note r = agree_staging_reads [OF assms]
  show "pending_size b' = pending_size b" by (simp add: pending_size_def r)
  have "bootloader_staged_image_is_valid mf b' = bootloader_staged_image_is_valid mf b" for mf
    by (auto simp: bootloader_staged_image_is_valid_def bootloader_image_vectors_are_valid_def Let_def r)
  then show "update_pending b' = update_pending b" by (simp add: update_pending_def r)
qed

lemma blank_metadata: "bootloader_manifest_is_blank data \<Longrightarrow> \<not> bootloader_manifest_is_valid data"
  by (simp add: bootloader_manifest_is_valid_def)

lemma installed_not_pending:
  assumes "mem (boot_flash b) = installed_mem m n"
  shows "\<not> update_pending b"
proof -
  have "\<forall>i<4096. mem (boot_flash b) (0x1f000 + i) = 0xFF" using assms by (simp add: installed_mem_def in_metadata_def)
  then have "bootloader_manifest_is_blank (metadata_of b)"
    by (auto simp: bootloader_manifest_is_blank_def read_flash_def)
  then show ?thesis by (simp add: update_pending_def blank_metadata)
qed

subsection \<open>Power loss\<close>

text \<open>
  The elementary flash operations of the copy, in the order the code performs them.  Power may fail
  after any of them or in the middle of one, which leaves the range it works on with any contents.
\<close>

datatype flash_op = Op_erase nat | Op_program nat "u8 list"

fun run_op :: "flash \<Rightarrow> flash_op \<Rightarrow> flash" where
  "run_op f (Op_erase off) = flash_range_erase off 4096 f"
| "run_op f (Op_program off data) = flash_range_program off data f"

fun op_range :: "flash_op \<Rightarrow> nat \<Rightarrow> bool" where
  "op_range (Op_erase off) a = (off \<le> a \<and> a < off + 4096)"
| "op_range (Op_program off data) a = (off \<le> a \<and> a < off + length data)"

definition page_ops :: "nat \<Rightarrow> nat \<Rightarrow> u8 list \<Rightarrow> flash_op list" where
  "page_ops k off buf = List.map (\<lambda>p. Op_program (off + 256 * p) (take 256 (drop (256 * p) buf))) [0..<k]"

definition sector_ops :: "nat \<Rightarrow> u8 list \<Rightarrow> flash_op list" where
  "sector_ops off buf = Op_erase off # page_ops 16 off buf"

definition copy_ops :: "flash \<Rightarrow> nat \<Rightarrow> nat \<Rightarrow> flash_op list" where
  "copy_ops f i k =
     concat (List.map (\<lambda>s. sector_ops (0x20000 + 4096 * s) (read_flash f (0x100000 + 4096 * s) 4096)) [i..<i + k])"

lemma page_ops_run: "foldl run_op f (page_ops k off buf) = program_pages k off buf f"
proof (induction k arbitrary: off buf f)
  case 0
  then show ?case by (simp add: page_ops_def)
next
  case (Suc k)
  have "page_ops (Suc k) off buf = Op_program off (take 256 buf) # page_ops k (off + 256) (drop 256 buf)"
    by (simp add: page_ops_def upt_rec [of 0 "Suc k"] map_Suc_upt [symmetric] del: upt_Suc)
      (simp add: add.commute add.left_commute)
  then show ?case using Suc.IH by (simp add: FLASH_PAGE_SIZE_def)
qed

lemma sector_ops_run: "foldl run_op f (sector_ops off buf) = rewrite_sector off buf f"
  by (simp add: sector_ops_def page_ops_run rewrite_sector_def flash_sizes)

lemma copy_ops_range:
  "op \<in> set (copy_ops f i k) \<Longrightarrow> op_range op a \<Longrightarrow> 0x20000 + 4096 * i \<le> a \<and> a < 0x20000 + 4096 * (i + k)"
proof -
  assume "op \<in> set (copy_ops f i k)" "op_range op a"
  then obtain s where s: "i \<le> s" "s < i + k" "op \<in> set (sector_ops (0x20000 + 4096 * s) (read_flash f (0x100000 + 4096 * s) 4096))"
    by (auto simp: copy_ops_def)
  have "0x20000 + 4096 * s \<le> a \<and> a < 0x20000 + 4096 * s + 4096"
    using s(3) \<open>op_range op a\<close> by (auto simp: sector_ops_def page_ops_def)
  moreover have "4096 * s + 4096 \<le> 4096 * (i + k)" "4096 * i \<le> 4096 * s" using s by simp_all
  ultimately show ?thesis by linarith
qed

fun op_aligned :: "flash_op \<Rightarrow> bool" where
  "op_aligned (Op_erase off) = (off mod 4096 = 0)"
| "op_aligned (Op_program off data) = (off mod 256 = 0 \<and> length data mod 256 = 0)"

lemma copy_ops_aligned: "op \<in> set (copy_ops f i k) \<Longrightarrow> op_aligned op"
proof -
  have "(0x20000 + 4096 * s + 256 * p) mod 256 = 0" for s p :: nat
  proof -
    have "0x20000 + 4096 * s + 256 * p = 256 * (512 + 16 * s + p)" by simp
    then show ?thesis by (metis mod_mult_self1_is_0)
  qed
  moreover have "(0x20000 + 4096 * s) mod 4096 = 0" for s :: nat
  proof -
    have "0x20000 + 4096 * s = 4096 * (32 + s)" by simp
    then show ?thesis by (metis mod_mult_self1_is_0)
  qed
  moreover have "min (4096 - 256 * p) 256 mod 256 = 0" if "p < 16" for p :: nat
    using that by (auto simp: min_def)
  moreover assume "op \<in> set (copy_ops f i k)"
  ultimately show ?thesis by (auto simp: copy_ops_def sector_ops_def page_ops_def)
qed

lemma run_op_outside:
  "flash_laws f \<Longrightarrow> op_aligned op \<Longrightarrow> \<not> op_range op a \<Longrightarrow> mem (run_op f op) a = mem f a"
  by (cases op) (auto simp: mem_erase mem_program_out)

lemma run_op_laws [simp]: "flash_laws (run_op f op) = flash_laws f"
  by (cases op) simp_all

lemma run_ops_outside:
  assumes "flash_laws f" "\<forall>op\<in>set ops. op_aligned op \<and> \<not> op_range op a"
  shows "mem (foldl run_op f ops) a = mem f a"
  using assms
proof (induction ops arbitrary: f)
  case Nil
  then show ?case by simp
next
  case (Cons op ops)
  then show ?case using Cons.IH [of "run_op f op"] by (simp add: run_op_outside)
qed

lemma copy_ops_Suc:
  "copy_ops f i (Suc k) = sector_ops (0x20000 + 4096 * i) (read_flash f (0x100000 + 4096 * i) 4096) @ copy_ops f (Suc i) k"
  by (simp add: copy_ops_def upt_rec [of i "Suc (i + k)"] del: upt_Suc)

lemma copy_ops_cong: "agree_staging f g \<Longrightarrow> i + k \<le> 224 \<Longrightarrow> copy_ops g i k = copy_ops f i k"
proof -
  assume a: "agree_staging f g" "i + k \<le> 224"
  have "read_flash g (0x100000 + 4096 * s) 4096 = read_flash f (0x100000 + 4096 * s) 4096"
    if "s < i + k" for s
    using a that by (intro read_flash_cong) (auto simp: agree_staging_def in_copy_def)
  then show ?thesis by (auto simp: copy_ops_def intro!: arg_cong [where f = concat])
qed

text \<open>The loop of the code performs exactly these operations.\<close>

lemma copy_loop_ops:
  assumes "flash_laws (boot_flash b)" "i + k \<le> 224"
  shows "\<exists>b'. bootloader_copy_loop (4096 * (i + k)) (4096 * i) b = Some b' \<and>
    boot_flash b' = foldl run_op (boot_flash b) (copy_ops (boot_flash b) i k)"
  using assms
proof (induction k arbitrary: i b)
  case 0
  then show ?case by (subst bootloader_copy_loop.simps) (simp add: copy_ops_def)
next
  case (Suc k)
  let ?b = "bootloader_copy_sector (4096 * i) b"
  have o: "4096 * i + 4096 \<le> 917504" using Suc.prems(2) by simp
  have eq: "boot_flash ?b = foldl run_op (boot_flash b)
      (sector_ops (0x20000 + 4096 * i) (read_flash (boot_flash b) (0x100000 + 4096 * i) 4096))"
    using copy_sector_eq [OF o, of b] by (simp add: sector_ops_run Let_def)
  have laws: "flash_laws (boot_flash ?b)"
    using flash_laws_same_driver [OF copy_sector_driver [OF o, of b]] Suc.prems(1) by simp
  have ag: "agree_staging (boot_flash b) (boot_flash ?b)"
  proof -
    have "mem (boot_flash ?b) a = mem (boot_flash b) a" if "in_metadata a \<or> in_copy a" for a
      unfolding eq using that o
      by (intro run_ops_outside Suc.prems(1) ballI conjI copy_ops_aligned [of _ "boot_flash b" i 1] notI)
        (use copy_ops_range [of _ "boot_flash b" i 1 a] in
          \<open>fastforce simp: copy_ops_def in_metadata_def in_copy_def\<close>)+
    then show ?thesis by (simp add: agree_staging_def)
  qed
  obtain b' where "bootloader_copy_loop (4096 * (Suc i + k)) (4096 * Suc i) ?b = Some b'"
    "boot_flash b' = foldl run_op (boot_flash ?b) (copy_ops (boot_flash ?b) (Suc i) k)"
    using Suc.IH [OF laws, of "Suc i"] Suc.prems(2) by auto
  moreover have "copy_ops (boot_flash ?b) (Suc i) k = copy_ops (boot_flash b) (Suc i) k"
    using Suc.prems(2) by (intro copy_ops_cong [OF ag]) simp
  moreover have "bootloader_copy_loop (4096 * (i + Suc k)) (4096 * i) b
      = bootloader_copy_loop (4096 * (Suc i + k)) (4096 * Suc i) ?b"
    using o by (subst bootloader_copy_loop.simps) (simp add: flash_sizes add32_id add.commute)
  ultimately show ?case using eq by (simp add: copy_ops_Suc)
qed

text \<open>
  A run of the bootloader that is cut off by a power failure while it copies, and any number of such
  runs one after the other.
\<close>

inductive power_loss :: "boot \<Rightarrow> boot \<Rightarrow> bool" where
  "update_pending b \<Longrightarrow>
   ops = copy_ops (boot_flash b) 0 (sectors (pending_size b) div 4096) \<Longrightarrow>
   j < length ops \<Longrightarrow>
   \<forall>a. \<not> op_range (ops ! j) a \<longrightarrow> m' a = mem (foldl run_op (boot_flash b) (take j ops)) a \<Longrightarrow>
   power_loss b (b\<lparr>boot_flash := (boot_flash b)\<lparr>mem := m'\<rparr>, sector_buffer := buf\<rparr>)"

inductive_cases power_lossE: "power_loss b b'"

text \<open>What such a run leaves alone.\<close>

definition only_program_area :: "nat \<Rightarrow> boot \<Rightarrow> boot \<Rightarrow> bool" where
  "only_program_area n b b' = (same_driver (boot_flash b) (boot_flash b') \<and>
     (\<forall>a. \<not> (0x20000 \<le> a \<and> a < 0x20000 + sectors n) \<longrightarrow> mem (boot_flash b') a = mem (boot_flash b) a))"

lemma power_loss_area:
  assumes "power_loss b b'" "flash_laws (boot_flash b)"
  shows "update_pending b \<and> only_program_area (pending_size b) b b'"
proof -
  let ?k = "sectors (pending_size b) div 4096"
  obtain ops j m' buf where ops: "ops = copy_ops (boot_flash b) 0 ?k" and p: "update_pending b" "j < length ops"
    "\<forall>a. \<not> op_range (ops ! j) a \<longrightarrow> m' a = mem (foldl run_op (boot_flash b) (take j ops)) a"
    "b' = b\<lparr>boot_flash := (boot_flash b)\<lparr>mem := m'\<rparr>, sector_buffer := buf\<rparr>"
    using assms(1) by (auto elim: power_lossE)
  have k: "4096 * ?k = sectors (pending_size b)" by (simp add: sectors_def)
  have "m' a = mem (boot_flash b) a" if "\<not> (0x20000 \<le> a \<and> a < 0x20000 + sectors (pending_size b))" for a
  proof -
    have out: "\<not> op_range op a" if "op \<in> set ops" for op
      using copy_ops_range [of op "boot_flash b" 0 ?k a] ops that k
        \<open>\<not> (0x20000 \<le> a \<and> a < 0x20000 + sectors (pending_size b))\<close> by auto
    then have "mem (foldl run_op (boot_flash b) (take j ops)) a = mem (boot_flash b) a"
      using copy_ops_aligned ops
      by (intro run_ops_outside assms(2)) (auto dest: in_set_takeD)
    moreover have "\<not> op_range (ops ! j) a" using out p(2) by simp
    ultimately show ?thesis using p(3) by simp
  qed
  then show ?thesis using p(1,4) by (simp add: only_program_area_def same_driver_def)
qed

lemma only_program_area_staging:
  "only_program_area n b b' \<Longrightarrow> n \<le> 917504 \<Longrightarrow> agree_staging (boot_flash b) (boot_flash b')"
  using sectors_le [of n] by (auto simp: only_program_area_def agree_staging_def in_metadata_def in_copy_def)

lemma power_losses_area:
  assumes "power_loss\<^sup>*\<^sup>* b b'" "flash_laws (boot_flash b)" "update_pending b"
  shows "update_pending b' \<and> pending_size b' = pending_size b \<and> only_program_area (pending_size b) b b'"
  using assms(1)
proof (induction rule: rtranclp_induct)
  case base
  then show ?case using assms(3) by (simp add: only_program_area_def)
next
  case (step b1 b2)
  have n: "pending_size b \<le> 917504" using pending_size_bound [OF assms(3)] by simp
  have "flash_laws (boot_flash b1)"
    using step.IH assms(2) flash_laws_same_driver by (simp add: only_program_area_def) metis
  then have s: "only_program_area (pending_size b1) b1 b2" using power_loss_area [OF step.hyps(2)] by simp
  then have "only_program_area (pending_size b) b b2"
    using step.IH by (auto simp: only_program_area_def intro: same_driver_trans)
  moreover have "agree_staging (boot_flash b1) (boot_flash b2)"
    using only_program_area_staging [OF s] step.IH n by simp
  ultimately show ?case using update_pending_cong step.IH by simp
qed

subsection \<open>The properties of the bootloader\<close>

text \<open>A complete pending update: a header in the metadata sector and a staged image.\<close>

definition pending_boot :: "u8 list \<Rightarrow> boot" where
  "pending_boot img = \<lparr>boot_flash = nor_flash (uploaded_mem (\<lambda>a. 0) (ota_package img 1)) (\<lambda>k. True),
     sector_buffer = replicate 4096 0\<rparr>"

definition sample_image :: "u8 list" where
  "sample_image = [0, 32, 4, 32, 5, 0, 2, 16]"

lemma vectors_mono:
  "bootloader_app_vector_is_valid sp rh base m \<Longrightarrow> base + m' < 2 ^ 32 \<Longrightarrow> m \<le> m' \<Longrightarrow>
   bootloader_app_vector_is_valid sp rh base m'"
  by (auto simp: bootloader_app_vector_is_valid_def Let_def add32_id split: if_splits)

lemma read_flash_take: "k \<le> n \<Longrightarrow> read_flash f off k = take k (read_flash f off n)"
  by (simp add: list_eq_iff_nth_eq)

lemma package_metadata:
  assumes "mem f = uploaded_mem m bs" "4096 \<le> length bs"
  shows "read_flash f 0x1f000 4096 = take 4096 bs"
  using assms by (intro read_flash_eqI) (simp_all add: uploaded_mem_def in_metadata_def)

lemma uploaded_image:
  assumes "mem f = uploaded_mem m bs" "n = length bs - 4096"
  shows "read_flash f 0x100000 n = drop 4096 bs"
  using assms by (intro read_flash_eqI) (auto simp: uploaded_mem_def in_metadata_def image_mem_def staged_mem_def)

text \<open>A header the application accepts is one the bootloader accepts.\<close>

lemma header_not_blank: "magic (manifest_of data) = FIRMWARE_UPDATE_MAGIC \<Longrightarrow> 4 \<le> length data \<Longrightarrow>
  \<not> bootloader_manifest_is_blank data"
proof
  assume m: "magic (manifest_of data) = FIRMWARE_UPDATE_MAGIC" "4 \<le> length data" "bootloader_manifest_is_blank data"
  then have "data ! i = 0xff \<or> data ! i = 0" if "i < 4" for i
    using that by (simp add: bootloader_manifest_is_blank_def)
  then have "unat (data ! i) = 255 \<or> unat (data ! i) = 0" if "i < 4" for i
    using that by force
  from this [of 0] this [of 1] this [of 2] this [of 3]
  have "unat (read_le32 data 0) \<noteq> 0x55424250" by (auto simp: read_le32_def unat_le32 numeral_3_eq_3 numeral_2_eq_2)
  then show False using m(1) by (simp add: manifest_of_def FIRMWARE_UPDATE_MAGIC_def)
qed

lemma valid_upload_boot:
  assumes "app_firmware_update_manifest_is_valid h n = Some mf" "length h = 4096"
  shows "bootloader_manifest_is_valid h \<and> mf = manifest_of h"
proof -
  have m: "mf = manifest_of h" "0 < unat (image_size mf)" "unat (image_size mf) \<le> 917504"
    using manifest_valid_size [OF assms(1)] by auto
  have "magic mf = FIRMWARE_UPDATE_MAGIC \<and> version mf = FIRMWARE_UPDATE_MANIFEST_VERSION \<and>
      unat (header_size mf) = sizeof_manifest \<and> flags mf AND FIRMWARE_UPDATE_FLAG_PENDING \<noteq> 0 \<and>
      app_firmware_update_crc32 (take offsetof_header_crc32 h) = header_crc32 mf"
    using assms(1) by (auto simp: app_firmware_update_manifest_is_valid_def Let_def split: if_splits)
  then show ?thesis using m header_not_blank [of h] assms(2)
    by (simp add: bootloader_manifest_is_valid_def Let_def boot_crc32_eq)
qed

text \<open>When the image of an accepted upload is one the bootloader installs.\<close>

definition image_accepted :: "u8 list \<Rightarrow> u8 list \<Rightarrow> bool" where
  "image_accepted header img =
     (8 \<le> length img \<and> length img \<le> 917504 \<and>
      bootloader_app_vector_is_valid (read_le32 img 0) (read_le32 img 4) APP_IMAGE_BASE (length img) \<and>
      bootloader_crc32 img = image_crc32 (manifest_of header))"

lemma pending_uploaded:
  assumes "mem (boot_flash b) = uploaded_mem m bs" "complete_upload n bs"
  shows "update_pending b = image_accepted (take 4096 bs) (drop 4096 bs)"
    "pending_size b = length bs - 4096"
proof -
  obtain mf where mf: "app_firmware_update_manifest_is_valid (take 4096 bs) n = Some mf" and n: "length bs = n"
    using assms(2) by (auto simp: complete_upload_def valid_upload_def)
  then have sz: "n = 4096 + unat (image_size mf)" "unat (image_size mf) \<le> 917504" using manifest_valid_size by auto
  have v: "bootloader_manifest_is_valid (take 4096 bs)" "mf = manifest_of (take 4096 bs)"
    using valid_upload_boot [OF mf] n sz by simp_all
  have md: "metadata_of b = take 4096 bs" using package_metadata [OF assms(1)] n sz by simp
  show p: "pending_size b = length bs - 4096" using md v(2) sz n by (simp add: pending_size_def)
  let ?k = "unat (image_size mf)"
  have im: "read_flash (boot_flash b) 0x100000 ?k = drop 4096 bs" using uploaded_image [OF assms(1)] n sz by simp
  have "read_flash (boot_flash b) 0x100000 8 = take 8 (drop 4096 bs)" if "8 \<le> ?k"
    using read_flash_take [OF that, where f = "boot_flash b" and off = "0x100000"] im by simp
  moreover have "read_le32 (take 8 xs) 0 = read_le32 xs 0" "read_le32 (take 8 xs) 4 = read_le32 xs 4" for xs
    by (simp_all add: read_le32_def)
  ultimately show "update_pending b = image_accepted (take 4096 bs) (drop 4096 bs)"
    using md v im n sz
    by (auto simp: update_pending_def bootloader_staged_image_is_valid_def bootloader_image_vectors_are_valid_def
        image_accepted_def Let_def)
qed

lemma length_sample: "length sample_image = 8"
  by (simp add: sample_image_def)

lemma sample_accepted: "image_accepted (package_header sample_image 1) sample_image"
proof -
  have "read_le32 sample_image 0 = 0x20042000" "read_le32 sample_image 4 = 0x10020005"
    by (simp_all add: sample_image_def read_le32_def le32_def)
  moreover have "bootloader_app_vector_is_valid 0x20042000 0x10020005 APP_IMAGE_BASE 8"
    by (simp add: bootloader_app_vector_is_valid_def boot_consts add32_id)
  ultimately show ?thesis
    by (simp add: image_accepted_def manifest_package boot_crc32_eq length_sample)
qed

lemma pending_sample: "update_pending (pending_boot sample_image)" "pending_size (pending_boot sample_image) = 8"
proof -
  have c: "complete_upload (4096 + length sample_image) (ota_package sample_image 1)"
    by (rule package_complete) (simp_all add: sample_image_def)
  have m: "mem (boot_flash (pending_boot sample_image)) = uploaded_mem (\<lambda>a. 0) (ota_package sample_image 1)"
    by (simp add: pending_boot_def)
  show "update_pending (pending_boot sample_image)"
    using pending_uploaded(1) [OF m c] sample_accepted by simp
  show "pending_size (pending_boot sample_image) = 8"
    using pending_uploaded(2) [OF m c] by (simp add: ota_package_def) (simp add: sample_image_def)
qed

lemma pending_boot_laws [simp]: "flash_laws (boot_flash (pending_boot img))"
  by (simp add: pending_boot_def)

text \<open>
  C5: a pending update is applied and started: the bootloader reboots with the staged image, rounded up
  to whole sectors, in the program area, the metadata sector erased and every other byte of the flash as
  it was; the next run finds nothing to do and enters the installed program at its own vectors.
\<close>

theorem bootloader_installs:
  assumes "flash_laws (boot_flash b)" and "update_pending b"
  shows "\<exists>b'. bootloader_main b = Some (b', Boot_reboot) \<and>
    mem (boot_flash b') = installed_mem (mem (boot_flash b)) (pending_size b) \<and>
    bootloader_main b' = Some (b', Boot_app (read_le32 (read_flash (boot_flash b) 0x100000 8) 0)
                                            (read_le32 (read_flash (boot_flash b) 0x100000 8) 4))"
proof -
  obtain b' where b': "bootloader_try_apply_update b = Some (b', True)"
    "mem (boot_flash b') = installed_mem (mem (boot_flash b)) (pending_size b)"
    using try_apply_spec [OF assms] by blast
  let ?n = "pending_size b" and ?v = "read_flash (boot_flash b) 0x100000 8"
  have vec: "8 \<le> ?n" "?n \<le> 917504"
    "bootloader_app_vector_is_valid (read_le32 ?v 0) (read_le32 ?v 4) APP_IMAGE_BASE ?n"
    using assms(2) by (auto simp: update_pending_def bootloader_staged_image_is_valid_def pending_size_def
        bootloader_image_vectors_are_valid_def Let_def split: if_splits)
  then have "bootloader_app_vector_is_valid (read_le32 ?v 0) (read_le32 ?v 4) APP_IMAGE_BASE APP_IMAGE_SIZE"
    by (intro vectors_mono [OF vec(3)]) (simp_all add: APP_IMAGE_BASE_def)
  moreover have "read_flash (boot_flash b') 0x20000 8 = ?v"
    using b'(2) vec(1) sectors_bounds(1) [of ?n]
    by (intro read_flash_eqI) (simp_all add: installed_mem_def copied_mem_def in_metadata_def add.commute)
  ultimately have "bootloader_main b' = Some (b', Boot_app (read_le32 ?v 0) (read_le32 ?v 4))"
    using try_apply_none [OF installed_not_pending [OF b'(2)]]
    by (simp add: bootloader_main_def bootloader_jump_to_app_def Let_def)
  then show ?thesis using b' by (simp add: bootloader_main_def)
qed

theorem bootloader_installs_witness:
  "\<exists>b'. bootloader_main (pending_boot sample_image) = Some (b', Boot_reboot) \<and>
     bootloader_main b' = Some (b', Boot_app 0x20042000 0x10020005)"
proof -
  have im: "mem (boot_flash (pending_boot sample_image)) (0x100000 + i) = sample_image ! i" if "i < 8" for i
    using that by (simp add: pending_boot_def uploaded_mem_def in_metadata_def image_mem_def staged_mem_def length_sample)
  have v: "read_flash (boot_flash (pending_boot sample_image)) 0x100000 8 = sample_image"
    using im by (intro read_flash_eqI) (simp_all add: length_sample)
  have w: "read_le32 sample_image 0 = 0x20042000" "read_le32 sample_image 4 = 0x10020005"
    by (simp_all add: sample_image_def read_le32_def le32_def)
  show ?thesis
    using bootloader_installs [OF pending_boot_laws pending_sample(1)] by (auto simp: v w)
qed



lemma read_flash_update:
  assumes "mem g = (mem f)(a := v)"
  shows "\<not> (off \<le> a \<and> a < off + n) \<Longrightarrow> read_flash g off n = read_flash f off n"
    "off \<le> a \<Longrightarrow> a < off + n \<Longrightarrow> read_flash g off n = (read_flash f off n)[a - off := v]"
  using assms by (auto simp: list_eq_iff_nth_eq nth_list_update)

lemma read_le32_update:
  assumes "i \<le> k" "k < i + 4" "i + 4 \<le> length xs" "read_le32 (xs[k := v]) i = read_le32 xs i"
  shows "v = xs ! k"
proof -
  have "unat (read_le32 (xs[k := v]) i) = unat (read_le32 xs i)" using assms(4) by simp
  moreover have "k = i \<or> k = i + 1 \<or> k = i + 2 \<or> k = i + 3" using assms(1,2) by linarith
  ultimately have "unat v = unat (xs ! k)"
    using assms(3) by (elim disjE) (simp_all add: read_le32_def unat_le32 numeral_3_eq_3)
  then show ?thesis by (simp add: word_unat_eq_iff)
qed

text \<open>
  C7: a manifest or a staged image in which a single byte went bad, wherever it lies, is never applied:
  the bootloader leaves the flash alone and goes on to the installed program.
\<close>

theorem bootloader_rejects_corruption:
  assumes "update_pending b"
    and "mem (boot_flash b') = (mem (boot_flash b))(a := v)" and "v \<noteq> mem (boot_flash b) a"
    and "0x1f000 \<le> a \<and> a < 0x1f000 + 64 \<or> 0x100000 \<le> a \<and> a < 0x100000 + pending_size b"
  shows "bootloader_try_apply_update b' = Some (b', False)"
proof -
  note upd = read_flash_update [OF assms(2)]
  have n: "pending_size b \<le> 917504" using pending_size_bound [OF assms(1)] by simp
  have "\<not> update_pending b'" using assms(4)
  proof (elim disjE conjE)
    assume a: "0x100000 \<le> a" "a < 0x100000 + pending_size b"
    have md: "metadata_of b' = metadata_of b" using a by (intro upd(1)) simp
    let ?xs = "read_flash (boot_flash b) 0x100000 (pending_size b)"
    have "read_flash (boot_flash b') 0x100000 (pending_size b) = ?xs[a - 0x100000 := v]"
      using a by (intro upd(2)) simp_all
    moreover have "bootloader_crc32 (?xs[a - 0x100000 := v]) \<noteq> bootloader_crc32 ?xs"
    proof -
      have "a - 0x100000 < pending_size b" using a by linarith
      then show ?thesis using boot_crc32_update_byte [of "a - 0x100000" ?xs v] a assms(3) by auto
    qed
    ultimately show ?thesis using assms(1) md
      by (auto simp: update_pending_def bootloader_staged_image_is_valid_def pending_size_def split: if_splits)
  next
    assume a: "0x1f000 \<le> a" "a < 0x1f000 + 64"
    let ?xs = "metadata_of b" and ?k = "a - 0x1f000"
    have k: "?k < 64" using a by simp
    have md: "metadata_of b' = ?xs[?k := v]" using a by (intro upd(2)) simp_all
    have ne: "v \<noteq> ?xs ! ?k" using a assms(3) by simp
    have v: "bootloader_crc32 (take 60 ?xs) = read_le32 ?xs 60"
      using assms(1) by (auto simp: update_pending_def bootloader_manifest_is_valid_def Let_def manifest_of_def
          offsetof_header_crc32_def split: if_splits)
    have "bootloader_crc32 (take 60 (?xs[?k := v])) \<noteq> read_le32 (?xs[?k := v]) 60"
    proof (cases "?k < 60")
      case True
      then have "read_le32 (?xs[?k := v]) 60 = read_le32 ?xs 60" by (simp add: read_le32_def)
      moreover have "take 60 (?xs[?k := v]) = (take 60 ?xs)[?k := v]" by (simp add: take_update_swap)
      ultimately show ?thesis
        using v boot_crc32_update_byte [of ?k "take 60 ?xs" v] True ne by auto
    next
      case False
      then show ?thesis
        using v read_le32_update [of 60 ?k ?xs v] k ne by (auto simp: take_update_cancel)
    qed
    then show ?thesis using md
      by (auto simp: update_pending_def bootloader_manifest_is_valid_def Let_def manifest_of_def
          offsetof_header_crc32_def)
  qed
  then show ?thesis by (rule try_apply_none)
qed

theorem bootloader_rejects_corruption_witness:
  "\<exists>b'. mem (boot_flash b') 0x100003 = 33 \<and> bootloader_try_apply_update b' = Some (b', False)"
proof -
  let ?b = "pending_boot sample_image"
  let ?b' = "?b\<lparr>boot_flash := (boot_flash ?b)\<lparr>mem := (mem (boot_flash ?b))(0x100003 := 33)\<rparr>\<rparr>"
  have "mem (boot_flash ?b) 0x100003 = sample_image ! 3"
    by (simp add: pending_boot_def uploaded_mem_def in_metadata_def image_mem_def staged_mem_def length_sample)
  then have "33 \<noteq> mem (boot_flash ?b) 0x100003" by (simp add: sample_image_def)
  then have "bootloader_try_apply_update ?b' = Some (?b', False)"
    by (intro bootloader_rejects_corruption [OF pending_sample(1), where a = "0x100003" and v = 33])
      (simp_all add: pending_sample(2))
  then show ?thesis by (intro exI [of _ ?b']) simp
qed

end
