(* ===== verification/Udp_Socket.thy ===== *)
theory Udp_Socket
  imports Base
begin

text \<open>
  The UDP sockets of \<^verbatim>\<open>dhcpserver.c\<close> and \<^verbatim>\<open>dnsserver.c\<close>, and the message buffers on their stack.  lwIP is
  the parameter \<open>net\<close>.  A buffer is a function from offsets to bytes: what the C function left
  uninitialised, and what lies behind the buffer, are the bytes of the initial function.
\<close>

subsection \<open>lwIP\<close>

record 'w udp_net =
  udp_new :: "'w \<Rightarrow> 'w \<times> bool"
  udp_bind :: "u32 \<Rightarrow> nat \<Rightarrow> 'w \<Rightarrow> 'w \<times> int"
  udp_remove :: "'w \<Rightarrow> 'w"
  pbuf_alloc :: "nat \<Rightarrow> 'w \<Rightarrow> 'w \<times> bool"
  udp_sendto :: "u8 list \<Rightarrow> u32 \<Rightarrow> nat \<Rightarrow> 'w \<Rightarrow> 'w \<times> int"

definition ENOMEM :: int where "ENOMEM = 12"

subsection \<open>Sockets\<close>

text \<open>Whether there is a socket is the state of the \<^verbatim>\<open>udp\<close> pointer.\<close>

definition socket_new_dgram :: "'w udp_net \<Rightarrow> 'w \<Rightarrow> 'w \<times> bool \<times> int" where
  "socket_new_dgram net w = (case udp_new net w of (w1, ok) \<Rightarrow> if \<not> ok then (w1, False, - ENOMEM) else (w1, True, 0))"

definition socket_free :: "'w udp_net \<Rightarrow> bool \<Rightarrow> 'w \<Rightarrow> 'w \<times> bool" where
  "socket_free net udp w = (if udp then (udp_remove net w, False) else (w, udp))"

definition socket_sendto :: "'w udp_net \<Rightarrow> u8 list \<Rightarrow> u32 \<Rightarrow> nat \<Rightarrow> 'w \<Rightarrow> 'w \<times> int" where
  "socket_sendto net buf ip port w =
     (let bs = take 0xFFFF buf
      in case pbuf_alloc net (length bs) w of
           (w1, False) \<Rightarrow> (w1, - ENOMEM)
         | (w1, True) \<Rightarrow>
             (case udp_sendto net bs ip port w1 of
                (w2, err) \<Rightarrow> if err \<noteq> 0 then (w2, err) else (w2, int (length bs))))"

subsection \<open>Buffers\<close>

type_synonym buffer = "nat \<Rightarrow> u8"

definition pbuf_copy_partial :: "nat \<Rightarrow> u8 list \<Rightarrow> buffer \<Rightarrow> buffer \<times> nat" where
  "pbuf_copy_partial n payload m =
     (let len = min n (length payload) in (\<lambda>i. if i < len then payload ! i else m i, len))"

definition write_at :: "nat \<Rightarrow> u8 list \<Rightarrow> buffer \<Rightarrow> buffer" where
  "write_at p bs m = (\<lambda>i. if p \<le> i \<and> i < p + length bs then bs ! (i - p) else m i)"

definition bytes_at :: "buffer \<Rightarrow> nat \<Rightarrow> nat \<Rightarrow> u8 list" where
  "bytes_at m p n = List.map m [p..<p + n]"

lemma length_bytes_at [simp]: "length (bytes_at m p n) = n"
  by (simp add: bytes_at_def)

lemma nth_bytes_at [simp]: "i < n \<Longrightarrow> bytes_at m p n ! i = m (p + i)"
  by (simp add: bytes_at_def)

lemma bytes_at_add: "bytes_at m p (n + k) = bytes_at m p n @ bytes_at m (p + n) k"
  unfolding bytes_at_def map_append [symmetric] using upt_add_eq_append [of p "p + n" k] by (simp add: add.assoc)

lemma bytes_at_outside: "p + n \<le> q \<or> q + length bs \<le> p \<Longrightarrow> bytes_at (write_at q bs m) p n = bytes_at m p n"
  by (auto simp: bytes_at_def write_at_def)

lemma bytes_at_write: "n = length bs \<Longrightarrow> bytes_at (write_at p bs m) p n = bs"
  by (simp add: list_eq_iff_nth_eq write_at_def)

lemma write_at_outside: "i < p \<or> p + length bs \<le> i \<Longrightarrow> write_at p bs m i = m i"
  by (auto simp: write_at_def)

lemma bytes_at_append: "bytes_at (write_at p bs m) 0 (p + length bs) = bytes_at m 0 p @ bs"
  by (simp add: bytes_at_add bytes_at_outside bytes_at_write)

lemma bytes_at_copied:
  "p + n \<le> min k (length payload) \<Longrightarrow> bytes_at (fst (pbuf_copy_partial k payload m)) p n = take n (drop p payload)"
  by (auto simp: list_eq_iff_nth_eq pbuf_copy_partial_def Let_def)

end
