(* ===== verification/Dhcp_Server.thy ===== *)
theory Dhcp_Server
  imports Udp_Socket
begin

text \<open>
  \<^verbatim>\<open>dhcpserver.c\<close>: the DHCP server of the access point.  It keeps eight leases for the addresses .16 to
  .23; a MAC address of six zeros marks a free lease.  What is printed for debugging is left out.
\<close>

unbundle bit_operations_syntax

subsection \<open>Data\<close>

definition DHCPDISCOVER :: u8 where "DHCPDISCOVER = 1"
definition DHCPOFFER :: u8 where "DHCPOFFER = 2"
definition DHCPREQUEST :: u8 where "DHCPREQUEST = 3"
definition DHCPACK :: u8 where "DHCPACK = 5"
definition DHCP_OPT_SUBNET_MASK :: u8 where "DHCP_OPT_SUBNET_MASK = 1"
definition DHCP_OPT_ROUTER :: u8 where "DHCP_OPT_ROUTER = 3"
definition DHCP_OPT_DNS :: u8 where "DHCP_OPT_DNS = 6"
definition DHCP_OPT_REQUESTED_IP :: u8 where "DHCP_OPT_REQUESTED_IP = 50"
definition DHCP_OPT_IP_LEASE_TIME :: u8 where "DHCP_OPT_IP_LEASE_TIME = 51"
definition DHCP_OPT_MSG_TYPE :: u8 where "DHCP_OPT_MSG_TYPE = 53"
definition DHCP_OPT_SERVER_ID :: u8 where "DHCP_OPT_SERVER_ID = 54"
definition DHCP_OPT_END :: u8 where "DHCP_OPT_END = 255"
definition PORT_DHCP_SERVER :: nat where "PORT_DHCP_SERVER = 67"
definition PORT_DHCP_CLIENT :: nat where "PORT_DHCP_CLIENT = 68"
definition DEFAULT_LEASE_TIME_S :: nat where "DEFAULT_LEASE_TIME_S = 24 * 60 * 60"
definition MAC_LEN :: nat where "MAC_LEN = 6"
definition DHCPS_BASE_IP :: nat where "DHCPS_BASE_IP = 16"
definition DHCPS_MAX_IP :: nat where "DHCPS_MAX_IP = 8"
definition DHCP_MIN_SIZE :: nat where "DHCP_MIN_SIZE = 240 + 3"

lemmas dhcp_codes = DHCPDISCOVER_def DHCPOFFER_def DHCPREQUEST_def DHCPACK_def DHCP_OPT_SUBNET_MASK_def DHCP_OPT_ROUTER_def
  DHCP_OPT_DNS_def DHCP_OPT_REQUESTED_IP_def DHCP_OPT_IP_LEASE_TIME_def DHCP_OPT_MSG_TYPE_def DHCP_OPT_SERVER_ID_def DHCP_OPT_END_def

lemmas dhcp_sizes = MAC_LEN_def DHCPS_BASE_IP_def DHCPS_MAX_IP_def DHCP_MIN_SIZE_def DEFAULT_LEASE_TIME_S_def

text \<open>The fields of \<^verbatim>\<open>dhcp_msg_t\<close> by their offset; the options start behind the magic cookie.\<close>

definition off_yiaddr :: nat where "off_yiaddr = 16"
definition off_chaddr :: nat where "off_chaddr = 28"
definition off_options :: nat where "off_options = 236"
definition sizeof_dhcp_msg :: nat where "sizeof_dhcp_msg = 548"

lemmas dhcp_offsets = off_yiaddr_def off_chaddr_def off_options_def sizeof_dhcp_msg_def

record dhcp_lease =
  ls_mac :: "u8 list"
  ls_expiry :: u16

record dhcp_server =
  d_ip :: "u8 list"
  d_nm :: "u8 list"
  d_lease :: "dhcp_lease list"
  d_udp :: bool

subsection \<open>Options\<close>

text \<open>\<open>opt\<close> is the offset in the buffer, \<open>i\<close> the loop counter; the result is an offset in the buffer.\<close>

function opt_find_loop :: "buffer \<Rightarrow> nat \<Rightarrow> u8 \<Rightarrow> nat \<Rightarrow> nat option" where
  "opt_find_loop msg opt cmd i =
     (if i < 308 \<and> msg (opt + i) \<noteq> DHCP_OPT_END
      then (if msg (opt + i) = cmd then Some (opt + i)
            else opt_find_loop msg opt cmd (i + (2 + unat (msg (opt + (i + 1))))))
      else None)"
  by pat_completeness auto
termination
  by (relation "measure (\<lambda>(msg, opt, cmd, i). 308 - i)") auto

declare opt_find_loop.simps [simp del]

definition opt_find :: "buffer \<Rightarrow> nat \<Rightarrow> u8 \<Rightarrow> nat option" where
  "opt_find msg opt cmd = opt_find_loop msg opt cmd 0"

text \<open>The writers take the buffer and the write position.\<close>

definition opt_write_n :: "u8 \<Rightarrow> u8 list \<Rightarrow> buffer \<times> nat \<Rightarrow> buffer \<times> nat" where
  "opt_write_n cmd data mo = (case mo of (msg, opt) \<Rightarrow>
     (write_at opt (cmd # of_nat (length data) # data) msg, opt + (2 + length data)))"

definition opt_write_u8 :: "u8 \<Rightarrow> u8 \<Rightarrow> buffer \<times> nat \<Rightarrow> buffer \<times> nat" where
  "opt_write_u8 cmd val mo = (case mo of (msg, opt) \<Rightarrow> (write_at opt [cmd, 1, val] msg, opt + 3))"

definition opt_write_u32 :: "u8 \<Rightarrow> u32 \<Rightarrow> buffer \<times> nat \<Rightarrow> buffer \<times> nat" where
  "opt_write_u32 cmd val mo = (case mo of (msg, opt) \<Rightarrow>
     (write_at opt [cmd, 4, ucast (drop_bit 24 val), ucast (drop_bit 16 val), ucast (drop_bit 8 val), ucast val] msg, opt + 6))"

subsection \<open>Leases\<close>

definition zero_mac :: "u8 list" where "zero_mac = replicate MAC_LEN 0"

text \<open>\<^verbatim>\<open>expiry << 16 | 0xffff\<close> against the clock, which is read once for a message.\<close>

definition lease_expired :: "u32 \<Rightarrow> dhcp_lease \<Rightarrow> bool" where
  "lease_expired now l = (\<not> time_due (push_bit 16 (ucast (ls_expiry l)) OR 0xFFFF) now)"

text \<open>The loop of DHCPDISCOVER from row \<open>i\<close> on, \<open>yi\<close> being the row found so far.\<close>

fun discover_loop :: "u8 list \<Rightarrow> u32 \<Rightarrow> nat \<Rightarrow> nat \<Rightarrow> dhcp_lease list \<Rightarrow> dhcp_lease list \<times> nat" where
  "discover_loop mac now i yi [] = ([], yi)"
| "discover_loop mac now i yi (l # ls) =
     (if ls_mac l = mac then (l # ls, i)
      else if yi = DHCPS_MAX_IP then
        let yi1 = (if ls_mac l = zero_mac then i else yi);
            yi2 = (if lease_expired now l then i else yi1);
            l2 = (if lease_expired now l then l\<lparr>ls_mac := zero_mac\<rparr> else l)
        in case discover_loop mac now (Suc i) yi2 ls of (ls', r) \<Rightarrow> (l2 # ls', r)
      else case discover_loop mac now (Suc i) yi ls of (ls', r) \<Rightarrow> (l # ls', r))"

definition dhcp_expiry :: "u32 \<Rightarrow> u16" where
  "dhcp_expiry now = ucast (drop_bit 16 (now + of_nat (DEFAULT_LEASE_TIME_S * 1000)))"

subsection \<open>A message\<close>

text \<open>The two message types: the new leases and the row to answer with; \<open>None\<close>: the message is ignored.\<close>

definition dhcp_discover :: "u32 \<Rightarrow> buffer \<Rightarrow> dhcp_server \<Rightarrow> dhcp_server \<times> nat option" where
  "dhcp_discover now msg d =
     (case discover_loop (bytes_at msg off_chaddr MAC_LEN) now 0 DHCPS_MAX_IP (d_lease d) of
        (leases, yi) \<Rightarrow> (d\<lparr>d_lease := leases\<rparr>, if yi = DHCPS_MAX_IP then None else Some yi))"

definition dhcp_request :: "u32 \<Rightarrow> buffer \<Rightarrow> nat \<Rightarrow> dhcp_server \<Rightarrow> dhcp_server \<times> nat option" where
  "dhcp_request now msg opt d =
     (case opt_find msg opt DHCP_OPT_REQUESTED_IP of
        None \<Rightarrow> (d, None)
      | Some oo \<Rightarrow>
          if bytes_at msg (oo + 2) 3 \<noteq> take 3 (d_ip d) then (d, None)
          else
            let yi = unat (msg (oo + 5) - of_nat DHCPS_BASE_IP)
            in if yi \<ge> DHCPS_MAX_IP then (d, None)
               else
                 let l = d_lease d ! yi; mac = bytes_at msg off_chaddr MAC_LEN
                 in if ls_mac l = mac then (d\<lparr>d_lease := (d_lease d)[yi := l\<lparr>ls_expiry := dhcp_expiry now\<rparr>]\<rparr>, Some yi)
                    else if ls_mac l = zero_mac
                    then (d\<lparr>d_lease := (d_lease d)[yi := l\<lparr>ls_mac := mac, ls_expiry := dhcp_expiry now\<rparr>]\<rparr>, Some yi)
                    else (d, None))"

text \<open>The common part of the answer: the type, the other options, the end mark.\<close>

definition dhcp_reply :: "dhcp_server \<Rightarrow> u8 \<Rightarrow> nat \<Rightarrow> buffer \<Rightarrow> nat \<Rightarrow> u8 list" where
  "dhcp_reply d msgtype yi msg opt =
     (case opt_write_u32 DHCP_OPT_IP_LEASE_TIME (of_nat DEFAULT_LEASE_TIME_S)
            (opt_write_n DHCP_OPT_DNS (d_ip d) (opt_write_n DHCP_OPT_ROUTER (d_ip d)
              (opt_write_n DHCP_OPT_SUBNET_MASK (d_nm d) (opt_write_n DHCP_OPT_SERVER_ID (d_ip d)
                (opt_write_u8 DHCP_OPT_MSG_TYPE msgtype
                  (write_at (off_yiaddr + 3) [of_nat (DHCPS_BASE_IP + yi)] msg, opt)))))) of
        (msg', opt') \<Rightarrow> bytes_at (write_at opt' [DHCP_OPT_END] msg') 0 (opt' + 1))"

text \<open>
  \<^verbatim>\<open>dhcp_server_process\<close> up to the sending: \<open>stack\<close> is the content of the stack frame, \<open>payload\<close> the
  datagram; the second result is what is sent to 255.255.255.255.
\<close>

definition dhcp_answer :: "buffer \<Rightarrow> u32 \<Rightarrow> u8 list \<Rightarrow> dhcp_server \<Rightarrow> dhcp_server \<times> u8 list option" where
  "dhcp_answer stack now payload d =
     (if length payload < DHCP_MIN_SIZE then (d, None)
      else case pbuf_copy_partial sizeof_dhcp_msg payload stack of
        (msg0, len) \<Rightarrow>
          if len < DHCP_MIN_SIZE then (d, None)
          else
            let msg = write_at off_yiaddr (d_ip d) (write_at 0 [DHCPOFFER] msg0);
                opt = off_options + 4
            in case opt_find msg opt DHCP_OPT_MSG_TYPE of
                 None \<Rightarrow> (d, None)
               | Some msgtype \<Rightarrow>
                   if msg (msgtype + 2) = DHCPDISCOVER then
                     (case dhcp_discover now msg d of
                        (d1, None) \<Rightarrow> (d1, None)
                      | (d1, Some yi) \<Rightarrow> (d1, Some (dhcp_reply d DHCPOFFER yi msg opt)))
                   else if msg (msgtype + 2) = DHCPREQUEST then
                     (case dhcp_request now msg opt d of
                        (d1, None) \<Rightarrow> (d1, None)
                      | (d1, Some yi) \<Rightarrow> (d1, Some (dhcp_reply d DHCPACK yi msg opt)))
                   else (d, None))"

definition dhcp_server_process :: "'w udp_net \<Rightarrow> buffer \<Rightarrow> u32 \<Rightarrow> u8 list \<Rightarrow> dhcp_server \<times> 'w \<Rightarrow> dhcp_server \<times> 'w" where
  "dhcp_server_process net stack now payload s =
     (case s of (d, w) \<Rightarrow>
        case dhcp_answer stack now payload d of
          (d1, None) \<Rightarrow> (d1, w)
        | (d1, Some reply) \<Rightarrow> (d1, fst (socket_sendto net reply 0xFFFFFFFF PORT_DHCP_CLIENT w)))"

definition dhcp_server_init :: "'w udp_net \<Rightarrow> u8 list \<Rightarrow> u8 list \<Rightarrow> 'w \<Rightarrow> dhcp_server \<times> 'w" where
  "dhcp_server_init net ip nm w =
     (case socket_new_dgram net w of
        (w1, udp, err) \<Rightarrow>
          let d = \<lparr>d_ip = ip, d_nm = nm, d_lease = replicate DHCPS_MAX_IP \<lparr>ls_mac = zero_mac, ls_expiry = 0\<rparr>, d_udp = udp\<rparr>
          in if err \<noteq> 0 then (d, w1) else (d, fst (udp_bind net 0 PORT_DHCP_SERVER w1)))"

definition dhcp_server_deinit :: "'w udp_net \<Rightarrow> dhcp_server \<times> 'w \<Rightarrow> dhcp_server \<times> 'w" where
  "dhcp_server_deinit net s = (case s of (d, w) \<Rightarrow> case socket_free net (d_udp d) w of (w1, udp) \<Rightarrow> (d\<lparr>d_udp := udp\<rparr>, w1))"

subsection \<open>The shape of the state and of the answers\<close>

definition dhcp_ok :: "dhcp_server \<Rightarrow> bool" where
  "dhcp_ok d = (length (d_ip d) = 4 \<and> length (d_nm d) = 4 \<and> length (d_lease d) = 8 \<and> (\<forall>l\<in>set (d_lease d). length (ls_mac l) = 6))"

definition client_of :: "u8 list \<Rightarrow> u8 list" where
  "client_of payload = take 6 (drop 28 payload)"

text \<open>The answer, written out: it has no byte of the stack.\<close>

definition dhcp_packet :: "dhcp_server \<Rightarrow> u8 \<Rightarrow> nat \<Rightarrow> u8 list \<Rightarrow> u8 list" where
  "dhcp_packet d msgtype yi payload =
     [2] @ take 15 (drop 1 payload) @ take 3 (d_ip d) @ [of_nat (16 + yi)] @ take 220 (drop 20 payload) @
     [53, 1, msgtype] @ [54, 4] @ d_ip d @ [1, 4] @ d_nm d @ [3, 4] @ d_ip d @ [6, 4] @ d_ip d @ [51, 4, 0, 1, 0x51, 0x80] @ [255]"

lemma opt_write_bytes:
  "snd (opt_write_n cmd data mo) = snd mo + (2 + length data)"
  "snd (opt_write_u8 cmd val mo) = snd mo + 3" "snd (opt_write_u32 cmd v mo) = snd mo + 6"
  "bytes_at (fst (opt_write_n cmd data mo)) 0 (snd mo + (2 + length data)) = bytes_at (fst mo) 0 (snd mo) @ cmd # of_nat (length data) # data"
  "bytes_at (fst (opt_write_u8 cmd val mo)) 0 (snd mo + 3) = bytes_at (fst mo) 0 (snd mo) @ [cmd, 1, val]"
  "bytes_at (fst (opt_write_u32 cmd v mo)) 0 (snd mo + 6) = bytes_at (fst mo) 0 (snd mo) @
     [cmd, 4, ucast (drop_bit 24 v), ucast (drop_bit 16 v), ucast (drop_bit 8 v), ucast v]"
proof -
  obtain msg opt where mo: "mo = (msg, opt)" by (cases mo)
  show "snd (opt_write_n cmd data mo) = snd mo + (2 + length data)"
    "snd (opt_write_u8 cmd val mo) = snd mo + 3" "snd (opt_write_u32 cmd v mo) = snd mo + 6"
    by (simp_all add: mo opt_write_n_def opt_write_u8_def opt_write_u32_def)
  show "bytes_at (fst (opt_write_n cmd data mo)) 0 (snd mo + (2 + length data)) = bytes_at (fst mo) 0 (snd mo) @ cmd # of_nat (length data) # data"
    using bytes_at_append [of opt "cmd # of_nat (length data) # data" msg] by (simp add: mo opt_write_n_def)
  show "bytes_at (fst (opt_write_u8 cmd val mo)) 0 (snd mo + 3) = bytes_at (fst mo) 0 (snd mo) @ [cmd, 1, val]"
    using bytes_at_append [of opt "[cmd, 1, val]" msg] by (simp add: mo opt_write_u8_def eval_nat_numeral)
  show "bytes_at (fst (opt_write_u32 cmd v mo)) 0 (snd mo + 6) = bytes_at (fst mo) 0 (snd mo) @
     [cmd, 4, ucast (drop_bit 24 v), ucast (drop_bit 16 v), ucast (drop_bit 8 v), ucast v]"
    using bytes_at_append [of opt "[cmd, 4, ucast (drop_bit 24 v), ucast (drop_bit 16 v), ucast (drop_bit 8 v), ucast v]" msg]
    by (simp add: mo opt_write_u32_def eval_nat_numeral)
qed

lemma dhcp_reply_eq:
  assumes d: "dhcp_ok d" and m: "\<And>p n. 20 \<le> p + n \<Longrightarrow> p + n \<le> 240 \<Longrightarrow> p = 20 \<Longrightarrow> bytes_at msg p n = take n (drop p payload)"
    and h: "bytes_at msg 0 19 = [2] @ take 15 (drop 1 payload) @ take 3 (d_ip d)"
  shows "dhcp_reply d msgtype yi msg 240 = dhcp_packet d msgtype yi payload"
proof -
  have l: "length (d_ip d) = 4" "length (d_nm d) = 4" using d by (simp_all add: dhcp_ok_def)
  let ?m0 = "write_at 19 [of_nat (16 + yi)] msg"
  let ?w1 = "opt_write_u8 DHCP_OPT_MSG_TYPE msgtype (?m0, 240)"
  let ?w2 = "opt_write_n DHCP_OPT_SERVER_ID (d_ip d) ?w1"
  let ?w3 = "opt_write_n DHCP_OPT_SUBNET_MASK (d_nm d) ?w2"
  let ?w4 = "opt_write_n DHCP_OPT_ROUTER (d_ip d) ?w3"
  let ?w5 = "opt_write_n DHCP_OPT_DNS (d_ip d) ?w4"
  let ?w6 = "opt_write_u32 DHCP_OPT_IP_LEASE_TIME (of_nat DEFAULT_LEASE_TIME_S) ?w5"
  have s: "snd ?w1 = 243" "snd ?w2 = 249" "snd ?w3 = 255" "snd ?w4 = 261" "snd ?w5 = 267" "snd ?w6 = 273"
    using l by (simp_all add: opt_write_bytes)
  have t: "[ucast (drop_bit 24 (of_nat DEFAULT_LEASE_TIME_S :: u32)), ucast (drop_bit 16 (of_nat DEFAULT_LEASE_TIME_S :: u32)),
      ucast (drop_bit 8 (of_nat DEFAULT_LEASE_TIME_S :: u32)), ucast (of_nat DEFAULT_LEASE_TIME_S :: u32)] = [0, 1, 0x51, 0x80 :: u8]"
    by (simp add: DEFAULT_LEASE_TIME_S_def)
  have b1: "bytes_at (fst ?w1) 0 243 = bytes_at ?m0 0 240 @ [53, 1, msgtype]"
    using opt_write_bytes(5) [of DHCP_OPT_MSG_TYPE msgtype "(?m0, 240)"] by (simp add: DHCP_OPT_MSG_TYPE_def)
  have b2: "bytes_at (fst ?w2) 0 249 = bytes_at (fst ?w1) 0 243 @ [54, 4] @ d_ip d"
    using opt_write_bytes(4) [of DHCP_OPT_SERVER_ID "d_ip d" ?w1] s l by (simp add: DHCP_OPT_SERVER_ID_def)
  have b3: "bytes_at (fst ?w3) 0 255 = bytes_at (fst ?w2) 0 249 @ [1, 4] @ d_nm d"
    using opt_write_bytes(4) [of DHCP_OPT_SUBNET_MASK "d_nm d" ?w2] s l by (simp add: DHCP_OPT_SUBNET_MASK_def)
  have b4: "bytes_at (fst ?w4) 0 261 = bytes_at (fst ?w3) 0 255 @ [3, 4] @ d_ip d"
    using opt_write_bytes(4) [of DHCP_OPT_ROUTER "d_ip d" ?w3] s l by (simp add: DHCP_OPT_ROUTER_def)
  have b5: "bytes_at (fst ?w5) 0 267 = bytes_at (fst ?w4) 0 261 @ [6, 4] @ d_ip d"
    using opt_write_bytes(4) [of DHCP_OPT_DNS "d_ip d" ?w4] s l by (simp add: DHCP_OPT_DNS_def)
  have b6: "bytes_at (fst ?w6) 0 273 = bytes_at (fst ?w5) 0 267 @ [51, 4, 0, 1, 0x51, 0x80]"
    using opt_write_bytes(6) [of DHCP_OPT_IP_LEASE_TIME "of_nat DEFAULT_LEASE_TIME_S" ?w5] s(5) t by (simp add: DHCP_OPT_IP_LEASE_TIME_def)
  have b7: "bytes_at (write_at 273 [DHCP_OPT_END] (fst ?w6)) 0 274 = bytes_at (fst ?w6) 0 273 @ [255]"
    using bytes_at_append [of 273 "[DHCP_OPT_END]" "fst ?w6"] by (simp add: DHCP_OPT_END_def)
  have "bytes_at ?m0 0 240 = bytes_at ?m0 0 19 @ bytes_at ?m0 19 1 @ bytes_at ?m0 20 220"
    using bytes_at_add [of ?m0 0 19 221] bytes_at_add [of ?m0 19 1 220] by simp
  also have "\<dots> = bytes_at msg 0 19 @ [of_nat (16 + yi)] @ take 220 (drop 20 payload)"
    using m [of 20 220] by (simp add: bytes_at_outside bytes_at_write)
  finally have b0: "bytes_at ?m0 0 240 = bytes_at msg 0 19 @ [of_nat (16 + yi)] @ take 220 (drop 20 payload)" .
  have "dhcp_reply d msgtype yi msg 240 = bytes_at (write_at 273 [DHCP_OPT_END] (fst ?w6)) 0 274"
    using s(6) by (simp add: dhcp_reply_def off_yiaddr_def DHCPS_BASE_IP_def split_beta)
  then show ?thesis unfolding b7 b6 b5 b4 b3 b2 b1 b0 h dhcp_packet_def by simp
qed

subsection \<open>The two message types\<close>

lemma length_discover_loop: "discover_loop mac now i yi ls = (ls', r) \<Longrightarrow> length ls' = length ls"
  by (induction mac now i yi ls arbitrary: ls' r rule: discover_loop.induct) (auto simp: Let_def split: if_splits prod.splits)

lemma discover_loop_macs:
  "discover_loop mac now i yi ls = (ls', r) \<Longrightarrow> \<forall>l\<in>set ls. length (ls_mac l) = 6 \<Longrightarrow> \<forall>l\<in>set ls'. length (ls_mac l) = 6"
proof (induction mac now i yi ls arbitrary: ls' r rule: discover_loop.induct)
  case (2 mac now i yi l ls)
  then show ?case by (auto simp: Let_def zero_mac_def MAC_LEN_def split: if_splits prod.splits)
qed simp

lemma discover_loop_row: "discover_loop mac now i yi ls = (ls', r) \<Longrightarrow> r = yi \<or> i \<le> r \<and> r < i + length ls"
proof (induction mac now i yi ls arbitrary: ls' r rule: discover_loop.induct)
  case (2 mac now i yi l ls)
  show ?case
  proof (cases "ls_mac l = mac")
    case True
    then show ?thesis using "2.prems" by auto
  next
    case False
    then show ?thesis using "2.prems" "2.IH" by (fastforce simp: Let_def DHCPS_MAX_IP_def split: if_splits prod.splits)
  qed
qed simp

text \<open>A row in use that has not expired is kept, and given only to its client.\<close>

lemma discover_loop_keeps:
  "discover_loop mac now i yi ls = (ls', r) \<Longrightarrow> i + length ls \<le> 8 \<Longrightarrow> yi < i \<or> yi = 8 \<Longrightarrow> k < length ls \<Longrightarrow>
   ls_mac (ls ! k) \<noteq> zero_mac \<Longrightarrow> \<not> lease_expired now (ls ! k) \<Longrightarrow>
   ls' ! k = ls ! k \<and> (r = i + k \<longrightarrow> ls_mac (ls ! k) = mac)"
proof (induction mac now i yi ls arbitrary: ls' r k rule: discover_loop.induct)
  case (2 mac now i yi l ls)
  show ?case
  proof (cases "ls_mac l = mac")
    case True
    then show ?thesis using 2 by (auto simp: nth_Cons split: nat.splits)
  next
    case False
    let ?y = "if yi = 8 then (if lease_expired now l then i else if ls_mac l = zero_mac then i else yi) else yi"
    let ?l = "if yi = 8 \<and> lease_expired now l then l\<lparr>ls_mac := zero_mac\<rparr> else l"
    obtain ls1 where l1: "discover_loop mac now (Suc i) ?y ls = (ls1, r)" "ls' = ?l # ls1"
      using "2.prems"(1) False by (auto simp: Let_def DHCPS_MAX_IP_def split: if_splits prod.splits)
    have y: "?y < Suc i \<or> ?y = 8" using "2.prems"(3) by auto
    have rest: "ls1 ! j = ls ! j \<and> (r = Suc i + j \<longrightarrow> ls_mac (ls ! j) = mac)"
      if "k = Suc j" for j
      using that False l1(1) y "2.prems"(2,4,5,6) "2.IH" by (cases "yi = 8") (auto simp: Let_def DHCPS_MAX_IP_def)
    show ?thesis
    proof (cases k)
      case 0
      then have "?y = yi" "?l = l" using "2.prems"(5,6) by auto
      moreover from this have "r = yi \<or> Suc i \<le> r" using discover_loop_row [OF l1(1)] by auto
      ultimately show ?thesis using 0 l1(2) "2.prems"(2,3) by auto
    next
      case (Suc j)
      then show ?thesis using rest [OF Suc] l1(2) by simp
    qed
  qed
qed simp

text \<open>What a message does: nothing, an offer, or an acknowledgement.\<close>

definition lease_to :: "nat \<Rightarrow> u8 list \<Rightarrow> u32 \<Rightarrow> dhcp_server \<Rightarrow> dhcp_server" where
  "lease_to yi mac now d = d\<lparr>d_lease := (d_lease d)[yi := (d_lease d ! yi)\<lparr>ls_mac := mac, ls_expiry := dhcp_expiry now\<rparr>]\<rparr>"

inductive dhcp_effect :: "u32 \<Rightarrow> u8 list \<Rightarrow> dhcp_server \<Rightarrow> dhcp_server \<Rightarrow> u8 list option \<Rightarrow> bool" for now payload d where
  ignored: "dhcp_effect now payload d d None"
| offered: "discover_loop (client_of payload) now 0 8 (d_lease d) = (leases, yi) \<Longrightarrow>
    dhcp_effect now payload d (d\<lparr>d_lease := leases\<rparr>) (if yi = 8 then None else Some (dhcp_packet d DHCPOFFER yi payload))"
| acknowledged: "yi < 8 \<Longrightarrow> ls_mac (d_lease d ! yi) \<in> {client_of payload, zero_mac} \<Longrightarrow>
    dhcp_effect now payload d (lease_to yi (client_of payload) now d) (Some (dhcp_packet d DHCPACK yi payload))"

lemma lease_to_fold:
  "d\<lparr>d_lease := (d_lease d)[yi := (d_lease d ! yi)\<lparr>ls_expiry := dhcp_expiry now\<rparr>]\<rparr> = lease_to yi (ls_mac (d_lease d ! yi)) now d"
  "d\<lparr>d_lease := (d_lease d)[yi := (d_lease d ! yi)\<lparr>ls_mac := mac, ls_expiry := dhcp_expiry now\<rparr>]\<rparr> = lease_to yi mac now d"
proof -
  have "l\<lparr>ls_expiry := e\<rparr> = l\<lparr>ls_mac := ls_mac l, ls_expiry := e\<rparr>" for l :: dhcp_lease and e by (cases l) simp
  then show "d\<lparr>d_lease := (d_lease d)[yi := (d_lease d ! yi)\<lparr>ls_expiry := dhcp_expiry now\<rparr>]\<rparr> = lease_to yi (ls_mac (d_lease d ! yi)) now d"
    unfolding lease_to_def by metis
qed (simp add: lease_to_def)

lemma dhcp_request_cases:
  assumes "dhcp_request now msg opt d = (d', r)"
  shows "r = None \<and> d' = d \<or> (\<exists>yi<8. r = Some yi \<and> d' = lease_to yi (bytes_at msg 28 6) now d \<and>
    ls_mac (d_lease d ! yi) \<in> {bytes_at msg 28 6, zero_mac})"
  using assms by (auto simp: dhcp_request_def lease_to_fold dhcp_offsets dhcp_sizes Let_def split: option.splits if_splits)

text \<open>The message as the handler sees it after it wrote its first two fields.\<close>

definition request_msg :: "buffer \<Rightarrow> u8 list \<Rightarrow> dhcp_server \<Rightarrow> buffer" where
  "request_msg stack payload d = write_at 16 (d_ip d) (write_at 0 [2] (fst (pbuf_copy_partial 548 payload stack)))"

lemma request_msg_nth: "dhcp_ok d \<Longrightarrow> 20 \<le> i \<Longrightarrow> i < 548 \<Longrightarrow> i < length payload \<Longrightarrow> request_msg stack payload d i = payload ! i"
  by (simp add: request_msg_def write_at_def pbuf_copy_partial_def dhcp_ok_def)

lemma request_msg_bytes:
  assumes ok: "dhcp_ok d" and l: "243 \<le> length payload"
  shows "20 \<le> p \<Longrightarrow> p + n \<le> 243 \<Longrightarrow> bytes_at (request_msg stack payload d) p n = take n (drop p payload)"
    "bytes_at (request_msg stack payload d) 0 19 = [2] @ take 15 (drop 1 payload) @ take 3 (d_ip d)"
proof -
  let ?m0 = "fst (pbuf_copy_partial 548 payload stack)" and ?msg = "request_msg stack payload d"
  have ip: "length (d_ip d) = 4" using ok by (simp add: dhcp_ok_def)
  have c: "bytes_at ?m0 p n = take n (drop p payload)" if "p + n \<le> 243" for p n
    using bytes_at_copied [of p n 548 payload stack] that l by simp
  show "bytes_at ?msg p n = take n (drop p payload)" if "20 \<le> p" "p + n \<le> 243"
    using c [of p n] that ip by (simp add: request_msg_def bytes_at_outside)
  have "bytes_at ?msg 0 20 = bytes_at ?msg 0 16 @ d_ip d"
    using bytes_at_add [of ?msg 0 16 4] ip by (simp add: request_msg_def bytes_at_write)
  moreover have "bytes_at ?msg 0 16 = [2] @ take 15 (drop 1 payload)"
    using bytes_at_add [of ?msg 0 1 15] c [of 1 15] ip by (simp add: request_msg_def bytes_at_outside bytes_at_write)
  ultimately have "bytes_at ?msg 0 19 @ bytes_at ?msg 19 1 = ([2] @ take 15 (drop 1 payload) @ take 3 (d_ip d)) @ drop 3 (d_ip d)"
    using bytes_at_add [of ?msg 0 19 1] by simp
  then show "bytes_at ?msg 0 19 = [2] @ take 15 (drop 1 payload) @ take 3 (d_ip d)"
    using ip l by (subst (asm) append_eq_append_conv) simp_all
qed

lemma dhcp_answer_eq:
  assumes ok: "dhcp_ok d" and l: "243 \<le> length payload"
  shows "dhcp_answer stack now payload d =
    (let msg = request_msg stack payload d in
     case opt_find msg 240 DHCP_OPT_MSG_TYPE of
       None \<Rightarrow> (d, None)
     | Some mt \<Rightarrow>
         if msg (mt + 2) = DHCPDISCOVER
         then apsnd (map_option (\<lambda>yi. dhcp_packet d DHCPOFFER yi payload)) (dhcp_discover now msg d)
         else if msg (mt + 2) = DHCPREQUEST
         then apsnd (map_option (\<lambda>yi. dhcp_packet d DHCPACK yi payload)) (dhcp_request now msg 240 d)
         else (d, None))"
proof -
  have r: "dhcp_reply d t yi (request_msg stack payload d) 240 = dhcp_packet d t yi payload" for t yi
    by (rule dhcp_reply_eq [OF ok _ request_msg_bytes(2) [OF assms]]) (use request_msg_bytes(1) [OF assms] in simp)
  have "snd (pbuf_copy_partial 548 payload stack) \<ge> 243" using l by (simp add: pbuf_copy_partial_def Let_def)
  moreover obtain d1 yo d2 yr where "dhcp_discover now (request_msg stack payload d) d = (d1, yo)"
    "dhcp_request now (request_msg stack payload d) 240 d = (d2, yr)" by fastforce
  ultimately show ?thesis using l r unfolding dhcp_answer_def
    by (simp add: DHCP_MIN_SIZE_def dhcp_offsets DHCPOFFER_def request_msg_def Let_def split_beta split: option.split)
qed

lemma dhcp_answer_effect:
  assumes ok: "dhcp_ok d" and e: "dhcp_answer stack now payload d = (d', out)"
  shows "dhcp_effect now payload d d' out"
proof (cases "length payload < 243")
  case True
  then show ?thesis using e ignored by (simp add: dhcp_answer_def DHCP_MIN_SIZE_def)
next
  case False
  let ?msg = "request_msg stack payload d"
  have mac: "bytes_at ?msg 28 6 = client_of payload"
    using request_msg_bytes(1) [OF ok, of payload 28 6 stack] False by (simp add: client_of_def)
  obtain leases yi where l: "discover_loop (client_of payload) now 0 8 (d_lease d) = (leases, yi)" by fastforce
  have dd: "dhcp_discover now ?msg d = (d\<lparr>d_lease := leases\<rparr>, if yi = 8 then None else Some yi)"
    using l mac by (simp add: dhcp_discover_def dhcp_offsets MAC_LEN_def DHCPS_MAX_IP_def)
  obtain d2 yr where dr: "dhcp_request now ?msg 240 d = (d2, yr)" by fastforce
  have eq: "dhcp_answer stack now payload d = (d, None) \<or>
      dhcp_answer stack now payload d = apsnd (map_option (\<lambda>yi. dhcp_packet d DHCPOFFER yi payload)) (dhcp_discover now ?msg d) \<or>
      dhcp_answer stack now payload d = apsnd (map_option (\<lambda>yi. dhcp_packet d DHCPACK yi payload)) (dhcp_request now ?msg 240 d)"
    using dhcp_answer_eq [OF ok, of payload stack now] False by (auto simp: Let_def split: option.split)
  then show ?thesis
  proof (elim disjE)
    assume "dhcp_answer stack now payload d = (d, None)"
    then show ?thesis using ignored e by simp
  next
    assume "dhcp_answer stack now payload d = apsnd (map_option (\<lambda>yi. dhcp_packet d DHCPOFFER yi payload)) (dhcp_discover now ?msg d)"
    then show ?thesis using offered [OF l] e dd by (auto split: if_splits)
  next
    assume "dhcp_answer stack now payload d = apsnd (map_option (\<lambda>yi. dhcp_packet d DHCPACK yi payload)) (dhcp_request now ?msg 240 d)"
    then show ?thesis using dhcp_request_cases [OF dr] ignored acknowledged mac e dr by auto
  qed
qed

text \<open>A plain request for an address of the pool that is free or the client's own.\<close>

lemma request_acknowledged:
  assumes ok: "dhcp_ok d" and p: "payload = hdr @ [53, 1, 3, 50, 4] @ take 3 (d_ip d) @ [of_nat (16 + yi), 255]" "length hdr = 240"
    and yi: "yi < 8" "ls_mac (d_lease d ! yi) \<in> {client_of payload, zero_mac}"
  shows "dhcp_answer stack now payload d = (lease_to yi (client_of payload) now d, Some (dhcp_packet d DHCPACK yi payload))"
proof -
  let ?msg = "request_msg stack payload d"
  have l: "length (d_ip d) = 4" "length payload = 250" using ok p by (simp_all add: dhcp_ok_def)
  have n: "?msg (240 + k) = ([53, 1, 3, 50, 4] @ take 3 (d_ip d) @ [of_nat (16 + yi), 255]) ! k" if "k < 10" for k
    using request_msg_nth [OF ok, of "240 + k" payload stack] that l(2) p(2)
      nth_append_length_plus [of hdr "[53, 1, 3, 50, 4] @ take 3 (d_ip d) @ [of_nat (16 + yi), 255]" k] unfolding p(1) by simp
  have m: "?msg 240 = 53" "?msg 241 = 1" "?msg 242 = 3" "?msg 243 = 50" "?msg 244 = 4" "?msg 248 = of_nat (16 + yi)"
    using n [of 0] n [of 1] n [of 2] n [of 3] n [of 4] n [of 8] l(1) by (simp_all add: nth_append)
  have ip: "bytes_at ?msg 245 3 = take 3 (d_ip d)"
  proof (rule nth_equalityI)
    fix i
    assume "i < length (bytes_at ?msg 245 3)"
    then show "bytes_at ?msg 245 3 ! i = take 3 (d_ip d) ! i" using n [of "5 + i"] l(1) by (simp add: nth_append add.commute)
  qed (use l in simp)
  have f: "opt_find ?msg 240 DHCP_OPT_MSG_TYPE = Some 240" "opt_find ?msg 240 DHCP_OPT_REQUESTED_IP = Some 243"
    unfolding opt_find_def DHCP_OPT_MSG_TYPE_def DHCP_OPT_REQUESTED_IP_def
    by (subst opt_find_loop.simps, simp add: m DHCP_OPT_END_def)
      (subst opt_find_loop.simps, simp add: m DHCP_OPT_END_def, subst opt_find_loop.simps, simp add: m DHCP_OPT_END_def)
  have mac: "bytes_at ?msg 28 6 = client_of payload"
    using request_msg_bytes(1) [OF ok, of payload 28 6 stack] l by (simp add: client_of_def)
  have "unat (of_nat (16 + yi) - (16 :: u8)) = yi" using yi(1) by (simp add: unsigned_of_nat take_bit_nat_eq_self)
  then have "dhcp_request now ?msg 240 d = (lease_to yi (client_of payload) now d, Some yi)"
    using f(2) m(6) ip mac yi by (auto simp: dhcp_request_def dhcp_offsets dhcp_sizes lease_to_fold Let_def)
  then show ?thesis using dhcp_answer_eq [OF ok, of payload stack now] l f(1) m(3)
    by (simp add: Let_def DHCPDISCOVER_def DHCPREQUEST_def)
qed

lemma effect_ok: "dhcp_effect now payload d d' out \<Longrightarrow> dhcp_ok d \<Longrightarrow> 243 \<le> length payload \<Longrightarrow> dhcp_ok d'"
proof (induction rule: dhcp_effect.induct)
  case (offered leases yi)
  then show ?case using length_discover_loop [OF offered.hyps] discover_loop_macs [OF offered.hyps] by (simp add: dhcp_ok_def)
next
  case (acknowledged yi)
  have "length (client_of payload) = 6" using acknowledged.prems by (simp add: client_of_def)
  then show ?case using acknowledged by (auto simp: dhcp_ok_def lease_to_def dest!: set_update_subset_insert [THEN subsetD])
qed simp

subsection \<open>Leases last\<close>

definition lease_ms :: nat where "lease_ms = 86400000"

lemma expiry_word: "push_bit 16 (ucast (dhcp_expiry now)) OR 0xFFFF = (now + of_nat lease_ms :: u32) OR mask 16"
proof -
  have m: "(0xFFFF :: u32) = mask 16" by (simp add: mask_numeral)
  show ?thesis unfolding m dhcp_expiry_def
    by (rule bit_word_eqI) (auto simp: bit_simps DEFAULT_LEASE_TIME_S_def lease_ms_def)
qed

lemma or_mask_plus: "\<exists>r<65536. (x :: u32) OR mask 16 = x + of_nat r"
proof -
  have a: "x OR mask 16 = x + (mask 16 - (x AND mask 16))"
    using word_plus_and_or [of x "mask 16"] by (simp add: algebra_simps)
  have le: "x AND mask 16 \<le> mask 16" by (rule word_and_le1)
  have "unat (mask 16 - (x AND mask 16)) \<le> unat (mask 16 :: u32)" using le by (simp add: unat_sub word_le_nat_alt)
  then have "unat (mask 16 - (x AND mask 16)) < 65536" by (simp add: mask_numeral)
  then show ?thesis using a by (intro exI [of _ "unat (mask 16 - (x AND mask 16))"]) simp
qed

lemma lease_not_expired:
  assumes "T0 \<le> T1" "T1 \<le> T0 + lease_ms" "T0 \<le> T" "T \<le> T0 + lease_ms" "ls_expiry l = dhcp_expiry (of_nat T1)"
  shows "\<not> lease_expired (of_nat T) l"
proof -
  obtain r where r: "r < 65536" "push_bit 16 (ucast (ls_expiry l)) OR 0xFFFF = of_nat T1 + of_nat lease_ms + (of_nat r :: u32)"
    using or_mask_plus [of "of_nat T1 + of_nat lease_ms"] assms(5) expiry_word [of "of_nat T1"] by auto
  let ?n = "T1 + lease_ms - T + r"
  have n: "?n < 2 ^ 31" "T1 + lease_ms + r = T + ?n" using assms r(1) by (simp_all add: lease_ms_def)
  have "(push_bit 16 (ucast (ls_expiry l)) OR 0xFFFF) - of_nat T = (of_nat (T1 + lease_ms + r) - of_nat T :: u32)" using r(2) by simp
  also have "\<dots> = of_nat ?n" unfolding n(2) by simp
  finally have d: "(push_bit 16 (ucast (ls_expiry l)) OR 0xFFFF) - of_nat T = (of_nat ?n :: u32)" .
  have "sint (of_nat ?n :: u32) = sint (word_of_int (int ?n) :: u32)" by (simp only: of_int_of_nat_eq)
  also have "\<dots> = (int ?n + 2 ^ 31) mod 2 ^ 32 - 2 ^ 31" by (simp only: int_word_sint) simp
  also have "\<dots> = int ?n" using n(1) by (simp only: of_nat_less_iff [symmetric, where 'a = int]) simp
  finally have "sint (of_nat ?n :: u32) = int ?n" .
  then show ?thesis unfolding lease_expired_def time_due_def d by simp
qed

type_synonym dhcp_event = "nat \<times> buffer \<times> u8 list"

text \<open>Messages in the order of their arrival, each with the milliseconds since the start: the answers sent.\<close>

fun dhcp_run :: "dhcp_event list \<Rightarrow> dhcp_server \<Rightarrow> dhcp_server \<times> u8 list list" where
  "dhcp_run [] d = (d, [])"
| "dhcp_run ((T, stack, payload) # es) d =
     (case dhcp_answer stack (of_nat T) payload d of
        (d1, out) \<Rightarrow> case dhcp_run es d1 of (d2, outs) \<Rightarrow> (d2, (case out of None \<Rightarrow> outs | Some p \<Rightarrow> p # outs)))"

definition leased :: "nat \<Rightarrow> nat \<Rightarrow> u8 list \<Rightarrow> dhcp_server \<Rightarrow> bool" where
  "leased T0 y mac d = (ls_mac (d_lease d ! y) = mac \<and>
     (\<exists>T1. T0 \<le> T1 \<and> T1 \<le> T0 + lease_ms \<and> ls_expiry (d_lease d ! y) = dhcp_expiry (of_nat T1)))"

text \<open>The fields of an answer that matter: the address offered and the client it is for.\<close>

definition offered_address :: "u8 list \<Rightarrow> u8 list" where
  "offered_address p = take 4 (drop 16 p)"

definition message_type :: "u8 list \<Rightarrow> u8" where
  "message_type p = p ! 242"

lemma packet_fields:
  assumes "243 \<le> length payload" "dhcp_ok d"
  shows "offered_address (dhcp_packet d t yi payload) = take 3 (d_ip d) @ [of_nat (16 + yi)]"
    "client_of (dhcp_packet d t yi payload) = client_of payload" "message_type (dhcp_packet d t yi payload) = t"
    "length (dhcp_packet d t yi payload) = 274"
proof -
  let ?a = "[2] @ take 15 (drop 1 payload)" and ?b = "take 3 (d_ip d) @ [of_nat (16 + yi)] :: u8 list" and ?c = "take 220 (drop 20 payload)"
  have l: "length ?a = 16" "length ?b = 4" "length ?c = 220" "length (d_ip d) = 4" "length (d_nm d) = 4"
    using assms by (simp_all add: dhcp_ok_def)
  obtain rest where r: "dhcp_packet d t yi payload = ?a @ ?b @ ?c @ [53, 1, t] @ rest" "length rest = 31"
    using l by (simp add: dhcp_packet_def)
  show "offered_address (dhcp_packet d t yi payload) = ?b" unfolding r(1) offered_address_def using l(1,2) by simp
  have "drop 28 (dhcp_packet d t yi payload) = drop 8 ?c @ [53, 1, t] @ rest" unfolding r(1) using l(1,2,3) by simp
  then show "client_of (dhcp_packet d t yi payload) = client_of payload" unfolding client_of_def using assms(1) by (simp add: drop_take)
  show "message_type (dhcp_packet d t yi payload) = t" unfolding r(1) message_type_def using l(1,2,3) by (simp add: nth_append)
  show "length (dhcp_packet d t yi payload) = 274" unfolding r(1) using l r(2) by simp
qed

lemma effect_leased:
  assumes "dhcp_effect (of_nat T) payload d d' out" "dhcp_ok d" "243 \<le> length payload" "y < 8" "mac \<noteq> zero_mac"
    "leased T0 y mac d" "T0 \<le> T" "T \<le> T0 + lease_ms"
  shows "leased T0 y mac d' \<and> (case out of None \<Rightarrow> True | Some p \<Rightarrow>
    offered_address p = take 3 (d_ip d) @ [of_nat (16 + y)] \<longrightarrow> client_of p = mac)"
  using assms(1)
proof cases
  case ignored
  then show ?thesis using assms(6) by simp
next
  case (offered leases yi)
  have l: "length (d_lease d) = 8" using assms(2) by (simp add: dhcp_ok_def)
  obtain T1 where "T0 \<le> T1" "T1 \<le> T0 + lease_ms" "ls_expiry (d_lease d ! y) = dhcp_expiry (of_nat T1)"
    using assms(6) unfolding leased_def by blast
  then have "\<not> lease_expired (of_nat T) (d_lease d ! y)" using lease_not_expired assms(7,8) by blast
  then have k: "leases ! y = d_lease d ! y" "yi = y \<longrightarrow> ls_mac (d_lease d ! y) = client_of payload"
    using discover_loop_keeps [OF offered(3), of y] l assms(4,5,6) by (auto simp: leased_def)
  have yi: "yi = 8 \<or> yi < 8" using discover_loop_row [OF offered(3)] l by auto
  have "(of_nat (16 + yi) :: u8) = of_nat (16 + y) \<Longrightarrow> yi < 8 \<Longrightarrow> yi = y"
    using assms(4) by (simp add: word_of_nat_eq_iff take_bit_nat_eq_self)
  then show ?thesis using offered k yi assms(6) packet_fields [OF assms(3,2)]
    by (auto simp: leased_def)
next
  case (acknowledged yi)
  have l: "length (d_lease d) = 8" using assms(2) by (simp add: dhcp_ok_def)
  have eq: "(of_nat (16 + yi) :: u8) = of_nat (16 + y) \<Longrightarrow> yi = y"
    using assms(4) acknowledged(3) by (simp add: word_of_nat_eq_iff take_bit_nat_eq_self)
  have own: "yi = y \<Longrightarrow> client_of payload = mac" using acknowledged(4) assms(5,6) by (auto simp: leased_def)
  have "leased T0 y mac d'"
  proof (cases "yi = y")
    case True
    then show ?thesis using acknowledged(1) own l assms(4,7,8) by (auto simp: leased_def lease_to_def)
  next
    case False
    then show ?thesis using acknowledged(1) assms(6) by (simp add: leased_def lease_to_def)
  qed
  then show ?thesis using acknowledged(2) own eq packet_fields [OF assms(3,2)] by auto
qed

lemma dhcp_answer_typed:
  assumes "dhcp_ok d" "dhcp_answer stack now payload d = (d', out)"
  shows "dhcp_ok d' \<and> d_ip d' = d_ip d \<and> d_nm d' = d_nm d \<and>
    (case out of None \<Rightarrow> True | Some p \<Rightarrow> 243 \<le> length payload \<and> (\<exists>t\<in>{DHCPOFFER, DHCPACK}. \<exists>yi<8. p = dhcp_packet d t yi payload))"
proof (cases "length payload < 243")
  case True
  then show ?thesis using assms by (auto simp: dhcp_answer_def DHCP_MIN_SIZE_def)
next
  case False
  have e: "dhcp_effect now payload d d' out" by (rule dhcp_answer_effect [OF assms])
  have l: "length (d_lease d) = 8" using assms(1) by (simp add: dhcp_ok_def)
  from e have "d_ip d' = d_ip d \<and> d_nm d' = d_nm d \<and>
    (case out of None \<Rightarrow> True | Some p \<Rightarrow> (\<exists>t\<in>{DHCPOFFER, DHCPACK}. \<exists>yi<8. p = dhcp_packet d t yi payload))"
  proof cases
    case (offered leases yi)
    then show ?thesis using discover_loop_row [OF offered(3)] l by auto
  qed (auto simp: lease_to_def)
  then show ?thesis using effect_ok [OF e assms(1)] False by (auto split: option.splits)
qed

lemma run_leased:
  assumes "dhcp_run es d = (d2, outs)" "dhcp_ok d" "y < 8" "mac \<noteq> zero_mac" "leased T0 y mac d"
    "\<forall>(T, stack, payload)\<in>set es. T0 \<le> T \<and> T \<le> T0 + lease_ms"
  shows "\<forall>p\<in>set outs. offered_address p = take 3 (d_ip d) @ [of_nat (16 + y)] \<longrightarrow> client_of p = mac"
  using assms(1,2,5,6)
proof (induction es arbitrary: d outs)
  case (Cons e es)
  obtain T stack payload where e: "e = (T, stack, payload)" by (cases e)
  obtain d1 out where a: "dhcp_answer stack (of_nat T) payload d = (d1, out)" by fastforce
  obtain os where r: "dhcp_run es d1 = (d2, os)" "outs = (case out of None \<Rightarrow> os | Some p \<Rightarrow> p # os)"
    using Cons.prems(1) a e by (auto split: prod.splits)
  have T: "T0 \<le> T" "T \<le> T0 + lease_ms" using Cons.prems(4) e by auto
  have t: "dhcp_ok d1" "d_ip d1 = d_ip d" using dhcp_answer_typed [OF Cons.prems(2) a] by auto
  have "leased T0 y mac d1 \<and> (case out of None \<Rightarrow> True | Some p \<Rightarrow>
      offered_address p = take 3 (d_ip d) @ [of_nat (16 + y)] \<longrightarrow> client_of p = mac)"
  proof (cases "length payload < 243")
    case True
    then show ?thesis using a Cons.prems(3) by (auto simp: dhcp_answer_def DHCP_MIN_SIZE_def)
  next
    case False
    then show ?thesis
      using effect_leased [OF dhcp_answer_effect [OF Cons.prems(2) a] Cons.prems(2) _ assms(3,4) Cons.prems(3) T] by simp
  qed
  then show ?case using Cons.IH [OF r(1) t(1)] Cons.prems(4) t(2) r(2) by (auto split: option.splits)
qed simp

text \<open>
  C24: an address that was acknowledged to a client belongs to it for the 24 hours of the lease: whatever
  messages arrive in that time, in any order and from anybody, the address is neither offered nor
  acknowledged to another client, across renewals and the wrap of the millisecond clock.
\<close>

theorem dhcp_lease_safe:
  assumes "dhcp_ok d" and "dhcp_answer stack (of_nat T0) payload d = (d1, Some ack)"
    and "message_type ack = DHCPACK" and "client_of ack \<noteq> zero_mac"
    and "\<forall>(T, stack, payload)\<in>set es. T0 \<le> T \<and> T \<le> T0 + lease_ms" and "dhcp_run es d1 = (d2, answers)"
  shows "\<forall>p\<in>set answers. offered_address p = offered_address ack \<longrightarrow> client_of p = client_of ack"
proof -
  have p: "243 \<le> length payload" using assms(2) by (auto simp: dhcp_answer_def DHCP_MIN_SIZE_def split: if_splits)
  note f = packet_fields [OF p assms(1)]
  have t: "dhcp_ok d1" "d_ip d1 = d_ip d" using dhcp_answer_typed [OF assms(1,2)] by auto
  obtain yi where yi: "yi < 8" "d1 = lease_to yi (client_of payload) (of_nat T0) d" "ack = dhcp_packet d DHCPACK yi payload"
    using dhcp_answer_effect [OF assms(1,2)]
  proof cases
    case (offered leases yi)
    then show ?thesis using assms(3) f(3) by (auto simp: DHCPACK_def DHCPOFFER_def split: if_splits)
  qed auto
  have "leased T0 yi (client_of payload) d1"
    using yi(1,2) assms(1) by (auto simp: leased_def lease_to_def dhcp_ok_def)
  then show ?thesis
    using run_leased [OF assms(6) t(1) yi(1) _ _ assms(5)] assms(4) yi(3) f t(2) by simp
qed

definition sample_request :: "u8 \<Rightarrow> u8 list" where
  "sample_request client = replicate 28 0 @ [2, 0, 0, 0, 0, client] @ replicate 202 0 @ [99, 130, 83, 99, 53, 1, 3, 50, 4, 192, 168, 4, 16, 255]"

definition sample_server :: dhcp_server where
  "sample_server = fst (dhcp_server_init \<lparr>udp_new = \<lambda>w. (w, True), udp_bind = \<lambda>a p w. (w, 0), udp_remove = \<lambda>w. w,
     pbuf_alloc = \<lambda>n w. (w, True), udp_sendto = \<lambda>b a p w. (w, 0)\<rparr> [192, 168, 4, 1] [255, 255, 255, 0] ())"

theorem dhcp_lease_safe_witness:
  "[p \<leftarrow> snd (dhcp_run [(5000, \<lambda>i. 0, sample_request 2)]
       (fst (dhcp_answer (\<lambda>i. 0) (of_nat 1000) (sample_request 1) sample_server))).
     offered_address p = [192, 168, 4, 16] \<and> client_of p \<noteq> [2, 0, 0, 0, 0, 1]] = []"
proof -
  have ok: "dhcp_ok sample_server" and s: "d_ip sample_server = [192, 168, 4, 1]" "ls_mac (d_lease sample_server ! 0) = zero_mac"
    by (simp_all add: dhcp_ok_def sample_server_def dhcp_server_init_def socket_new_dgram_def zero_mac_def dhcp_sizes Let_def)
  have c: "client_of (sample_request 1) = [2, 0, 0, 0, 0, 1]" by (simp add: client_of_def sample_request_def)
  have l: "243 \<le> length (sample_request 1)" by (simp add: sample_request_def)
  let ?hdr = "replicate 28 0 @ [2, 0, 0, 0, 0, 1] @ replicate 202 0 @ [99, 130, 83, 99] :: u8 list"
  have "sample_request 1 = ?hdr @ [53, 1, 3, 50, 4] @ take 3 (d_ip sample_server) @ [of_nat (16 + 0), 255]"
    by (simp only: sample_request_def s append_assoc) simp
  note a = request_acknowledged [OF ok this, of "\<lambda>i. 0" "of_nat 1000"]
  note f = packet_fields [OF l ok, of DHCPACK 0]
  obtain d2 outs where r: "dhcp_run [(5000, \<lambda>i. 0, sample_request 2)]
       (fst (dhcp_answer (\<lambda>i. 0) (of_nat 1000) (sample_request 1) sample_server)) = (d2, outs)" by fastforce
  have a1: "dhcp_answer (\<lambda>i. 0) (of_nat 1000) (sample_request 1) sample_server =
      (lease_to 0 [2, 0, 0, 0, 0, 1] (of_nat 1000) sample_server, Some (dhcp_packet sample_server DHCPACK 0 (sample_request 1)))"
    using a s(2) c by simp
  then have "dhcp_run [(5000, \<lambda>i. 0, sample_request 2)] (lease_to 0 [2, 0, 0, 0, 0, 1] (of_nat 1000) sample_server) = (d2, outs)"
    using r by simp
  moreover have "[2, 0, 0, 0, 0, 1] \<noteq> zero_mac" by (simp add: zero_mac_def MAC_LEN_def numeral_eq_Suc)
  ultimately show ?thesis using dhcp_lease_safe [OF ok a1, of "[(5000, \<lambda>i. 0, sample_request 2)]" d2 outs] f c s(1)
    unfolding r snd_conv filter_empty_conv by (simp add: lease_ms_def)
qed

text \<open>A complete offer or acknowledgement that answers one of the messages.\<close>

definition answers_one :: "dhcp_server \<Rightarrow> dhcp_event list \<Rightarrow> u8 list \<Rightarrow> bool" where
  "answers_one d es p = (length p = 274 \<and>
     (\<exists>(T, stack, payload)\<in>set es. \<exists>t\<in>{DHCPOFFER, DHCPACK}. \<exists>yi<8. p = dhcp_packet d t yi payload))"

lemma answers_one_Cons: "answers_one d es p \<Longrightarrow> answers_one d (e # es) p"
  by (auto simp: answers_one_def)

lemma run_typed:
  "dhcp_run es d0 = (d, answers) \<Longrightarrow> dhcp_ok d0 \<Longrightarrow>
   dhcp_ok d \<and> d_ip d = d_ip d0 \<and> d_nm d = d_nm d0 \<and> (\<forall>p\<in>set answers. answers_one d0 es p)"
proof (induction es arbitrary: d0 answers)
  case (Cons e es)
  obtain T stack payload where e: "e = (T, stack, payload)" by (cases e)
  obtain d1 out where a: "dhcp_answer stack (of_nat T) payload d0 = (d1, out)" by fastforce
  obtain os where r: "dhcp_run es d1 = (d, os)" "answers = (case out of None \<Rightarrow> os | Some p \<Rightarrow> p # os)"
    using Cons.prems(1) a e by (auto split: prod.splits)
  note t = dhcp_answer_typed [OF Cons.prems(2) a]
  then have "dhcp_packet d1 = dhcp_packet d0" unfolding dhcp_packet_def by (intro ext) simp
  then have same: "answers_one d1 = answers_one d0" unfolding answers_one_def by simp
  have new: "out = Some p \<Longrightarrow> answers_one d0 (e # es) p" for p
    using t packet_fields(4) [OF _ Cons.prems(2)] e by (auto simp: answers_one_def)
  have old: "dhcp_ok d" "d_ip d = d_ip d1" "d_nm d = d_nm d1" "\<forall>p\<in>set os. answers_one d0 es p"
    using Cons.IH [OF r(1)] t unfolding same by blast+
  have "p \<in> set answers \<Longrightarrow> p \<in> set os \<or> out = Some p" for p using r(2) by (auto split: option.splits)
  then have "\<forall>p\<in>set answers. answers_one d0 (e # es) p" using new old(4) answers_one_Cons by blast
  then show ?case using old(1,2,3) t by simp
qed simp

text \<open>
  C25: the types of the server's state and messages: from the start, whatever arrives, there are eight
  leases with addresses of six bytes, and everything sent is a complete offer or acknowledgement of 274
  bytes for an address of the pool, made of the request, the server's addresses and constants only (so
  no byte of the stack leaves the device).
\<close>

theorem dhcp_messages_typed:
  assumes "length ip = 4" and "length nm = 4" and "dhcp_run es (fst (dhcp_server_init net ip nm w)) = (d, answers)"
  shows "dhcp_ok d \<and> d_ip d = ip \<and> (\<forall>p\<in>set answers. answers_one d es p)"
proof -
  let ?d0 = "fst (dhcp_server_init net ip nm w)"
  have "dhcp_ok ?d0" "d_ip ?d0 = ip"
    using assms(1,2) by (auto simp: dhcp_server_init_def dhcp_ok_def zero_mac_def dhcp_sizes Let_def split: prod.splits)
  note r = run_typed [OF assms(3) this(1)] this(2)
  then have "dhcp_packet d = dhcp_packet ?d0" unfolding dhcp_packet_def by (intro ext) simp
  then have "answers_one d = answers_one ?d0" unfolding answers_one_def by simp
  then show ?thesis using r by simp
qed

theorem dhcp_messages_typed_witness:
  "dhcp_ok (fst (dhcp_run [(1000, \<lambda>i. 0, sample_request 1), (5000, \<lambda>i. 0, sample_request 2)] sample_server))"
proof -
  obtain d answers where r: "dhcp_run [(1000, \<lambda>i. 0, sample_request 1), (5000, \<lambda>i. 0, sample_request 2)] sample_server = (d, answers)"
    by fastforce
  have l: "length [192, 168, 4, 1 :: u8] = 4" "length [255, 255, 255, 0 :: u8] = 4" by simp_all
  show ?thesis using dhcp_messages_typed [OF l r [unfolded sample_server_def]] r by (simp only: fst_conv)
qed

end
