(* ===== verification/Dns_Server.thy ===== *)
theory Dns_Server
  imports Udp_Socket
begin

text \<open>
  \<^verbatim>\<open>dnsserver.c\<close>: the DNS server of the access point, which answers every name with the address of the
  device.  What is printed for debugging is left out.
\<close>


unbundle bit_operations_syntax

subsection \<open>Data\<close>

definition PORT_DNS_SERVER :: nat where "PORT_DNS_SERVER = 53"
definition MAX_DNS_MSG_SIZE :: nat where "MAX_DNS_MSG_SIZE = 300"
definition sizeof_dns_header :: nat where "sizeof_dns_header = 12"

record dns_server =
  s_udp :: bool
  s_ip :: "u8 list"

text \<open>A field of two bytes in network order.\<close>

definition field16 :: "buffer \<Rightarrow> nat \<Rightarrow> u16" where
  "field16 msg p = push_bit 8 (ucast (msg p)) OR ucast (msg (p + 1))"

definition put16 :: "nat \<Rightarrow> u16 \<Rightarrow> buffer \<Rightarrow> buffer" where
  "put16 p v msg = write_at p [ucast (drop_bit 8 v), ucast v] msg"

subsection \<open>The question\<close>

text \<open>The loop over the labels from offset \<open>p\<close> on; \<open>None\<close>: an invalid label.\<close>

function question_loop :: "buffer \<Rightarrow> nat \<Rightarrow> nat \<Rightarrow> nat option" where
  "question_loop msg q_end p =
     (if p < q_end then
        (if msg p = 0 then Some (p + 1)
         else let label_len = unat (msg p) in
           if label_len > 63 then None else question_loop msg q_end (p + 1 + label_len))
      else Some p)"
  by pat_completeness auto
termination
  by (relation "measure (\<lambda>(msg, q_end, p). q_end - p)") auto

declare question_loop.simps [simp del]

subsection \<open>A message\<close>

text \<open>The answer behind the question; \<open>0xc0, 12\<close> points back to the name.\<close>

definition answer_record :: "u8 list \<Rightarrow> u8 list" where
  "answer_record ip = [0xc0, of_nat sizeof_dns_header, 0, 1, 0, 1, 0, 0, 0, 60, 0, 4] @ ip"

definition reply_header :: "buffer \<Rightarrow> buffer" where
  "reply_header msg = put16 10 0 (put16 8 0 (put16 6 1 (put16 4 1
     (put16 2 (push_bit 15 1 OR push_bit 10 1 OR push_bit 7 1) msg))))"

text \<open>
  \<^verbatim>\<open>dns_server_process\<close> up to the sending: \<open>stack\<close> is the content of the stack frame; the result is the
  datagram sent back, or \<open>None\<close> when the request is ignored.
\<close>

definition dns_answer :: "buffer \<Rightarrow> u8 list \<Rightarrow> dns_server \<Rightarrow> u8 list option" where
  "dns_answer stack payload d =
     (case pbuf_copy_partial MAX_DNS_MSG_SIZE payload stack of
        (msg, msg_len) \<Rightarrow>
          if msg_len < sizeof_dns_header then None
          else
            let flags = field16 msg 2; question_count = field16 msg 4
            in if drop_bit 15 flags AND 1 \<noteq> 0 then None
               else if drop_bit 11 flags AND 0xF \<noteq> 0 then None
               else if question_count < 1 then None
               else case question_loop msg msg_len sizeof_dns_header of
                      None \<Rightarrow> None
                    | Some question_ptr \<Rightarrow>
                        if question_ptr - sizeof_dns_header > 255 then None
                        else
                          let answer = question_ptr + 4;
                              msg1 = write_at answer (answer_record (s_ip d)) msg
                          in Some (bytes_at (reply_header msg1) 0 (answer + 12 + length (s_ip d))))"

definition dns_server_process :: "'w udp_net \<Rightarrow> buffer \<Rightarrow> u8 list \<Rightarrow> u32 \<Rightarrow> nat \<Rightarrow> dns_server \<times> 'w \<Rightarrow> dns_server \<times> 'w" where
  "dns_server_process net stack payload src_addr src_port s =
     (case s of (d, w) \<Rightarrow>
        case dns_answer stack payload d of
          None \<Rightarrow> (d, w)
        | Some reply \<Rightarrow> (d, fst (socket_sendto net reply src_addr src_port w)))"

definition dns_server_init :: "'w udp_net \<Rightarrow> u8 list \<Rightarrow> dns_server \<times> 'w \<Rightarrow> dns_server \<times> 'w" where
  "dns_server_init net ip s =
     (case s of (d, w) \<Rightarrow>
        case socket_new_dgram net w of
          (w1, udp, err) \<Rightarrow>
            if err \<noteq> 0 then (d\<lparr>s_udp := udp\<rparr>, w1)
            else case udp_bind net 0 PORT_DNS_SERVER w1 of
                   (w2, err2) \<Rightarrow> if err2 \<noteq> 0 then (d\<lparr>s_udp := udp\<rparr>, w2) else (d\<lparr>s_udp := udp, s_ip := ip\<rparr>, w2))"

definition dns_server_deinit :: "'w udp_net \<Rightarrow> dns_server \<times> 'w \<Rightarrow> dns_server \<times> 'w" where
  "dns_server_deinit net s = (case s of (d, w) \<Rightarrow> case socket_free net (s_udp d) w of (w1, udp) \<Rightarrow> (d\<lparr>s_udp := udp\<rparr>, w1))"

subsection \<open>Bounds\<close>

lemma question_loop_bound: "question_loop msg q_end p = Some r \<Longrightarrow> p \<le> q_end \<Longrightarrow> p \<le> r \<and> r \<le> q_end + 63"
proof (induction msg q_end p rule: question_loop.induct)
  case (1 msg q_end p)
  show ?case
  proof (cases "p < q_end")
    case False
    then show ?thesis using "1.prems" by (subst (asm) question_loop.simps) simp
  next
    case p: True
    show ?thesis
    proof (cases "msg p = 0")
      case True
      then show ?thesis using "1.prems" p by (subst (asm) question_loop.simps) simp
    next
      case False
      then have l: "unat (msg p) \<le> 63" "question_loop msg q_end (p + 1 + unat (msg p)) = Some r"
        using "1.prems"(1) p by (subst (asm) question_loop.simps, simp add: Let_def split: if_splits)+
      show ?thesis
      proof (cases "p + 1 + unat (msg p) \<le> q_end")
        case True
        then show ?thesis using "1.IH" [OF p False refl] l by simp
      next
        case f: False
        then have "r = p + 1 + unat (msg p)" using l(2) by (subst (asm) question_loop.simps) simp
        then show ?thesis using l(1) p f by simp
      qed
    qed
  qed
qed
subsection \<open>Replies\<close>

definition encode_name :: "u8 list list \<Rightarrow> u8 list" where
  "encode_name labels = concat (List.map (\<lambda>l. of_nat (length l) # l) labels) @ [0]"

lemma question_loop_name:
  "\<forall>l\<in>set labels. 0 < length l \<and> length l \<le> 63 \<Longrightarrow> bytes_at msg p (length (encode_name labels)) = encode_name labels \<Longrightarrow>
   p + length (encode_name labels) \<le> q_end \<Longrightarrow> question_loop msg q_end p = Some (p + length (encode_name labels))"
proof (induction labels arbitrary: p)
  case Nil
  then have "msg p = 0" by (simp add: encode_name_def bytes_at_def)
  then show ?case using Nil.prems(3) by (subst question_loop.simps) (simp add: encode_name_def)
next
  case (Cons l ls)
  let ?n = "length l" and ?rest = "encode_name ls"
  have e: "encode_name (l # ls) = (of_nat ?n # l) @ ?rest" by (simp add: encode_name_def)
  have n: "0 < ?n" "?n \<le> 63" using Cons.prems(1) by simp_all
  have "bytes_at msg p (1 + ?n) @ bytes_at msg (p + (1 + ?n)) (length ?rest) = (of_nat ?n # l) @ ?rest"
    using Cons.prems(2) bytes_at_add [of msg p "1 + ?n" "length ?rest"] unfolding e by (simp add: add.assoc)
  then have b: "bytes_at msg p (1 + ?n) = of_nat ?n # l" "bytes_at msg (p + (1 + ?n)) (length ?rest) = ?rest"
    by (simp_all only: append_eq_conv_conj length_bytes_at) simp_all
  have "msg p = of_nat ?n" using arg_cong [OF b(1), of hd] by (simp add: bytes_at_def upt_rec)
  then have m: "unat (msg p) = ?n" "msg p \<noteq> 0" using n by (auto simp: unsigned_of_nat take_bit_nat_eq_self word_of_nat_eq_0_iff dest: dvd_imp_le)
  have "question_loop msg q_end (p + (1 + ?n)) = Some (p + (1 + ?n) + length ?rest)"
    by (rule Cons.IH) (use Cons.prems(1,3) b(2) in \<open>simp_all add: e\<close>)
  then show ?case using m n Cons.prems(3) by (subst question_loop.simps) (simp add: e add.assoc Let_def)
qed

lemma pair_zero: "push_bit 8 (ucast a :: u16) OR ucast b = 0 \<longleftrightarrow> a = (0 :: u8) \<and> b = (0 :: u8)"
proof
  assume z: "push_bit 8 (ucast a :: u16) OR ucast b = 0"
  have "\<not> bit a n" "\<not> bit b n" for n
    using arg_cong [OF z, of "\<lambda>x. bit x (n + 8)"] arg_cong [OF z, of "\<lambda>x. bit x n"]
    by (auto simp: bit_simps dest: bit_imp_le_length)
  then show "a = 0 \<and> b = 0" by (auto intro: bit_word_eqI)
qed simp

lemma query_flags:
  assumes "(f1 :: u8) < 8"
  shows "drop_bit 11 (push_bit 8 (ucast f1 :: u16) OR ucast (f2 :: u8)) = 0"
proof (rule bit_word_eqI)
  fix n
  have "unat f1 < 8" using assms by (simp add: word_less_nat_alt)
  then have "unat (drop_bit 3 f1) = 0" by (simp add: unat_drop_bit_eq drop_bit_eq_div unat_div)
  then have "drop_bit 3 f1 = 0" by (simp add: unat_eq_zero)
  moreover have "bit f1 (n + 3) = bit (drop_bit 3 f1) n" by (simp add: bit_drop_bit_eq add.commute)
  ultimately have "\<not> bit f1 (3 + n)" by (simp add: add.commute)
  then show "bit (drop_bit 11 (push_bit 8 (ucast f1 :: u16) OR ucast f2)) n = bit (0 :: u16) n"
    by (auto simp: bit_simps dest: bit_imp_le_length)
qed

lemma reply_bytes:
  assumes "12 \<le> answer"
  shows "bytes_at (reply_header (write_at answer rec msg)) 0 (answer + length rec) =
    bytes_at msg 0 2 @ [0x84, 0x80, 0, 1, 0, 1, 0, 0, 0, 0] @ bytes_at msg 12 (answer - 12) @ rec"
proof -
  let ?m = "write_at answer rec msg" and ?r = "reply_header (write_at answer rec msg)"
  have f: "push_bit 15 1 OR push_bit 10 1 OR push_bit 7 (1 :: u16) = 0x8480" by simp
  have h: "bytes_at ?r 2 10 = [0x84, 0x80, 0, 1, 0, 1, 0, 0, 0, 0]"
    by (simp add: bytes_at_def upt_rec reply_header_def put16_def write_at_def f)
  have o: "p + n \<le> 2 \<or> 12 \<le> p \<Longrightarrow> bytes_at ?r p n = bytes_at ?m p n" for p n
    by (auto simp: reply_header_def put16_def bytes_at_outside)
  have "bytes_at ?r 0 (2 + (10 + ((answer - 12) + length rec))) =
      bytes_at ?r 0 2 @ bytes_at ?r 2 10 @ bytes_at ?r 12 (answer - 12) @ bytes_at ?r (12 + (answer - 12)) (length rec)"
    by (simp only: bytes_at_add add.assoc add_0 one_add_one) (simp flip: add.assoc)
  also have "\<dots> = bytes_at msg 0 2 @ [0x84, 0x80, 0, 1, 0, 1, 0, 0, 0, 0] @ bytes_at msg 12 (answer - 12) @ rec"
    using assms by (simp add: h o bytes_at_outside bytes_at_write)
  finally have "bytes_at ?r 0 (2 + (10 + ((answer - 12) + length rec))) =
      bytes_at msg 0 2 @ [0x84, 0x80, 0, 1, 0, 1, 0, 0, 0, 0] @ bytes_at msg 12 (answer - 12) @ rec" .
  moreover have "2 + (10 + ((answer - 12) + length rec)) = answer + length rec" using assms by linarith
  ultimately show ?thesis by (simp only:)
qed

text \<open>The answer when the header is that of a standard query.\<close>

lemma dns_answer_eq:
  assumes "payload = [i1, i2, f1, f2, q1, q2] @ rest" "6 \<le> length rest" "f1 < 8" "(q1, q2) \<noteq> (0, 0)" "length (s_ip d) = 4"
    and "msg = fst (pbuf_copy_partial 300 payload stack)"
  shows "dns_answer stack payload d =
    (case question_loop msg (min 300 (length payload)) 12 of None \<Rightarrow> None
     | Some q \<Rightarrow> if q - 12 > 255 then None
         else Some ([i1, i2, 0x84, 0x80, 0, 1, 0, 1, 0, 0, 0, 0] @ bytes_at msg 12 (q + 4 - 12) @ answer_record (s_ip d)))"
proof -
  have m: "msg k = payload ! k" if "k < 6" for k
    using that assms(1,2,6) by (simp add: pbuf_copy_partial_def Let_def)
  have k: "msg 0 = i1" "msg 1 = i2" "msg 2 = f1" "msg 3 = f2" "msg 4 = q1" "msg 5 = q2"
    using m [of 0] m [of 1] m [of 2] m [of 3] m [of 4] m [of 5] assms(1) by (simp_all add: numeral_eq_Suc)
  have b: "bytes_at msg 0 2 = [i1, i2]" using k(1,2) by (simp add: bytes_at_def upt_rec)
  have fl: "drop_bit 11 (field16 msg 2) = 0" using query_flags [OF assms(3)] k by (simp add: field16_def)
  then have "drop_bit 4 (drop_bit 11 (field16 msg 2)) = 0" by simp
  then have fl2: "drop_bit 15 (field16 msg 2) = 0" by (simp add: drop_bit_drop_bit)
  have qc: "\<not> field16 msg 4 < 1" using pair_zero [of q1 q2] k assms(4) by (simp add: field16_def)
  have c: "pbuf_copy_partial 300 payload stack = (msg, min 300 (length payload))" "12 \<le> min 300 (length payload)"
    using assms by (simp_all add: pbuf_copy_partial_def Let_def)
  have q: "question_loop msg (min 300 (length payload)) 12 = Some q \<Longrightarrow> 12 \<le> q" for q
    using question_loop_bound c(2) by blast
  have rec: "length (answer_record (s_ip d)) = 16" using assms(5) by (simp add: answer_record_def)
  have rb: "bytes_at (reply_header (write_at (q + 4) (answer_record (s_ip d)) msg)) 0 (q + 4 + 12 + length (s_ip d)) =
      [i1, i2, 0x84, 0x80, 0, 1, 0, 1, 0, 0, 0, 0] @ bytes_at msg 12 (q + 4 - 12) @ answer_record (s_ip d)" if "12 \<le> q" for q
    using reply_bytes [of "q + 4" "answer_record (s_ip d)" msg] that assms(5) unfolding rec by (simp add: b add.assoc)
  have e: "dns_answer stack payload d = (case question_loop msg (min 300 (length payload)) 12 of
      None \<Rightarrow> None | Some q \<Rightarrow> if q - 12 > 255 then None
        else Some (bytes_at (reply_header (write_at (q + 4) (answer_record (s_ip d)) msg)) 0 (q + 4 + 12 + length (s_ip d))))"
    using c fl fl2 qc unfolding dns_answer_def MAX_DNS_MSG_SIZE_def sizeof_dns_header_def Let_def
    by (simp only: prod.case if_False not_less [symmetric] and_zero_eq zero_and_eq) (simp split: option.split)
  show ?thesis unfolding e using q rb by (simp split: option.split)
qed

text \<open>
  C26: a standard query for any well-formed name is answered with that name and question, one answer
  record of type A, class IN, 60 seconds and the address of the device, and the flags of an authoritative
  response; 287 bytes at most, within the 300 of the buffer.
\<close>

theorem dns_query_answered:
  assumes "\<forall>l\<in>set labels. 0 < length l \<and> length l \<le> 63" and "length (encode_name labels) \<le> 255"
    and "length qtype_qclass = 4" and "length rest = 6" and "f1 < 8" and "(q1, q2) \<noteq> (0, 0)" and "length (s_ip d) = 4"
  shows "dns_answer stack ([i1, i2, f1, f2, q1, q2] @ rest @ encode_name labels @ qtype_qclass @ extra) d =
    Some ([i1, i2, 0x84, 0x80, 0, 1, 0, 1, 0, 0, 0, 0] @ encode_name labels @ qtype_qclass @ answer_record (s_ip d))"
proof -
  let ?n = "encode_name labels"
  obtain rest2 P msg where P: "rest2 = rest @ ?n @ qtype_qclass @ extra" "P = [i1, i2, f1, f2, q1, q2] @ rest2"
    "msg = fst (pbuf_copy_partial 300 P stack)" by blast
  have l: "6 \<le> length rest2" "12 + length ?n + 4 \<le> length P" using assms(3,4) P by simp_all
  have "drop 12 P = ?n @ qtype_qclass @ extra" using assms(4) P by simp
  then have "bytes_at msg 12 k = take k (?n @ qtype_qclass @ extra)" if "k \<le> length ?n + 4" for k
    using bytes_at_copied [of 12 k 300 P stack] that assms(2) l(2) P(3) by simp
  from this [of "length ?n"] this [of "length ?n + 4"]
  have b: "bytes_at msg 12 (length ?n) = ?n" "bytes_at msg 12 (length ?n + 4) = ?n @ qtype_qclass" using assms(3) by simp_all
  have q: "question_loop msg (min 300 (length P)) 12 = Some (12 + length ?n)"
    by (rule question_loop_name [OF assms(1) b(1)]) (use assms(2) l(2) in simp)
  have "dns_answer stack P d =
      Some ([i1, i2, 0x84, 0x80, 0, 1, 0, 1, 0, 0, 0, 0] @ ?n @ qtype_qclass @ answer_record (s_ip d))"
    using dns_answer_eq [OF P(2) l(1) assms(5,6,7) P(3)] b(2) assms(2) unfolding q by (simp add: add.commute)
  then show ?thesis unfolding P(1,2) .
qed

theorem dns_query_answered_witness:
  "dns_answer (\<lambda>i. 0) ([1, 2, 1, 0, 0, 1] @ [0, 0, 0, 0, 0, 0] @ encode_name [[112, 105], [104]] @ [0, 1, 0, 1] @ []) \<lparr>s_udp = True, s_ip = [192, 168, 4, 1]\<rparr> =
    Some ([1, 2, 0x84, 0x80, 0, 1, 0, 1, 0, 0, 0, 0] @ encode_name [[112, 105], [104]] @ [0, 1, 0, 1] @ answer_record [192, 168, 4, 1])"
proof -
  have l: "\<forall>l\<in>set [[112, 105], [104 :: u8]]. 0 < length l \<and> length l \<le> 63" "length (encode_name [[112, 105], [104]]) \<le> 255"
    by (simp_all add: encode_name_def)
  show ?thesis using dns_query_answered [OF l, of "[0, 1, 0, 1]" "[0, 0, 0, 0, 0, 0]" 1 0 1 "\<lparr>s_udp = True, s_ip = [192, 168, 4, 1]\<rparr>" "\<lambda>i. 0" 1 2 0 "[]"]
    by (simp add: word_less_nat_alt)
qed

text \<open>
  C35: a query whose label runs past its end is answered with what happens to be on the stack: the 13
  bytes below make the server send 67 bytes of its stack frame to whoever asked.
\<close>

theorem dns_reply_leaks_stack:
  assumes "length (s_ip d) = 4"
  shows "\<exists>reply. dns_answer stack [0, 0, 0, 0, 0, 1, 0, 0, 0, 0, 0, 0, 63] d = Some reply \<and>
    take 67 (drop 13 reply) = bytes_at stack 13 67"
proof -
  obtain P msg where P: "P = [0, 0, 0, 0, 0, 1] @ [0, 0, 0, 0, 0, 0, 63 :: u8]" "msg = fst (pbuf_copy_partial 300 P stack)" by blast
  have lp: "length P = 13" "P ! 12 = 63" by (simp_all add: P numeral_eq_Suc)
  have m: "msg 12 = 63" "\<And>i. 13 \<le> i \<Longrightarrow> msg i = stack i" using lp by (simp_all add: P(2) pbuf_copy_partial_def Let_def)
  have q: "question_loop msg (min 300 (length P)) 12 = Some 76"
    unfolding lp by (subst question_loop.simps, simp add: m(1) Let_def) (subst question_loop.simps, simp)
  have s: "bytes_at msg 12 68 = 63 # bytes_at stack 13 67"
    using bytes_at_add [of msg 12 1 67] m by (simp add: bytes_at_def upt_rec)
  have l: "6 \<le> length [0, 0, 0, 0, 0, 0, 63 :: u8]" "(0 :: u8) < 8" "(0, 1) \<noteq> (0 :: u8, 0 :: u8)" by (simp_all add: word_less_nat_alt)
  have "dns_answer stack P d =
      Some ([0, 0, 0x84, 0x80, 0, 1, 0, 1, 0, 0, 0, 0] @ (63 # bytes_at stack 13 67) @ answer_record (s_ip d))"
    using dns_answer_eq [OF P(1) l assms P(2)] s unfolding q by simp
  then show ?thesis unfolding P(1) by simp
qed

theorem dns_reply_leaks_stack_witness:
  "\<exists>reply. dns_answer (\<lambda>i. of_nat i) [0, 0, 0, 0, 0, 1, 0, 0, 0, 0, 0, 0, 63] \<lparr>s_udp = True, s_ip = [192, 168, 4, 1]\<rparr> = Some reply \<and>
    take 67 (drop 13 reply) = bytes_at (\<lambda>i. of_nat i) 13 67"
  by (rule dns_reply_leaks_stack) simp

end
