(* ===== verification/Spec2Isabelle.thy ===== *)
theory Spec2Isabelle
  imports Main_Loop Log_Files Tlv_Store Usb_Strings App_Text Block_Devices Bootloader Measurement_Store Web_Settings Dhcp_Server Dns_Server
begin

text \<open>
  PicoBLEBridge: the firmware of a Raspberry Pi Pico W that collects the readings of BTHome sensors (over
  Bluetooth) and of DS18B20 sensors (over 1-Wire), averages them, and passes them on to web pages, to narodmon.ru
  and to an MQTT broker.  The sources are the files directly under \<^verbatim>\<open>src/\<close> and its directories
  \<^verbatim>\<open>dhcpserver/\<close> and \<^verbatim>\<open>dnsserver/\<close>.

  \<^bold>\<open>How the parts interact.\<close>  The bootloader runs first; it installs a staged image or jumps to the
  program.  \<^verbatim>\<open>main\<close> (\<^verbatim>\<open>BLEBridge.c\<close>) either hands the storage volume to a USB host for good, or loads the
  configuration, joins or opens a network, starts the servers and enters a loop that polls every component.  All
  sources write to the measurement store; the narodmon and MQTT clients and the pages read its view.  The web
  server changes the configuration, saves it and hands it to the store, the BLE scanner, the 1-Wire source and the
  MQTT client, and it receives new firmware into the copy region of the flash, where the bootloader finds it.
  The volume (configuration and log) lies on the storage partition of the same flash.

  \<^bold>\<open>Theories and sources.\<close>  \<open>Base\<close>, \<open>C_Text\<close>, \<open>C_Float\<close> and \<open>Crc\<close> hold what the components share: words and
  32-bit arithmetic with its wrap-around, scans of arrays, the functions of the C library on texts, \<^verbatim>\<open>float\<close>,
  checksums.
    \<^item> Flash and update: \<open>Flash_Device\<close> (the driver of the SDK), \<open>Firmware_Update\<close>, \<open>Ota_Staging\<close>, \<open>Firmware_Upload\<close>
      (\<^verbatim>\<open>app_firmware_update.c\<close>), \<open>Bootloader\<close> (\<^verbatim>\<open>bootloader_stub.c\<close>), \<open>Web_Update\<close> (the upload in \<^verbatim>\<open>app_web.c\<close> and
      the script of \<^verbatim>\<open>html/settings.html\<close>).
    \<^item> Storage: \<open>Storage_Backend\<close> (\<^verbatim>\<open>storage_backend.c\<close>), \<open>Block_Devices\<close> (\<^verbatim>\<open>fatfs_diskio.c\<close>,
      \<^verbatim>\<open>usb_msc_storage.c\<close>), \<open>Usb_Strings\<close> (\<^verbatim>\<open>usb_descriptors.c\<close>), \<open>Status_Led\<close> (\<^verbatim>\<open>status_led.c\<close>), \<open>Log_Files\<close>
      (\<^verbatim>\<open>app_storage.c\<close>, \<^verbatim>\<open>app_log.c\<close>, \<^verbatim>\<open>app_web_logs.c\<close>), \<open>Tlv_Store\<close> (\<^verbatim>\<open>app_btstack_cyw43.c\<close>).
    \<^item> Configuration: \<open>App_Config\<close> (\<^verbatim>\<open>app_config.c\<close>, \<^verbatim>\<open>app_config.h\<close>, \<^verbatim>\<open>app_runtime_config.c\<close>), \<open>Mini_Ini\<close> and
      \<open>Ini_Files\<close> (\<^verbatim>\<open>minIni.c\<close>), \<open>Config_File\<close> and \<open>Config_Roundtrip\<close> (saving and loading in \<^verbatim>\<open>app_config.c\<close>),
      \<open>App_Text\<close> (\<^verbatim>\<open>app_text.c\<close>), \<open>Web_Settings\<close> (the rest of \<^verbatim>\<open>app_web.c\<close>).
    \<^item> Sensors: \<open>Measurement_Store\<close> (\<^verbatim>\<open>measurement_store.c\<close>), \<open>Ble_Scanner\<close>, \<open>Bthome\<close> and \<open>Ble_Devices\<close>
      (\<^verbatim>\<open>ble_scanner.c\<close>), \<open>Onewire_Bus\<close> and \<open>Onewire_Search\<close> (\<^verbatim>\<open>onewire_bus.c\<close>), \<open>Onewire_Worker\<close> and \<open>Onewire_Queue\<close>
      (\<^verbatim>\<open>onewire_worker.c\<close>), \<open>Onewire_Source\<close> (\<^verbatim>\<open>onewire_source.c\<close>), \<open>Onewire_System\<close> (all three on two cores).
    \<^item> Network: \<open>Network_Start\<close> and \<open>Main_Loop\<close> (\<^verbatim>\<open>BLEBridge.c\<close>), \<open>Udp_Socket\<close>, \<open>Dhcp_Server\<close>
      (\<^verbatim>\<open>dhcpserver.c\<close>), \<open>Dns_Server\<close> (\<^verbatim>\<open>dnsserver.c\<close>), \<open>Mqtt_Client\<close> and \<open>Mqtt_Session\<close> (\<^verbatim>\<open>app_mqtt.c\<close>), \<open>Narodmon\<close>
      (\<^verbatim>\<open>app_narodmon.c\<close>).

  \<^bold>\<open>How the code is modelled.\<close>  The static variables of a file are a record, its functions are functions on that
  record under their C names; the body of a long loop or a branch that several paths share has a name of its own.
  A \<^verbatim>\<open>false\<close>, an error code or an early return is a value of the result.  Offsets, sizes and clocks wrap at 32 bits
  where the C does (\<open>add32\<close>, \<open>sub32\<close>, \<open>mul32\<close>, words); a C string is the list of its characters before the zero
  byte, cut by \<open>bounded_copy\<close> as \<^verbatim>\<open>snprintf\<close> cuts it; a \<^verbatim>\<open>float\<close> is a rational rounded to 24 bits.  The SDK, lwIP,
  FatFs, TinyUSB, BTstack and the Wi-Fi driver are not in the repository: their functions are fields of records of
  parameters (\<open>flash\<close>, \<open>tcp_net\<close>, \<open>udp_net\<close>, \<open>mqtt_net\<close>, \<open>wire\<close>, \<open>volume\<close>, \<open>log_files\<close>, \<open>readers\<close>, \<open>board\<close>), their
  callbacks are steps of their own, and what a theorem needs of them is a named hypothesis (\<open>flash_laws\<close>,
  \<open>tcp_laws\<close>, \<open>search_laws\<close>, \<open>log_volume\<close>, \<open>log_readers\<close>, \<open>steady_clock\<close>) that a concrete instance satisfies.  The main
  loop is the sequence of its calls: the components it calls are modelled in their own theories, and the board
  says how much time passes in a call and what it answers.

  \<^bold>\<open>What the lemmas show.\<close>
    \<^item> Update: staging changes only the copy region and the metadata; an upload succeeds exactly when it is
      complete, and then the flash holds it; whatever HTTP requests arrive and however they interleave changes
      nothing else; the bootloader installs a valid image, survives a loss of power at any point, and refuses a
      corrupted one; below, all of it from the upload to the new program.
    \<^item> Storage: the partition refines an array of bytes (locale \<open>byte_store\<close>); the log keeps the end of what was
      written in bounded space and is served in order; the key store refines a bounded map.
    \<^item> Configuration: every edit keeps a well-formed record (locale \<open>keyed_store\<close> for the names of the sensors and for the key store); what is saved is
      loaded again; all components use the configuration that is in force.
    \<^item> Sensors: the advertisement parser agrees with a reference without cursors and stays in its input; encoded
      readings come back; the device table has one row per device; the ROM search finds every sensor once; the rings
      between the cores are queues under every interleaving (locale \<open>fifo\<close>); a poll of the buses ends; the store
      ages, limits and averages as its revision says.
    \<^item> Network: leases are exclusive, packets complete, names answered; a transfer delivers the payload or reports an
      error; an MQTT session publishes each value once and leaves every wait; reports are spaced, the volume has one
      user, no turn of the program hangs.
    \<^item> Behaviour that is not intended is stated as a theorem where it can be: files lost by a long
      network block, lines injected through a form, bytes of the stack in a DNS answer, an LED that never blinks.

  \<^bold>\<open>Loops and bounds.\<close>  Loops over arrays and texts are structural or have a measure.  A loop that may not
  end has the value \<open>None\<close> then: reading a file (\<open>Mini_Ini\<close>) and the waiting loops of \<^verbatim>\<open>BLEBridge.c\<close> (\<open>loop\<close> in
  \<open>Network_Start\<close>) are partial functions into \<open>option\<close>; the loops of the flash code whose 32-bit cursor would wrap and
  start over return \<open>None\<close> there.  Theorems prove that they return: the cursors stay below the wrap, and in the
  waiting loops every turn takes time while the deadline stands.  The endless loops are run for any number of turns
  (\<open>main_run\<close>, \<open>app_log_run\<close>, \<open>cgi_run\<close>, \<open>http_run\<close>), or as the reachable states of a step relation.  A poll
  of the 1-Wire buses is run for 36 rounds, enough for two buses with a start, sixteen devices and an end each.

  \<^bold>\<open>Not modelled.\<close>  The constant tables of USB descriptors and the option headers of the libraries
  (\<^verbatim>\<open>btstack_config.h\<close>, \<^verbatim>\<open>ffconf.h\<close>, \<^verbatim>\<open>lwipopts.h\<close>, \<^verbatim>\<open>tusb_config.h\<close>), which have no behaviour of their own; the
  calls of BTstack that start and stop it; the linker scripts, of which the addresses appear as constants; debug
  prints; overflow, infinities and NaN of \<^verbatim>\<open>float\<close>; the timing inside a 1-Wire slot; stack use.
\<close>



end
